(* ===== verification/Prelude.thy ===== *)
theory Prelude
  imports Main "HOL-Library.Word"
begin

text \<open>
  Shared vocabulary of the development: the machine integers of the C code, the result
  codes its functions return, the outcome of code that can panic or fail an assertion, and
  the generic lemmas and interfaces the component theories use.
\<close>

subsection \<open>Collections of facts\<close>

named_theorems frame \<open>what an operation leaves alone\<close>
named_theorems inv_rules \<open>operations that keep an invariant\<close>

subsection \<open>Machine integers\<close>

type_synonym u8 = "8 word"
type_synonym u16 = "16 word"
type_synonym u32 = "32 word"
type_synonym u64 = "64 word"
type_synonym endpoint = int

text \<open>\<open>(unsigned) -1\<close>, the largest 32-bit value.\<close>

abbreviation UINT_MAX :: u32 where
  "UINT_MAX \<equiv> - 1"

text \<open>Division and remainder of C on signed integers truncate towards zero.\<close>

definition c_div :: "int \<Rightarrow> int \<Rightarrow> int" where
  "c_div a b = sgn a * sgn b * (\<bar>a\<bar> div \<bar>b\<bar>)"

definition c_mod :: "int \<Rightarrow> int \<Rightarrow> int" where
  "c_mod a b = a - b * c_div a b"

subsection \<open>Result codes\<close>

text \<open>
  The servers return an \<open>int\<close>: a negative error number, the pseudo code \<open>SUSPEND\<close>
  (negative too: no reply is sent), or a value that is not negative, \<open>OK\<close> being 0.
\<close>

datatype errno =
    EPERM | ENOENT | ESRCH | EIO | ENXIO | EBADF | ECHILD | EAGAIN | EACCES | EBUSY
  | EEXIST | EXDEV | ENOTDIR | EISDIR | EINVAL | EFBIG | ENOSPC | ESPIPE | EROFS | EPIPE
  | ENAMETOOLONG | EOVERFLOW | EBADEPT | EDEADEPT | EDEADSRCDST | EBADCPU | EBADREQUEST
  | ECALLDENIED | EMFILE | ENFILE | EDONTREPLY | VMSUSPEND | EOTHER nat

datatype ret = Ret nat | Err errno | SUSPEND

abbreviation OK :: ret where
  "OK \<equiv> Ret 0"

text \<open>The comparisons \<open>r >= 0\<close> and \<open>r > 0\<close> of the source.\<close>

fun ret_nonneg :: "ret \<Rightarrow> bool" where
  "ret_nonneg (Ret _) = True"
| "ret_nonneg _ = False"

fun ret_pos :: "ret \<Rightarrow> bool" where
  "ret_pos (Ret n) = (0 < n)"
| "ret_pos _ = False"

text \<open>
  Code that can stop without returning: a panic, a failed assertion, an exit of the whole
  program or an access outside an object is \<open>Aborted\<close> with a name for the place.
\<close>

datatype 'a outcome = Returned 'a | Aborted string

fun bind_outcome :: "'a outcome \<Rightarrow> ('a \<Rightarrow> 'b outcome) \<Rightarrow> 'b outcome" where
  "bind_outcome (Returned x) f = f x"
| "bind_outcome (Aborted w) f = Aborted w"

fun returns :: "'a outcome \<Rightarrow> bool" where
  "returns (Returned _) = True"
| "returns (Aborted _) = False"

lemma bind_outcome_Returned [simp]:
  "bind_outcome m f = Returned y \<longleftrightarrow> (\<exists>x. m = Returned x \<and> f x = Returned y)"
  by (cases m) auto

lemma bind_outcome_Aborted:
  "bind_outcome m f = Aborted w \<longleftrightarrow>
     m = Aborted w \<or> (\<exists>x. m = Returned x \<and> f x = Aborted w)"
  by (cases m) auto

lemma returns_iff: "returns m \<longleftrightarrow> (\<exists>x. m = Returned x)"
  by (cases m) auto

subsection \<open>Loops as folds\<close>

lemma fold_invariant:
  assumes "P s" and "\<And>x s. x \<in> set xs \<Longrightarrow> P s \<Longrightarrow> P (f x s)"
  shows "P (fold f xs s)"
  using assms by (induction xs arbitrary: s) auto

lemma fold_frame:
  assumes "\<And>x s. x \<in> set xs \<Longrightarrow> g (f x s) = g s"
  shows "g (fold f xs s) = g s"
  using assms by (induction xs arbitrary: s) auto

text \<open>
  A server is a step function on its state, run over the list of requests it receives. What
  every step keeps, every run keeps.
\<close>

locale server =
  fixes step :: "'s \<Rightarrow> 'm \<Rightarrow> 's" and inv :: "'s \<Rightarrow> bool"
  assumes step_inv: "inv s \<Longrightarrow> inv (step s m)"
begin

lemma run_inv: "inv s \<Longrightarrow> inv (foldl step s ms)"
  by (induction ms arbitrary: s) (auto intro: step_inv)

end

end
