(* ===== verification/Sched.thy ===== *)
theory Sched
  imports Prelude
begin

unbundle bit_operations_syntax

text \<open>
  The user-level scheduling server SCHED: \<open>Assignment 05/schedule.c\<close> (the
  pseudo-FIFO policy) and the functions of \<open>Assignment 03/schedule.c\<close> that differ from
  it (the multilevel feedback policy Minix ships). The server keeps a table of
  \<open>schedproc\<close> slots and a load count per processor, and tells the kernel about each
  decision through \<open>sys_schedule\<close>.

  The constants of the Minix headers are the record \<open>sched_config\<close>; the functions of
  other files the server calls (\<open>sched_isokendpt\<close>, \<open>sched_isemtyendpt\<close>,
  \<open>accept_message\<close>, \<open>sys_schedctl\<close>, \<open>sys_schedule\<close>, \<open>sys_hz\<close>) are the
  record \<open>sched_env\<close>, over an abstract kernel state \<open>'k\<close>. Both are arguments of the
  definitions. Priorities are unsigned 32-bit words, as \<open>do_nice\<close> declares them.
\<close>

subsection \<open>State\<close>

record sched_config =
  NR_PROCS :: nat
  NR_SCHED_QUEUES :: u32
  MIN_USER_Q :: u32
  USER_Q :: u32
  RS_PROC_NR :: endpoint
  SCHED_PROC_NR :: endpoint
  CONFIG_SMP :: bool
  processors_count :: nat
  bsp_id :: nat

record schedproc =
  sp_endpoint :: endpoint
  sp_parent :: endpoint
  sp_in_use :: bool
  sp_max_priority :: u32
  sp_priority :: u32
  sp_time_slice :: u32
  sp_cpu :: nat

record 'k sched_state =
  procs :: "nat \<Rightarrow> schedproc"
  cpu_proc :: "nat \<Rightarrow> u32"
  balance_timeout :: u32
  sched_timer :: "u32 option"
  kernel :: 'k

datatype sched_mtype = SCHEDULING_START | SCHEDULING_INHERIT | OTHER_MTYPE

record sched_message =
  m_source :: endpoint
  m_type :: sched_mtype
  m_endpoint :: endpoint
  m_parent :: endpoint
  m_maxprio :: u32
  m_quantum :: u32
  m_scheduler :: endpoint

record 'k sched_env =
  sched_isokendpt :: "(nat \<Rightarrow> schedproc) \<Rightarrow> endpoint \<Rightarrow> errno + nat"
  sched_isemtyendpt :: "(nat \<Rightarrow> schedproc) \<Rightarrow> endpoint \<Rightarrow> errno + nat"
  accept_message :: "sched_message \<Rightarrow> bool"
  sys_schedctl :: "endpoint \<Rightarrow> 'k \<Rightarrow> ret \<times> 'k"
  sys_schedule :: "endpoint \<Rightarrow> int \<Rightarrow> int \<Rightarrow> int \<Rightarrow> 'k \<Rightarrow> ret \<times> 'k"
  sys_hz :: u32

definition BALANCE_TIMEOUT :: u32 where "BALANCE_TIMEOUT = 5"
definition SCHEDULE_CHANGE_PRIO :: u32 where "SCHEDULE_CHANGE_PRIO = 0x1"
definition SCHEDULE_CHANGE_QUANTUM :: u32 where "SCHEDULE_CHANGE_QUANTUM = 0x2"
definition SCHEDULE_CHANGE_CPU :: u32 where "SCHEDULE_CHANGE_CPU = 0x4"
definition SCHEDULE_CHANGE_ALL :: u32 where
  "SCHEDULE_CHANGE_ALL = SCHEDULE_CHANGE_PRIO OR SCHEDULE_CHANGE_QUANTUM OR SCHEDULE_CHANGE_CPU"
definition CPU_DEAD :: u32 where "CPU_DEAD = - 1"
definition DEFAULT_USER_TIME_SLICE :: u32 where "DEFAULT_USER_TIME_SLICE = 200"

text \<open>\<open>cpu_proc[c] >= 0\<close>, a comparison of unsigned values.\<close>

definition cpu_is_available :: "(nat \<Rightarrow> u32) \<Rightarrow> nat \<Rightarrow> bool" where
  "cpu_is_available cp c \<longleftrightarrow> 0 \<le> cp c"

definition is_system_proc :: "sched_config \<Rightarrow> schedproc \<Rightarrow> bool" where
  "is_system_proc C p \<longleftrightarrow> sp_parent p = RS_PROC_NR C"

abbreviation upd_slot :: "nat \<Rightarrow> (schedproc \<Rightarrow> schedproc) \<Rightarrow> 'k sched_state \<Rightarrow> 'k sched_state" where
  "upd_slot n f s \<equiv> s\<lparr>procs := (procs s)(n := f (procs s n))\<rparr>"

subsection \<open>Operations\<close>

text \<open>One round of the scan for the least loaded processor.\<close>

definition pick_cpu_round :: "sched_config \<Rightarrow> (nat \<Rightarrow> u32) \<Rightarrow> nat \<Rightarrow> u32 \<times> nat \<Rightarrow> u32 \<times> nat" where
  "pick_cpu_round C cp c = (\<lambda>(cpu_load, cpu).
     if \<not> cpu_is_available cp c then (cpu_load, cpu)
     else if c \<noteq> bsp_id C \<and> cpu_load > cp c then (cp c, c)
     else (cpu_load, cpu))"

definition pick_cpu :: "sched_config \<Rightarrow> nat \<Rightarrow> 'k sched_state \<Rightarrow> 'k sched_state" where
  "pick_cpu C n s =
     (if CONFIG_SMP C then
        if processors_count C = 1 then upd_slot n (sp_cpu_update (\<lambda>_. bsp_id C)) s
        else if is_system_proc C (procs s n) then upd_slot n (sp_cpu_update (\<lambda>_. bsp_id C)) s
        else
          let cpu = snd (fold (pick_cpu_round C (cpu_proc s)) [0..<processors_count C]
                           (UINT_MAX, bsp_id C));
              s1 = upd_slot n (sp_cpu_update (\<lambda>_. cpu)) s
          in s1\<lparr>cpu_proc := (cpu_proc s1)(cpu := cpu_proc s1 cpu + 1)\<rparr>
      else upd_slot n (sp_cpu_update (\<lambda>_. 0)) s)"

definition schedule_process ::
  "sched_config \<Rightarrow> 'k sched_env \<Rightarrow> nat \<Rightarrow> u32 \<Rightarrow> 'k sched_state \<Rightarrow> ret \<times> 'k sched_state" where
  "schedule_process C E n flags s =
     (let s1 = pick_cpu C n s;
          rmp = procs s1 n;
          new_prio = (if flags AND SCHEDULE_CHANGE_PRIO \<noteq> 0 then sint (sp_priority rmp) else - 1);
          new_quantum = (if flags AND SCHEDULE_CHANGE_QUANTUM \<noteq> 0 then sint (sp_time_slice rmp) else - 1);
          new_cpu = (if flags AND SCHEDULE_CHANGE_CPU \<noteq> 0 then int (sp_cpu rmp) else - 1);
          (err, k) = sys_schedule E (sp_endpoint rmp) new_prio new_quantum new_cpu (kernel s1)
      in (err, s1\<lparr>kernel := k\<rparr>))"

definition schedule_process_local ::
  "sched_config \<Rightarrow> 'k sched_env \<Rightarrow> nat \<Rightarrow> 'k sched_state \<Rightarrow> ret \<times> 'k sched_state" where
  "schedule_process_local C E n s =
     schedule_process C E n (SCHEDULE_CHANGE_PRIO OR SCHEDULE_CHANGE_QUANTUM) s"

definition do_noquantum ::
  "sched_config \<Rightarrow> 'k sched_env \<Rightarrow> sched_message \<Rightarrow> 'k sched_state \<Rightarrow> ret \<times> 'k sched_state" where
  "do_noquantum C E m s =
     (case sched_isokendpt E (procs s) (m_source m) of
        Inl e \<Rightarrow> (Err EBADEPT, s)
      | Inr n \<Rightarrow>
          let s1 = (if sp_priority (procs s n) < MIN_USER_Q C
                    then upd_slot n (sp_priority_update (\<lambda>q. q - 1)) s else s);
              (rv, s2) = schedule_process_local C E n s1
          in if rv \<noteq> OK then (rv, s2) else (OK, s2))"

definition do_stop_scheduling ::
  "sched_config \<Rightarrow> 'k sched_env \<Rightarrow> sched_message \<Rightarrow> 'k sched_state \<Rightarrow> ret \<times> 'k sched_state" where
  "do_stop_scheduling C E m s =
     (if \<not> accept_message E m then (Err EPERM, s)
      else case sched_isokendpt E (procs s) (m_endpoint m) of
        Inl e \<Rightarrow> (Err EBADEPT, s)
      | Inr n \<Rightarrow>
          let cpu = sp_cpu (procs s n);
              s1 = (if CONFIG_SMP C
                    then s\<lparr>cpu_proc := (cpu_proc s)(cpu := cpu_proc s cpu - 1)\<rparr> else s)
          in (OK, upd_slot n (sp_in_use_update (\<lambda>_. False)) s1))"

text \<open>
  The loop of \<open>do_start_scheduling\<close> that gives up a processor each time the kernel
  refuses it. It need not end (the kernel may refuse the boot processor for ever), so it
  takes fuel, one unit per call of \<open>schedule_process\<close>.
\<close>

fun start_loop ::
  "nat \<Rightarrow> sched_config \<Rightarrow> 'k sched_env \<Rightarrow> nat \<Rightarrow> 'k sched_state \<Rightarrow> (ret \<times> 'k sched_state) option" where
  "start_loop 0 C E n s = None"
| "start_loop (Suc fuel) C E n s =
     (let (rv, s1) = schedule_process C E n SCHEDULE_CHANGE_ALL s
      in if rv = Err EBADCPU then
           start_loop fuel C E n
             (pick_cpu C n (s1\<lparr>cpu_proc := (cpu_proc s1)(sp_cpu (procs s1 n) := CPU_DEAD)\<rparr>))
         else Some (rv, s1))"

text \<open>Filling the slot from the message, up to the range check of the priority.\<close>

definition start_populate :: "sched_message \<Rightarrow> schedproc \<Rightarrow> schedproc" where
  "start_populate m p = p\<lparr>sp_endpoint := m_endpoint m, sp_parent := m_parent m,
                          sp_max_priority := m_maxprio m\<rparr>"

definition start_init_special :: "sched_config \<Rightarrow> schedproc \<Rightarrow> schedproc" where
  "start_init_special C p =
     (if sp_endpoint p = sp_parent p then
        let p1 = p\<lparr>sp_priority := USER_Q C, sp_time_slice := DEFAULT_USER_TIME_SLICE\<rparr>
        in if CONFIG_SMP C then p1\<lparr>sp_cpu := bsp_id C\<rparr> else p1
      else p)"

text \<open>The \<open>switch\<close> on the message type: \<open>None\<close> is the unreachable default.\<close>

definition start_inherit ::
  "'k sched_env \<Rightarrow> sched_message \<Rightarrow> nat \<Rightarrow> 'k sched_state \<Rightarrow> (ret \<times> 'k sched_state) option" where
  "start_inherit E m n s =
     (case m_type m of
        SCHEDULING_START \<Rightarrow>
          Some (OK, upd_slot n (\<lambda>p. p\<lparr>sp_priority := sp_max_priority p,
                                       sp_time_slice := m_quantum m\<rparr>) s)
      | SCHEDULING_INHERIT \<Rightarrow>
          (case sched_isokendpt E (procs s) (m_parent m) of
             Inl e \<Rightarrow> Some (Err e, s)
           | Inr q \<Rightarrow>
               Some (OK, upd_slot n (\<lambda>p. p\<lparr>sp_priority := sp_priority (procs s q),
                                           sp_time_slice := sp_time_slice (procs s q)\<rparr>) s))
      | OTHER_MTYPE \<Rightarrow> None)"

text \<open>The second half, from \<open>sys_schedctl\<close> on.\<close>

definition start_take_over ::
  "nat \<Rightarrow> sched_config \<Rightarrow> 'k sched_env \<Rightarrow> sched_message \<Rightarrow> nat \<Rightarrow> 'k sched_state \<Rightarrow>
     (ret \<times> sched_message \<times> 'k sched_state) option" where
  "start_take_over fuel C E m n s =
     (let (rv, k) = sys_schedctl E (sp_endpoint (procs s n)) (kernel s);
          s1 = s\<lparr>kernel := k\<rparr>
      in if rv \<noteq> OK then Some (rv, m, s1)
         else case start_loop fuel C E n
                     (pick_cpu C n (upd_slot n (sp_in_use_update (\<lambda>_. True)) s1)) of
                None \<Rightarrow> None
              | Some (rv, s2) \<Rightarrow>
                  if rv \<noteq> OK then Some (rv, m, s2)
                  else Some (OK, m\<lparr>m_scheduler := SCHED_PROC_NR C\<rparr>, s2))"

text \<open>\<open>None\<close> stands for a failed assertion and for a loop that ran out of fuel.\<close>

definition do_start_scheduling ::
  "nat \<Rightarrow> sched_config \<Rightarrow> 'k sched_env \<Rightarrow> sched_message \<Rightarrow> 'k sched_state \<Rightarrow>
     (ret \<times> sched_message \<times> 'k sched_state) option" where
  "do_start_scheduling fuel C E m s =
     (if m_type m = OTHER_MTYPE then None
      else if \<not> accept_message E m then Some (Err EPERM, m, s)
      else case sched_isemtyendpt E (procs s) (m_endpoint m) of
        Inl e \<Rightarrow> Some (Err e, m, s)
      | Inr n \<Rightarrow>
          let s1 = upd_slot n (start_populate m) s
          in if sp_max_priority (procs s1 n) \<ge> NR_SCHED_QUEUES C then Some (Err EINVAL, m, s1)
             else case start_inherit E m n (upd_slot n (start_init_special C) s1) of
               None \<Rightarrow> None
             | Some (rv, s2) \<Rightarrow>
                 if rv \<noteq> OK then Some (rv, m, s2) else start_take_over fuel C E m n s2)"

definition do_nice ::
  "sched_config \<Rightarrow> 'k sched_env \<Rightarrow> sched_message \<Rightarrow> 'k sched_state \<Rightarrow> ret \<times> 'k sched_state" where
  "do_nice C E m s =
     (if \<not> accept_message E m then (Err EPERM, s)
      else case sched_isokendpt E (procs s) (m_endpoint m) of
        Inl e \<Rightarrow> (Err EBADEPT, s)
      | Inr n \<Rightarrow>
          let new_q = m_maxprio m
          in if new_q \<ge> NR_SCHED_QUEUES C then (Err EINVAL, s)
             else
               let old_q = sp_priority (procs s n);
                   old_max_q = sp_max_priority (procs s n);
                   s1 = upd_slot n (\<lambda>p. p\<lparr>sp_priority := new_q, sp_max_priority := new_q\<rparr>) s;
                   (rv, s2) = schedule_process_local C E n s1
               in if rv \<noteq> OK
                  then (rv, upd_slot n (\<lambda>p. p\<lparr>sp_priority := old_q, sp_max_priority := old_max_q\<rparr>) s2)
                  else (rv, s2))"

definition init_scheduling :: "'k sched_env \<Rightarrow> 'k sched_state \<Rightarrow> 'k sched_state" where
  "init_scheduling E s =
     (let s1 = s\<lparr>balance_timeout := BALANCE_TIMEOUT * sys_hz E, sched_timer := None\<rparr>
      in s1\<lparr>sched_timer := Some (balance_timeout s1)\<rparr>)"

definition balance_round ::
  "sched_config \<Rightarrow> 'k sched_env \<Rightarrow> nat \<Rightarrow> 'k sched_state \<Rightarrow> 'k sched_state" where
  "balance_round C E n s =
     (if sp_in_use (procs s n) \<and> sp_priority (procs s n) > sp_max_priority (procs s n)
      then snd (schedule_process_local C E n s) else s)"

definition balance_queues :: "sched_config \<Rightarrow> 'k sched_env \<Rightarrow> 'k sched_state \<Rightarrow> 'k sched_state" where
  "balance_queues C E s =
     (let s1 = fold (balance_round C E) [0..<NR_PROCS C] s
      in s1\<lparr>sched_timer := Some (balance_timeout s1)\<rparr>)"

subsection \<open>The policy of Assignment 03\<close>

definition do_noquantum_a03 ::
  "sched_config \<Rightarrow> 'k sched_env \<Rightarrow> sched_message \<Rightarrow> 'k sched_state \<Rightarrow> ret \<times> 'k sched_state" where
  "do_noquantum_a03 C E m s =
     (case sched_isokendpt E (procs s) (m_source m) of
        Inl e \<Rightarrow> (Err EBADEPT, s)
      | Inr n \<Rightarrow>
          let s1 = (if sp_priority (procs s n) < MIN_USER_Q C
                    then upd_slot n (sp_priority_update (\<lambda>q. q + 1)) s else s);
              (rv, s2) = schedule_process_local C E n s1
          in if rv \<noteq> OK then (rv, s2) else (OK, s2))"

definition balance_round_a03 ::
  "sched_config \<Rightarrow> 'k sched_env \<Rightarrow> nat \<Rightarrow> 'k sched_state \<Rightarrow> 'k sched_state" where
  "balance_round_a03 C E n s =
     (if sp_in_use (procs s n) \<and> sp_priority (procs s n) > sp_max_priority (procs s n)
      then snd (schedule_process_local C E n (upd_slot n (sp_priority_update (\<lambda>q. q - 1)) s))
      else s)"

definition balance_queues_a03 :: "sched_config \<Rightarrow> 'k sched_env \<Rightarrow> 'k sched_state \<Rightarrow> 'k sched_state" where
  "balance_queues_a03 C E s =
     (let s1 = fold (balance_round_a03 C E) [0..<NR_PROCS C] s
      in s1\<lparr>sched_timer := Some (balance_timeout s1)\<rparr>)"

subsection \<open>The server as a step function\<close>

datatype sched_call =
    NoQuantum sched_message
  | StopSched sched_message
  | StartSched sched_message
  | Nice sched_message
  | BalanceTimer

type_synonym 'k noq_handler =
  "sched_config \<Rightarrow> 'k sched_env \<Rightarrow> sched_message \<Rightarrow> 'k sched_state \<Rightarrow> ret \<times> 'k sched_state"
type_synonym 'k bal_handler =
  "sched_config \<Rightarrow> 'k sched_env \<Rightarrow> 'k sched_state \<Rightarrow> 'k sched_state"

fun sched_handle ::
  "'k noq_handler \<Rightarrow> 'k bal_handler \<Rightarrow> nat \<Rightarrow> sched_config \<Rightarrow> 'k sched_env \<Rightarrow> sched_call \<Rightarrow>
     'k sched_state \<Rightarrow> 'k sched_state option" where
  "sched_handle noq bal fuel C E (NoQuantum m) s = Some (snd (noq C E m s))"
| "sched_handle noq bal fuel C E (StopSched m) s = Some (snd (do_stop_scheduling C E m s))"
| "sched_handle noq bal fuel C E (StartSched m) s =
     map_option (snd \<circ> snd) (do_start_scheduling fuel C E m s)"
| "sched_handle noq bal fuel C E (Nice m) s = Some (snd (do_nice C E m s))"
| "sched_handle noq bal fuel C E BalanceTimer s = Some (bal C E s)"

text \<open>The server's state with its configuration; \<open>None\<close> once a handler has not returned.\<close>

type_synonym 'k sched_server = "nat \<times> sched_config \<times> 'k sched_env \<times> 'k sched_state option"

fun sched_step ::
  "'k noq_handler \<Rightarrow> 'k bal_handler \<Rightarrow> 'k sched_server \<Rightarrow> sched_call \<Rightarrow> 'k sched_server" where
  "sched_step noq bal (fuel, C, E, so) c =
     (fuel, C, E, Option.bind so (sched_handle noq bal fuel C E c))"

text \<open>
  What the server relies on: the two user priority levels are levels of the machine, and an
  endpoint resolves to a slot of the table that is in use, respectively free.
\<close>

definition sched_config_ok :: "sched_config \<Rightarrow> bool" where
  "sched_config_ok C \<longleftrightarrow> MIN_USER_Q C < NR_SCHED_QUEUES C \<and> USER_Q C < NR_SCHED_QUEUES C"

definition sched_env_ok :: "sched_config \<Rightarrow> 'k sched_env \<Rightarrow> bool" where
  "sched_env_ok C E \<longleftrightarrow>
     (\<forall>tab e n. sched_isokendpt E tab e = Inr n \<longrightarrow>
        n < NR_PROCS C \<and> sp_in_use (tab n) \<and> sp_endpoint (tab n) = e) \<and>
     (\<forall>tab e n. sched_isemtyendpt E tab e = Inr n \<longrightarrow> n < NR_PROCS C \<and> \<not> sp_in_use (tab n))"

definition prio_inv :: "(u32 \<Rightarrow> bool) \<Rightarrow> 'k sched_state \<Rightarrow> bool" where
  "prio_inv good s \<longleftrightarrow> (\<forall>n. sp_in_use (procs s n) \<longrightarrow> good (sp_priority (procs s n)))"

fun sched_server_inv :: "(sched_config \<Rightarrow> u32 \<Rightarrow> bool) \<Rightarrow> 'k sched_server \<Rightarrow> bool" where
  "sched_server_inv good (fuel, C, E, so) \<longleftrightarrow>
     sched_config_ok C \<and> sched_env_ok C E \<and>
     (case so of None \<Rightarrow> True | Some s \<Rightarrow> prio_inv (good C) s)"

subsection \<open>Frame facts\<close>

lemma pick_cpu_slot [simp]:
  "sp_endpoint (procs (pick_cpu C n s) m) = sp_endpoint (procs s m)"
  "sp_parent (procs (pick_cpu C n s) m) = sp_parent (procs s m)"
  "sp_in_use (procs (pick_cpu C n s) m) = sp_in_use (procs s m)"
  "sp_max_priority (procs (pick_cpu C n s) m) = sp_max_priority (procs s m)"
  "sp_priority (procs (pick_cpu C n s) m) = sp_priority (procs s m)"
  "sp_time_slice (procs (pick_cpu C n s) m) = sp_time_slice (procs s m)"
  by (simp_all add: pick_cpu_def Let_def)

lemma pick_cpu_other [simp]: "m \<noteq> n \<Longrightarrow> procs (pick_cpu C n s) m = procs s m"
  by (simp add: pick_cpu_def Let_def)

lemma pick_cpu_global [simp]:
  "kernel (pick_cpu C n s) = kernel s"
  "balance_timeout (pick_cpu C n s) = balance_timeout s"
  "sched_timer (pick_cpu C n s) = sched_timer s"
  by (simp_all add: pick_cpu_def Let_def)

lemma schedule_process_procs [simp]:
  "procs (snd (schedule_process C E n flags s)) = procs (pick_cpu C n s)"
  by (simp add: schedule_process_def Let_def split: prod.split)

lemma schedule_process_cpu_proc [simp]:
  "cpu_proc (snd (schedule_process C E n flags s)) = cpu_proc (pick_cpu C n s)"
  by (simp add: schedule_process_def Let_def split: prod.split)

lemma schedule_process_local_procs [simp]:
  "procs (snd (schedule_process_local C E n s)) = procs (pick_cpu C n s)"
  by (simp add: schedule_process_local_def)

lemma schedule_process_local_eq:
  "schedule_process_local C E n s =
     (let s1 = pick_cpu C n s; p = procs s n;
          (err, k) = sys_schedule E (sp_endpoint p) (sint (sp_priority p)) (sint (sp_time_slice p))
                       (- 1) (kernel s)
      in (err, s1\<lparr>kernel := k\<rparr>))"
  by (simp add: schedule_process_local_def schedule_process_def SCHEDULE_CHANGE_PRIO_def
      SCHEDULE_CHANGE_QUANTUM_def SCHEDULE_CHANGE_CPU_def Let_def)

lemma schedule_process_all_eq:
  "schedule_process C E n SCHEDULE_CHANGE_ALL s =
     (let s1 = pick_cpu C n s; p = procs s1 n;
          (err, k) = sys_schedule E (sp_endpoint p) (sint (sp_priority p)) (sint (sp_time_slice p))
                       (int (sp_cpu p)) (kernel s1)
      in (err, s1\<lparr>kernel := k\<rparr>))"
  by (simp add: schedule_process_def SCHEDULE_CHANGE_ALL_def SCHEDULE_CHANGE_PRIO_def
      SCHEDULE_CHANGE_QUANTUM_def SCHEDULE_CHANGE_CPU_def Let_def)

lemma prio_inv_pick_cpu [simp]: "prio_inv good (pick_cpu C n s) = prio_inv good s"
  by (simp add: prio_inv_def)

lemma prio_inv_kernel [simp]: "prio_inv good (s\<lparr>kernel := k\<rparr>) = prio_inv good s"
  "prio_inv good (s\<lparr>cpu_proc := cp\<rparr>) = prio_inv good s"
  "prio_inv good (s\<lparr>sched_timer := t\<rparr>) = prio_inv good s"
  by (simp_all add: prio_inv_def)

lemma prio_inv_schedule_process [simp]:
  "prio_inv good (snd (schedule_process C E n flags s)) = prio_inv good s"
  by (simp add: prio_inv_def)

lemma prio_inv_schedule_process_local [simp]:
  "prio_inv good (snd (schedule_process_local C E n s)) = prio_inv good s"
  by (simp add: schedule_process_local_def)

lemma prio_inv_upd [inv_rules]:
  "prio_inv good s \<Longrightarrow> (sp_in_use (f (procs s n)) \<Longrightarrow> good (sp_priority (f (procs s n)))) \<Longrightarrow>
   prio_inv good (upd_slot n f s)"
  by (simp add: prio_inv_def)

subsection \<open>The interface between a policy and the server\<close>

text \<open>
  A policy is the pair of handlers that move a priority on their own: the one for a process
  that used its quantum and the periodic one. Where both keep the priorities in a range
  that contains every queue of the machine, the whole server does.
\<close>

locale prio_policy =
  fixes noq :: "sched_config \<Rightarrow> 'k sched_env \<Rightarrow> sched_message \<Rightarrow> 'k sched_state \<Rightarrow> ret \<times> 'k sched_state"
    and bal :: "sched_config \<Rightarrow> 'k sched_env \<Rightarrow> 'k sched_state \<Rightarrow> 'k sched_state"
    and good :: "sched_config \<Rightarrow> u32 \<Rightarrow> bool"
  assumes noq_good: "sched_config_ok C \<Longrightarrow> prio_inv (good C) s \<Longrightarrow> prio_inv (good C) (snd (noq C E m s))"
    and bal_good: "sched_config_ok C \<Longrightarrow> prio_inv (good C) s \<Longrightarrow> prio_inv (good C) (bal C E s)"
    and good_queue: "q < NR_SCHED_QUEUES C \<Longrightarrow> good C q"
begin

lemma stop_good:
  "prio_inv (good C) s \<Longrightarrow> prio_inv (good C) (snd (do_stop_scheduling C E m s))"
  by (auto simp: do_stop_scheduling_def Let_def prio_inv_def split: sum.split)

lemma nice_good:
  assumes "sched_env_ok C E" and "prio_inv (good C) s"
  shows "prio_inv (good C) (snd (do_nice C E m s))"
proof (cases "sched_isokendpt E (procs s) (m_endpoint m)")
  case (Inr n)
  with assms(1) have "sp_in_use (procs s n)" by (auto simp: sched_env_ok_def)
  with assms(2) have old: "good C (sp_priority (procs s n))" by (auto simp: prio_inv_def)
  obtain rv s2 where loc: "schedule_process_local C E n
      (upd_slot n (\<lambda>p. p\<lparr>sp_priority := m_maxprio m, sp_max_priority := m_maxprio m\<rparr>) s) = (rv, s2)"
    by force
  show ?thesis
  proof (cases "m_maxprio m \<ge> NR_SCHED_QUEUES C")
    case False
    then have new: "good C (m_maxprio m)" by (simp add: good_queue)
    have "prio_inv (good C) (snd (schedule_process_local C E n
      (upd_slot n (\<lambda>p. p\<lparr>sp_priority := m_maxprio m, sp_max_priority := m_maxprio m\<rparr>) s)))"
      using assms(2) new by (simp add: prio_inv_def)
    then have "prio_inv (good C) s2" by (simp add: loc)
    then show ?thesis using assms(2) Inr False loc old
      by (auto simp: do_nice_def Let_def intro: prio_inv_upd)
  qed (use assms(2) Inr in \<open>simp add: do_nice_def Let_def\<close>)
qed (use assms(2) in \<open>simp add: do_nice_def\<close>)

lemma start_loop_good:
  "start_loop fuel C E n s = Some (rv, s') \<Longrightarrow> prio_inv (good C) s \<Longrightarrow> prio_inv (good C) s'"
proof (induction fuel arbitrary: s)
  case (Suc fuel)
  obtain r s1 where sp: "schedule_process C E n SCHEDULE_CHANGE_ALL s = (r, s1)" by force
  with Suc.prems(2) have "prio_inv (good C) s1"
    by (metis prio_inv_schedule_process snd_conv)
  with Suc sp show ?case by (auto split: if_splits)
qed simp

lemma take_over_good:
  assumes "start_take_over fuel C E m n s = Some (rv, m', s')"
    and "prio_inv (good C) s" and "good C (sp_priority (procs s n))"
  shows "prio_inv (good C) s'"
proof -
  obtain r k where "sys_schedctl E (sp_endpoint (procs s n)) (kernel s) = (r, k)" by force
  moreover have "prio_inv (good C) (pick_cpu C n (upd_slot n (sp_in_use_update (\<lambda>_. True)) (s\<lparr>kernel := k\<rparr>)))"
    using assms(2,3) by (auto simp: prio_inv_def)
  ultimately show ?thesis using assms(1,2)
    by (auto simp: start_take_over_def Let_def split: if_splits option.splits
        dest!: start_loop_good)
qed

lemma start_inherit_good:
  assumes "start_inherit E m n s = Some (OK, s')"
    and "prio_inv (good C) s" and "sched_env_ok C E"
    and "sp_max_priority (procs s n) < NR_SCHED_QUEUES C"
  shows "prio_inv (good C) s' \<and> good C (sp_priority (procs s' n))"
proof (cases "m_type m")
  case SCHEDULING_START
  with assms show ?thesis
    by (auto simp: start_inherit_def good_queue intro!: prio_inv_upd)
next
  case SCHEDULING_INHERIT
  then obtain q where q: "sched_isokendpt E (procs s) (m_parent m) = Inr q"
    using assms(1) by (auto simp: start_inherit_def split: sum.splits)
  then have "sp_in_use (procs s q)" using assms(3) by (auto simp: sched_env_ok_def)
  then have "good C (sp_priority (procs s q))" using assms(2) by (auto simp: prio_inv_def)
  with assms q SCHEDULING_INHERIT show ?thesis
    by (auto simp: start_inherit_def intro!: prio_inv_upd)
qed (use assms in \<open>simp add: start_inherit_def\<close>)

lemma start_good:
  assumes "sched_env_ok C E" and "prio_inv (good C) s"
    and "do_start_scheduling fuel C E m s = Some (rv, m', s')"
  shows "prio_inv (good C) s'"
proof (cases "sched_isemtyendpt E (procs s) (m_endpoint m)")
  case (Inr n)
  with assms(1) have free: "\<not> sp_in_use (procs s n)" by (auto simp: sched_env_ok_def)
  let ?s1 = "upd_slot n (start_populate m) s"
  let ?s2 = "upd_slot n (start_init_special C) ?s1"
  have i1: "prio_inv (good C) ?s1" and i2: "prio_inv (good C) ?s2"
    using assms(2) free
    by (auto simp: prio_inv_def start_populate_def start_init_special_def Let_def)
  have mp: "sp_max_priority (procs ?s2 n) = m_maxprio m"
    by (simp add: start_populate_def start_init_special_def Let_def)
  show ?thesis
  proof (cases "start_inherit E m n ?s2")
    case None
    with assms Inr i1 show ?thesis
      by (auto simp: do_start_scheduling_def Let_def split: if_splits)
  next
    case (Some p)
    obtain r s2 where p: "p = (r, s2)" by force
    have bad: "r \<noteq> OK \<Longrightarrow> s2 = ?s2"
      using Some p by (auto simp: start_inherit_def split: sched_mtype.splits sum.splits)
    show ?thesis
    proof (cases "m_maxprio m \<ge> NR_SCHED_QUEUES C")
      case True
      with assms Inr i1 show ?thesis
        by (auto simp: do_start_scheduling_def Let_def start_populate_def split: if_splits)
    next
      case False
      with assms Inr Some p i2 bad mp show ?thesis
        by (fastforce simp: do_start_scheduling_def Let_def start_populate_def
            split: if_splits dest: start_inherit_good take_over_good)
    qed
  qed
qed (use assms in \<open>auto simp: do_start_scheduling_def split: if_splits\<close>)

lemma handle_good:
  assumes "sched_config_ok C" and "sched_env_ok C E" and "prio_inv (good C) s"
    and "sched_handle noq bal fuel C E c s = Some s'"
  shows "prio_inv (good C) s'"
  using assms
  by (cases c) (auto intro: noq_good bal_good stop_good nice_good start_good)

end

sublocale prio_policy \<subseteq> server "sched_step noq bal" "sched_server_inv good"
proof
  fix s :: "'k sched_server" and m
  assume "sched_server_inv good s"
  then show "sched_server_inv good (sched_step noq bal s m)"
    by (cases s) (auto split: option.splits bind_splits intro: handle_good)
qed

subsection \<open>The two policies\<close>

lemma word_inc_bound: "(q :: u32) < m \<Longrightarrow> m < k \<Longrightarrow> q + 1 < k"
  by (meson inc_le order.strict_trans1)

lemma word_dec_lt: "(m :: u32) < q \<Longrightarrow> q - 1 < q"
  by uint_arith

lemma balance_round_prio [simp]: "prio_inv good (balance_round C E n s) = prio_inv good s"
  by (simp add: balance_round_def)

lemma balance_round_a03_prio:
  assumes "prio_inv (\<lambda>q. q < k) s"
  shows "prio_inv (\<lambda>q. q < k) (balance_round_a03 C E n s)"
proof (cases "sp_in_use (procs s n) \<and> sp_priority (procs s n) > sp_max_priority (procs s n)")
  case True
  then have "sp_priority (procs s n) - 1 < k"
    using assms by (auto simp: prio_inv_def intro: order.strict_trans word_dec_lt)
  with assms True show ?thesis by (simp add: balance_round_a03_def prio_inv_def)
qed (use assms in \<open>auto simp: balance_round_a03_def\<close>)

lemma noquantum_procs:
  "sched_isokendpt E (procs s) (m_source m) = Inr n \<Longrightarrow>
   sp_priority (procs (snd (do_noquantum C E m s)) i) =
     (if i = n \<and> sp_priority (procs s n) < MIN_USER_Q C then sp_priority (procs s n) - 1
      else sp_priority (procs s i))"
  "sched_isokendpt E (procs s) (m_source m) = Inr n \<Longrightarrow>
   sp_priority (procs (snd (do_noquantum_a03 C E m s)) i) =
     (if i = n \<and> sp_priority (procs s n) < MIN_USER_Q C then sp_priority (procs s n) + 1
      else sp_priority (procs s i))"
  by (auto simp: do_noquantum_def do_noquantum_a03_def Let_def case_prod_beta)

lemma noquantum_frame:
  "sp_in_use (procs (snd (do_noquantum C E m s)) i) = sp_in_use (procs s i)"
  "sp_endpoint (procs (snd (do_noquantum C E m s)) i) = sp_endpoint (procs s i)"
  "sp_in_use (procs (snd (do_noquantum_a03 C E m s)) i) = sp_in_use (procs s i)"
  "sp_endpoint (procs (snd (do_noquantum_a03 C E m s)) i) = sp_endpoint (procs s i)"
  by (simp_all add: do_noquantum_def do_noquantum_a03_def Let_def case_prod_beta split: sum.split)

lemma noquantum_bad_endpoint:
  "sched_isokendpt E (procs s) (m_source m) = Inl e \<Longrightarrow> do_noquantum C E m s = (Err EBADEPT, s)"
  "sched_isokendpt E (procs s) (m_source m) = Inl e \<Longrightarrow> do_noquantum_a03 C E m s = (Err EBADEPT, s)"
  by (simp_all add: do_noquantum_def do_noquantum_a03_def)

interpretation rr: prio_policy do_noquantum_a03 balance_queues_a03 "\<lambda>C q. q < NR_SCHED_QUEUES C"
proof
  fix C :: sched_config and s :: "'k sched_state" and E m
  assume C: "sched_config_ok C" and inv: "prio_inv (\<lambda>q. q < NR_SCHED_QUEUES C) s"
  show "prio_inv (\<lambda>q. q < NR_SCHED_QUEUES C) (snd (do_noquantum_a03 C E m s))"
  proof (cases "sched_isokendpt E (procs s) (m_source m)")
    case (Inr n)
    with C inv show ?thesis
      by (auto simp: prio_inv_def noquantum_procs noquantum_frame sched_config_ok_def
          intro: word_inc_bound)
  qed (simp add: inv noquantum_bad_endpoint)
  show "prio_inv (\<lambda>q. q < NR_SCHED_QUEUES C) (balance_queues_a03 C E s)"
    using fold_invariant [of "prio_inv (\<lambda>q. q < NR_SCHED_QUEUES C)", OF inv balance_round_a03_prio]
    by (simp add: balance_queues_a03_def Let_def)
qed

interpretation fifo: prio_policy do_noquantum balance_queues
  "\<lambda>C q. q < NR_SCHED_QUEUES C \<or> q = UINT_MAX"
proof
  fix C :: sched_config and s :: "'k sched_state" and E m
  assume C: "sched_config_ok C" and inv: "prio_inv (\<lambda>q. q < NR_SCHED_QUEUES C \<or> q = UINT_MAX) s"
  have step: "q - 1 < NR_SCHED_QUEUES C \<or> q - 1 = UINT_MAX" if "q < MIN_USER_Q C" for q
    using that C word_dec_lt [of 0 q]
    by (cases "q = 0") (auto simp: sched_config_ok_def word_gt_0 intro: order.strict_trans)
  show "prio_inv (\<lambda>q. q < NR_SCHED_QUEUES C \<or> q = UINT_MAX) (snd (do_noquantum C E m s))"
  proof (cases "sched_isokendpt E (procs s) (m_source m)")
    case (Inr n)
    with inv step show ?thesis by (auto simp: prio_inv_def noquantum_procs noquantum_frame)
  qed (simp add: inv noquantum_bad_endpoint)
  show "prio_inv (\<lambda>q. q < NR_SCHED_QUEUES C \<or> q = UINT_MAX) (balance_queues C E s)"
    using inv by (auto simp: balance_queues_def Let_def intro: fold_invariant)
qed simp

subsection \<open>Choosing a processor\<close>

lemma pick_scan_least:
  fixes cp :: "nat \<Rightarrow> u32" and C :: sched_config
  defines "scan xs \<equiv> fold (pick_cpu_round C cp) xs (UINT_MAX, bsp_id C)"
  shows "(\<forall>c \<in> set xs. c \<noteq> bsp_id C \<longrightarrow> fst (scan xs) \<le> cp c) \<and>
         (fst (scan xs) = UINT_MAX \<and> snd (scan xs) = bsp_id C \<or>
          fst (scan xs) < UINT_MAX \<and> snd (scan xs) \<in> set xs \<and> snd (scan xs) \<noteq> bsp_id C \<and>
          fst (scan xs) = cp (snd (scan xs)))"
proof (induction xs rule: rev_induct)
  case (snoc x xs)
  obtain l c where s: "scan xs = (l, c)" by force
  have "scan (xs @ [x]) = pick_cpu_round C cp x (l, c)" using s by (simp add: scan_def)
  then have step: "scan (xs @ [x]) = (if x \<noteq> bsp_id C \<and> cp x < l then (cp x, x) else (l, c))"
    by (simp add: pick_cpu_round_def cpu_is_available_def)
  show ?case
  proof (cases "x \<noteq> bsp_id C \<and> cp x < l")
    case True
    then have "cp x < UINT_MAX" by (meson order.strict_trans2 word_order.extremum)
    with True snoc.IH s step show ?thesis by (auto intro: order.trans less_imp_le)
  next
    case False
    with snoc.IH s step show ?thesis by auto
  qed
qed (simp add: scan_def)

lemma pick_cpu_smp:
  assumes "CONFIG_SMP C" "processors_count C \<noteq> 1" "\<not> is_system_proc C (procs s n)"
  shows "cpu_proc (pick_cpu C n s) =
           (let c = sp_cpu (procs (pick_cpu C n s) n) in (cpu_proc s)(c := cpu_proc s c + 1))"
  using assms by (simp add: pick_cpu_def Let_def)

lemma pick_cpu_bsp:
  assumes "\<not> CONFIG_SMP C \<and> bsp_id C = 0 \<or> processors_count C = 1 \<and> CONFIG_SMP C \<or>
           is_system_proc C (procs s n) \<and> CONFIG_SMP C"
  shows "sp_cpu (procs (pick_cpu C n s) n) = bsp_id C" "cpu_proc (pick_cpu C n s) = cpu_proc s"
  using assms by (auto simp: pick_cpu_def)

lemma pick_cpu_chosen:
  assumes "CONFIG_SMP C" and "processors_count C \<noteq> 1" and "\<not> is_system_proc C (procs s n)"
  defines "c \<equiv> sp_cpu (procs (pick_cpu C n s) n)"
  shows "(\<forall>d < processors_count C. d \<noteq> bsp_id C \<longrightarrow> cpu_proc s d = CPU_DEAD) \<and> c = bsp_id C \<or>
         c < processors_count C \<and> c \<noteq> bsp_id C \<and> cpu_proc s c \<noteq> CPU_DEAD \<and>
         (\<forall>d < processors_count C. d \<noteq> bsp_id C \<longrightarrow> cpu_proc s c \<le> cpu_proc s d)"
proof -
  have "c = snd (fold (pick_cpu_round C (cpu_proc s)) [0..<processors_count C] (UINT_MAX, bsp_id C))"
    using assms(1-3) by (simp add: c_def pick_cpu_def Let_def)
  with pick_scan_least [of "[0..<processors_count C]" C "cpu_proc s"] show ?thesis
    by (auto simp: CPU_DEAD_def word_order.extremum_unique)
qed

text \<open>
  On a multiprocessor, \<open>pick_cpu\<close> gives an ordinary process the least loaded
  processor other than the boot processor: no other has a smaller count. Only when every
  one of them is marked dead (the count \<open>CPU_DEAD\<close>) does it fall back to the boot
  processor.
\<close>

theorem pick_cpu_least_loaded:
  assumes "CONFIG_SMP C" and "processors_count C \<noteq> 1" and "\<not> is_system_proc C (procs s n)"
  defines "c \<equiv> sp_cpu (procs (pick_cpu C n s) n)"
  shows "(c \<noteq> bsp_id C \<longrightarrow> c < processors_count C \<and> cpu_proc s c \<noteq> CPU_DEAD \<and>
            (\<forall>d < processors_count C. d \<noteq> bsp_id C \<longrightarrow> cpu_proc s c \<le> cpu_proc s d)) \<and>
         (c = bsp_id C \<longrightarrow> (\<forall>d < processors_count C. d \<noteq> bsp_id C \<longrightarrow> cpu_proc s d = CPU_DEAD))"
  using pick_cpu_chosen [OF assms(1-3)] by (auto simp: c_def)

subsection \<open>Termination of the start loop\<close>

definition alive_cpus :: "sched_config \<Rightarrow> (nat \<Rightarrow> u32) \<Rightarrow> nat set" where
  "alive_cpus C cp = {c. c < processors_count C \<and> c \<noteq> bsp_id C \<and> cp c \<noteq> CPU_DEAD}"

lemma finite_alive_cpus [simp]: "finite (alive_cpus C cp)"
  by (rule finite_subset [of _ "{..<processors_count C}"]) (auto simp: alive_cpus_def)

lemma pick_cpu_choice:
  assumes "CONFIG_SMP C"
  shows "sp_cpu (procs (pick_cpu C n s) n) = bsp_id C \<or>
         sp_cpu (procs (pick_cpu C n s) n) \<in> alive_cpus C (cpu_proc s)"
proof (cases "processors_count C = 1 \<or> is_system_proc C (procs s n)")
  case True
  with assms show ?thesis by (auto simp: pick_cpu_bsp)
next
  case False
  with assms pick_cpu_chosen [of C s n] show ?thesis by (auto simp: alive_cpus_def)
qed

lemma pick_cpu_up: "\<not> CONFIG_SMP C \<Longrightarrow> sp_cpu (procs (pick_cpu C n s) n) = 0"
  by (simp add: pick_cpu_def)

lemma alive_after_pick: "alive_cpus C (cpu_proc (pick_cpu C n s)) \<subseteq> alive_cpus C (cpu_proc s)"
proof (cases "CONFIG_SMP C \<and> processors_count C \<noteq> 1 \<and> \<not> is_system_proc C (procs s n)")
  case True
  then have "sp_cpu (procs (pick_cpu C n s) n) = bsp_id C \<or>
      sp_cpu (procs (pick_cpu C n s) n) \<in> alive_cpus C (cpu_proc s)"
    using pick_cpu_choice by blast
  with True show ?thesis by (auto simp: pick_cpu_smp Let_def alive_cpus_def)
qed (auto simp: pick_cpu_def Let_def)

lemma start_loop_total:
  assumes bsp: "\<And>e q t k. fst (sys_schedule E e q t (int (bsp_id C)) k) \<noteq> Err EBADCPU"
    and up: "CONFIG_SMP C \<or> bsp_id C = 0"
    and fuel: "card (alive_cpus C (cpu_proc s)) < fuel"
  shows "\<exists>r. start_loop fuel C E n s = Some r"
  using fuel
proof (induction fuel arbitrary: s)
  case (Suc fuel)
  let ?c = "sp_cpu (procs (pick_cpu C n s) n)"
  obtain rv s1 where sp: "schedule_process C E n SCHEDULE_CHANGE_ALL s = (rv, s1)" by force
  then have p1: "procs s1 = procs (pick_cpu C n s)" and c1: "cpu_proc s1 = cpu_proc (pick_cpu C n s)"
    by (metis schedule_process_procs snd_conv, metis schedule_process_cpu_proc snd_conv)
  show ?case
  proof (cases "rv = Err EBADCPU")
    case True
    have "?c \<noteq> bsp_id C"
      using True sp bsp by (auto simp: schedule_process_all_eq Let_def split: prod.splits)
        (metis fst_conv)
    with up have c: "?c \<in> alive_cpus C (cpu_proc s)"
      using pick_cpu_choice [of C n s] pick_cpu_up [of C n s] by (cases "CONFIG_SMP C") auto
    let ?cp = "(cpu_proc s1)(?c := CPU_DEAD)"
    let ?s2 = "pick_cpu C n (s1\<lparr>cpu_proc := ?cp\<rparr>)"
    have "alive_cpus C ?cp \<subseteq> alive_cpus C (cpu_proc s) - {?c}"
      using alive_after_pick [of C n s] by (auto simp: alive_cpus_def c1)
    then have "alive_cpus C (cpu_proc ?s2) \<subset> alive_cpus C (cpu_proc s)"
      using alive_after_pick [of C n "s1\<lparr>cpu_proc := ?cp\<rparr>"] c by auto
    then have "card (alive_cpus C (cpu_proc ?s2)) < card (alive_cpus C (cpu_proc s))"
      by (rule psubset_card_mono [rotated]) simp
    with Suc.prems have "card (alive_cpus C (cpu_proc ?s2)) < fuel" by simp
    from Suc.IH [OF this] show ?thesis using True sp by (simp add: p1)
  qed (simp add: sp)
qed simp

text \<open>
  C35: \<open>do_start_scheduling\<close> always answers a start or inherit request, provided the
  kernel never rejects the boot processor: each refused processor is marked dead and
  \<open>pick_cpu\<close> never returns to it, so the retry loop makes at most one call per
  processor. (On a uniprocessor build the boot processor is number 0.)
\<close>

theorem start_scheduling_terminates:
  assumes "\<And>e q t k. fst (sys_schedule E e q t (int (bsp_id C)) k) \<noteq> Err EBADCPU"
    and "CONFIG_SMP C \<or> bsp_id C = 0"
    and "m_type m \<noteq> OTHER_MTYPE"
    and "processors_count C < fuel"
  shows "\<exists>rv m' s'. do_start_scheduling fuel C E m s = Some (rv, m', s')"
proof -
  have "card (alive_cpus C cp) < fuel" for cp
    using card_mono [of "{..<processors_count C}" "alive_cpus C cp"] assms(4)
    by (force simp: alive_cpus_def)
  then have "\<exists>r. start_loop fuel C E n s' = Some r" for n s'
    using start_loop_total assms(1,2) by blast
  then have total: "(start_loop fuel C E n s' = None) = False" for n s'
    by (metis option.distinct(1))
  have "start_take_over fuel C E m n s'' \<noteq> None" for n s''
    by (simp add: total start_take_over_def Let_def split: prod.split option.split)
  then have "\<exists>rv m' s'. start_take_over fuel C E m n s'' = Some (rv, m', s')" for n s''
    by auto
  with assms(3) show ?thesis
    by (fastforce simp: do_start_scheduling_def start_inherit_def Let_def
        split: sum.split sched_mtype.split option.split)
qed

lemma start_loop_frame:
  "start_loop fuel C E n s = Some (rv, s') \<Longrightarrow>
     (\<forall>i. i \<noteq> n \<longrightarrow> procs s' i = procs s i) \<and>
     (\<exists>c. procs s' n = (procs s n)\<lparr>sp_cpu := c\<rparr>)"
proof (induction fuel arbitrary: s)
  case (Suc fuel)
  obtain r s1 where sp: "schedule_process C E n SCHEDULE_CHANGE_ALL s = (r, s1)" by force
  have upd: "\<exists>c. procs (pick_cpu C n t) = (procs t)(n := (procs t n)\<lparr>sp_cpu := c\<rparr>)" for t :: "'a sched_state"
    by (auto simp: pick_cpu_def Let_def)
  have p1: "procs s1 = procs (pick_cpu C n s)"
    by (metis sp schedule_process_procs snd_conv)
  obtain c where c: "procs s1 = (procs s)(n := (procs s n)\<lparr>sp_cpu := c\<rparr>)"
    using upd [of s] p1 by auto
  let ?t = "s1\<lparr>cpu_proc := (cpu_proc s1)(sp_cpu (procs s1 n) := CPU_DEAD)\<rparr>"
  obtain d where d: "procs (pick_cpu C n ?t) = (procs s1)(n := (procs s1 n)\<lparr>sp_cpu := d\<rparr>)"
    using upd [of ?t] by auto
  show ?case
  proof (cases "r = Err EBADCPU")
    case True
    with Suc.prems sp have "start_loop fuel C E n (pick_cpu C n ?t) = Some (rv, s')" by simp
    from Suc.IH [OF this] show ?thesis unfolding d by (auto simp: c)
  next
    case False
    with Suc.prems sp c show ?thesis by auto
  qed
qed simp

text \<open>
  When \<open>do_start_scheduling\<close> reports success, exactly one slot has changed: a free
  one, now in use for the endpoint of the message, with the message's maximal priority (a
  queue of the machine). A \<open>SCHEDULING_START\<close> request gives it that priority and the
  message's quantum, a \<open>SCHEDULING_INHERIT\<close> request the priority and time slice of its
  parent, and the reply names SCHED as the scheduler.
\<close>

theorem start_scheduling_success:
  assumes env: "sched_env_ok C E"
    and ok: "do_start_scheduling fuel C E m s = Some (OK, m', s')"
  shows "\<exists>n. sched_isemtyendpt E (procs s) (m_endpoint m) = Inr n \<and> \<not> sp_in_use (procs s n) \<and>
      sp_in_use (procs s' n) \<and> sp_endpoint (procs s' n) = m_endpoint m \<and>
      sp_max_priority (procs s' n) = m_maxprio m \<and> m_maxprio m < NR_SCHED_QUEUES C \<and>
      (m_type m = SCHEDULING_START \<longrightarrow> sp_priority (procs s' n) = m_maxprio m \<and>
         sp_time_slice (procs s' n) = m_quantum m) \<and>
      (m_type m = SCHEDULING_INHERIT \<longrightarrow> (\<exists>q. sp_in_use (procs s q) \<and>
         sp_endpoint (procs s q) = m_parent m \<and>
         sp_priority (procs s' n) = sp_priority (procs s q) \<and>
         sp_time_slice (procs s' n) = sp_time_slice (procs s q))) \<and>
      (\<forall>i. i \<noteq> n \<longrightarrow> procs s' i = procs s i) \<and> m_scheduler m' = SCHED_PROC_NR C"
proof -
  obtain n where n: "sched_isemtyendpt E (procs s) (m_endpoint m) = Inr n"
    using ok by (auto simp: do_start_scheduling_def split: if_splits sum.splits)
  with env have free: "\<not> sp_in_use (procs s n)" by (auto simp: sched_env_ok_def)
  define s2 where "s2 = upd_slot n (start_init_special C) (upd_slot n (start_populate m) s)"
  have s2: "procs s2 = (procs s)(n := start_init_special C (start_populate m (procs s n)))"
    by (simp add: s2_def)
  have slot: "sp_endpoint (procs s2 n) = m_endpoint m" "sp_max_priority (procs s2 n) = m_maxprio m"
    "\<not> sp_in_use (procs s2 n)"
    using free by (auto simp: s2 start_init_special_def start_populate_def Let_def)
  obtain s3 where range: "m_maxprio m < NR_SCHED_QUEUES C"
    and inh: "start_inherit E m n s2 = Some (OK, s3)"
    and take_over: "start_take_over fuel C E m n s3 = Some (OK, m', s')"
    using ok n by (auto simp: do_start_scheduling_def Let_def s2_def start_populate_def
        split: if_splits option.splits)
  obtain p where s3: "procs s3 = (procs s2)(n := p)" and p: "sp_endpoint p = m_endpoint m"
      "sp_max_priority p = m_maxprio m" and
    types: "m_type m = SCHEDULING_START \<longrightarrow> sp_priority p = m_maxprio m \<and> sp_time_slice p = m_quantum m"
      "m_type m = SCHEDULING_INHERIT \<longrightarrow> (\<exists>q. sched_isokendpt E (procs s2) (m_parent m) = Inr q \<and>
         sp_priority p = sp_priority (procs s2 q) \<and> sp_time_slice p = sp_time_slice (procs s2 q))"
    using inh slot by (auto simp: start_inherit_def split: sched_mtype.splits sum.splits)
  have inherit: "\<exists>q. sp_in_use (procs s q) \<and> sp_endpoint (procs s q) = m_parent m \<and>
      sp_priority p = sp_priority (procs s q) \<and> sp_time_slice p = sp_time_slice (procs s q)"
    if ty: "m_type m = SCHEDULING_INHERIT"
  proof -
    from types(2) ty obtain q where q: "sched_isokendpt E (procs s2) (m_parent m) = Inr q"
      "sp_priority p = sp_priority (procs s2 q)" "sp_time_slice p = sp_time_slice (procs s2 q)" by blast
    then have "sp_in_use (procs s2 q)" "sp_endpoint (procs s2 q) = m_parent m"
      using env by (auto simp: sched_env_ok_def)
    with slot(3) q show ?thesis by (intro exI [of _ q]) (auto simp: s2 split: if_splits)
  qed
  obtain k where "start_loop fuel C E n
      (pick_cpu C n (upd_slot n (sp_in_use_update (\<lambda>_. True)) (s3\<lparr>kernel := k\<rparr>))) = Some (OK, s')"
    and m': "m_scheduler m' = SCHED_PROC_NR C"
    using take_over by (auto simp: start_take_over_def Let_def split: prod.splits if_splits option.splits)
  from start_loop_frame [OF this(1)]
  obtain c where "procs s' n = (procs (pick_cpu C n (upd_slot n (sp_in_use_update (\<lambda>_. True)) (s3\<lparr>kernel := k\<rparr>))) n)\<lparr>sp_cpu := c\<rparr>"
    and rest: "\<forall>i. i \<noteq> n \<longrightarrow> procs s' i = procs s i"
    by (auto simp: s3 s2)
  then show ?thesis using n free range p types(1) inherit m' by (auto simp: s3)
qed

subsection \<open>Priorities over time\<close>

text \<open>
  C12: under the policy of Assignment 03 no sequence of requests (expired quanta, start,
  stop and nice requests, runs of the balancing timer) ever gives a process in the table a
  priority that is not a queue of the machine.
\<close>

theorem rr_priorities_in_range:
  assumes "sched_config_ok C" and "sched_env_ok C E"
    and "prio_inv (\<lambda>q. q < NR_SCHED_QUEUES C) s"
    and "foldl (sched_step do_noquantum_a03 balance_queues_a03) (fuel, C, E, Some s) calls
           = (fuel, C, E, Some s')"
  shows "prio_inv (\<lambda>q. q < NR_SCHED_QUEUES C) s'"
  using rr.run_inv [of "(fuel, C, E, Some s)" calls] assms by simp

text \<open>The priorities after \<open>k\<close> expired quanta in a row of the process with endpoint \<open>e\<close>.\<close>

definition expire :: "sched_config \<Rightarrow> 'k sched_env \<Rightarrow> sched_message \<Rightarrow> nat \<Rightarrow> 'k sched_state \<Rightarrow> 'k sched_state" where
  "expire C E m k s = ((\<lambda>s. snd (do_noquantum C E m s)) ^^ k) s"

definition expire_a03 :: "sched_config \<Rightarrow> 'k sched_env \<Rightarrow> sched_message \<Rightarrow> nat \<Rightarrow> 'k sched_state \<Rightarrow> 'k sched_state" where
  "expire_a03 C E m k s = ((\<lambda>s. snd (do_noquantum_a03 C E m s)) ^^ k) s"

text \<open>Endpoint lookup reads the endpoint and the flags of the slots only.\<close>

definition lookup_stable :: "'k sched_env \<Rightarrow> bool" where
  "lookup_stable E \<longleftrightarrow> (\<forall>tab tab' e.
     (\<forall>i. sp_endpoint (tab i) = sp_endpoint (tab' i) \<and> sp_in_use (tab i) = sp_in_use (tab' i)) \<longrightarrow>
     sched_isokendpt E tab e = sched_isokendpt E tab' e)"

lemma lookup_stableD:
  "lookup_stable E \<Longrightarrow>
   (\<And>i. sp_endpoint (tab i) = sp_endpoint (tab' i) \<and> sp_in_use (tab i) = sp_in_use (tab' i)) \<Longrightarrow>
   sched_isokendpt E tab e = sched_isokendpt E tab' e"
  unfolding lookup_stable_def by blast

lemma expire_step:
  assumes "lookup_stable E" and "sched_isokendpt E (procs s) (m_source m) = Inr n"
  shows "sched_isokendpt E (procs (expire C E m k s)) (m_source m) = Inr n"
    "sched_isokendpt E (procs (expire_a03 C E m k s)) (m_source m) = Inr n"
proof -
  have "sp_endpoint (procs (expire C E m k s) i) = sp_endpoint (procs s i) \<and>
        sp_in_use (procs (expire C E m k s) i) = sp_in_use (procs s i)"
    "sp_endpoint (procs (expire_a03 C E m k s) i) = sp_endpoint (procs s i) \<and>
        sp_in_use (procs (expire_a03 C E m k s) i) = sp_in_use (procs s i)" for i
    by (induction k) (simp_all add: expire_def expire_a03_def noquantum_frame)
  then show "sched_isokendpt E (procs (expire C E m k s)) (m_source m) = Inr n"
    "sched_isokendpt E (procs (expire_a03 C E m k s)) (m_source m) = Inr n"
    using assms(2) lookup_stableD [OF assms(1), of "procs s" "procs (expire C E m k s)"]
      lookup_stableD [OF assms(1), of "procs s" "procs (expire_a03 C E m k s)"]
    by simp_all
qed

lemma unat_dec: "(q :: u32) \<noteq> 0 \<Longrightarrow> unat (q - 1) = unat q - 1"
  by (simp add: unat_minus_one)

lemma unat_inc: "(q :: u32) < m \<Longrightarrow> unat (q + 1) = unat q + 1"
  by unat_arith

lemma fifo_before_wrap:
  assumes "lookup_stable E" and "sched_isokendpt E (procs s) (m_source m) = Inr n"
    and "sp_priority (procs s n) < MIN_USER_Q C" and "k \<le> unat (sp_priority (procs s n))"
  shows "unat (sp_priority (procs (expire C E m k s) n)) = unat (sp_priority (procs s n)) - k"
  using assms(4)
proof (induction k)
  case (Suc k)
  let ?t = "expire C E m k s"
  have q: "unat (sp_priority (procs ?t n)) = unat (sp_priority (procs s n)) - k" using Suc by simp
  then have "sp_priority (procs ?t n) \<le> sp_priority (procs s n)" by (simp add: word_le_nat_alt)
  then have lt: "sp_priority (procs ?t n) < MIN_USER_Q C" using assms(3) by simp
  have nz: "sp_priority (procs ?t n) \<noteq> 0" using q Suc.prems by auto
  have "sp_priority (procs (expire C E m (Suc k) s) n) = sp_priority (procs ?t n) - 1"
    using noquantum_procs(1) [OF expire_step(1) [OF assms(1,2)], of C C k n] lt
    by (simp add: expire_def)
  with q nz show ?case by (simp add: unat_dec)
qed (simp add: expire_def)

text \<open>
  The pseudo-FIFO policy of Assignment 05 raises a process by one queue per expired
  quantum until it is in queue 0, and the next expiry takes its unsigned priority to
  \<open>UINT_MAX\<close>, where every later one leaves it.
\<close>

theorem fifo_priority_wraps:
  assumes "lookup_stable E" and "sched_isokendpt E (procs s) (m_source m) = Inr n"
    and "sp_priority (procs s n) < MIN_USER_Q C"
  defines "p \<equiv> unat (sp_priority (procs s n))"
  shows "(\<forall>k \<le> p. unat (sp_priority (procs (expire C E m k s) n)) = p - k) \<and>
         (\<forall>k > p. sp_priority (procs (expire C E m k s) n) = UINT_MAX)"
proof (intro conjI allI impI)
  show "unat (sp_priority (procs (expire C E m k s) n)) = p - k" if "k \<le> p" for k
    using fifo_before_wrap [OF assms(1-3)] that by (simp add: p_def)
  have one: "sp_priority (procs (expire C E m (Suc k) s) n) =
      (if sp_priority (procs (expire C E m k s) n) < MIN_USER_Q C
       then sp_priority (procs (expire C E m k s) n) - 1
       else sp_priority (procs (expire C E m k s) n))" for k
    using noquantum_procs(1) [OF expire_step(1) [OF assms(1,2)], of C C k n]
    by (simp add: expire_def)
  have zero: "sp_priority (procs (expire C E m p s) n) = 0"
    using fifo_before_wrap [OF assms(1-3), of p] by (simp add: p_def unat_eq_0)
  have pos: "0 < MIN_USER_Q C" using assms(3) by (meson le_less_trans word_zero_le)
  show "sp_priority (procs (expire C E m k s) n) = UINT_MAX" if "k > p" for k
    using that
  proof (induction k)
    case (Suc k)
    show ?case
    proof (cases "k = p")
      case True
      with one [of k] zero pos show ?thesis by simp
    next
      case False
      with Suc have "sp_priority (procs (expire C E m k s) n) = UINT_MAX" by simp
      with one [of k] show ?thesis by (simp add: word_order.not_eq_extremum [symmetric])
    qed
  qed simp
qed

text \<open>
  Under the policy of Assignment 03 a process sinks by one queue per expired quantum and
  stops in the lowest user queue.
\<close>

theorem rr_priority_sinks:
  assumes "lookup_stable E" and "sched_isokendpt E (procs s) (m_source m) = Inr n"
    and "sp_priority (procs s n) \<le> MIN_USER_Q C"
  shows "unat (sp_priority (procs (expire_a03 C E m k s) n)) =
           min (unat (MIN_USER_Q C)) (unat (sp_priority (procs s n)) + k)"
proof (induction k)
  case 0
  then show ?case using assms(3) by (simp add: expire_a03_def word_le_nat_alt)
next
  case (Suc k)
  let ?q = "sp_priority (procs (expire_a03 C E m k s) n)"
  have "sp_priority (procs (expire_a03 C E m (Suc k) s) n) = (if ?q < MIN_USER_Q C then ?q + 1 else ?q)"
    using noquantum_procs(2) [OF expire_step(2) [OF assms(1,2)], of C C k n]
    by (simp add: expire_a03_def)
  moreover have "?q < MIN_USER_Q C \<Longrightarrow> unat (?q + 1) = unat ?q + 1" by (rule unat_inc)
  ultimately show ?case using Suc.IH by (auto simp: word_less_nat_alt)
qed

lemma balance_round_a03_other:
  "i \<noteq> n \<Longrightarrow> procs (balance_round_a03 C E n s) i = procs s i"
  by (simp add: balance_round_a03_def)

lemma balance_round_a03_self:
  "sp_in_use (procs (balance_round_a03 C E n s) i) = sp_in_use (procs s i)"
  "sp_max_priority (procs (balance_round_a03 C E n s) i) = sp_max_priority (procs s i)"
  "sp_priority (procs (balance_round_a03 C E n s) n) =
     (if sp_in_use (procs s n) \<and> sp_priority (procs s n) > sp_max_priority (procs s n)
      then sp_priority (procs s n) - 1 else sp_priority (procs s n))"
  by (auto simp: balance_round_a03_def)

lemma balance_fold_a03:
  assumes "distinct xs"
  shows "sp_in_use (procs (fold (balance_round_a03 C E) xs s) i) = sp_in_use (procs s i) \<and>
    sp_max_priority (procs (fold (balance_round_a03 C E) xs s) i) = sp_max_priority (procs s i) \<and>
    sp_priority (procs (fold (balance_round_a03 C E) xs s) i) =
      (if i \<in> set xs \<and> sp_in_use (procs s i) \<and> sp_priority (procs s i) > sp_max_priority (procs s i)
       then sp_priority (procs s i) - 1 else sp_priority (procs s i))"
  using assms
proof (induction xs arbitrary: s)
  case (Cons x xs)
  have "sp_priority (procs (balance_round_a03 C E x s) i) = sp_priority (procs s i)" if "i \<noteq> x"
    using that by (simp add: balance_round_a03_other)
  with Cons show ?case by (cases "i = x") (auto simp: balance_round_a03_self)
qed simp

lemma balance_queues_a03_slot:
  "sp_in_use (procs (balance_queues_a03 C E s) i) = sp_in_use (procs s i)"
  "sp_max_priority (procs (balance_queues_a03 C E s) i) = sp_max_priority (procs s i)"
  "sp_priority (procs (balance_queues_a03 C E s) i) =
     (if i < NR_PROCS C \<and> sp_in_use (procs s i) \<and> sp_priority (procs s i) > sp_max_priority (procs s i)
      then sp_priority (procs s i) - 1 else sp_priority (procs s i))"
  using balance_fold_a03 [of "[0..<NR_PROCS C]" C E s i]
  by (auto simp: balance_queues_a03_def Let_def)

text \<open>
  The balancing timer of Assignment 03 pulls a process that has sunk below its maximal
  priority back by one queue per run, and leaves it there: after \<open>j\<close> runs its queue is
  the maximal priority or \<open>j\<close> queues better, whichever is the lower queue.
\<close>

theorem rr_balance_converges:
  assumes "n < NR_PROCS C" and "sp_in_use (procs s n)"
    and "sp_max_priority (procs s n) \<le> sp_priority (procs s n)"
  shows "unat (sp_priority (procs ((balance_queues_a03 C E ^^ j) s) n)) =
           max (unat (sp_max_priority (procs s n))) (unat (sp_priority (procs s n)) - j)"
proof -
  have frame: "sp_in_use (procs ((balance_queues_a03 C E ^^ j) s) n) = sp_in_use (procs s n) \<and>
     sp_max_priority (procs ((balance_queues_a03 C E ^^ j) s) n) = sp_max_priority (procs s n)" for j
    by (induction j) (simp_all add: balance_queues_a03_slot)
  show ?thesis
  proof (induction j)
    case 0
    then show ?case using assms(3) by (simp add: word_le_nat_alt)
  next
    case (Suc j)
    let ?t = "(balance_queues_a03 C E ^^ j) s"
    have "sp_priority (procs ?t n) \<noteq> 0" if "sp_priority (procs ?t n) > sp_max_priority (procs s n)"
      using that by auto
    with Suc.IH assms(1,2) frame [of j] show ?case
      by (auto simp: balance_queues_a03_slot unat_dec word_less_nat_alt)
  qed
qed

text \<open>
  The balancing timer of Assignment 05 changes no priority, ever: it only tells the
  kernel again about the processes that are below their maximal priority.
\<close>

theorem fifo_balance_keeps_priorities:
  "sp_priority (procs ((balance_queues C E ^^ j) s) n) = sp_priority (procs s n) \<and>
   sp_max_priority (procs ((balance_queues C E ^^ j) s) n) = sp_max_priority (procs s n)"
proof -
  have round: "sp_priority (procs (balance_round C E i t) n) = sp_priority (procs t n)"
    "sp_max_priority (procs (balance_round C E i t) n) = sp_max_priority (procs t n)"
    for i and t :: "'a sched_state"
    by (simp_all add: balance_round_def)
  have "sp_priority (procs (balance_queues C E t) n) = sp_priority (procs t n)"
    "sp_max_priority (procs (balance_queues C E t) n) = sp_max_priority (procs t n)"
    for t :: "'a sched_state"
    using fold_frame [where g = "\<lambda>t. sp_priority (procs t n)", OF round(1)]
      fold_frame [where g = "\<lambda>t. sp_max_priority (procs t n)", OF round(2)]
    by (simp_all add: balance_queues_def Let_def)
  then show ?thesis by (induction j) simp_all
qed

subsection \<open>Changing the nice level\<close>

text \<open>
  \<open>do_nice\<close> is all or nothing. It touches no slot but the target's; it either
  reports \<open>OK\<close> with both priorities of the target at the requested queue, which the
  kernel has accepted, or an error with both at their old values; a queue the machine does
  not have is refused before anything is changed.
\<close>

theorem nice_all_or_nothing:
  assumes "do_nice C E m s = (rv, s')"
    and "sched_isokendpt E (procs s) (m_endpoint m) = Inr n"
  shows "(\<forall>i. i \<noteq> n \<longrightarrow> procs s' i = procs s i) \<and>
     (if rv = OK then
        accept_message E m \<and> m_maxprio m < NR_SCHED_QUEUES C \<and>
        sp_priority (procs s' n) = m_maxprio m \<and> sp_max_priority (procs s' n) = m_maxprio m \<and>
        fst (sys_schedule E (sp_endpoint (procs s n)) (sint (m_maxprio m))
               (sint (sp_time_slice (procs s n))) (- 1) (kernel s)) = OK
      else
        sp_priority (procs s' n) = sp_priority (procs s n) \<and>
        sp_max_priority (procs s' n) = sp_max_priority (procs s n) \<and>
        (m_maxprio m \<ge> NR_SCHED_QUEUES C \<longrightarrow> s' = s))"
  using assms
  by (auto simp: do_nice_def Let_def schedule_process_local_eq split: if_splits prod.splits)

subsection \<open>Load counts\<close>

text \<open>
  On a multiprocessor every expired quantum of an ordinary process adds one to the load
  count of a processor, although no process has started or moved: \<open>schedule_process\<close>
  calls \<open>pick_cpu\<close>, which counts, on each rescheduling, and only
  \<open>do_stop_scheduling\<close> takes one off.
\<close>

theorem noquantum_counts_load:
  assumes "CONFIG_SMP C" and "processors_count C \<noteq> 1"
    and "sched_isokendpt E (procs s) (m_source m) = Inr n"
    and "\<not> is_system_proc C (procs s n)"
  shows "\<exists>c. cpu_proc (snd (do_noquantum C E m s)) = (cpu_proc s)(c := cpu_proc s c + 1)"
proof -
  let ?s1 = "if sp_priority (procs s n) < MIN_USER_Q C
             then upd_slot n (sp_priority_update (\<lambda>q. q - 1)) s else s"
  have "cpu_proc (snd (do_noquantum C E m s)) = cpu_proc (pick_cpu C n ?s1)"
    using assms(3) by (simp add: do_noquantum_def schedule_process_local_def Let_def case_prod_beta)
  moreover have "\<not> is_system_proc C (procs ?s1 n)" using assms(4) by (simp add: is_system_proc_def)
  ultimately show ?thesis using pick_cpu_smp [OF assms(1,2), of ?s1 n] by (auto simp: Let_def)
qed

subsection \<open>Witnesses\<close>

text \<open>A machine with four processors and two processes, and a kernel that counts its calls.\<close>

definition ex_config :: sched_config where
  "ex_config = \<lparr>NR_PROCS = 4, NR_SCHED_QUEUES = 16, MIN_USER_Q = 15, USER_Q = 7, RS_PROC_NR = 2,
     SCHED_PROC_NR = 4, CONFIG_SMP = True, processors_count = 4, bsp_id = 0\<rparr>"

definition ex_lookup :: "(nat \<Rightarrow> schedproc) \<Rightarrow> endpoint \<Rightarrow> errno + nat" where
  "ex_lookup tab e = (if 0 \<le> e \<and> e < 4 \<and> sp_in_use (tab (nat e)) \<and> sp_endpoint (tab (nat e)) = e
                      then Inr (nat e) else Inl EDEADEPT)"

definition ex_empty :: "(nat \<Rightarrow> schedproc) \<Rightarrow> endpoint \<Rightarrow> errno + nat" where
  "ex_empty tab e = (if 0 \<le> e \<and> e < 4 \<and> \<not> sp_in_use (tab (nat e)) then Inr (nat e) else Inl EBADEPT)"

text \<open>The kernel of the example refuses processor 1.\<close>

definition ex_env :: "nat sched_env" where
  "ex_env = \<lparr>sched_isokendpt = ex_lookup, sched_isemtyendpt = ex_empty, accept_message = (\<lambda>_. True),
     sys_schedctl = (\<lambda>e k. (OK, k)),
     sys_schedule = (\<lambda>e p q c k. (if c = 1 then Err EBADCPU else OK, k + 1)), sys_hz = 60\<rparr>"

definition ex_proc :: "endpoint \<Rightarrow> bool \<Rightarrow> u32 \<Rightarrow> schedproc" where
  "ex_proc e u q = \<lparr>sp_endpoint = e, sp_parent = 1, sp_in_use = u, sp_max_priority = 7,
     sp_priority = q, sp_time_slice = 200, sp_cpu = 0\<rparr>"

definition ex_state :: "nat sched_state" where
  "ex_state = \<lparr>procs = (\<lambda>n. if n = 1 then ex_proc 1 True 9 else ex_proc (int n) False 0),
     cpu_proc = (\<lambda>_. 0), balance_timeout = 300, sched_timer = None, kernel = 0\<rparr>"

definition ex_msg :: "sched_mtype \<Rightarrow> endpoint \<Rightarrow> u32 \<Rightarrow> sched_message" where
  "ex_msg t e q = \<lparr>m_source = 1, m_type = t, m_endpoint = e, m_parent = 1, m_maxprio = q,
     m_quantum = 100, m_scheduler = 0\<rparr>"

lemmas ex_sched = ex_config_def ex_env_def ex_state_def ex_msg_def ex_proc_def ex_lookup_def ex_empty_def

lemma ex_env_ok: "sched_env_ok ex_config ex_env" "sched_config_ok ex_config" "lookup_stable ex_env"
  by (auto simp: sched_env_ok_def sched_config_ok_def lookup_stable_def ex_config_def ex_env_def
      ex_lookup_def ex_empty_def split: if_splits)

theorem pick_cpu_least_loaded_witness:
  "CONFIG_SMP ex_config \<and> sp_cpu (procs (pick_cpu ex_config 1 ex_state) 1) < 4"
  using pick_cpu_least_loaded [of ex_config ex_state 1]
  by (cases "sp_cpu (procs (pick_cpu ex_config 1 ex_state) 1) = 0")
    (simp_all add: ex_sched is_system_proc_def)

theorem start_scheduling_terminates_witness:
  "\<exists>rv m' s'. do_start_scheduling 5 ex_config ex_env (ex_msg SCHEDULING_START 2 7) ex_state
                = Some (rv, m', s')"
  by (rule start_scheduling_terminates) (simp_all add: ex_sched)

text \<open>The same machine in a uniprocessor build.\<close>

definition ex_config_up :: sched_config where
  "ex_config_up = ex_config\<lparr>CONFIG_SMP := False\<rparr>"

lemma ex_start_OK:
  "\<exists>m' s'. do_start_scheduling (Suc 0) ex_config_up ex_env (ex_msg SCHEDULING_INHERIT 2 7) ex_state
             = Some (OK, m', s')"
  by (simp add: do_start_scheduling_def start_populate_def start_init_special_def start_inherit_def
      start_take_over_def schedule_process_all_eq pick_cpu_def ex_config_up_def ex_sched Let_def)

theorem start_scheduling_success_witness:
  "\<exists>m' s'. do_start_scheduling (Suc 0) ex_config_up ex_env (ex_msg SCHEDULING_INHERIT 2 7) ex_state
     = Some (OK, m', s') \<and> sp_in_use (procs s' 2) \<and> sp_priority (procs s' 2) = 9"
proof -
  obtain m' s' where ok: "do_start_scheduling (Suc 0) ex_config_up ex_env
      (ex_msg SCHEDULING_INHERIT 2 7) ex_state = Some (OK, m', s')" using ex_start_OK by blast
  have "sched_env_ok ex_config_up ex_env"
    using ex_env_ok(1) by (simp add: sched_env_ok_def ex_config_up_def)
  from start_scheduling_success [OF this ok] show ?thesis
    using ok by (auto simp: ex_sched split: if_splits)
qed

theorem rr_priorities_in_range_witness:
  "\<exists>s'. foldl (sched_step do_noquantum_a03 balance_queues_a03) (5, ex_config, ex_env, Some ex_state)
          [NoQuantum (ex_msg OTHER_MTYPE 1 0)] = (5, ex_config, ex_env, Some s') \<and>
        prio_inv (\<lambda>q. q < 16) s'"
proof -
  have "prio_inv (\<lambda>q. q < NR_SCHED_QUEUES ex_config) ex_state" by (simp add: prio_inv_def ex_sched)
  from rr_priorities_in_range [OF ex_env_ok(2,1) this, of 5 "[NoQuantum (ex_msg OTHER_MTYPE 1 0)]"]
  show ?thesis by (simp add: ex_config_def)
qed

theorem fifo_priority_wraps_witness:
  "sp_priority (procs (expire ex_config ex_env (ex_msg OTHER_MTYPE 1 0) 10 ex_state) 1) = UINT_MAX"
  using fifo_priority_wraps [OF ex_env_ok(3), of ex_state "ex_msg OTHER_MTYPE 1 0" 1 ex_config]
  by (simp add: ex_sched)

theorem rr_priority_sinks_witness:
  "unat (sp_priority (procs (expire_a03 ex_config ex_env (ex_msg OTHER_MTYPE 1 0) 10 ex_state) 1)) = 15"
  using rr_priority_sinks [OF ex_env_ok(3), of ex_state "ex_msg OTHER_MTYPE 1 0" 1 ex_config 10]
  by (simp add: ex_sched)

theorem rr_balance_converges_witness:
  "unat (sp_priority (procs ((balance_queues_a03 ex_config ex_env ^^ 5) ex_state) 1)) = 7"
  using rr_balance_converges [of 1 ex_config ex_state 5 ex_env] by (simp add: ex_sched)

theorem nice_all_or_nothing_witness:
  "\<exists>s'. do_nice ex_config ex_env (ex_msg OTHER_MTYPE 1 16) ex_state = (Err EINVAL, s') \<and> s' = ex_state"
proof -
  have r: "do_nice ex_config ex_env (ex_msg OTHER_MTYPE 1 16) ex_state = (Err EINVAL, ex_state)"
    by (simp add: do_nice_def ex_sched Let_def)
  from nice_all_or_nothing [OF r, of 1] show ?thesis using r by (simp add: ex_sched)
qed

theorem noquantum_counts_load_witness:
  "\<exists>c. cpu_proc (snd (do_noquantum ex_config ex_env (ex_msg OTHER_MTYPE 1 0) ex_state))
         = (cpu_proc ex_state)(c := cpu_proc ex_state c + 1)"
  by (rule noquantum_counts_load [of _ _ _ _ 1]) (simp_all add: ex_sched is_system_proc_def)

end
