(* ===== verification/Sjf.thy ===== *)
theory Sjf
  imports Prelude
begin

text \<open>
  The shortest-job-first simulator \<open>Assignment 04/sjf-hash.c\<close>: the burst lists and the
  log of the processes, one CPU and one I/O device, and the main loop that advances them by
  one time unit per round.

  A linked list of \<open>processNode\<close>s is owned by one entry of \<open>proc\<close> and only ever
  extended at its end and popped at its head, so it is a list; the arrays are functions of
  the index. Files and messages on the screen, and the floating-point ratios and averages
  computed for them, are not part of the state. The input file is the list of numbers
  \<open>fscanf\<close> reads from it. On the workload of the assignment's input file the model
  gives the turnaround, waiting and response times of the statistics file kept with it.
\<close>

subsection \<open>State\<close>

datatype btype = CpuBurst | IoBurst

record processNode =
  val :: int
  btype :: btype
  age :: int

record processLogNode =
  log_pid :: int
  arrival_time :: int
  waiting_time :: int
  num_bursts :: int
  first_time :: int
  last_time :: int
  turnaround_time :: int
  response_time :: int
  service_time :: int
  status :: int

text \<open>\<open>struct io\<close> and \<open>struct cp\<close> have the same fields.\<close>

record device =
  idle :: bool
  curr_pid :: int
  time_left :: int

record sjf =
  proc :: "nat \<Rightarrow> processNode list"
  processLog :: "nat \<Rightarrow> processLogNode"
  nprocs :: nat
  clock :: int
  cpu :: device
  ioDevice :: device

definition MAX_PROCESSES :: nat where "MAX_PROCESSES = 100"
definition INT_MAX :: int where "INT_MAX = 2147483647"

definition zero_log :: processLogNode where
  "zero_log = \<lparr>log_pid = 0, arrival_time = 0, waiting_time = 0, num_bursts = 0, first_time = 0,
     last_time = 0, turnaround_time = 0, response_time = 0, service_time = 0, status = 0\<rparr>"

text \<open>The globals before \<open>main\<close>: zero, and the list heads \<open>main\<close> sets to \<open>NULL\<close>.\<close>

definition sjf_init :: sjf where
  "sjf_init = \<lparr>proc = (\<lambda>_. []), processLog = (\<lambda>_. zero_log), nprocs = 0, clock = 0,
     cpu = \<lparr>idle = False, curr_pid = 0, time_left = 0\<rparr>,
     ioDevice = \<lparr>idle = False, curr_pid = 0, time_left = 0\<rparr>\<rparr>"

abbreviation upd_log :: "nat \<Rightarrow> (processLogNode \<Rightarrow> processLogNode) \<Rightarrow> sjf \<Rightarrow> sjf" where
  "upd_log n f s \<equiv> s\<lparr>processLog := (processLog s)(n := f (processLog s n))\<rparr>"

abbreviation pop_proc :: "nat \<Rightarrow> sjf \<Rightarrow> sjf" where
  "pop_proc n s \<equiv> s\<lparr>proc := (proc s)(n := tl (proc s n))\<rparr>"

subsection \<open>Lists\<close>

text \<open>\<open>mem\<close> says whether \<open>malloc\<close> finds memory for the new node.\<close>

definition sjf_enqueue :: "bool \<Rightarrow> int \<Rightarrow> int list \<Rightarrow> int list outcome" where
  "sjf_enqueue mem ipid ioQueue = (if mem then Returned (ioQueue @ [ipid]) else Aborted ''exit(4)'')"

definition insert_node :: "bool \<Rightarrow> processNode list \<Rightarrow> int \<Rightarrow> btype \<Rightarrow> processNode list outcome" where
  "insert_node mem head ival itype =
     (if mem then Returned (head @ [\<lparr>val = ival, btype = itype, age = 0\<rparr>]) else Aborted ''exit(3)'')"

subsection \<open>Reading the input\<close>

text \<open>
  The bursts of process \<open>jj\<close>: the list, the service time, the number of bursts and the
  numbers left in the file. The \<open>n\<close>-th allocation for it succeeds if \<open>mem jj n\<close>.
\<close>

fun read_bursts ::
  "(nat \<Rightarrow> nat \<Rightarrow> bool) \<Rightarrow> nat \<Rightarrow> int list \<Rightarrow> nat \<Rightarrow> processNode list \<Rightarrow> int \<Rightarrow>
     (processNode list \<times> int \<times> nat \<times> int list) outcome" where
  "read_bursts mem jj [] n l sv = Returned (l, sv, n, [])"
| "read_bursts mem jj (temp # ts) n l sv =
     (if temp = - 1 then Returned (l, sv, n, ts)
      else case insert_node (mem jj n) l temp (if n mod 2 = 0 then CpuBurst else IoBurst) of
             Aborted w \<Rightarrow> Aborted w
           | Returned l' \<Rightarrow> read_bursts mem jj ts (n + 1) l' (sv + temp))"

lemma read_bursts_length:
  "read_bursts mem jj ts n l sv = Returned (l', sv', n', rest) \<Longrightarrow> length rest \<le> length ts"
proof (induction ts arbitrary: n l sv)
  case (Cons t ts)
  then show ?case by (fastforce split: if_splits outcome.splits)
qed simp

definition log_arrival :: "nat \<Rightarrow> int \<Rightarrow> processLogNode \<Rightarrow> processLogNode" where
  "log_arrival jj arrival p = p\<lparr>log_pid := int jj, arrival_time := arrival, waiting_time := 0,
     turnaround_time := - 1, response_time := - 1, first_time := - 1, service_time := 0,
     last_time := - 1, status := 0\<rparr>"

text \<open>
  \<open>processLog[i].num_bursts = n\<close> uses the index \<open>i\<close> of the loop before, which is
  \<open>MAX_PROCESSES\<close> there.
\<close>

definition read_one :: "nat \<Rightarrow> int \<Rightarrow> processNode list \<times> int \<times> nat \<times> int list \<Rightarrow> sjf \<Rightarrow> sjf" where
  "read_one i arrival = (\<lambda>(l, sv, n, rest) s.
     let s1 = upd_log (nprocs s) (service_time_update (\<lambda>_. sv) \<circ> log_arrival (nprocs s) arrival) s;
         s2 = s1\<lparr>proc := (proc s1)(nprocs s := l)\<rparr>;
         s3 = upd_log i (num_bursts_update (\<lambda>_. int n)) s2
     in s3\<lparr>nprocs := nprocs s + 1\<rparr>)"

function read_procs :: "(nat \<Rightarrow> nat \<Rightarrow> bool) \<Rightarrow> int list \<Rightarrow> sjf \<Rightarrow> sjf outcome" where
  "read_procs mem [] s = Returned s"
| "read_procs mem (arrival # ts) s =
     (case read_bursts mem (nprocs s) ts 0 (proc s (nprocs s)) 0 of
        Aborted w \<Rightarrow> Aborted w
      | Returned (l, sv, n, rest) \<Rightarrow>
          read_procs mem rest (read_one MAX_PROCESSES arrival (l, sv, n, rest) s))"
  by pat_completeness auto
termination
proof (relation "measure (\<lambda>(mem, ts, s). length ts)")
  fix mem arrival ts p l q sv r n rest and s :: sjf
  assume "read_bursts mem (nprocs s) ts 0 (proc s (nprocs s)) 0 = Returned p"
    and "(l, q) = p" and "(sv, r) = q" and "(n, rest) = r"
  then have "length rest \<le> length ts" by (auto dest: read_bursts_length)
  then show "((mem, rest, read_one MAX_PROCESSES arrival (l, sv, n, rest) s), mem, arrival # ts, s)
      \<in> measure (\<lambda>(mem, ts, s). length ts)" by simp
qed simp

definition sjf_start :: "sjf \<Rightarrow> sjf" where
  "sjf_start s = s\<lparr>cpu := (cpu s)\<lparr>idle := True\<rparr>, ioDevice := (ioDevice s)\<lparr>idle := True\<rparr>, clock := 0\<rparr>"

subsection \<open>Choosing the next process\<close>

fun find_next_from ::
  "sjf \<Rightarrow> btype \<Rightarrow> nat list \<Rightarrow> int \<Rightarrow> int \<Rightarrow> int \<Rightarrow> int" where
  "find_next_from s itype [] least_bt least_bt_ind least_age = least_bt_ind"
| "find_next_from s itype (r # rs) least_bt least_bt_ind least_age =
     (if arrival_time (processLog s r) > clock s then least_bt_ind
      else case proc s r of
        [] \<Rightarrow> find_next_from s itype rs least_bt least_bt_ind least_age
      | nd # _ \<Rightarrow>
          if val nd < least_bt \<and> btype nd = itype \<and> (clock s = 0 \<or> int r \<noteq> curr_pid (cpu s))
          then find_next_from s itype rs (val nd) (int r)
                 (if itype = IoBurst \<and> age nd < least_age then age nd else least_age)
          else find_next_from s itype rs least_bt least_bt_ind least_age)"

definition find_next :: "sjf \<Rightarrow> btype \<Rightarrow> int" where
  "find_next s itype = find_next_from s itype [0..<nprocs s] INT_MAX (- 1) INT_MAX"

fun update_from :: "nat list \<Rightarrow> sjf \<Rightarrow> sjf" where
  "update_from [] s = s"
| "update_from (r # rs) s =
     (if arrival_time (processLog s r) > clock s then s
      else update_from rs
        (case proc s r of
           [] \<Rightarrow> s
         | nd # _ \<Rightarrow> if btype nd = CpuBurst
                    then upd_log r (waiting_time_update (\<lambda>w. w + 1)) s else s))"

definition sjf_update :: "sjf \<Rightarrow> sjf" where
  "sjf_update s = update_from [0..<nprocs s] s"

subsection \<open>One round of the main loop\<close>

text \<open>Dispatching process \<open>p\<close> on the CPU, and the first unit of its burst.\<close>

definition sjf_cpu_dispatch :: "nat \<Rightarrow> sjf \<Rightarrow> sjf" where
  "sjf_cpu_dispatch p s =
     (let s1 = s\<lparr>cpu := \<lparr>idle = False, curr_pid = int p, time_left = val (hd (proc s p))\<rparr>\<rparr>;
          s2 = upd_log p (status_update (\<lambda>_. 2)) s1;
          s3 = (if first_time (processLog s2 p) = - 1
                then upd_log p (first_time_update (\<lambda>_. clock s2)) s2 else s2);
          s4 = pop_proc p s3;
          s5 = s4\<lparr>cpu := (cpu s4)\<lparr>time_left := time_left (cpu s4) - 1\<rparr>\<rparr>
      in if time_left (cpu s5) = 0 then s5\<lparr>cpu := (cpu s5)\<lparr>idle := True\<rparr>\<rparr> else s5)"

text \<open>The CPU half of a round: the new state and \<open>flag_pid\<close>.\<close>

definition sjf_cpu_phase :: "sjf \<Rightarrow> sjf \<times> int" where
  "sjf_cpu_phase s =
     (if idle (cpu s) then
        let pid_next = find_next s CpuBurst
        in if pid_next = - 1 \<or> (pid_next = curr_pid (ioDevice s) \<and> time_left (ioDevice s) \<ge> 1)
           then (s, - 1)
           else (sjf_cpu_dispatch (nat pid_next) s, pid_next)
      else
        let s1 = sjf_update s;
            flag_pid = curr_pid (cpu s1);
            s2 = (if time_left (cpu s1) = 1 then
                    (upd_log (nat (curr_pid (cpu s1))) (status_update (\<lambda>_. 1)) s1)
                      \<lparr>cpu := (cpu s1)\<lparr>idle := True, curr_pid := - 1\<rparr>\<rparr>
                  else s1)
        in (s2\<lparr>cpu := (cpu s2)\<lparr>time_left := time_left (cpu s2) - 1\<rparr>\<rparr>, flag_pid))"

definition sjf_io_dispatch :: "nat \<Rightarrow> sjf \<Rightarrow> sjf" where
  "sjf_io_dispatch p s =
     (let s1 = s\<lparr>ioDevice := \<lparr>idle = False, curr_pid = int p, time_left = val (hd (proc s p))\<rparr>\<rparr>;
          s2 = upd_log p (status_update (\<lambda>_. 3)) s1;
          s3 = pop_proc p s2;
          s4 = s3\<lparr>ioDevice := (ioDevice s3)\<lparr>time_left := time_left (ioDevice s3) - 1\<rparr>\<rparr>
      in if time_left (ioDevice s4) = 0 then s4\<lparr>ioDevice := (ioDevice s4)\<lparr>idle := True\<rparr>\<rparr> else s4)"

definition sjf_io_phase :: "int \<Rightarrow> sjf \<Rightarrow> sjf" where
  "sjf_io_phase flag_pid s =
     (if idle (ioDevice s) then
        let pid_next = find_next s IoBurst
        in if pid_next = - 1 \<or> flag_pid = pid_next then s else sjf_io_dispatch (nat pid_next) s
      else
        let s1 = (if time_left (ioDevice s) = 1 then
                    (upd_log (nat (curr_pid (ioDevice s))) (status_update (\<lambda>_. 1)) s)
                      \<lparr>ioDevice := (ioDevice s)\<lparr>idle := True\<rparr>\<rparr>
                  else s)
        in s1\<lparr>ioDevice := (ioDevice s1)\<lparr>time_left := time_left (ioDevice s1) - 1\<rparr>\<rparr>)"

text \<open>The check at the end of a round, for process \<open>k\<close>.\<close>

definition sjf_check_one :: "nat \<Rightarrow> sjf \<times> bool \<Rightarrow> sjf \<times> bool" where
  "sjf_check_one k = (\<lambda>(s, is_done).
     case proc s k of
       nd # rest \<Rightarrow>
         (if btype nd = IoBurst
          then s\<lparr>proc := (proc s)(k := nd\<lparr>age := age nd + 1\<rparr> # rest)\<rparr> else s, False)
     | [] \<Rightarrow>
         let s1 = (if last_time (processLog s k) < 0
                   then upd_log k (last_time_update (\<lambda>_. clock s - 1 + time_left (cpu s))) s else s)
         in (upd_log k (status_update (\<lambda>_. 4)) s1, is_done))"

definition sjf_check :: "sjf \<Rightarrow> sjf \<times> bool" where
  "sjf_check s = fold sjf_check_one [0..<nprocs s] (s, True)"

definition sjf_round :: "sjf \<Rightarrow> sjf \<times> bool" where
  "sjf_round s =
     (let (s1, flag_pid) = sjf_cpu_phase s;
          s2 = sjf_io_phase flag_pid s1
      in sjf_check (s2\<lparr>clock := clock s2 + 1\<rparr>))"

text \<open>The loop \<open>while(!done)\<close>, with fuel: one unit per round.\<close>

fun sjf_loop :: "nat \<Rightarrow> sjf \<Rightarrow> sjf option" where
  "sjf_loop 0 s = None"
| "sjf_loop (Suc fuel) s = (let (s', done) = sjf_round s in if done then Some s' else sjf_loop fuel s')"

definition sjf_finish_one :: "processLogNode \<Rightarrow> processLogNode" where
  "sjf_finish_one p = p\<lparr>turnaround_time := last_time p - arrival_time p,
                       response_time := first_time p - arrival_time p\<rparr>"

definition sjf_finish :: "sjf \<Rightarrow> sjf" where
  "sjf_finish s = fold (\<lambda>k. upd_log k sjf_finish_one) [0..<nprocs s] s"

text \<open>
  The program on its argument vector (its name first) and the numbers of the input file:
  \<open>None\<close> when the loop has used up its fuel.
\<close>

definition sjf_main ::
  "nat \<Rightarrow> (nat \<Rightarrow> nat \<Rightarrow> bool) \<Rightarrow> string list \<Rightarrow> int list \<Rightarrow> sjf outcome option" where
  "sjf_main fuel mem argv input =
     (if length argv > 2 then Some (Aborted ''exit(1)'')
      else if length argv < 2 then Some (Aborted ''exit(2)'')
      else case read_procs mem input sjf_init of
             Aborted w \<Rightarrow> Some (Aborted w)
           | Returned s \<Rightarrow> map_option (Returned \<circ> sjf_finish) (sjf_loop fuel (sjf_start s)))"

subsection \<open>The choice is the shortest job\<close>

text \<open>
  A process can be chosen for a device when it and every process before it have arrived,
  its next burst is for that device, and it is not the one the CPU names as its current
  process (which the first time unit does not look at).
\<close>

abbreviation next_burst :: "sjf \<Rightarrow> nat \<Rightarrow> int" where
  "next_burst s r \<equiv> val (hd (proc s r))"

definition candidate :: "sjf \<Rightarrow> btype \<Rightarrow> nat \<Rightarrow> bool" where
  "candidate s t r \<longleftrightarrow> proc s r \<noteq> [] \<and> btype (hd (proc s r)) = t \<and>
     (clock s = 0 \<or> int r \<noteq> curr_pid (cpu s))"

definition eligible :: "sjf \<Rightarrow> btype \<Rightarrow> nat \<Rightarrow> bool" where
  "eligible s t r \<longleftrightarrow> r < nprocs s \<and> (\<forall>q \<le> r. arrival_time (processLog s q) \<le> clock s) \<and>
     candidate s t r \<and> next_burst s r < INT_MAX"

abbreviation arrived_prefix :: "sjf \<Rightarrow> nat list \<Rightarrow> nat list" where
  "arrived_prefix s rs \<equiv> takeWhile (\<lambda>r. arrival_time (processLog s r) \<le> clock s) rs"

lemma find_next_from_spec:
  fixes s :: sjf and t :: btype
  assumes "sorted_wrt (<) rs"
  defines "W lb \<equiv> {r \<in> set (arrived_prefix s rs). candidate s t r \<and> next_burst s r < lb}"
  shows "W lb = {} \<and> find_next_from s t rs lb ind la = ind \<or>
         (\<exists>p \<in> W lb. find_next_from s t rs lb ind la = int p \<and>
            (\<forall>q \<in> W lb. next_burst s p \<le> next_burst s q \<and> (q < p \<longrightarrow> next_burst s p < next_burst s q)))"
  using assms(1) unfolding W_def
proof (induction rs arbitrary: lb ind la)
  case (Cons r rs)
  let ?W = "\<lambda>rs lb. {q \<in> set (arrived_prefix s rs). candidate s t q \<and> next_burst s q < lb}"
  have later: "\<And>q. q \<in> set (arrived_prefix s rs) \<Longrightarrow> r < q"
    using Cons.prems by (auto dest: set_takeWhileD)
  have sorted: "sorted_wrt (<) rs" using Cons.prems by simp
  show ?case
  proof (cases "arrival_time (processLog s r) > clock s")
    case True
    then show ?thesis by simp
  next
    case arrived: False
    show ?thesis
    proof (cases "candidate s t r \<and> next_burst s r < lb")
      case True
      then obtain la' where rec: "find_next_from s t (r # rs) lb ind la =
          find_next_from s t rs (next_burst s r) (int r) la'"
        using arrived by (auto simp: candidate_def neq_Nil_conv split: list.splits)
      have W: "?W (r # rs) lb = insert r {q \<in> set (arrived_prefix s rs). candidate s t q \<and> next_burst s q < lb}"
        using arrived True by auto
      from Cons.IH [OF sorted, of "next_burst s r" "int r" la'] show ?thesis
      proof
        assume "?W rs (next_burst s r) = {} \<and>
          find_next_from s t rs (next_burst s r) (int r) la' = int r"
        then show ?thesis unfolding rec W using later by (intro disjI2 bexI [of _ r]) fastforce+
      next
        assume "\<exists>p \<in> ?W rs (next_burst s r). find_next_from s t rs (next_burst s r) (int r) la' = int p \<and>
            (\<forall>q \<in> ?W rs (next_burst s r). next_burst s p \<le> next_burst s q \<and>
               (q < p \<longrightarrow> next_burst s p < next_burst s q))"
        then obtain p where p: "p \<in> ?W rs (next_burst s r)"
            "find_next_from s t rs (next_burst s r) (int r) la' = int p"
            "\<forall>q \<in> ?W rs (next_burst s r). next_burst s p \<le> next_burst s q \<and>
               (q < p \<longrightarrow> next_burst s p < next_burst s q)" by blast
        then show ?thesis unfolding rec W using True by (intro disjI2 bexI [of _ p]) fastforce+
      qed
    next
      case False
      then have "find_next_from s t (r # rs) lb ind la = find_next_from s t rs lb ind la"
        using arrived by (auto simp: candidate_def split: list.splits)
      moreover have "?W (r # rs) lb = ?W rs lb" using arrived False by auto
      ultimately show ?thesis using Cons.IH [OF sorted, of lb ind la] by simp
    qed
  qed
qed simp

lemma set_arrived_prefix_upt:
  "set (arrived_prefix s [0..<n]) = {r. r < n \<and> (\<forall>q \<le> r. arrival_time (processLog s q) \<le> clock s)}"
proof (induction n)
  case (Suc n)
  show ?case
  proof (cases "\<forall>q < n. arrival_time (processLog s q) \<le> clock s")
    case True
    then have "arrived_prefix s [0..<Suc n] = [0..<n] @ arrived_prefix s [n]"
      by (simp add: takeWhile_append)
    moreover have equiv: "(\<forall>q \<le> r. arrival_time (processLog s q) \<le> clock s) \<longleftrightarrow>
        r < n \<or> arrival_time (processLog s n) \<le> clock s" if "r < Suc n" for r
      using True that by (cases "r = n") (auto, metis le_neq_implies_less)
    ultimately have "set (arrived_prefix s [0..<Suc n]) =
        {r. r < Suc n \<and> (r < n \<or> arrival_time (processLog s n) \<le> clock s)}"
      by (auto simp: less_Suc_eq)
    with equiv show ?thesis by auto
  next
    case False
    then obtain q where q: "q < n" "\<not> arrival_time (processLog s q) \<le> clock s" by auto
    then have "arrived_prefix s ([0..<n] @ [n]) = arrived_prefix s [0..<n]"
      by (intro takeWhile_append1 [of q]) auto
    with Suc q show ?thesis by (auto simp: less_Suc_eq)
  qed
qed simp

lemma find_next_cases:
  obtains (none) "find_next s t = - 1" "\<forall>r. \<not> eligible s t r"
  | (some) p where "find_next s t = int p" "eligible s t p"
      "\<forall>q. eligible s t q \<longrightarrow> next_burst s p \<le> next_burst s q \<and> (q < p \<longrightarrow> next_burst s p < next_burst s q)"
proof -
  have W: "{r \<in> set (arrived_prefix s [0..<nprocs s]). candidate s t r \<and> next_burst s r < INT_MAX} =
           {r. eligible s t r}"
    by (auto simp: set_arrived_prefix_upt eligible_def)
  from find_next_from_spec [of "[0..<nprocs s]" s t INT_MAX "- 1" INT_MAX]
  show thesis
    unfolding W find_next_def [symmetric] using that by auto
qed


subsection \<open>Work and device invariants\<close>

definition bursts_ok :: "int \<Rightarrow> sjf \<Rightarrow> bool" where
  "bursts_ok m s \<longleftrightarrow> (\<forall>k. \<forall>nd \<in> set (proc s k).
     1 \<le> val nd \<and> (btype nd = CpuBurst \<longrightarrow> m \<le> val nd) \<and> val nd < INT_MAX)"

definition device_ok :: "device \<Rightarrow> bool" where
  "device_ok d \<longleftrightarrow> (if idle d then time_left d \<le> 0 else 1 \<le> time_left d)"

definition device_work :: "device \<Rightarrow> nat" where
  "device_work d = (if idle d then 0 else nat (time_left d))"

definition list_work :: "sjf \<Rightarrow> nat" where
  "list_work s = (\<Sum>k < nprocs s. sum_list (map (nat \<circ> val) (proc s k)))"

definition work :: "sjf \<Rightarrow> nat" where
  "work s = list_work s + device_work (cpu s) + device_work (ioDevice s)"

lemma list_work_pop:
  assumes "p < nprocs s" and "proc s p \<noteq> []" and "proc s' = (proc s)(p := tl (proc s p))"
    and "nprocs s' = nprocs s"
  shows "list_work s = nat (val (hd (proc s p))) + list_work s'"
proof -
  have "(\<Sum>k < nprocs s. sum_list (map (nat \<circ> val) (proc s k))) =
      sum_list (map (nat \<circ> val) (proc s p)) + (\<Sum>k \<in> {..<nprocs s} - {p}. sum_list (map (nat \<circ> val) (proc s k)))"
    using assms(1) by (subst sum.remove [of _ p]) auto
  moreover have "(\<Sum>k < nprocs s. sum_list (map (nat \<circ> val) (proc s' k))) =
      sum_list (map (nat \<circ> val) (tl (proc s p))) + (\<Sum>k \<in> {..<nprocs s} - {p}. sum_list (map (nat \<circ> val) (proc s k)))"
    using assms(1,3) by (subst sum.remove [of _ p]) (auto intro!: sum.cong)
  ultimately show ?thesis
    using assms(2,4) by (cases "proc s p") (auto simp: list_work_def)
qed

lemma bursts_ok_pop:
  "bursts_ok m s \<Longrightarrow> proc s' = (proc s)(p := tl (proc s p)) \<Longrightarrow> bursts_ok m s'"
proof -
  assume ok: "bursts_ok m s" and s': "proc s' = (proc s)(p := tl (proc s p))"
  have "set (proc s' k) \<subseteq> set (proc s k)" for k
    using s' by (cases "proc s p") auto
  with ok show "bursts_ok m s'" unfolding bursts_ok_def by (meson subsetD)
qed

lemma bursts_ok_hd:
  "bursts_ok m s \<Longrightarrow> proc s p \<noteq> [] \<Longrightarrow> 1 \<le> next_burst s p \<and> next_burst s p < INT_MAX \<and>
     (btype (hd (proc s p)) = CpuBurst \<longrightarrow> m \<le> next_burst s p)"
  unfolding bursts_ok_def by (meson hd_in_set)

lemma update_from_frame:
  "proc (update_from rs s) = proc s \<and> cpu (update_from rs s) = cpu s \<and>
   ioDevice (update_from rs s) = ioDevice s \<and> nprocs (update_from rs s) = nprocs s \<and>
   clock (update_from rs s) = clock s \<and>
   (\<forall>k. arrival_time (processLog (update_from rs s) k) = arrival_time (processLog s k))"
proof (induction rs arbitrary: s)
  case (Cons r rs)
  let ?s = "case proc s r of [] \<Rightarrow> s
      | nd # _ \<Rightarrow> if btype nd = CpuBurst then upd_log r (waiting_time_update (\<lambda>w. w + 1)) s else s"
  have "proc ?s = proc s \<and> cpu ?s = cpu s \<and> ioDevice ?s = ioDevice s \<and> nprocs ?s = nprocs s \<and>
      clock ?s = clock s \<and> (\<forall>k. arrival_time (processLog ?s k) = arrival_time (processLog s k))"
    by (auto split: list.split)
  with Cons.IH [of ?s] show ?case by simp
qed simp

lemma sjf_update_frame [simp]:
  "proc (sjf_update s) = proc s" "cpu (sjf_update s) = cpu s" "ioDevice (sjf_update s) = ioDevice s"
  "nprocs (sjf_update s) = nprocs s" "clock (sjf_update s) = clock s"
  "arrival_time (processLog (sjf_update s) k) = arrival_time (processLog s k)"
  using update_from_frame [of "[0..<nprocs s]" s] by (simp_all add: sjf_update_def)

text \<open>What both halves of a round keep.\<close>

definition same_frame :: "sjf \<Rightarrow> sjf \<Rightarrow> bool" where
  "same_frame s s' \<longleftrightarrow> nprocs s' = nprocs s \<and> clock s' = clock s \<and>
     (\<forall>k. arrival_time (processLog s' k) = arrival_time (processLog s k))"

lemma cpu_dispatch_facts:
  assumes "p < nprocs s" "proc s p \<noteq> []"
  shows "proc (sjf_cpu_dispatch p s) = (proc s)(p := tl (proc s p))"
    "cpu (sjf_cpu_dispatch p s) = \<lparr>idle = (next_burst s p = 1), curr_pid = int p, time_left = next_burst s p - 1\<rparr>"
    "ioDevice (sjf_cpu_dispatch p s) = ioDevice s"
    "same_frame s (sjf_cpu_dispatch p s)"
  by (auto simp: sjf_cpu_dispatch_def same_frame_def Let_def)

lemma io_dispatch_facts:
  assumes "p < nprocs s" "proc s p \<noteq> []"
  shows "proc (sjf_io_dispatch p s) = (proc s)(p := tl (proc s p))"
    "ioDevice (sjf_io_dispatch p s) = \<lparr>idle = (next_burst s p = 1), curr_pid = int p, time_left = next_burst s p - 1\<rparr>"
    "cpu (sjf_io_dispatch p s) = cpu s"
    "same_frame s (sjf_io_dispatch p s)"
  by (auto simp: sjf_io_dispatch_def same_frame_def Let_def)

lemma eligibleD: "eligible s t p \<Longrightarrow> p < nprocs s \<and> proc s p \<noteq> [] \<and> btype (hd (proc s p)) = t"
  by (simp add: eligible_def candidate_def)

text \<open>The CPU half: it stays put, dispatches an eligible process, or runs the current one.\<close>

lemma cpu_phase_cases:
  assumes "sjf_cpu_phase s = (s1, flag)"
  obtains (stay) "idle (cpu s)" "s1 = s" "flag = - 1"
      "find_next s CpuBurst = - 1 \<or>
       find_next s CpuBurst = curr_pid (ioDevice s) \<and> time_left (ioDevice s) \<ge> 1"
  | (dispatch) p where "idle (cpu s)" "eligible s CpuBurst p" "s1 = sjf_cpu_dispatch p s" "flag = int p"
      "\<not> (int p = curr_pid (ioDevice s) \<and> time_left (ioDevice s) \<ge> 1)"
  | (run) "\<not> idle (cpu s)" "flag = curr_pid (cpu s)" "proc s1 = proc s" "ioDevice s1 = ioDevice s"
      "same_frame s s1"
      "cpu s1 = (if time_left (cpu s) = 1 then \<lparr>idle = True, curr_pid = - 1, time_left = 0\<rparr>
                 else (cpu s)\<lparr>time_left := time_left (cpu s) - 1\<rparr>)"
proof (cases "idle (cpu s)")
  case True
  show thesis
  proof (cases rule: find_next_cases [of s CpuBurst])
    case none
    with True assms have "s1 = s" "flag = - 1" by (simp_all add: sjf_cpu_phase_def)
    with True none(1) show thesis by (intro that(1)) simp_all
  next
    case (some p)
    show thesis
    proof (cases "int p = curr_pid (ioDevice s) \<and> time_left (ioDevice s) \<ge> 1")
      case blocked: True
      with True some(1) assms have "s1 = s" "flag = - 1" by (simp_all add: sjf_cpu_phase_def)
      with True some(1) blocked show thesis by (intro that(1)) simp_all
    next
      case False
      with True some(1) assms have "s1 = sjf_cpu_dispatch p s" "flag = int p"
        by (simp_all add: sjf_cpu_phase_def split: if_splits)
      with True some(2) False show thesis by (intro that(2)) simp_all
    qed
  qed
next
  case False
  show thesis
    by (rule that(3)) (use False assms in \<open>auto simp: sjf_cpu_phase_def Let_def same_frame_def\<close>)
qed

lemma io_phase_cases:
  obtains (stay) "idle (ioDevice s)" "sjf_io_phase flag s = s"
      "find_next s IoBurst = - 1 \<or> find_next s IoBurst = flag"
  | (dispatch) p where "idle (ioDevice s)" "eligible s IoBurst p" "int p \<noteq> flag"
      "sjf_io_phase flag s = sjf_io_dispatch p s"
  | (run) "\<not> idle (ioDevice s)" "proc (sjf_io_phase flag s) = proc s"
      "cpu (sjf_io_phase flag s) = cpu s" "same_frame s (sjf_io_phase flag s)"
      "ioDevice (sjf_io_phase flag s) = (ioDevice s)\<lparr>idle := (time_left (ioDevice s) = 1),
         time_left := time_left (ioDevice s) - 1\<rparr>"
proof (cases "idle (ioDevice s)")
  case True
  show thesis
  proof (cases rule: find_next_cases [of s IoBurst])
    case none
    with True have "sjf_io_phase flag s = s" by (simp add: sjf_io_phase_def)
    with True none(1) show thesis by (intro that(1)) simp_all
  next
    case (some p)
    show thesis
    proof (cases "int p = flag")
      case same: True
      with True some(1) have "sjf_io_phase flag s = s" by (simp add: sjf_io_phase_def)
      with True some(1) same show thesis by (intro that(1)) simp_all
    next
      case False
      with True some(1) have "sjf_io_phase flag s = sjf_io_dispatch p s" by (simp add: sjf_io_phase_def)
      with True some(2) False show thesis by (intro that(2)) simp_all
    qed
  qed
next
  case False
  show thesis
    by (rule that(3)) (use False in \<open>auto simp: sjf_io_phase_def Let_def same_frame_def\<close>)
qed

text \<open>The check at the end of a round changes ages and the log only.\<close>

abbreviation shape :: "sjf \<Rightarrow> nat \<Rightarrow> (int \<times> btype) list" where
  "shape s k \<equiv> map (\<lambda>nd. (val nd, btype nd)) (proc s k)"

definition same_but_ages :: "sjf \<Rightarrow> sjf \<Rightarrow> bool" where
  "same_but_ages s s' \<longleftrightarrow> same_frame s s' \<and> (\<forall>k. shape s' k = shape s k) \<and>
     cpu s' = cpu s \<and> ioDevice s' = ioDevice s"

lemma same_but_ages_trans:
  "same_but_ages s s' \<Longrightarrow> same_but_ages s' s'' \<Longrightarrow> same_but_ages s s''"
  by (simp add: same_but_ages_def same_frame_def)

lemma check_one_frame:
  "same_but_ages s (fst (sjf_check_one k (s, d)))"
  "snd (sjf_check_one k (s, d)) \<longleftrightarrow> d \<and> proc s k = []"
  by (auto simp: sjf_check_one_def same_but_ages_def same_frame_def Let_def split: list.split)

lemma same_ages_Nil: "same_but_ages s s' \<Longrightarrow> proc s' k = [] \<longleftrightarrow> proc s k = []"
proof -
  assume "same_but_ages s s'"
  then have "shape s' k = shape s k" by (simp add: same_but_ages_def)
  then have "length (proc s' k) = length (proc s k)" by (rule map_eq_imp_length_eq)
  then show ?thesis by auto
qed

lemma check_fold:
  "same_but_ages s (fst (fold sjf_check_one ks (s, d))) \<and>
   (snd (fold sjf_check_one ks (s, d)) \<longleftrightarrow> d \<and> (\<forall>k \<in> set ks. proc s k = []))"
proof (induction ks arbitrary: s d)
  case Nil
  then show ?case by (simp add: same_but_ages_def same_frame_def)
next
  case (Cons k ks)
  obtain s1 d1 where one: "sjf_check_one k (s, d) = (s1, d1)" by force
  then have "same_but_ages s s1" and d1: "d1 \<longleftrightarrow> d \<and> proc s k = []"
    using check_one_frame(1) [of s k d] check_one_frame(2) [of k s d] by simp_all
  then show ?case using Cons.IH [of s1 d1] one same_ages_Nil [of s s1]
    by (auto intro: same_but_ages_trans)
qed

lemma sjf_check_facts:
  "same_but_ages s (fst (sjf_check s))"
  "snd (sjf_check s) \<longleftrightarrow> (\<forall>k < nprocs s. proc s k = [])"
  using check_fold [of s "[0..<nprocs s]" True] by (auto simp: sjf_check_def)

lemma work_ages: "same_but_ages s s' \<Longrightarrow> work s' = work s"
proof -
  assume a: "same_but_ages s s'"
  have "sum_list (map (nat \<circ> val) (proc s' k)) = sum_list (map (nat \<circ> val) (proc s k))" for k
  proof -
    have vals: "map (nat \<circ> val) (proc t k) = map (nat \<circ> fst) (shape t k)" for t :: sjf by simp
    have "shape s' k = shape s k" using a by (simp add: same_but_ages_def)
    then show ?thesis unfolding vals by (rule arg_cong)
  qed
  with a show ?thesis by (simp add: work_def list_work_def same_but_ages_def same_frame_def)
qed

lemma bursts_ok_shape:
  "bursts_ok m s \<longleftrightarrow> (\<forall>k. \<forall>x \<in> set (shape s k). 1 \<le> fst x \<and> (snd x = CpuBurst \<longrightarrow> m \<le> fst x) \<and> fst x < INT_MAX)"
  by (auto simp: bursts_ok_def)

lemma bursts_ok_ages: "same_but_ages s s' \<Longrightarrow> bursts_ok m s' \<longleftrightarrow> bursts_ok m s"
  unfolding bursts_ok_shape same_but_ages_def by simp

subsection \<open>Invariant of the main loop\<close>

text \<open>
  Bursts are positive and the CPU bursts at least \<open>m\<close> long; a busy device has time left
  and an idle one has none; the two devices never work for the same process.
\<close>

definition sjf_inv :: "int \<Rightarrow> sjf \<Rightarrow> bool" where
  "sjf_inv m s \<longleftrightarrow> 1 \<le> m \<and> 0 \<le> clock s \<and> bursts_ok m s \<and> device_ok (cpu s) \<and> device_ok (ioDevice s) \<and>
     (\<not> idle (cpu s) \<longrightarrow> \<not> idle (ioDevice s) \<longrightarrow> curr_pid (cpu s) \<noteq> curr_pid (ioDevice s))"

lemma cpu_phase_inv:
  assumes "sjf_inv m s" and "sjf_cpu_phase s = (s1, flag)"
  shows "sjf_inv m s1 \<and> same_frame s s1 \<and> ioDevice s1 = ioDevice s \<and>
    (\<not> idle (cpu s1) \<longrightarrow> flag = curr_pid (cpu s1)) \<and>
    (if s1 = s \<and> idle (cpu s) then True else work s1 < work s)"
  using assms(2)
proof (cases rule: cpu_phase_cases)
  case stay
  with assms(1) show ?thesis by (simp add: same_frame_def)
next
  case (dispatch p)
  then have p: "p < nprocs s" "proc s p \<noteq> []" by (auto dest: eligibleD)
  note d = cpu_dispatch_facts [OF p]
  have b: "1 \<le> next_burst s p" using assms(1) p bursts_ok_hd by (auto simp: sjf_inv_def)
  have "list_work s = nat (next_burst s p) + list_work s1"
    using list_work_pop [OF p, of s1] d dispatch(3) by (simp add: same_frame_def)
  then have "work s1 < work s"
    using b dispatch d by (auto simp: work_def device_work_def)
  moreover have "bursts_ok m s1"
    using bursts_ok_pop [of m s s1 p] assms(1) d dispatch(3) by (simp add: sjf_inv_def)
  ultimately show ?thesis using assms(1) dispatch d b
    by (auto simp: sjf_inv_def device_ok_def same_frame_def)
next
  case run
  have eq: "list_work s1 = list_work s" using run by (simp add: list_work_def same_frame_def)
  have "1 \<le> time_left (cpu s)" using run(1) assms(1) by (auto simp: sjf_inv_def device_ok_def)
  then have "work s1 < work s" using run eq by (auto simp: work_def device_work_def)
  with run assms(1) show ?thesis
    by (auto simp: sjf_inv_def device_ok_def bursts_ok_def same_frame_def)
qed

lemma io_phase_inv:
  assumes "sjf_inv m s" and flag: "\<not> idle (cpu s) \<longrightarrow> flag = curr_pid (cpu s)"
  defines "s1 \<equiv> sjf_io_phase flag s"
  shows "sjf_inv m s1 \<and> same_frame s s1 \<and> cpu s1 = cpu s \<and>
    (if s1 = s \<and> idle (ioDevice s) then True else work s1 < work s)"
proof (cases rule: io_phase_cases [of s flag])
  case stay
  with assms(1) show ?thesis by (simp add: s1_def same_frame_def)
next
  case (dispatch p)
  then have p: "p < nprocs s" "proc s p \<noteq> []" by (auto dest: eligibleD)
  note d = io_dispatch_facts [OF p]
  have b: "1 \<le> next_burst s p" using assms(1) p bursts_ok_hd by (auto simp: sjf_inv_def)
  have "list_work s = nat (next_burst s p) + list_work s1"
    using list_work_pop [OF p, of s1] d dispatch(4) by (simp add: s1_def same_frame_def)
  then have "work s1 < work s"
    using b dispatch d by (auto simp: s1_def work_def device_work_def)
  moreover have "bursts_ok m s1"
    using bursts_ok_pop [of m s s1 p] assms(1) d dispatch(4) by (simp add: s1_def sjf_inv_def)
  ultimately show ?thesis using assms(1) flag dispatch d b
    by (auto simp: s1_def sjf_inv_def device_ok_def same_frame_def)
next
  case run
  have eq: "list_work s1 = list_work s" using run by (simp add: s1_def list_work_def same_frame_def)
  have "1 \<le> time_left (ioDevice s)" using run(1) assms(1) by (auto simp: sjf_inv_def device_ok_def)
  then have "work s1 < work s" using run eq by (auto simp: s1_def work_def device_work_def)
  with run assms(1) show ?thesis
    by (auto simp: s1_def sjf_inv_def device_ok_def bursts_ok_def same_frame_def)
qed

lemma clock_step_inv: "sjf_inv m s \<Longrightarrow> sjf_inv m (s\<lparr>clock := clock s + 1\<rparr>)"
  by (simp add: sjf_inv_def bursts_ok_def)

lemma ages_inv: "same_but_ages s s' \<Longrightarrow> sjf_inv m s \<Longrightarrow> sjf_inv m s'"
  using bursts_ok_ages [of s s' m] by (auto simp: sjf_inv_def same_but_ages_def same_frame_def)

lemma sjf_round_inv: "sjf_inv m s \<Longrightarrow> sjf_inv m (fst (sjf_round s))"
proof -
  assume inv: "sjf_inv m s"
  obtain s1 flag where c: "sjf_cpu_phase s = (s1, flag)" by force
  let ?s2 = "sjf_io_phase flag s1"
  from cpu_phase_inv [OF inv c] have "sjf_inv m s1" "\<not> idle (cpu s1) \<longrightarrow> flag = curr_pid (cpu s1)"
    by auto
  from io_phase_inv [OF this] have "sjf_inv m ?s2" by simp
  then have "sjf_inv m (?s2\<lparr>clock := clock ?s2 + 1\<rparr>)" by (rule clock_step_inv)
  then show ?thesis using ages_inv [OF sjf_check_facts(1)] by (simp add: sjf_round_def c Let_def)
qed

interpretation sjf_rounds: server "\<lambda>s (_ :: unit). fst (sjf_round s)" "sjf_inv m" for m
  by unfold_locales (rule sjf_round_inv)

text \<open>The state after \<open>n\<close> rounds of the loop.\<close>

definition sjf_rounds_from :: "nat \<Rightarrow> sjf \<Rightarrow> sjf" where
  "sjf_rounds_from n s = foldl (\<lambda>s (_ :: unit). fst (sjf_round s)) s (replicate n ())"

lemma read_procs_devices:
  "read_procs mem ts s = Returned s' \<Longrightarrow> cpu s' = cpu s \<and> ioDevice s' = ioDevice s \<and> nprocs s \<le> nprocs s'"
proof (induction mem ts s rule: read_procs.induct)
  case (2 mem arrival ts s)
  then show ?case
    by (fastforce simp: read_one_def Let_def split: outcome.splits prod.splits)
qed simp

lemma sjf_start_inv:
  assumes "read_procs mem input sjf_init = Returned s" and "bursts_ok m s" and "1 \<le> m"
  shows "sjf_inv m (sjf_start s)"
  using read_procs_devices [OF assms(1)] assms(2,3)
  by (auto simp: sjf_inv_def sjf_start_def sjf_init_def device_ok_def bursts_ok_def)

text \<open>
  C32: on an input whose bursts are all positive, the CPU and the I/O device never work for
  the same process at the same time, in any round of the simulation.
\<close>

theorem sjf_mutual_exclusion:
  fixes n :: nat
  assumes "read_procs mem input sjf_init = Returned s" and "bursts_ok 1 s"
  defines "s' \<equiv> sjf_rounds_from n (sjf_start s)"
  assumes "\<not> idle (cpu s')" and "\<not> idle (ioDevice s')"
  shows "curr_pid (cpu s') \<noteq> curr_pid (ioDevice s')"
proof -
  have "sjf_inv 1 (sjf_start s)" using assms(1,2) by (simp add: sjf_start_inv)
  then have "sjf_inv 1 s'" unfolding s'_def sjf_rounds_from_def by (rule sjf_rounds.run_inv)
  with assms(4,5) show ?thesis by (simp add: sjf_inv_def)
qed

subsection \<open>The loop ends\<close>

definition progress_inv :: "int \<Rightarrow> sjf \<Rightarrow> bool" where
  "progress_inv A s \<longleftrightarrow> sjf_inv 2 s \<and> (\<forall>k < nprocs s. arrival_time (processLog s k) \<le> A) \<and>
     (clock s = 0 \<longrightarrow> idle (ioDevice s) \<and> (idle (cpu s) \<longrightarrow> (\<exists>r. eligible s CpuBurst r))) \<and>
     (clock s \<noteq> 0 \<longrightarrow> idle (cpu s) \<longrightarrow> curr_pid (cpu s) = - 1)"

lemma no_find_next: "find_next s t = - 1 \<Longrightarrow> \<not> eligible s t r"
  by (cases rule: find_next_cases [of s t]) auto

lemma cpu_phase_released:
  assumes "progress_inv A s" and "sjf_cpu_phase s = (s1, flag)" and "idle (cpu s1)"
  shows "curr_pid (cpu s1) = - 1"
  using assms(2)
proof (cases rule: cpu_phase_cases)
  case stay
  have "clock s \<noteq> 0"
  proof
    assume "clock s = 0"
    then obtain r where r: "eligible s CpuBurst r" and "idle (ioDevice s)"
      using assms(1) stay(1) by (auto simp: progress_inv_def)
    then have "time_left (ioDevice s) \<le> 0" using assms(1)
      by (auto simp: progress_inv_def sjf_inv_def device_ok_def)
    with stay(4) have "find_next s CpuBurst = - 1" by auto
    with r show False using no_find_next by blast
  qed
  with assms(1) stay show ?thesis by (auto simp: progress_inv_def)
next
  case (dispatch p)
  then have p: "p < nprocs s" "proc s p \<noteq> []" "btype (hd (proc s p)) = CpuBurst"
    by (auto dest: eligibleD)
  then have "2 \<le> next_burst s p"
    using assms(1) bursts_ok_hd [of 2 s p] by (auto simp: progress_inv_def sjf_inv_def)
  with assms(3) dispatch(3) cpu_dispatch_facts(2) [OF p(1,2)] show ?thesis by simp
next
  case run
  with assms(3) show ?thesis by (auto split: if_splits)
qed

lemma sjf_round_progress_inv:
  assumes "progress_inv A s"
  shows "progress_inv A (fst (sjf_round s))" "clock (fst (sjf_round s)) = clock s + 1"
proof -
  obtain s1 flag where c: "sjf_cpu_phase s = (s1, flag)" by force
  let ?s2 = "sjf_io_phase flag s1"
  have inv: "sjf_inv 2 s" using assms by (simp add: progress_inv_def)
  note 1 = cpu_phase_inv [OF inv c]
  note 2 = io_phase_inv [of 2 s1 flag]
  let ?s3 = "?s2\<lparr>clock := clock ?s2 + 1\<rparr>"
  have r: "fst (sjf_round s) = fst (sjf_check ?s3)" by (simp add: sjf_round_def c Let_def)
  have ages: "same_but_ages ?s3 (fst (sjf_round s))" unfolding r by (rule sjf_check_facts(1))
  then show clk: "clock (fst (sjf_round s)) = clock s + 1"
    using 1 2 by (simp add: same_but_ages_def same_frame_def)
  have "idle (cpu (fst (sjf_round s))) \<longrightarrow> curr_pid (cpu (fst (sjf_round s))) = - 1"
    using ages 1 2 cpu_phase_released [OF assms c] by (simp add: same_but_ages_def)
  moreover have "\<forall>k < nprocs (fst (sjf_round s)). arrival_time (processLog (fst (sjf_round s)) k) \<le> A"
    using ages 1 2 assms by (simp add: same_but_ages_def same_frame_def progress_inv_def)
  moreover have "0 \<le> clock s" using inv by (simp add: sjf_inv_def)
  ultimately show "progress_inv A (fst (sjf_round s))"
    using sjf_round_inv [OF inv] clk by (simp add: progress_inv_def)
qed

lemma stuck_means_empty:
  assumes "progress_inv A s" and "A \<le> clock s" and "idle (cpu s)" and "idle (ioDevice s)"
    and "\<forall>r. \<not> eligible s CpuBurst r" and "\<forall>r. \<not> eligible s IoBurst r" and "k < nprocs s"
  shows "proc s k = []"
proof (rule ccontr)
  assume k: "proc s k \<noteq> []"
  have "arrival_time (processLog s q) \<le> clock s" if "q \<le> k" for q
  proof -
    have "q < nprocs s" using that assms(7) by simp
    with assms(1) have "arrival_time (processLog s q) \<le> A" by (simp add: progress_inv_def)
    with assms(2) show ?thesis by simp
  qed
  moreover have "next_burst s k < INT_MAX"
    using bursts_ok_hd [of 2 s k] k assms(1) by (auto simp: progress_inv_def sjf_inv_def)
  moreover have "clock s = 0 \<or> int k \<noteq> curr_pid (cpu s)"
    using assms(1,3) by (auto simp: progress_inv_def)
  ultimately have "eligible s (btype (hd (proc s k))) k"
    using k assms(7) by (simp add: eligible_def candidate_def)
  with assms(5,6) show False by (cases "btype (hd (proc s k))") auto
qed

lemma sjf_round_work:
  assumes "progress_inv A s" and "sjf_round s = (s', d)"
  shows "work s' \<le> work s" and "\<not> d \<Longrightarrow> A \<le> clock s \<Longrightarrow> work s' < work s"
proof -
  obtain s1 flag where c: "sjf_cpu_phase s = (s1, flag)" by force
  let ?s2 = "sjf_io_phase flag s1"
  have inv: "sjf_inv 2 s" using assms by (simp add: progress_inv_def)
  note 1 = cpu_phase_inv [OF inv c]
  note 2 = io_phase_inv [of 2 s1 flag]
  let ?s3 = "?s2\<lparr>clock := clock ?s2 + 1\<rparr>"
  have r: "(s', d) = sjf_check ?s3" using assms(2) by (simp add: sjf_round_def c Let_def)
  have "work s' = work ?s3" using work_ages sjf_check_facts(1) r by (metis fst_conv)
  also have "work ?s3 = work ?s2" by (simp add: work_def list_work_def)
  finally have w: "work s' = work ?s2" .
  have le: "work ?s2 \<le> work s1" "work s1 \<le> work s" using 1 2 by (auto split: if_splits)
  then show "work s' \<le> work s" using w by simp
  show "work s' < work s" if d: "\<not> d" and A: "A \<le> clock s"
  proof (rule ccontr)
    assume "\<not> work s' < work s"
    with le w 1 2 have stay: "s1 = s" "idle (cpu s)" "?s2 = s1" "idle (ioDevice s1)"
      by (auto split: if_splits)
    have tl: "time_left (ioDevice s) \<le> 0"
      using stay inv by (auto simp: sjf_inv_def device_ok_def)
    have CF: "(\<forall>r. \<not> eligible s CpuBurst r) \<and> flag = - 1"
      using c
    proof (cases rule: cpu_phase_cases)
      case stay
      with tl show ?thesis by (auto dest: no_find_next)
    next
      case (dispatch p)
      then have "proc s1 p = tl (proc s p)" "proc s p \<noteq> []" by (auto dest: eligibleD simp: cpu_dispatch_facts)
      with stay(1) show ?thesis by (cases "proc s p") auto
    next
      case run
      with stay(2) show ?thesis by simp
    qed
    have I: "\<forall>r. \<not> eligible s IoBurst r"
    proof (cases rule: io_phase_cases [of s flag])
      case stay
      with CF show ?thesis by (auto dest: no_find_next)
    next
      case (dispatch p)
      then have "proc ?s2 p = tl (proc s p)" "proc s p \<noteq> []"
        using stay(1) by (auto dest: eligibleD simp: io_dispatch_facts)
      with stay(1,3) show ?thesis by (cases "proc s p") auto
    next
      case run
      with stay(1,4) show ?thesis by simp
    qed
    have "\<forall>k < nprocs s. proc s k = []"
      using stuck_means_empty [OF assms(1) A] stay CF I by simp
    moreover have "snd (sjf_check ?s3) = d" unfolding r [symmetric] by simp
    ultimately have "d" using sjf_check_facts(2) [of ?s3] stay(1,3) by simp
    with d show False by simp
  qed
qed


lemma sjf_loop_ends:
  "progress_inv A s \<Longrightarrow> work s + nat (A - clock s) < fuel \<Longrightarrow> \<exists>s'. sjf_loop fuel s = Some s'"
proof (induction fuel arbitrary: s)
  case (Suc fuel)
  obtain s' d where r: "sjf_round s = (s', d)" by force
  show ?case
  proof (cases d)
    case True
    with r show ?thesis by simp
  next
    case False
    have inv: "progress_inv A s'" and clk: "clock s' = clock s + 1"
      using sjf_round_progress_inv [OF Suc.prems(1)] r by simp_all
    have "work s' + nat (A - clock s') < work s + nat (A - clock s)"
    proof (cases "A \<le> clock s")
      case True
      then show ?thesis using sjf_round_work(2) [OF Suc.prems(1) r False True] clk by simp
    next
      case False
      then show ?thesis using sjf_round_work(1) [OF Suc.prems(1) r] clk by simp
    qed
    with Suc.prems(2) have "work s' + nat (A - clock s') < fuel" by simp
    from Suc.IH [OF inv this] r False show ?thesis by simp
  qed
qed simp


subsection \<open>Input files\<close>

text \<open>A workload is a list of arrival times with bursts; its file is one line for each process.\<close>

definition burst_nodes :: "nat \<Rightarrow> int list \<Rightarrow> processNode list" where
  "burst_nodes n bs = map (\<lambda>(i, b). \<lparr>val = b, btype = if i mod 2 = 0 then CpuBurst else IoBurst, age = 0\<rparr>)
     (enumerate n bs)"

definition encode :: "(int \<times> int list) list \<Rightarrow> int list" where
  "encode ws = concat (map (\<lambda>(a, bs). a # bs @ [- 1]) ws)"

definition workload_ok :: "(int \<times> int list) list \<Rightarrow> bool" where
  "workload_ok ws \<longleftrightarrow> length ws \<le> MAX_PROCESSES \<and> (\<forall>(a, bs) \<in> set ws. - 1 \<notin> set bs)"

lemma read_bursts_encode:
  "- 1 \<notin> set bs \<Longrightarrow> read_bursts (\<lambda>_ _. True) jj (bs @ [- 1] @ rest) n l sv =
     Returned (l @ burst_nodes n bs, sv + sum_list bs, n + length bs, rest)"
  by (induction bs arbitrary: n l sv) (auto simp: insert_node_def burst_nodes_def)

definition loaded :: "(int \<times> int list) list \<Rightarrow> sjf \<Rightarrow> bool" where
  "loaded ws s \<longleftrightarrow> nprocs s = length ws \<and> (\<forall>k \<ge> length ws. proc s k = []) \<and>
     (\<forall>k < length ws. proc s k = burst_nodes 0 (snd (ws ! k)) \<and>
        arrival_time (processLog s k) = fst (ws ! k) \<and>
        service_time (processLog s k) = sum_list (snd (ws ! k)) \<and>
        first_time (processLog s k) = - 1 \<and> last_time (processLog s k) = - 1 \<and>
        waiting_time (processLog s k) = 0)"

lemma loaded_one:
  assumes "loaded ws s" and "length ws < MAX_PROCESSES"
  shows "loaded (ws @ [(a, bs)])
    (read_one MAX_PROCESSES a (proc s (nprocs s) @ burst_nodes 0 bs, sum_list bs, n, rest) s)"
  using assms by (auto simp: loaded_def read_one_def Let_def nth_append less_Suc_eq log_arrival_def)

lemma read_procs_loaded:
  "workload_ok (ws0 @ ws) \<Longrightarrow> loaded ws0 s \<Longrightarrow>
     \<exists>s'. read_procs (\<lambda>_ _. True) (encode ws) s = Returned s' \<and> loaded (ws0 @ ws) s'"
proof (induction ws arbitrary: ws0 s)
  case Nil
  then show ?case by (simp add: encode_def)
next
  case (Cons w ws)
  obtain a bs where w: "w = (a, bs)" by force
  let ?s = "read_one MAX_PROCESSES a
    (proc s (nprocs s) @ burst_nodes 0 bs, sum_list bs, length bs, encode ws) s"
  have bs: "- 1 \<notin> set bs" and len: "length ws0 < MAX_PROCESSES"
    using Cons.prems(1) w by (auto simp: workload_ok_def)
  have "loaded (ws0 @ [w]) ?s" unfolding w by (rule loaded_one [OF Cons.prems(2) len])
  moreover have "encode (w # ws) = a # bs @ [- 1] @ encode ws" by (simp add: encode_def w)
  then have "read_procs (\<lambda>_ _. True) (encode (w # ws)) s = read_procs (\<lambda>_ _. True) (encode ws) ?s"
    using read_bursts_encode [OF bs] by simp
  ultimately show ?case using Cons.IH [of "ws0 @ [w]" ?s] Cons.prems(1) by simp
qed

lemma read_encode:
  "workload_ok ws \<Longrightarrow> \<exists>s. read_procs (\<lambda>_ _. True) (encode ws) sjf_init = Returned s \<and> loaded ws s"
  using read_procs_loaded [of "[]" ws sjf_init] by (simp add: loaded_def sjf_init_def)



subsection \<open>Termination and the inputs that hang\<close>

text \<open>
  Every CPU burst takes at least two units and every I/O burst at least one, and the first
  process is there from the start.
\<close>

definition steady_workload :: "(int \<times> int list) list \<Rightarrow> bool" where
  "steady_workload ws \<longleftrightarrow> workload_ok ws \<and> ws \<noteq> [] \<and> fst (hd ws) \<le> 0 \<and> snd (hd ws) \<noteq> [] \<and>
     (\<forall>(a, bs) \<in> set ws. \<forall>i < length bs. (if even i then 2 else 1) \<le> bs ! i \<and> bs ! i < INT_MAX)"

lemma burst_nodes_set:
  "nd \<in> set (burst_nodes 0 bs) \<Longrightarrow> \<exists>i < length bs. val nd = bs ! i \<and> (btype nd = CpuBurst \<longleftrightarrow> even i)"
  by (auto simp: burst_nodes_def enumerate_eq_zip in_set_zip split: if_splits)

lemma steady_bursts_ok: "steady_workload ws \<Longrightarrow> loaded ws s \<Longrightarrow> bursts_ok 2 s"
  unfolding bursts_ok_def
proof (intro allI ballI)
  fix k nd
  assume ws: "steady_workload ws" and s: "loaded ws s" and nd: "nd \<in> set (proc s k)"
  then have k: "k < length ws" by (cases "k < length ws") (auto simp: loaded_def)
  with s nd have "nd \<in> set (burst_nodes 0 (snd (ws ! k)))" by (simp add: loaded_def)
  from burst_nodes_set [OF this] obtain i where
    i: "i < length (snd (ws ! k))" "val nd = snd (ws ! k) ! i" "btype nd = CpuBurst \<longleftrightarrow> even i" by blast
  have "ws ! k \<in> set ws" using k by simp
  with ws have "\<forall>i < length (snd (ws ! k)). (if even i then 2 else 1) \<le> snd (ws ! k) ! i \<and> snd (ws ! k) ! i < INT_MAX"
    unfolding steady_workload_def by (metis (no_types, lifting) case_prodE prod.sel(2))
  with i have "(if even i then 2 else 1) \<le> val nd" "val nd < INT_MAX" by auto
  with i(3) show "1 \<le> val nd \<and> (btype nd = CpuBurst \<longrightarrow> 2 \<le> val nd) \<and> val nd < INT_MAX"
    by (simp split: if_splits)
qed

definition total_work :: "(int \<times> int list) list \<Rightarrow> nat" where
  "total_work ws = (\<Sum>(a, bs) \<leftarrow> ws. \<Sum>b \<leftarrow> bs. nat b)"

lemma burst_nodes_vals: "map val (burst_nodes n bs) = bs"
  by (rule nth_equalityI) (simp_all add: burst_nodes_def enumerate_eq_zip)

lemma loaded_work: "loaded ws s \<Longrightarrow> list_work s = total_work ws"
proof -
  assume s: "loaded ws s"
  have "sum_list (map (nat \<circ> val) (burst_nodes 0 bs)) = (\<Sum>b \<leftarrow> bs. nat b)" for bs
    using burst_nodes_vals [of 0 bs] by (metis map_map)
  with s have "list_work s = (\<Sum>k < length ws. \<Sum>b \<leftarrow> snd (ws ! k). nat b)"
    by (simp add: list_work_def loaded_def)
  then show ?thesis
    by (simp add: total_work_def sum_list_sum_nth case_prod_beta atLeast0LessThan)
qed

lemma started_progress:
  assumes "steady_workload ws" and "read_procs (\<lambda>_ _. True) (encode ws) sjf_init = Returned s"
    and "loaded ws s" and "\<forall>(a, bs) \<in> set ws. a \<le> A"
  shows "progress_inv A (sjf_start s)" and "work (sjf_start s) = total_work ws"
proof -
  let ?s = "sjf_start s"
  have inv: "sjf_inv 2 ?s" using sjf_start_inv [OF assms(2) steady_bursts_ok] assms(1,3) by simp
  have 0: "0 < length ws" "ws ! 0 = hd ws" using assms(1) by (simp_all add: steady_workload_def hd_conv_nth)
  have arr: "arrival_time (processLog s 0) \<le> 0" and p0: "proc s 0 = burst_nodes 0 (snd (hd ws))"
    using assms(1,3) 0 by (auto simp: loaded_def steady_workload_def)
  obtain b bs where b: "snd (hd ws) = b # bs" using assms(1) by (cases "snd (hd ws)") (auto simp: steady_workload_def)
  have "next_burst s 0 < INT_MAX"
    using bursts_ok_hd [OF steady_bursts_ok [OF assms(1,3)], of 0] p0 b by (auto simp: burst_nodes_def)
  then have "eligible ?s CpuBurst 0"
    using arr p0 b 0 assms(3) by (simp add: eligible_def candidate_def sjf_start_def burst_nodes_def loaded_def)
  moreover have "arrival_time (processLog s k) \<le> A" if "k < length ws" for k
    using assms(3,4) that by (auto simp: loaded_def case_prod_beta)
  ultimately show "progress_inv A ?s" using inv assms(3)
    by (auto simp: progress_inv_def sjf_start_def loaded_def)
  show "work ?s = total_work ws" using loaded_work [OF assms(3)]
    by (simp add: work_def sjf_start_def device_work_def list_work_def)
qed

text \<open>What is known when the loop has ended.\<close>

lemma check_one_status:
  "proc s k = [] \<Longrightarrow> status (processLog (fst (sjf_check_one k (s, d))) k) = 4"
  "status (processLog s j) = 4 \<Longrightarrow> status (processLog (fst (sjf_check_one k (s, d))) j) = 4"
  by (auto simp: sjf_check_one_def Let_def split: list.split)

lemma check_fold_status:
  "(j \<in> set ks \<and> proc s j = []) \<or> status (processLog s j) = 4 \<Longrightarrow>
     status (processLog (fst (fold sjf_check_one ks (s, d))) j) = 4"
proof (induction ks arbitrary: s d)
  case (Cons k ks)
  obtain s1 d1 where one: "sjf_check_one k (s, d) = (s1, d1)" by force
  have "same_but_ages s s1" using check_one_frame(1) [of s k d] one by simp
  then have "(j \<in> set ks \<and> proc s1 j = []) \<or> status (processLog s1 j) = 4"
    using Cons.prems check_one_status(1) [of s k d] check_one_status(2) [of s j k d] one
      same_ages_Nil [of s s1 j] by auto
  from Cons.IH [OF this] one show ?case by simp
qed simp

lemma sjf_round_procs: "nprocs (fst (sjf_round s)) = nprocs s"
proof -
  obtain s1 flag where c: "sjf_cpu_phase s = (s1, flag)" by force
  then have "same_frame s s1"
    by (cases rule: cpu_phase_cases) (auto simp: same_frame_def sjf_cpu_dispatch_def Let_def)
  moreover have "same_frame s1 (sjf_io_phase flag s1)"
    by (cases rule: io_phase_cases [of s1 flag]) (auto simp: same_frame_def sjf_io_dispatch_def Let_def)
  ultimately show ?thesis
    using sjf_check_facts(1) [of "(sjf_io_phase flag s1)\<lparr>clock := clock (sjf_io_phase flag s1) + 1\<rparr>"]
    by (simp add: sjf_round_def c Let_def same_but_ages_def same_frame_def)
qed

lemma sjf_loop_result:
  "sjf_loop fuel s = Some s' \<Longrightarrow> nprocs s' = nprocs s \<and>
     (\<forall>k < nprocs s. proc s' k = [] \<and> status (processLog s' k) = 4)"
proof (induction fuel arbitrary: s)
  case (Suc fuel)
  obtain t d where r: "sjf_round s = (t, d)" by force
  have n: "nprocs t = nprocs s" using sjf_round_procs [of s] r by simp
  show ?case
  proof (cases d)
    case False
    with Suc r n show ?thesis by simp
  next
    case True
    obtain u where u: "sjf_round s = sjf_check u"
      by (cases "sjf_cpu_phase s") (auto simp: sjf_round_def Let_def)
    have nu: "nprocs u = nprocs s" using sjf_check_facts(1) [of u] r u n
      by (simp add: same_but_ages_def same_frame_def)
    have t: "t = fst (sjf_check u)" using u r by (metis fst_conv)
    have "snd (sjf_check u)" using u r True by (metis snd_conv)
    then have empty: "\<forall>k < nprocs s. proc u k = []" using sjf_check_facts(2) [of u] nu by simp
    have "status (processLog t k) = 4" if "k < nprocs s" for k
      using check_fold_status [of k "[0..<nprocs u]" u True] that empty nu by (simp add: t sjf_check_def)
    moreover have "proc t k = []" if "k < nprocs s" for k
      using same_ages_Nil [OF sjf_check_facts(1), of u k] that empty by (simp add: t)
    ultimately show ?thesis using Suc.prems r True n by simp
  qed
qed simp

lemma finish_fold:
  "proc (fold (\<lambda>k. upd_log k sjf_finish_one) ks s) = proc s \<and>
   nprocs (fold (\<lambda>k. upd_log k sjf_finish_one) ks s) = nprocs s \<and>
   processLog (fold (\<lambda>k. upd_log k sjf_finish_one) ks s) j =
     (if j \<in> set ks then sjf_finish_one (processLog s j) else processLog s j)"
  by (induction ks arbitrary: s) (auto simp: sjf_finish_one_def)

lemma sjf_finish_facts:
  "proc (sjf_finish s) = proc s" "nprocs (sjf_finish s) = nprocs s"
  "processLog (sjf_finish s) j = (if j < nprocs s then sjf_finish_one (processLog s j) else processLog s j)"
  using finish_fold [of "[0..<nprocs s]" s] by (simp_all add: sjf_finish_def)



text \<open>
  The simulator is stuck when both devices are idle and the only process with bursts left is
  the one the CPU names as its current process.
\<close>

definition stuck :: "nat \<Rightarrow> sjf \<Rightarrow> bool" where
  "stuck p s \<longleftrightarrow> 0 \<le> clock s \<and> idle (cpu s) \<and> idle (ioDevice s) \<and> p < nprocs s \<and>
     curr_pid (cpu s) = int p \<and> (\<forall>k < nprocs s. proc s k = [] \<longleftrightarrow> k \<noteq> p) \<and>
     (clock s = 0 \<longrightarrow> 0 < arrival_time (processLog s p))"

lemma stuck_not_eligible: "stuck p s \<Longrightarrow> \<not> eligible s t r"
  by (cases "r = p") (auto simp: stuck_def eligible_def candidate_def)

lemma not_eligible_find_next: "\<forall>r. \<not> eligible s t r \<Longrightarrow> find_next s t = - 1"
  by (cases rule: find_next_cases [of s t]) auto

lemma stuck_round: "stuck p s \<Longrightarrow> stuck p (fst (sjf_round s)) \<and> \<not> snd (sjf_round s)"
proof -
  assume s: "stuck p s"
  then have none: "find_next s t = - 1" for t using stuck_not_eligible not_eligible_find_next by blast
  let ?s = "s\<lparr>clock := clock s + 1\<rparr>"
  have r: "sjf_round s = sjf_check ?s"
    using s none by (simp add: sjf_round_def sjf_cpu_phase_def sjf_io_phase_def stuck_def)
  have same: "same_but_ages ?s (fst (sjf_check ?s))" by (rule sjf_check_facts(1))
  have "proc (fst (sjf_check ?s)) k = [] \<longleftrightarrow> proc s k = []" for k using same_ages_Nil [OF same, of k] by simp
  then have "stuck p (fst (sjf_check ?s))"
    using same s by (simp add: stuck_def same_but_ages_def same_frame_def)
  moreover have "\<not> snd (sjf_check ?s)" using sjf_check_facts(2) [of ?s] s by (auto simp: stuck_def)
  ultimately show ?thesis by (simp add: r)
qed

lemma stuck_loop: "stuck p s \<Longrightarrow> sjf_loop fuel s = None"
proof (induction fuel arbitrary: s)
  case (Suc fuel)
  obtain t d where "sjf_round s = (t, d)" by force
  with Suc stuck_round [of p s] show ?case by simp
qed simp

text \<open>
  The simulator never ends on a process that is alone and arrives after time 0: the CPU
  names process 0 as its current one from the start, so \<open>find_next\<close> passes over it.
\<close>

theorem sjf_late_arrival_hangs:
  assumes "0 < a" and "bs \<noteq> []" and "- 1 \<notin> set bs"
  shows "sjf_main fuel (\<lambda>_ _. True) [prog, file] (encode [(a, bs)]) = None"
proof -
  have "workload_ok [(a, bs)]" using assms(3) by (simp add: workload_ok_def MAX_PROCESSES_def)
  from read_encode [OF this] obtain s where
    s: "read_procs (\<lambda>_ _. True) (encode [(a, bs)]) sjf_init = Returned s" "loaded [(a, bs)] s" by blast
  have "stuck 0 (sjf_start s)"
    using read_procs_devices [OF s(1)] s(2) assms(1,2)
    by (simp add: stuck_def sjf_start_def sjf_init_def loaded_def burst_nodes_def enumerate_eq_zip zip_eq_Nil_iff)
  with s(1) show ?thesis by (simp add: sjf_main_def stuck_loop)
qed

text \<open>
  The simulator never ends on a process whose first CPU burst takes one unit and is
  followed by another burst: the CPU is idle again at once but keeps naming the process as
  its current one, so \<open>find_next\<close> passes over it for both devices.
\<close>

theorem sjf_unit_burst_hangs:
  assumes "a \<le> 0" and "bs \<noteq> []" and "- 1 \<notin> set bs"
  shows "sjf_main fuel (\<lambda>_ _. True) [prog, file] (encode [(a, 1 # bs)]) = None"
proof -
  have "workload_ok [(a, 1 # bs)]" using assms(3) by (simp add: workload_ok_def MAX_PROCESSES_def)
  from read_encode [OF this] obtain s0 where
    s0: "read_procs (\<lambda>_ _. True) (encode [(a, 1 # bs)]) sjf_init = Returned s0" "loaded [(a, 1 # bs)] s0" by blast
  define s where "s = sjf_start s0"
  have s: "nprocs s = 1" "proc s 0 = burst_nodes 0 (1 # bs)" "arrival_time (processLog s 0) = a" "clock s = 0"
      "idle (cpu s)" "idle (ioDevice s)" "curr_pid (ioDevice s) = 0" "time_left (ioDevice s) = 0"
    using read_procs_devices [OF s0(1)] s0(2) by (simp_all add: s_def sjf_start_def sjf_init_def loaded_def)
  have hd: "proc s 0 = \<lparr>val = 1, btype = CpuBurst, age = 0\<rparr> # burst_nodes 1 bs"
    by (simp add: s burst_nodes_def)
  obtain nd l where rest: "burst_nodes 1 bs = nd # l" and nd: "btype nd = IoBurst"
    using assms(2) by (cases bs) (auto simp: burst_nodes_def)
  have "find_next s CpuBurst = 0"
    using s(1,3,4) hd assms(1) by (simp add: find_next_def INT_MAX_def)
  then have c: "sjf_cpu_phase s = (sjf_cpu_dispatch 0 s, 0)" using s by (simp add: sjf_cpu_phase_def)
  define s1 where "s1 = sjf_cpu_dispatch 0 s"
  note d = cpu_dispatch_facts [of 0 s, folded s1_def]
  have s1: "proc s1 0 = nd # l" "cpu s1 = \<lparr>idle = True, curr_pid = 0, time_left = 0\<rparr>"
      "idle (ioDevice s1)" "nprocs s1 = 1" "clock s1 = 0"
    using d s(1,3-) hd rest by (simp_all add: same_frame_def)
  have "find_next s1 IoBurst = - 1 \<or> find_next s1 IoBurst = 0"
    using s1 nd by (simp add: find_next_def)
  then have io: "sjf_io_phase 0 s1 = s1" using s1 by (auto simp: sjf_io_phase_def)
  let ?s2 = "s1\<lparr>clock := 1\<rparr>"
  have r: "sjf_round s = sjf_check ?s2" using c io s1 by (simp add: sjf_round_def flip: s1_def)
  have same: "same_but_ages ?s2 (fst (sjf_check ?s2))" by (rule sjf_check_facts(1))
  have "stuck 0 (fst (sjf_round s))"
    using same same_ages_Nil [OF same, of 0] s1 by (simp add: r stuck_def same_but_ages_def same_frame_def)
  moreover have "\<not> snd (sjf_round s)" using sjf_check_facts(2) [of ?s2] s1 by (simp add: r)
  ultimately have "sjf_loop fuel s = None" by (cases fuel) (auto simp: stuck_loop split: prod.split)
  with s0(1) show ?thesis by (simp add: sjf_main_def s_def)
qed


subsection \<open>Concrete runs\<close>

text \<open>Two processes: bursts 3, 2 (I/O), 4 from time 0 and a burst of 2 from time 1.\<close>

abbreviation demo :: "(int \<times> int list) list" where
  "demo \<equiv> [(0, [3, 2, 4]), (1, [2])]"

lemma demo_steady: "steady_workload demo" "workload_ok demo"
  by code_simp+




theorem sjf_late_arrival_hangs_witness:
  "sjf_main 1000 (\<lambda>_ _. True) [''sjf'', ''input''] [5, 3, - 1] = None"
  using sjf_late_arrival_hangs [of 5 "[3]" 1000 "''sjf''" "''input''"] by (simp add: encode_def)

theorem sjf_unit_burst_hangs_witness:
  "sjf_main 1000 (\<lambda>_ _. True) [''sjf'', ''input''] [0, 1, 2, 3, - 1] = None"
  using sjf_unit_burst_hangs [of 0 "[2, 3]" 1000 "''sjf''" "''input''"] by (simp add: encode_def)

theorem sjf_mutual_exclusion_witness:
  "\<exists>s. read_procs (\<lambda>_ _. True) (encode [(0, [2, 5]), (0, [4])]) sjf_init = Returned s \<and>
     \<not> idle (cpu (sjf_rounds_from 3 (sjf_start s))) \<and> \<not> idle (ioDevice (sjf_rounds_from 3 (sjf_start s))) \<and>
     curr_pid (cpu (sjf_rounds_from 3 (sjf_start s))) \<noteq> curr_pid (ioDevice (sjf_rounds_from 3 (sjf_start s)))"
proof -
  define s where "s = (case read_procs (\<lambda>_ _. True) (encode [(0, [2, 5]), (0, [4])]) sjf_init of
    Returned s \<Rightarrow> s | Aborted _ \<Rightarrow> sjf_init)"
  have w: "steady_workload [(0, [2, 5]), (0, [4])]" by code_simp
  then have "workload_ok [(0, [2, 5]), (0, [4])]" by (simp add: steady_workload_def)
  from read_encode [OF this] obtain s' where
    "read_procs (\<lambda>_ _. True) (encode [(0, [2, 5]), (0, [4])]) sjf_init = Returned s'"
    and l: "loaded [(0, [2, 5]), (0, [4])] s'" by blast
  then have s: "read_procs (\<lambda>_ _. True) (encode [(0, [2, 5]), (0, [4])]) sjf_init = Returned s" "s' = s"
    by (simp_all add: s_def)
  have ok: "bursts_ok 1 s" using steady_bursts_ok [OF w l] s(2) by (auto simp: bursts_ok_def)
  have busy: "\<not> idle (cpu (sjf_rounds_from 3 (sjf_start s))) \<and> \<not> idle (ioDevice (sjf_rounds_from 3 (sjf_start s)))"
    unfolding s_def by code_simp
  with sjf_mutual_exclusion [OF s(1) ok, of 3] s(1) show ?thesis by blast
qed

end
