(* ===== verification/Pm.thy ===== *)
theory Pm
  imports Prelude
begin

text \<open>
  The process manager's half of \<open>fork\<close>, \<open>exit\<close> and \<open>waitpid\<close>:
  \<open>Assignment 02/part3/forkexit.c\<close>. A pointer into the process table \<open>mproc\<close> is
  its index, and \<open>mp\<close> is the entry of the caller, \<open>who_p\<close>. The flag word of an entry
  is the set of its flags. Calls that leave this file (the kernel, VM, the scheduler, and
  the other files of the process manager) are fields of \<open>pm_env\<close>; each of them is also
  recorded in \<open>events\<close>, in the order in which the code makes them. A panic or a failed
  assertion is the outcome \<open>Aborted\<close>.
\<close>

subsection \<open>Data\<close>

datatype mp_flag =
    IN_USE | WAITING | ZOMBIE | PROC_STOPPED | ALARM_ON | EXITING | TOLD_PARENT | TRACE_STOPPED
  | VFS_CALL | NEW_PARENT | TRACE_ZOMBIE | DELAY_CALL | TAINTED | PRIV_PROC | TRACE_EXIT
  | OTHER_FLAG nat

datatype trace_flag = TO_TRACEFORK | TO_OTHER nat

record mproc_t =
  mp_flags :: "mp_flag set"
  mp_endpoint :: endpoint
  mp_pid :: int
  mp_procgrp :: int
  mp_wpid :: int
  mp_parent :: int
  mp_tracer :: int
  mp_trace_flags :: "trace_flag set"
  mp_sigtrace :: "nat set"
  mp_scheduler :: endpoint
  mp_realuid :: nat
  mp_effuid :: nat
  mp_realgid :: nat
  mp_effgid :: nat
  mp_child_utime :: int
  mp_child_stime :: int
  mp_exitstatus :: int
  mp_sigstatus :: int
  mp_interval :: "nat \<Rightarrow> int"
  mp_name :: string
  mp_reply_status :: int
  mp_reply_data :: int

text \<open>The constants of the headers.\<close>

record pm_config =
  NR_PROCS :: nat
  NO_TRACER :: int
  INIT_PROC_NR :: int
  VFS_PROC_NR :: int
  RS_PROC_NR :: int
  SCHED_PROC_NR :: int
  NONE_EP :: int
  NR_ITIMERS :: nat
  NSIG :: nat
  SIGCHLD :: nat
  SIGKILL :: nat
  SIGSTOP :: nat
  SIGHUP :: nat

definition LAST_FEW :: int where "LAST_FEW = 2"

text \<open>The requests to VFS, with the fields the code fills in.\<close>

datatype vfs_request =
    VFS_PM_FORK endpoint endpoint int int int
  | VFS_PM_SRV_FORK endpoint endpoint int int int
  | VFS_PM_EXIT endpoint
  | VFS_PM_DUMPCORE endpoint int string

datatype pm_event =
    VmFork endpoint nat
  | TellVfs nat vfs_request
  | SigProc nat nat
  | CheckSig int nat
  | SetAlarm nat int
  | Reply int int
  | SysKill endpoint nat
  | SysTimes endpoint
  | SysStop endpoint
  | SysClear endpoint
  | SysStacktrace endpoint
  | VmWillexit endpoint
  | VmNotifySig endpoint
  | VmExit endpoint
  | SchedStop endpoint endpoint

record pm =
  mproc :: "nat \<Rightarrow> mproc_t"
  procs_in_use :: int
  who_p :: nat
  next_child :: nat \<comment> \<open>the static variable of \<open>do_fork\<close>\<close>
  next_child_srv :: nat \<comment> \<open>the static variable of \<open>do_srv_fork\<close>\<close>
  events :: "pm_event list"

text \<open>The calls into other parts of the system.\<close>

record pm_env =
  vm_fork :: "endpoint \<Rightarrow> nat \<Rightarrow> ret \<times> endpoint"
  get_free_pid :: "pm \<Rightarrow> int"
  tell_vfs :: "nat \<Rightarrow> vfs_request \<Rightarrow> pm \<Rightarrow> pm"
  sig_proc :: "nat \<Rightarrow> nat \<Rightarrow> pm \<Rightarrow> pm"
  check_sig :: "int \<Rightarrow> nat \<Rightarrow> pm \<Rightarrow> pm"
  set_alarm :: "nat \<Rightarrow> int \<Rightarrow> pm \<Rightarrow> pm"
  reply :: "int \<Rightarrow> int \<Rightarrow> pm \<Rightarrow> pm"
  sys_times :: "endpoint \<Rightarrow> ret \<times> int \<times> int"
  sys_stop :: "endpoint \<Rightarrow> ret"
  sys_clear :: "endpoint \<Rightarrow> ret"
  vm_willexit :: "endpoint \<Rightarrow> ret"
  vm_exit :: "endpoint \<Rightarrow> ret"
  sched_stop :: "endpoint \<Rightarrow> endpoint \<Rightarrow> ret"

abbreviation flags :: "pm \<Rightarrow> nat \<Rightarrow> mp_flag set" where
  "flags s i \<equiv> mp_flags (mproc s i)"

abbreviation upd_mp :: "nat \<Rightarrow> (mproc_t \<Rightarrow> mproc_t) \<Rightarrow> pm \<Rightarrow> pm" where
  "upd_mp i f s \<equiv> s\<lparr>mproc := (mproc s)(i := f (mproc s i))\<rparr>"

abbreviation set_flag :: "mp_flag \<Rightarrow> mproc_t \<Rightarrow> mproc_t" where
  "set_flag f \<equiv> mp_flags_update (insert f)"

abbreviation clear_flag :: "mp_flag \<Rightarrow> mproc_t \<Rightarrow> mproc_t" where
  "clear_flag f \<equiv> mp_flags_update (\<lambda>fs. fs - {f})"

abbreviation event :: "pm_event \<Rightarrow> pm \<Rightarrow> pm" where
  "event e s \<equiv> s\<lparr>events := events s @ [e]\<rparr>"

text \<open>A call: it is recorded, and then has its effect.\<close>

definition call_tell_vfs :: "pm_env \<Rightarrow> nat \<Rightarrow> vfs_request \<Rightarrow> pm \<Rightarrow> pm" where
  "call_tell_vfs E i m s = tell_vfs E i m (event (TellVfs i m) s)"

definition call_sig_proc :: "pm_env \<Rightarrow> nat \<Rightarrow> nat \<Rightarrow> pm \<Rightarrow> pm" where
  "call_sig_proc E i sig s = sig_proc E i sig (event (SigProc i sig) s)"

definition call_reply :: "pm_env \<Rightarrow> int \<Rightarrow> int \<Rightarrow> pm \<Rightarrow> pm" where
  "call_reply E p r s = reply E p r (event (Reply p r) s)"

text \<open>The macros of \<open>sys/wait.h\<close>, and the conversion to \<open>char\<close>.\<close>

definition W_EXITCODE :: "int \<Rightarrow> int \<Rightarrow> int" where
  "W_EXITCODE r sig = or (push_bit 8 r) sig"

definition W_STOPCODE :: "int \<Rightarrow> int" where
  "W_STOPCODE sig = or (push_bit 8 sig) 127"

definition to_char :: "int \<Rightarrow> int" where
  "to_char x = (x + 128) mod 256 - 128"

subsection \<open>Fork\<close>

text \<open>
  The search for a free slot: the slot and the number of rounds. The test
  \<open>n <= NR_PROCS\<close> bounds the rounds, so the recursion has at most \<open>NR_PROCS + 1\<close>
  of them.
\<close>

function find_slot :: "pm_config \<Rightarrow> pm \<Rightarrow> nat \<Rightarrow> nat \<Rightarrow> nat \<times> nat" where
  "find_slot C s nc n =
     (let nc' = (nc + 1) mod NR_PROCS C; n' = n + 1
      in if IN_USE \<in> flags s nc' \<and> n' \<le> NR_PROCS C then find_slot C s nc' n' else (nc', n'))"
  by pat_completeness auto
termination by (relation "measure (\<lambda>(C, s, nc, n). NR_PROCS C - n)") auto

declare find_slot.simps [simp del]

definition fork_full :: "pm_config \<Rightarrow> pm \<Rightarrow> bool" where
  "fork_full C s \<longleftrightarrow> procs_in_use s = int (NR_PROCS C) \<or>
     (procs_in_use s \<ge> int (NR_PROCS C) - LAST_FEW \<and> mp_effuid (mproc s (who_p s)) \<noteq> 0)"

text \<open>The copy of the parent's slot, and who traces the child.\<close>

definition fork_copy :: "pm_config \<Rightarrow> nat \<Rightarrow> mproc_t \<Rightarrow> mproc_t" where
  "fork_copy C who rmp =
     (let c = rmp\<lparr>mp_parent := int who\<rparr>
      in if TO_TRACEFORK \<in> mp_trace_flags c then c
         else c\<lparr>mp_tracer := NO_TRACER C, mp_trace_flags := {}, mp_sigtrace := {}\<rparr>)"

definition fork_reset :: "pm_config \<Rightarrow> mp_flag set \<Rightarrow> endpoint \<Rightarrow> mproc_t \<Rightarrow> mproc_t" where
  "fork_reset C inherit ep c = c\<lparr>mp_flags := mp_flags c \<inter> inherit, mp_child_utime := 0,
     mp_child_stime := 0, mp_exitstatus := 0, mp_sigstatus := 0, mp_endpoint := ep,
     mp_interval := fold (\<lambda>i f. f(i := 0)) [0..<NR_ITIMERS C] (mp_interval c)\<rparr>"

definition fork_inherit :: "mp_flag set" where "fork_inherit = {IN_USE, DELAY_CALL, TAINTED}"
definition srv_fork_inherit :: "mp_flag set" where "srv_fork_inherit = {IN_USE, PRIV_PROC, DELAY_CALL}"

definition tell_fork_tracer :: "pm_config \<Rightarrow> pm_env \<Rightarrow> nat \<Rightarrow> pm \<Rightarrow> pm" where
  "tell_fork_tracer C E nc s =
     (if mp_tracer (mproc s nc) \<noteq> NO_TRACER C then call_sig_proc E nc (SIGSTOP C) s else s)"

definition do_fork :: "pm_config \<Rightarrow> pm_env \<Rightarrow> pm \<Rightarrow> (pm \<times> ret) outcome" where
  "do_fork C E s =
     (let rmp = who_p s
      in if fork_full C s then Returned (s, Err EAGAIN)
      else let (nc, n) = find_slot C s (next_child s) 0; s1 = s\<lparr>next_child := nc\<rparr>
      in if n > NR_PROCS C then Aborted ''do_fork can't find child slot''
      else if nc \<ge> NR_PROCS C \<or> IN_USE \<in> flags s1 nc then Aborted ''do_fork finds wrong child slot''
      else let s2 = event (VmFork (mp_endpoint (mproc s1 rmp)) nc) s1;
               (r, child_ep) = vm_fork E (mp_endpoint (mproc s1 rmp)) nc
      in if r \<noteq> OK then Returned (s2, r)
      else let s3 = s2\<lparr>procs_in_use := procs_in_use s2 + 1\<rparr>;
               c = fork_copy C rmp (mproc s3 rmp)
      in if PRIV_PROC \<in> mp_flags c \<and> mp_scheduler c \<noteq> NONE_EP C then Aborted ''assert mp_scheduler == NONE''
      else let c1 = (if PRIV_PROC \<in> mp_flags c then c\<lparr>mp_scheduler := SCHED_PROC_NR C\<rparr> else c);
               s4 = s3\<lparr>mproc := (mproc s3)(nc := fork_reset C fork_inherit child_ep c1)\<rparr>;
               s5 = upd_mp nc (mp_pid_update (\<lambda>_. get_free_pid E s4)) s4;
               s6 = call_tell_vfs E nc (VFS_PM_FORK (mp_endpoint (mproc s5 nc)) (mp_endpoint (mproc s5 rmp))
                      (mp_pid (mproc s5 nc)) (- 1) (- 1)) s5
      in Returned (tell_fork_tracer C E nc s6, SUSPEND))"

text \<open>The fork of system services, with the user and group of the request.\<close>

definition do_srv_fork :: "pm_config \<Rightarrow> pm_env \<Rightarrow> nat \<Rightarrow> nat \<Rightarrow> pm \<Rightarrow> (pm \<times> ret) outcome" where
  "do_srv_fork C E uid gid s =
     (let rmp = who_p s
      in if mp_endpoint (mproc s rmp) \<noteq> RS_PROC_NR C then Returned (s, Err EPERM)
      else if fork_full C s then Returned (s, Err EAGAIN)
      else let (nc, n) = find_slot C s (next_child_srv s) 0; s1 = s\<lparr>next_child_srv := nc\<rparr>
      in if n > NR_PROCS C then Aborted ''do_fork can't find child slot''
      else if nc \<ge> NR_PROCS C \<or> IN_USE \<in> flags s1 nc then Aborted ''do_fork finds wrong child slot''
      else let s2 = event (VmFork (mp_endpoint (mproc s1 rmp)) nc) s1;
               (r, child_ep) = vm_fork E (mp_endpoint (mproc s1 rmp)) nc
      in if r \<noteq> OK then Returned (s2, r)
      else let s3 = s2\<lparr>procs_in_use := procs_in_use s2 + 1\<rparr>;
               c = fork_reset C srv_fork_inherit child_ep (fork_copy C rmp (mproc s3 rmp));
               c1 = c\<lparr>mp_realuid := uid, mp_effuid := uid, mp_realgid := gid, mp_effgid := gid\<rparr>;
               s4 = s3\<lparr>mproc := (mproc s3)(nc := c1)\<rparr>;
               s5 = upd_mp nc (mp_pid_update (\<lambda>_. get_free_pid E s4)) s4;
               s6 = call_tell_vfs E nc (VFS_PM_SRV_FORK (mp_endpoint (mproc s5 nc)) (mp_endpoint (mproc s5 rmp))
                      (mp_pid (mproc s5 nc)) (int uid) (int gid)) s5;
               s7 = tell_fork_tracer C E nc s6;
               s8 = call_reply E (int nc) 0 s7
      in Returned (s8, Ret (nat (mp_pid (mproc s8 nc)))))"

subsection \<open>Telling parents and tracers\<close>

definition cleanup :: "nat \<Rightarrow> pm \<Rightarrow> pm" where
  "cleanup i s = (upd_mp i (\<lambda>m. m\<lparr>mp_pid := 0, mp_flags := {}, mp_child_utime := 0, mp_child_stime := 0\<rparr>) s)
     \<lparr>procs_in_use := procs_in_use s - 1\<rparr>"

definition wait_test :: "mproc_t \<Rightarrow> mproc_t \<Rightarrow> bool" where
  "wait_test rmp child \<longleftrightarrow> WAITING \<in> mp_flags rmp \<and>
     (mp_wpid rmp = - 1 \<or> mp_wpid rmp = mp_pid child \<or> - mp_wpid rmp = mp_procgrp child)"

definition tell_parent :: "pm_env \<Rightarrow> nat \<Rightarrow> pm \<Rightarrow> pm outcome" where
  "tell_parent E child s =
     (let mp_par = mp_parent (mproc s child); parent = nat mp_par
      in if mp_par \<le> 0 then Aborted ''tell_parent: bad value in mp_parent''
      else if ZOMBIE \<notin> flags s child then Aborted ''tell_parent: child not a zombie''
      else if TOLD_PARENT \<in> flags s child then Aborted ''tell_parent: telling parent again''
      else let s1 = upd_mp parent (mp_reply_status_update (\<lambda>_.
                 W_EXITCODE (mp_exitstatus (mproc s child)) (mp_sigstatus (mproc s child)))) s;
               s2 = call_reply E mp_par (mp_pid (mproc s1 child)) s1;
               s3 = upd_mp parent (clear_flag WAITING) s2;
               s4 = upd_mp child (set_flag TOLD_PARENT \<circ> clear_flag ZOMBIE) s3
      in Returned s4)"

definition tell_tracer :: "pm_env \<Rightarrow> nat \<Rightarrow> pm \<Rightarrow> pm outcome" where
  "tell_tracer E child s =
     (let mp_trc = mp_tracer (mproc s child); tracer = nat mp_trc
      in if mp_trc \<le> 0 then Aborted ''tell_tracer: bad value in mp_tracer''
      else if TRACE_ZOMBIE \<notin> flags s child then Aborted ''tell_tracer: child not a zombie''
      else let s1 = upd_mp tracer (mp_reply_status_update (\<lambda>_.
                 W_EXITCODE (mp_exitstatus (mproc s child)) (and (mp_sigstatus (mproc s child)) 255))) s;
               s2 = call_reply E mp_trc (mp_pid (mproc s1 child)) s1;
               s3 = upd_mp tracer (clear_flag WAITING) s2;
               s4 = upd_mp child (set_flag ZOMBIE \<circ> clear_flag TRACE_ZOMBIE) s3
      in Returned s4)"

definition check_parent :: "pm_config \<Rightarrow> pm_env \<Rightarrow> nat \<Rightarrow> bool \<Rightarrow> pm \<Rightarrow> pm outcome" where
  "check_parent C E child try_cleanup s =
     (let p_mp = nat (mp_parent (mproc s child))
      in if EXITING \<in> flags s p_mp then Returned s
         else if wait_test (mproc s p_mp) (mproc s child) then
           bind_outcome (tell_parent E child s) (\<lambda>s1.
             Returned (if try_cleanup \<and> VFS_CALL \<notin> flags s1 child then cleanup child s1 else s1))
         else Returned (call_sig_proc E p_mp (SIGCHLD C) s))"

definition zombify :: "pm_config \<Rightarrow> pm_env \<Rightarrow> nat \<Rightarrow> pm \<Rightarrow> pm outcome" where
  "zombify C E rmp s =
     (if flags s rmp \<inter> {TRACE_ZOMBIE, ZOMBIE} \<noteq> {} then Aborted ''zombify: process was already a zombie''
      else if mp_tracer (mproc s rmp) \<noteq> NO_TRACER C \<and> mp_tracer (mproc s rmp) \<noteq> mp_parent (mproc s rmp) then
        let s1 = upd_mp rmp (set_flag TRACE_ZOMBIE) s;
            t_mp = nat (mp_tracer (mproc s1 rmp))
        in if \<not> wait_test (mproc s1 t_mp) (mproc s1 rmp) then Returned s1
           else bind_outcome (tell_tracer E rmp s1) (check_parent C E rmp False)
      else check_parent C E rmp False (upd_mp rmp (set_flag ZOMBIE) s))"

definition tracer_died :: "pm_config \<Rightarrow> pm_env \<Rightarrow> nat \<Rightarrow> pm \<Rightarrow> pm outcome" where
  "tracer_died C E child s =
     (let s1 = upd_mp child (clear_flag TRACE_EXIT \<circ> mp_tracer_update (\<lambda>_. NO_TRACER C)) s
      in if EXITING \<notin> flags s1 child then Returned (call_sig_proc E child (SIGKILL C) s1)
         else if TRACE_ZOMBIE \<in> flags s1 child then
           check_parent C E child True (upd_mp child (set_flag ZOMBIE \<circ> clear_flag TRACE_ZOMBIE) s1)
         else Returned s1)"

subsection \<open>Exit\<close>

text \<open>Accounting: the times of the process and of its children go to its parent.\<close>

definition exit_account :: "pm_env \<Rightarrow> nat \<Rightarrow> pm \<Rightarrow> pm outcome" where
  "exit_account E rmp s =
     (let ep = mp_endpoint (mproc s rmp); s1 = event (SysTimes ep) s; (r, ut, st) = sys_times E ep;
          p_mp = nat (mp_parent (mproc s1 rmp))
      in if r \<noteq> OK then Aborted ''exit_proc: sys_times failed''
         else let s2 = upd_mp p_mp (\<lambda>p. p\<lparr>mp_child_utime := mp_child_utime p + (ut + mp_child_utime (mproc s1 rmp))\<rparr>) s1
         in Returned (upd_mp p_mp (\<lambda>p. p\<lparr>mp_child_stime := mp_child_stime p + (st + mp_child_stime (mproc s2 rmp))\<rparr>) s2))"

definition exit_stop :: "pm_env \<Rightarrow> nat \<Rightarrow> pm \<Rightarrow> pm outcome" where
  "exit_stop E rmp s =
     (let ep = mp_endpoint (mproc s rmp)
      in bind_outcome
        (if PROC_STOPPED \<notin> flags s rmp then
           let s1 = event (SysStop ep) s
           in if sys_stop E ep \<noteq> OK then Aborted ''sys_stop failed''
              else Returned (upd_mp rmp (set_flag PROC_STOPPED) s1)
         else Returned s)
        (\<lambda>s1. let s2 = event (VmWillexit ep) s1
              in if vm_willexit E ep \<noteq> OK then Aborted ''exit_proc: vm_willexit failed''
                 else Returned (event (VmNotifySig ep) s2)))"

text \<open>Telling VFS; a system process is cleared at once.\<close>

definition exit_tell_vfs :: "pm_env \<Rightarrow> nat \<Rightarrow> bool \<Rightarrow> pm \<Rightarrow> pm outcome" where
  "exit_tell_vfs E rmp dump_core s =
     (let m = mproc s rmp;
          s1 = call_tell_vfs E rmp (if dump_core then VFS_PM_DUMPCORE (mp_endpoint m) (mp_sigstatus m) (mp_name m)
                                    else VFS_PM_EXIT (mp_endpoint m)) s;
          ep = mp_endpoint (mproc s1 rmp)
      in if PRIV_PROC \<in> flags s1 rmp then
           if sys_clear E ep \<noteq> OK then Aborted ''exit_proc: sys_clear failed''
           else Returned (event (SysClear ep) s1)
         else Returned s1)"

definition exit_mark :: "nat \<Rightarrow> int \<Rightarrow> pm \<Rightarrow> pm" where
  "exit_mark rmp exit_status = upd_mp rmp (\<lambda>m. m\<lparr>
     mp_flags := insert EXITING (mp_flags m \<inter> {IN_USE, VFS_CALL, PRIV_PROC, TRACE_EXIT, PROC_STOPPED}),
     mp_exitstatus := to_char exit_status\<rparr>)"

text \<open>The children and the traced processes of \<open>proc_nr\<close>: one slot, then all slots.\<close>

definition disinherit_child :: "pm_config \<Rightarrow> pm_env \<Rightarrow> int \<Rightarrow> nat \<Rightarrow> pm \<Rightarrow> pm outcome" where
  "disinherit_child C E proc_nr i s =
     (if mp_parent (mproc s i) = proc_nr then
        let s1 = upd_mp i (mp_parent_update (\<lambda>_. INIT_PROC_NR C)) s;
            s2 = (if VFS_CALL \<in> flags s1 i then upd_mp i (set_flag NEW_PARENT) s1 else s1)
        in if ZOMBIE \<in> flags s2 i then check_parent C E i True s2 else Returned s2
      else Returned s)"

definition disinherit_one :: "pm_config \<Rightarrow> pm_env \<Rightarrow> int \<Rightarrow> nat \<Rightarrow> pm \<Rightarrow> pm outcome" where
  "disinherit_one C E proc_nr i s =
     (if IN_USE \<notin> flags s i then Returned s
      else bind_outcome (if mp_tracer (mproc s i) = proc_nr then tracer_died C E i s else Returned s)
             (disinherit_child C E proc_nr i))"

fun disinherit :: "pm_config \<Rightarrow> pm_env \<Rightarrow> int \<Rightarrow> nat list \<Rightarrow> pm \<Rightarrow> pm outcome" where
  "disinherit C E proc_nr [] s = Returned s"
| "disinherit C E proc_nr (i # is) s =
     bind_outcome (disinherit_one C E proc_nr i s) (disinherit C E proc_nr is)"

definition exit_proc :: "pm_config \<Rightarrow> pm_env \<Rightarrow> nat \<Rightarrow> int \<Rightarrow> bool \<Rightarrow> pm \<Rightarrow> pm outcome" where
  "exit_proc C E rmp exit_status dump_core0 s =
     (let m = mproc s rmp; mp = mproc s (who_p s);
          dump_core = (dump_core0 \<and> mp_realuid m = mp_effuid m \<and> PRIV_PROC \<notin> mp_flags m);
          ep = mp_endpoint m;
          procgrp = (if mp_pid m = mp_procgrp mp then mp_procgrp mp else 0);
          s1 = (if ALARM_ON \<in> mp_flags m then set_alarm E rmp 0 (event (SetAlarm rmp 0) s) else s)
      in bind_outcome (exit_account E rmp s1) (\<lambda>s2.
         bind_outcome (exit_stop E rmp s2) (\<lambda>s3.
           if ep = INIT_PROC_NR C then Returned (event (SysStacktrace ep) s3)
           else if ep = VFS_PROC_NR C then Aborted ''exit_proc: VFS died''
           else bind_outcome (exit_tell_vfs E rmp dump_core s3) (\<lambda>s4.
             let s5 = exit_mark rmp exit_status s4
             in bind_outcome (if \<not> dump_core then zombify C E rmp s5 else Returned s5) (\<lambda>s6.
                bind_outcome (disinherit C E (int rmp) [0..<NR_PROCS C] s6) (\<lambda>s7.
                  Returned (if procgrp \<noteq> 0 then check_sig E (- procgrp) (SIGHUP C) (event (CheckSig (- procgrp) (SIGHUP C)) s7)
                            else s7)))))))"

definition do_exit :: "pm_config \<Rightarrow> pm_env \<Rightarrow> int \<Rightarrow> pm \<Rightarrow> (pm \<times> ret) outcome" where
  "do_exit C E st s =
     (if PRIV_PROC \<in> flags s (who_p s)
      then Returned (event (SysKill (mp_endpoint (mproc s (who_p s))) (SIGKILL C)) s, SUSPEND)
      else bind_outcome (exit_proc C E (who_p s) st False s) (\<lambda>s1. Returned (s1, SUSPEND)))"

text \<open>
  The second half of an exit, once VFS has replied. The scheduler's refusal is only printed.
\<close>

definition exit_restart :: "pm_config \<Rightarrow> pm_env \<Rightarrow> nat \<Rightarrow> bool \<Rightarrow> pm \<Rightarrow> pm outcome" where
  "exit_restart C E rmp dump_core s =
     (let ep = mp_endpoint (mproc s rmp);
          s1 = event (SchedStop (mp_scheduler (mproc s rmp)) ep) s;
          s2 = upd_mp rmp (mp_scheduler_update (\<lambda>_. NONE_EP C)) s1
      in bind_outcome (if dump_core then zombify C E rmp s2 else Returned s2) (\<lambda>s3.
         bind_outcome (if PRIV_PROC \<notin> flags s3 rmp then
                         if sys_clear E (mp_endpoint (mproc s3 rmp)) \<noteq> OK then Aborted ''exit_restart: sys_clear failed''
                         else Returned (event (SysClear (mp_endpoint (mproc s3 rmp))) s3)
                       else Returned s3) (\<lambda>s4.
           if vm_exit E (mp_endpoint (mproc s4 rmp)) \<noteq> OK then Aborted ''exit_restart: vm_exit failed''
           else let s5 = event (VmExit (mp_endpoint (mproc s4 rmp))) s4;
                    trc = mp_tracer (mproc s5 rmp);
                    s6 = (if TRACE_EXIT \<in> flags s5 rmp
                          then call_reply E trc 0 (upd_mp (nat trc) (mp_reply_data_update (\<lambda>_. 0)) s5) else s5)
                in Returned (if TOLD_PARENT \<in> flags s6 rmp then cleanup rmp s6 else s6))))"

subsection \<open>Waitpid\<close>

text \<open>Which entries the loop of \<open>do_waitpid\<close> does not pass over.\<close>

definition wait_candidate :: "int \<Rightarrow> int \<Rightarrow> mproc_t \<Rightarrow> bool" where
  "wait_candidate who pidarg rp \<longleftrightarrow>
     mp_flags rp \<inter> {IN_USE, TOLD_PARENT} = {IN_USE} \<and>
     \<not> (mp_parent rp \<noteq> who \<and> mp_tracer rp \<noteq> who) \<and>
     \<not> (mp_parent rp \<noteq> who \<and> ZOMBIE \<in> mp_flags rp) \<and>
     \<not> (pidarg > 0 \<and> pidarg \<noteq> mp_pid rp) \<and>
     \<not> (pidarg < - 1 \<and> - pidarg \<noteq> mp_procgrp rp)"

text \<open>
  The event a candidate has for the caller, if any: it has exited for its tracer, it has
  stopped with a signal for its tracer, it has exited for its parent.
\<close>

datatype wait_news = TracedExit | TracedStop nat | ChildExit | NoNews

definition wait_news_of :: "pm_config \<Rightarrow> int \<Rightarrow> mproc_t \<Rightarrow> wait_news" where
  "wait_news_of C who rp =
     (if mp_tracer rp = who \<and> TRACE_ZOMBIE \<in> mp_flags rp then TracedExit
      else case (if mp_tracer rp = who \<and> TRACE_STOPPED \<in> mp_flags rp
                 then find (\<lambda>i. i \<in> mp_sigtrace rp) [1..<NSIG C] else None) of
             Some i \<Rightarrow> TracedStop i
           | None \<Rightarrow> if mp_parent rp = who \<and> ZOMBIE \<in> mp_flags rp then ChildExit else NoNews)"

definition wait_deliver :: "pm_config \<Rightarrow> pm_env \<Rightarrow> nat \<Rightarrow> wait_news \<Rightarrow> pm \<Rightarrow> (pm \<times> ret) outcome" where
  "wait_deliver C E rp news s =
     (case news of
        TracedExit \<Rightarrow>
          bind_outcome (tell_tracer E rp s) (\<lambda>s1.
          bind_outcome (check_parent C E rp True s1) (\<lambda>s2. Returned (s2, SUSPEND)))
      | TracedStop i \<Rightarrow>
          let s1 = upd_mp rp (mp_sigtrace_update (\<lambda>t. t - {i})) s;
              s2 = upd_mp (who_p s1) (mp_reply_status_update (\<lambda>_. W_STOPCODE (int i))) s1
          in Returned (s2, Ret (nat (mp_pid (mproc s2 rp))))
      | ChildExit \<Rightarrow>
          bind_outcome (tell_parent E rp s) (\<lambda>s1.
            Returned (if VFS_CALL \<notin> flags s1 rp then cleanup rp s1 else s1, SUSPEND))
      | NoNews \<Rightarrow> Returned (s, SUSPEND))"

text \<open>The loop: the number of children that qualify, or the first one with news.\<close>

fun wait_loop :: "pm_config \<Rightarrow> int \<Rightarrow> pm \<Rightarrow> nat list \<Rightarrow> nat \<Rightarrow> nat + nat \<times> wait_news" where
  "wait_loop C pidarg s [] children = Inl children"
| "wait_loop C pidarg s (rp # rps) children =
     (if wait_candidate (int (who_p s)) pidarg (mproc s rp) then
        case wait_news_of C (int (who_p s)) (mproc s rp) of
          NoNews \<Rightarrow> wait_loop C pidarg s rps (children + 1)
        | news \<Rightarrow> Inr (rp, news)
      else wait_loop C pidarg s rps children)"

definition wait_pidarg :: "int \<Rightarrow> pm \<Rightarrow> int" where
  "wait_pidarg pid s = (if pid = 0 then - mp_procgrp (mproc s (who_p s)) else pid)"

definition do_waitpid :: "pm_config \<Rightarrow> pm_env \<Rightarrow> int \<Rightarrow> bool \<Rightarrow> pm \<Rightarrow> (pm \<times> ret) outcome" where
  "do_waitpid C E pid wnohang s =
     (let pidarg = wait_pidarg pid s
      in case wait_loop C pidarg s [0..<NR_PROCS C] 0 of
           Inr (rp, news) \<Rightarrow> wait_deliver C E rp news s
         | Inl children \<Rightarrow>
             if children > 0 then
               if wnohang then Returned (s, Ret 0)
               else Returned (upd_mp (who_p s) (\<lambda>m. m\<lparr>mp_flags := insert WAITING (mp_flags m), mp_wpid := pidarg\<rparr>) s, SUSPEND)
             else Returned (s, Err ECHILD))"

subsection \<open>The table invariant\<close>

text \<open>
  The exit states of an entry, \<open>TRACE_ZOMBIE\<close>, \<open>ZOMBIE\<close> and \<open>TOLD_PARENT\<close>,
  belong to exiting processes and exclude each other; an entry in use has a parent in the
  table and at most a tracer in the table; a free entry has no flags.
\<close>

definition exit_state_ok :: "mp_flag set \<Rightarrow> bool" where
  "exit_state_ok F \<longleftrightarrow> (F \<inter> {ZOMBIE, TRACE_ZOMBIE, TOLD_PARENT} \<noteq> {} \<longrightarrow> EXITING \<in> F) \<and>
     \<not> (ZOMBIE \<in> F \<and> TRACE_ZOMBIE \<in> F) \<and> \<not> (ZOMBIE \<in> F \<and> TOLD_PARENT \<in> F) \<and>
     \<not> (TRACE_ZOMBIE \<in> F \<and> TOLD_PARENT \<in> F)"

definition slot_ok :: "pm_config \<Rightarrow> mproc_t \<Rightarrow> bool" where
  "slot_ok C m \<longleftrightarrow> exit_state_ok (mp_flags m) \<and> (IN_USE \<notin> mp_flags m \<longrightarrow> mp_flags m = {}) \<and>
     (IN_USE \<in> mp_flags m \<longrightarrow> 0 < mp_parent m \<and> mp_parent m < int (NR_PROCS C) \<and>
        (mp_tracer m = NO_TRACER C \<or> 0 < mp_tracer m \<and> mp_tracer m < int (NR_PROCS C)))"

definition used :: "pm_config \<Rightarrow> pm \<Rightarrow> nat set" where
  "used C s = {i. i < NR_PROCS C \<and> IN_USE \<in> flags s i}"

definition pm_inv :: "pm_config \<Rightarrow> pm \<Rightarrow> bool" where
  "pm_inv C s \<longleftrightarrow> procs_in_use s = int (card (used C s)) \<and> (\<forall>i < NR_PROCS C. slot_ok C (mproc s i))"

definition config_ok :: "pm_config \<Rightarrow> bool" where
  "config_ok C \<longleftrightarrow> 0 < INIT_PROC_NR C \<and> INIT_PROC_NR C < int (NR_PROCS C) \<and> NO_TRACER C \<le> 0"

text \<open>
  What the calls do to the process table, as the process manager documents them:
  \<open>tell_vfs\<close> marks the process as waiting for VFS, \<open>reply\<close> only sends,
  \<open>set_alarm\<close> with time 0 switches the alarm off, and a signal, which may make other
  processes exit, keeps the table consistent.
\<close>

definition calls_ok :: "pm_config \<Rightarrow> pm_env \<Rightarrow> bool" where
  "calls_ok C E \<longleftrightarrow>
     (\<forall>i m s. tell_vfs E i m s = upd_mp i (set_flag VFS_CALL) s) \<and>
     (\<forall>p r s. reply E p r s = s) \<and>
     (\<forall>i s. set_alarm E i 0 s = upd_mp i (clear_flag ALARM_ON) s) \<and>
     (\<forall>i sig s. pm_inv C s \<longrightarrow> i < NR_PROCS C \<longrightarrow>
        pm_inv C (sig_proc E i sig s) \<and> who_p (sig_proc E i sig s) = who_p s) \<and>
     (\<forall>g sig s. pm_inv C s \<longrightarrow> pm_inv C (check_sig E g sig s))"

lemma inv_event [simp]: "pm_inv C (s\<lparr>events := es\<rparr>) \<longleftrightarrow> pm_inv C s"
  by (simp add: pm_inv_def used_def)

lemma inv_slot: "pm_inv C s \<Longrightarrow> i < NR_PROCS C \<Longrightarrow> slot_ok C (mproc s i)"
  by (simp add: pm_inv_def)

lemma inv_upd:
  assumes "pm_inv C s" and "IN_USE \<in> mp_flags (f (mproc s i)) \<longleftrightarrow> IN_USE \<in> flags s i"
    and "i < NR_PROCS C \<Longrightarrow> slot_ok C (mproc s i) \<Longrightarrow> slot_ok C (f (mproc s i))"
  shows "pm_inv C (upd_mp i f s)"
proof -
  have "used C (upd_mp i f s) = used C s" using assms(2) by (auto simp: used_def split: if_splits)
  with assms show ?thesis by (simp add: pm_inv_def)
qed

lemma inv_cleanup:
  assumes "pm_inv C s" and "i < NR_PROCS C" and "IN_USE \<in> flags s i"
  shows "pm_inv C (cleanup i s)"
proof -
  have "used C (cleanup i s) = used C s - {i}" by (auto simp: used_def cleanup_def split: if_splits)
  moreover have "i \<in> used C s" "finite (used C s)" using assms by (auto simp: used_def)
  ultimately have "int (card (used C (cleanup i s))) = int (card (used C s)) - 1"
    using card.remove [of "used C s" i] by simp
  with assms show ?thesis
    by (auto simp: pm_inv_def cleanup_def slot_ok_def exit_state_ok_def)
qed

lemma tell_parent_inv:
  assumes "calls_ok C E" and "pm_inv C s" and "child < NR_PROCS C" and "ZOMBIE \<in> flags s child"
  obtains s' where "tell_parent E child s = Returned s'" "pm_inv C s'" "who_p s' = who_p s"
    "flags s' child = insert TOLD_PARENT (flags s child - {ZOMBIE}) - (if nat (mp_parent (mproc s child)) = child then {WAITING} else {})"
proof -
  have slot: "slot_ok C (mproc s child)" using inv_slot assms by blast
  then have use: "IN_USE \<in> flags s child" "0 < mp_parent (mproc s child)" "TOLD_PARENT \<notin> flags s child"
    "EXITING \<in> flags s child" "TRACE_ZOMBIE \<notin> flags s child"
    using assms(4) by (auto simp: slot_ok_def exit_state_ok_def)
  let ?p = "nat (mp_parent (mproc s child))"
  let ?s1 = "upd_mp ?p (mp_reply_status_update (\<lambda>_.
    W_EXITCODE (mp_exitstatus (mproc s child)) (mp_sigstatus (mproc s child)))) s"
  let ?s2 = "event (Reply (mp_parent (mproc s child)) (mp_pid (mproc ?s1 child))) ?s1"
  let ?s3 = "upd_mp ?p (clear_flag WAITING) ?s2"
  let ?s4 = "upd_mp child (set_flag TOLD_PARENT \<circ> clear_flag ZOMBIE) ?s3"
  have s4: "tell_parent E child s = Returned ?s4"
    using use assms(1,4) by (simp add: tell_parent_def call_reply_def calls_ok_def Let_def)
  have "pm_inv C ?s1" by (rule inv_upd [OF assms(2)]) (auto simp: slot_ok_def)
  then have "pm_inv C ?s2" by (rule inv_event [THEN iffD2])
  then have i3: "pm_inv C ?s3" by (rule inv_upd) (auto simp: slot_ok_def exit_state_ok_def)
  have "pm_inv C ?s4"
    by (rule inv_upd [OF i3]) (use use in \<open>auto simp: slot_ok_def exit_state_ok_def\<close>)
  with s4 show thesis using use by (intro that [of ?s4]) auto
qed


lemma tell_tracer_inv:
  assumes "calls_ok C E" and "pm_inv C s" and "child < NR_PROCS C" and "TRACE_ZOMBIE \<in> flags s child"
    and "mp_tracer (mproc s child) \<noteq> NO_TRACER C"
  obtains s' where "tell_tracer E child s = Returned s'" "pm_inv C s'" "who_p s' = who_p s"
    "ZOMBIE \<in> flags s' child"
proof -
  have slot: "slot_ok C (mproc s child)" using inv_slot assms by blast
  then have use: "IN_USE \<in> flags s child" "0 < mp_tracer (mproc s child)" "TOLD_PARENT \<notin> flags s child"
    "EXITING \<in> flags s child" "ZOMBIE \<notin> flags s child"
    using assms(4,5) by (auto simp: slot_ok_def exit_state_ok_def)
  let ?p = "nat (mp_tracer (mproc s child))"
  let ?s1 = "upd_mp ?p (mp_reply_status_update (\<lambda>_.
    W_EXITCODE (mp_exitstatus (mproc s child)) (and (mp_sigstatus (mproc s child)) 255))) s"
  let ?s2 = "event (Reply (mp_tracer (mproc s child)) (mp_pid (mproc ?s1 child))) ?s1"
  let ?s3 = "upd_mp ?p (clear_flag WAITING) ?s2"
  let ?s4 = "upd_mp child (set_flag ZOMBIE \<circ> clear_flag TRACE_ZOMBIE) ?s3"
  have s4: "tell_tracer E child s = Returned ?s4"
    using use assms(1,4) by (simp add: tell_tracer_def call_reply_def calls_ok_def Let_def)
  have "pm_inv C ?s1" by (rule inv_upd [OF assms(2)]) (auto simp: slot_ok_def)
  then have "pm_inv C ?s2" by (rule inv_event [THEN iffD2])
  then have i3: "pm_inv C ?s3" by (rule inv_upd) (auto simp: slot_ok_def exit_state_ok_def)
  have "pm_inv C ?s4"
    by (rule inv_upd [OF i3]) (use use in \<open>auto simp: slot_ok_def exit_state_ok_def\<close>)
  with s4 show thesis using use by (intro that [of ?s4]) auto
qed

text \<open>An operation is safe when it returns, keeps the invariant and the caller.\<close>

definition safe :: "pm_config \<Rightarrow> nat \<Rightarrow> pm outcome \<Rightarrow> bool" where
  "safe C who m \<longleftrightarrow> (\<exists>s. m = Returned s \<and> pm_inv C s \<and> who_p s = who)"

lemma safe_Returned [simp]: "safe C w (Returned s) \<longleftrightarrow> pm_inv C s \<and> who_p s = w"
  by (simp add: safe_def)

lemma safe_bind:
  "safe C w m \<Longrightarrow> (\<And>s. m = Returned s \<Longrightarrow> pm_inv C s \<Longrightarrow> who_p s = w \<Longrightarrow> safe C w (f s)) \<Longrightarrow>
     safe C w (bind_outcome m f)"
  by (cases m) (auto simp: safe_def)

lemma sig_inv:
  "calls_ok C E \<Longrightarrow> pm_inv C s \<Longrightarrow> i < NR_PROCS C \<Longrightarrow>
     pm_inv C (call_sig_proc E i sig s) \<and> who_p (call_sig_proc E i sig s) = who_p s"
  by (simp add: calls_ok_def call_sig_proc_def)

lemma slot_parent:
  "pm_inv C s \<Longrightarrow> i < NR_PROCS C \<Longrightarrow> IN_USE \<in> flags s i \<Longrightarrow> nat (mp_parent (mproc s i)) < NR_PROCS C"
  using inv_slot [of C s i] by (auto simp: slot_ok_def)

lemma flagged_in_use: "pm_inv C s \<Longrightarrow> i < NR_PROCS C \<Longrightarrow> f \<in> flags s i \<Longrightarrow> IN_USE \<in> flags s i"
  using inv_slot [of C s i] by (auto simp: slot_ok_def)

lemma check_parent_safe:
  assumes "calls_ok C E" and "pm_inv C s" and "child < NR_PROCS C" and "ZOMBIE \<in> flags s child"
  shows "safe C (who_p s) (check_parent C E child tc s)"
proof -
  have use: "IN_USE \<in> flags s child" using flagged_in_use assms by blast
  obtain s' where t: "tell_parent E child s = Returned s'" "pm_inv C s'" "who_p s' = who_p s"
    "flags s' child = insert TOLD_PARENT (flags s child - {ZOMBIE}) -
       (if nat (mp_parent (mproc s child)) = child then {WAITING} else {})"
    by (rule tell_parent_inv [OF assms])
  then have "pm_inv C (cleanup child s')" using inv_cleanup [of C s' child] use assms(3) by auto
  moreover have "who_p (cleanup child s') = who_p s" using t by (simp add: cleanup_def)
  ultimately show ?thesis
    using t sig_inv [OF assms(1,2) slot_parent [OF assms(2,3) use]] assms(2)
    by (simp add: check_parent_def Let_def)
qed

lemma zombify_safe:
  assumes "calls_ok C E" and "pm_inv C s" and "i < NR_PROCS C" and "EXITING \<in> flags s i"
    and "flags s i \<inter> {ZOMBIE, TRACE_ZOMBIE, TOLD_PARENT} = {}"
  shows "safe C (who_p s) (zombify C E i s)"
proof (cases "mp_tracer (mproc s i) \<noteq> NO_TRACER C \<and> mp_tracer (mproc s i) \<noteq> mp_parent (mproc s i)")
  case True
  let ?s1 = "upd_mp i (set_flag TRACE_ZOMBIE) s"
  have inv1: "pm_inv C ?s1"
    by (rule inv_upd [OF assms(2)]) (use assms(4,5) in \<open>auto simp: slot_ok_def exit_state_ok_def\<close>)
  obtain s' where "tell_tracer E i ?s1 = Returned s'" "pm_inv C s'" "who_p s' = who_p ?s1" "ZOMBIE \<in> flags s' i"
    by (rule tell_tracer_inv [OF assms(1) inv1 assms(3)]) (use True in auto)
  then show ?thesis
    using True inv1 assms(5) check_parent_safe [OF assms(1) _ assms(3), of s' False]
    by (simp add: zombify_def Let_def)
next
  case False
  let ?s1 = "upd_mp i (set_flag ZOMBIE) s"
  have inv1: "pm_inv C ?s1"
    by (rule inv_upd [OF assms(2)]) (use assms(4,5) in \<open>auto simp: slot_ok_def exit_state_ok_def\<close>)
  then show ?thesis
    using False assms(5) check_parent_safe [OF assms(1) inv1 assms(3), of False]
    by (auto simp: zombify_def)
qed

lemma tracer_died_safe:
  assumes "calls_ok C E" and "pm_inv C s" and "i < NR_PROCS C" and "IN_USE \<in> flags s i"
  shows "safe C (who_p s) (tracer_died C E i s)"
proof -
  let ?s1 = "upd_mp i (clear_flag TRACE_EXIT \<circ> mp_tracer_update (\<lambda>_. NO_TRACER C)) s"
  let ?s2 = "upd_mp i (set_flag ZOMBIE \<circ> clear_flag TRACE_ZOMBIE) ?s1"
  have inv1: "pm_inv C ?s1"
    by (rule inv_upd [OF assms(2)]) (auto simp: slot_ok_def exit_state_ok_def)
  have inv2: "TRACE_ZOMBIE \<in> flags s i \<Longrightarrow> pm_inv C ?s2"
    by (rule inv_upd [OF inv1]) (auto simp: slot_ok_def exit_state_ok_def)
  have sig: "pm_inv C (call_sig_proc E i (SIGKILL C) ?s1) \<and> who_p (call_sig_proc E i (SIGKILL C) ?s1) = who_p s"
    using sig_inv [OF assms(1) inv1 assms(3), of "SIGKILL C"] by simp
  consider (running) "EXITING \<notin> flags s i" | (dying) "EXITING \<in> flags s i" "TRACE_ZOMBIE \<in> flags s i"
    | (other) "EXITING \<in> flags s i" "TRACE_ZOMBIE \<notin> flags s i" by blast
  then show ?thesis
  proof cases
    case running
    with sig show ?thesis by (simp add: tracer_died_def Let_def)
  next
    case dying
    with check_parent_safe [OF assms(1) inv2 assms(3), of True] show ?thesis
      by (simp add: tracer_died_def Let_def)
  next
    case other
    with inv1 show ?thesis by (simp add: tracer_died_def Let_def)
  qed
qed

lemma disinherit_child_safe:
  assumes "calls_ok C E" and "config_ok C" and "pm_inv C s" and "i < NR_PROCS C"
  shows "safe C (who_p s) (disinherit_child C E p i s)"
proof (cases "mp_parent (mproc s i) = p")
  case True
  let ?s1 = "upd_mp i (mp_parent_update (\<lambda>_. INIT_PROC_NR C)) s"
  let ?s2 = "if VFS_CALL \<in> flags ?s1 i then upd_mp i (set_flag NEW_PARENT) ?s1 else ?s1"
  have inv1: "pm_inv C ?s1"
    by (rule inv_upd [OF assms(3)]) (use assms(2) in \<open>auto simp: slot_ok_def config_ok_def\<close>)
  have "pm_inv C (upd_mp i (set_flag NEW_PARENT) ?s1)" if "VFS_CALL \<in> flags ?s1 i"
    by (rule inv_upd [OF inv1]) (use that in \<open>auto simp: slot_ok_def exit_state_ok_def\<close>)
  with inv1 have inv2: "pm_inv C ?s2" by (cases "VFS_CALL \<in> flags ?s1 i") simp_all
  have who: "who_p ?s2 = who_p s" by simp
  have "disinherit_child C E p i s = (if ZOMBIE \<in> flags ?s2 i then check_parent C E i True ?s2 else Returned ?s2)"
    unfolding disinherit_child_def Let_def using True by (rule if_P)
  then show ?thesis using check_parent_safe [OF assms(1) inv2 assms(4), of True] inv2 who
    by (cases "ZOMBIE \<in> flags ?s2 i") (simp_all only: safe_Returned if_True if_False)
qed (use assms in \<open>simp add: disinherit_child_def\<close>)

lemma disinherit_one_safe:
  assumes "calls_ok C E" and "config_ok C" and "pm_inv C s" and "i < NR_PROCS C"
  shows "safe C (who_p s) (disinherit_one C E p i s)"
proof (cases "IN_USE \<in> flags s i")
  case True
  let ?m = "if mp_tracer (mproc s i) = p then tracer_died C E i s else Returned s"
  have "safe C (who_p s) ?m"
    using tracer_died_safe [OF assms(1,3,4) True] assms(3) by simp
  then have "safe C (who_p s) (bind_outcome ?m (disinherit_child C E p i))"
    by (rule safe_bind) (metis disinherit_child_safe [OF assms(1,2) _ assms(4)])
  with True show ?thesis by (simp add: disinherit_one_def)
qed (use assms in \<open>simp add: disinherit_one_def\<close>)

lemma disinherit_safe:
  assumes "calls_ok C E" and "config_ok C"
  shows "pm_inv C s \<Longrightarrow> \<forall>i \<in> set is. i < NR_PROCS C \<Longrightarrow> safe C (who_p s) (disinherit C E p is s)"
proof (induction "is" arbitrary: s)
  case (Cons i "is")
  then have "safe C (who_p s) (disinherit_one C E p i s)" using disinherit_one_safe [OF assms] by simp
  then show ?case unfolding disinherit.simps
    by (rule safe_bind) (use Cons in \<open>metis list.set_intros(2)\<close>)
qed simp


text \<open>Every check of the kernel's answers on the way of an exit, and who must not exit.\<close>

definition exit_calls_ok :: "pm_config \<Rightarrow> pm_env \<Rightarrow> pm \<Rightarrow> nat \<Rightarrow> bool" where
  "exit_calls_ok C E s i \<longleftrightarrow>
     (let ep = mp_endpoint (mproc s i)
      in fst (sys_times E ep) = OK \<and> sys_stop E ep = OK \<and> vm_willexit E ep = OK \<and> sys_clear E ep = OK \<and>
         vm_exit E ep = OK \<and> ep \<noteq> VFS_PROC_NR C)"

lemma exit_account_safe:
  assumes "pm_inv C s" and "fst (sys_times E (mp_endpoint (mproc s i))) = OK"
  obtains s' where "exit_account E i s = Returned s'" "pm_inv C s'" "who_p s' = who_p s"
    "\<And>k. flags s' k = flags s k" "\<And>k. mp_endpoint (mproc s' k) = mp_endpoint (mproc s k)"
proof -
  obtain r ut st where t: "sys_times E (mp_endpoint (mproc s i)) = (r, ut, st)" by (cases "sys_times E (mp_endpoint (mproc s i))")
  let ?ep = "mp_endpoint (mproc s i)" and ?p = "nat (mp_parent (mproc s i))"
  let ?s1 = "event (SysTimes ?ep) s"
  let ?s2 = "upd_mp ?p (\<lambda>p. p\<lparr>mp_child_utime := mp_child_utime p + (ut + mp_child_utime (mproc ?s1 i))\<rparr>) ?s1"
  let ?s3 = "upd_mp ?p (\<lambda>p. p\<lparr>mp_child_stime := mp_child_stime p + (st + mp_child_stime (mproc ?s2 i))\<rparr>) ?s2"
  have "pm_inv C ?s1" using assms(1) by (rule inv_event [THEN iffD2])
  then have "pm_inv C ?s2" by (rule inv_upd) (auto simp: slot_ok_def)
  then have "pm_inv C ?s3" by (rule inv_upd) (auto simp: slot_ok_def)
  moreover have "exit_account E i s = Returned ?s3" using assms(2) t by (simp add: exit_account_def Let_def)
  ultimately show thesis by (intro that [of ?s3]) auto
qed

lemma exit_stop_safe:
  assumes "pm_inv C s" and "i < NR_PROCS C" and "IN_USE \<in> flags s i"
    and "sys_stop E (mp_endpoint (mproc s i)) = OK" and "vm_willexit E (mp_endpoint (mproc s i)) = OK"
  obtains s' where "exit_stop E i s = Returned s'" "pm_inv C s'" "who_p s' = who_p s"
    "flags s' i = insert PROC_STOPPED (flags s i)" "mp_endpoint (mproc s' i) = mp_endpoint (mproc s i)"
proof -
  let ?ep = "mp_endpoint (mproc s i)"
  let ?s1 = "if PROC_STOPPED \<notin> flags s i then upd_mp i (set_flag PROC_STOPPED) (event (SysStop ?ep) s) else s"
  let ?s2 = "event (VmNotifySig ?ep) (event (VmWillexit ?ep) ?s1)"
  have "exit_stop E i s = Returned ?s2" using assms(4,5) by (simp add: exit_stop_def Let_def)
  moreover have "pm_inv C (upd_mp i (set_flag PROC_STOPPED) (event (SysStop ?ep) s))"
    by (rule inv_upd) (use assms in \<open>auto simp: slot_ok_def exit_state_ok_def\<close>)
  then have "pm_inv C ?s1" using assms(1) by (simp split: if_split)
  then have "pm_inv C ?s2" by (simp only: inv_event)
  ultimately show thesis by (rule that) auto
qed

lemma exit_tell_vfs_safe:
  assumes "calls_ok C E" and "pm_inv C s" and "i < NR_PROCS C" and "IN_USE \<in> flags s i"
    and "sys_clear E (mp_endpoint (mproc s i)) = OK"
  obtains s' where "exit_tell_vfs E i d s = Returned s'" "pm_inv C s'" "who_p s' = who_p s"
    "flags s' i = insert VFS_CALL (flags s i)" "mp_endpoint (mproc s' i) = mp_endpoint (mproc s i)"
proof -
  let ?m = "mproc s i"
  let ?r = "if d then VFS_PM_DUMPCORE (mp_endpoint ?m) (mp_sigstatus ?m) (mp_name ?m) else VFS_PM_EXIT (mp_endpoint ?m)"
  let ?s1 = "upd_mp i (set_flag VFS_CALL) (event (TellVfs i ?r) s)"
  let ?s2 = "if PRIV_PROC \<in> flags s i then event (SysClear (mp_endpoint ?m)) ?s1 else ?s1"
  have "exit_tell_vfs E i d s = Returned ?s2"
    using assms(1,5) by (simp add: exit_tell_vfs_def call_tell_vfs_def calls_ok_def Let_def)
  moreover have "pm_inv C ?s1"
    by (rule inv_upd) (use assms in \<open>auto simp: slot_ok_def exit_state_ok_def\<close>)
  then have "pm_inv C ?s2" by (cases "PRIV_PROC \<in> flags s i") (simp_all only: inv_event if_True if_False)
  ultimately show thesis by (rule that) auto
qed

end
