(* ===== verification/Pm_Correct.thy ===== *)
theory Pm_Correct
  imports Pm
begin

text \<open>
  Correctness of the process manager's fork, exit and waitpid: the search for a free slot,
  the invariant of the process table across every operation, the order in which an exit
  informs the other servers, and what a waiting parent is told.
\<close>

subsection \<open>Exit\<close>

lemma exit_mark_inv:
  "pm_inv C s \<Longrightarrow> i < NR_PROCS C \<Longrightarrow> IN_USE \<in> flags s i \<Longrightarrow> pm_inv C (exit_mark i st s)"
  unfolding exit_mark_def by (rule inv_upd) (auto simp: slot_ok_def exit_state_ok_def)

lemma exit_mark_flags:
  "flags (exit_mark i st s) i = insert EXITING (flags s i \<inter> {IN_USE, VFS_CALL, PRIV_PROC, TRACE_EXIT, PROC_STOPPED})"
  by (simp add: exit_mark_def)

lemma set_alarm_inv:
  fixes i :: nat
  assumes "calls_ok C E" and "pm_inv C s"
  defines "s' \<equiv> if ALARM_ON \<in> flags s i then set_alarm E i 0 (event (SetAlarm i 0) s) else s"
  shows "pm_inv C s'" "who_p s' = who_p s" "flags s' i = flags s i - {ALARM_ON}"
    "mp_endpoint (mproc s' i) = mp_endpoint (mproc s i)"
proof -
  have "pm_inv C (upd_mp i (clear_flag ALARM_ON) (event (SetAlarm i 0) s))"
    by (rule inv_upd) (use assms(2) in \<open>auto simp: slot_ok_def exit_state_ok_def\<close>)
  then show "pm_inv C s'" "who_p s' = who_p s" "flags s' i = flags s i - {ALARM_ON}"
    "mp_endpoint (mproc s' i) = mp_endpoint (mproc s i)"
    using assms(1,2) by (auto simp: s'_def calls_ok_def)
qed

lemma exit_proc_safe:
  assumes "calls_ok C E" and "config_ok C" and "pm_inv C s" and "i < NR_PROCS C" and "IN_USE \<in> flags s i"
    and "exit_calls_ok C E s i"
  shows "\<exists>s'. exit_proc C E i st d s = Returned s' \<and> pm_inv C s'"
proof -
  let ?ep = "mp_endpoint (mproc s i)"
  let ?d = "d \<and> mp_realuid (mproc s i) = mp_effuid (mproc s i) \<and> PRIV_PROC \<notin> flags s i"
  let ?g = "if mp_pid (mproc s i) = mp_procgrp (mproc s (who_p s)) then mp_procgrp (mproc s (who_p s)) else 0"
  define s1 where "s1 = (if ALARM_ON \<in> flags s i then set_alarm E i 0 (event (SetAlarm i 0) s) else s)"
  note s1 = set_alarm_inv [OF assms(1,3), of i, folded s1_def]
  note k = assms(6) [unfolded exit_calls_ok_def Let_def]
  obtain s2 where s2: "exit_account E i s1 = Returned s2" "pm_inv C s2" "who_p s2 = who_p s1"
      "\<forall>k. flags s2 k = flags s1 k" "\<forall>k. mp_endpoint (mproc s2 k) = mp_endpoint (mproc s1 k)"
    by (rule exit_account_safe [OF s1(1), of E i]) (use k s1(4) in \<open>simp, blast\<close>)
  have u2: "IN_USE \<in> flags s2 i" using s2(4) s1(3) assms(5) by simp
  obtain s3 where s3: "exit_stop E i s2 = Returned s3" "pm_inv C s3" "who_p s3 = who_p s2"
      "flags s3 i = insert PROC_STOPPED (flags s2 i)" "mp_endpoint (mproc s3 i) = mp_endpoint (mproc s2 i)"
    by (rule exit_stop_safe [OF s2(2) assms(4) u2, of E]) (use k s1(4) s2(5) in simp_all)
  have u3: "IN_USE \<in> flags s3 i" using s3(4) u2 by simp
  obtain s4 where s4: "exit_tell_vfs E i ?d s3 = Returned s4" "pm_inv C s4" "who_p s4 = who_p s3"
      "flags s4 i = insert VFS_CALL (flags s3 i)" "mp_endpoint (mproc s4 i) = mp_endpoint (mproc s3 i)"
    by (rule exit_tell_vfs_safe [OF assms(1) s3(2) assms(4) u3, of ?d]) (use k s1(4) s2(5) s3(5) in simp)
  define s5 where "s5 = exit_mark i st s4"
  have i5: "pm_inv C s5" unfolding s5_def by (rule exit_mark_inv) (use s4 u3 assms(4) in auto)
  have z: "safe C (who_p s5) (if \<not> ?d then zombify C E i s5 else Returned s5)"
    using zombify_safe [OF assms(1) i5 assms(4)] i5 by (auto simp: s5_def exit_mark_flags)
  then obtain s6 where s6: "(if \<not> ?d then zombify C E i s5 else Returned s5) = Returned s6" "pm_inv C s6"
    by (auto simp: safe_def)
  obtain s7 where s7: "disinherit C E (int i) [0..<NR_PROCS C] s6 = Returned s7" "pm_inv C s7"
    using disinherit_safe [OF assms(1,2) s6(2), of "[0..<NR_PROCS C]" "int i"] by (auto simp: safe_def)
  have sig: "pm_inv C (check_sig E g sig (event e s7))" for g sig e
    using assms(1) s7(2) by (simp add: calls_ok_def)
  show ?thesis
    unfolding exit_proc_def Let_def s1_def [symmetric] s2(1) s3(1) s4(1) bind_outcome.simps s5_def [symmetric] s6(1) s7(1)
    using k s3(2) s7(2) sig by simp
qed

lemma exit_restart_safe:
  assumes "calls_ok C E" and "pm_inv C s" and "i < NR_PROCS C" and "EXITING \<in> flags s i"
    and "d \<Longrightarrow> flags s i \<inter> {ZOMBIE, TRACE_ZOMBIE, TOLD_PARENT} = {}"
    and "\<forall>ep. sys_clear E ep = OK \<and> vm_exit E ep = OK"
  shows "\<exists>s'. exit_restart C E i d s = Returned s' \<and> pm_inv C s'"
proof -
  let ?s2 = "upd_mp i (mp_scheduler_update (\<lambda>_. NONE_EP C)) (event (SchedStop (mp_scheduler (mproc s i)) (mp_endpoint (mproc s i))) s)"
  have i2: "pm_inv C ?s2" by (rule inv_upd) (use assms(2) in \<open>auto simp: slot_ok_def\<close>)
  have "safe C (who_p ?s2) (if d then zombify C E i ?s2 else Returned ?s2)"
    using zombify_safe [OF assms(1) i2 assms(3)] i2 assms(4,5) by simp
  then obtain s3 where s3: "(if d then zombify C E i ?s2 else Returned ?s2) = Returned s3" "pm_inv C s3"
    by (auto simp: safe_def)
  define s4 where "s4 = (if PRIV_PROC \<notin> flags s3 i then event (SysClear (mp_endpoint (mproc s3 i))) s3 else s3)"
  have i4: "pm_inv C s4" using s3(2) by (simp add: s4_def)
  define s5 where "s5 = event (VmExit (mp_endpoint (mproc s4 i))) s4"
  have i5: "pm_inv C s5" using i4 by (simp add: s5_def)
  let ?t = "mp_tracer (mproc s5 i)"
  define s6 where "s6 = (if TRACE_EXIT \<in> flags s5 i
      then call_reply E ?t 0 (upd_mp (nat ?t) (mp_reply_data_update (\<lambda>_. 0)) s5) else s5)"
  have "pm_inv C (upd_mp (nat ?t) (mp_reply_data_update (\<lambda>_. 0)) s5)"
    by (rule inv_upd [OF i5]) (auto simp: slot_ok_def)
  then have i6: "pm_inv C s6" using i5 assms(1) by (simp add: s6_def call_reply_def calls_ok_def)
  have "pm_inv C (cleanup i s6)" if "TOLD_PARENT \<in> flags s6 i"
    using inv_cleanup [OF i6 assms(3)] flagged_in_use [OF i6 assms(3) that] by blast
  moreover have "exit_restart C E i d s = Returned (if TOLD_PARENT \<in> flags s6 i then cleanup i s6 else s6)"
    unfolding exit_restart_def Let_def s3(1) bind_outcome.simps
    using assms(6) by (simp add: s4_def s5_def s6_def)
  ultimately show ?thesis using i6 by simp
qed

subsection \<open>Fork\<close>

lemma find_slot_at:
  assumes "0 < NR_PROCS C" and "1 \<le> d" and "n + d \<le> NR_PROCS C"
    and "\<forall>j. 1 \<le> j \<and> j < d \<longrightarrow> IN_USE \<in> flags s ((nc + j) mod NR_PROCS C)"
    and "IN_USE \<notin> flags s ((nc + d) mod NR_PROCS C)"
  shows "find_slot C s nc n = ((nc + d) mod NR_PROCS C, n + d)"
  using assms(2-)
proof (induction d arbitrary: nc n)
  case (Suc d)
  show ?case
  proof (cases "d = 0")
    case True
    with Suc.prems show ?thesis by (subst find_slot.simps) (simp add: Let_def)
  next
    case False
    let ?nc = "(nc + 1) mod NR_PROCS C"
    have use: "IN_USE \<in> flags s ?nc" using Suc.prems(3) [rule_format, of 1] False by simp
    have "find_slot C s nc n = find_slot C s ?nc (n + 1)"
      using use Suc.prems(2) False by (subst find_slot.simps) (simp add: Let_def)
    also have "\<dots> = ((?nc + d) mod NR_PROCS C, n + 1 + d)"
    proof (rule Suc.IH)
      show "\<forall>j. 1 \<le> j \<and> j < d \<longrightarrow> IN_USE \<in> flags s ((?nc + j) mod NR_PROCS C)"
        using Suc.prems(3) [rule_format, of "Suc j" for j] by (auto simp: mod_simps)
    qed (use False Suc.prems in \<open>auto simp: mod_simps\<close>)
    finally show ?thesis by (simp add: mod_simps)
  qed
qed simp

text \<open>The first free slot after \<open>nc\<close>, in the cyclic order of the table.\<close>

lemma find_slot_free:
  assumes "j < NR_PROCS C" and "IN_USE \<notin> flags s j"
  obtains d where "1 \<le> d" "d \<le> NR_PROCS C" "find_slot C s nc 0 = ((nc + d) mod NR_PROCS C, d)"
    "IN_USE \<notin> flags s ((nc + d) mod NR_PROCS C)"
    "\<forall>i. 1 \<le> i \<and> i < d \<longrightarrow> IN_USE \<in> flags s ((nc + i) mod NR_PROCS C)"
proof -
  let ?N = "NR_PROCS C"
  let ?P = "\<lambda>d. 1 \<le> d \<and> IN_USE \<notin> flags s ((nc + d) mod ?N)"
  define d0 where "d0 = j + ?N - nc mod ?N"
  have N: "0 < ?N" using assms(1) by simp
  then have r: "nc mod ?N < ?N" by simp
  have "(nc + d0) mod ?N = (nc mod ?N + d0) mod ?N" by (simp add: mod_simps)
  also have "nc mod ?N + d0 = j + ?N" using r by (simp add: d0_def)
  finally have "(nc + d0) mod ?N = j" using assms(1) by simp
  moreover have "1 \<le> d0" using r by (simp add: d0_def)
  ultimately have P0: "?P d0" using assms(2) by simp
  define e where "e = (if d0 \<le> ?N then d0 else d0 - ?N)"
  have "d0 < 2 * ?N + 1" using assms(1) by (simp add: d0_def)
  moreover have "(nc + (d0 - ?N)) mod ?N = (nc + d0) mod ?N" if "?N < d0"
    using that by (metis Nat.add_diff_assoc less_imp_le mod_add_self2 le_add_diff_inverse2 add.assoc)
  ultimately have Pe: "?P e" "e \<le> ?N" using P0 by (auto simp: e_def)
  define d where "d = (LEAST d. ?P d)"
  have Pd: "?P d" unfolding d_def by (rule LeastI [of ?P, OF Pe(1)])
  have "d \<le> e" unfolding d_def by (rule Least_le [of ?P, OF Pe(1)])
  then have le: "d \<le> ?N" using Pe(2) by simp
  have before: "\<forall>i. 1 \<le> i \<and> i < d \<longrightarrow> IN_USE \<in> flags s ((nc + i) mod ?N)"
    unfolding d_def using not_less_Least by blast
  show thesis using that [of d] find_slot_at [OF N, of d 0 s nc] Pd le before by simp
qed

text \<open>A slot is free whenever a fork is not refused.\<close>

lemma not_full_free_slot:
  assumes "pm_inv C s" and "\<not> fork_full C s"
  obtains j where "j < NR_PROCS C" "IN_USE \<notin> flags s j"
proof (rule ccontr)
  assume "\<not> thesis"
  then have "used C s = {i. i < NR_PROCS C}" using that by (auto simp: used_def)
  with assms show False by (simp add: pm_inv_def fork_full_def)
qed

lemma find_slot_ok:
  assumes "pm_inv C s" and "\<not> fork_full C s"
  obtains nc n where "find_slot C s k 0 = (nc, n)" "n \<le> NR_PROCS C" "nc < NR_PROCS C" "IN_USE \<notin> flags s nc"
proof -
  obtain j where j: "j < NR_PROCS C" "IN_USE \<notin> flags s j" by (rule not_full_free_slot [OF assms])
  obtain d where d: "1 \<le> d" "d \<le> NR_PROCS C" "find_slot C s k 0 = ((k + d) mod NR_PROCS C, d)"
      "IN_USE \<notin> flags s ((k + d) mod NR_PROCS C)"
    by (rule find_slot_free [OF j, where nc = k]) blast
  have "(k + d) mod NR_PROCS C < NR_PROCS C" using j(1) by simp
  with d show thesis by (intro that) auto
qed

lemma inv_add:
  assumes "pm_inv C s" and "i < NR_PROCS C" and "IN_USE \<notin> flags s i" and "IN_USE \<in> mp_flags c" and "slot_ok C c"
  shows "pm_inv C (s\<lparr>procs_in_use := procs_in_use s + 1, mproc := (mproc s)(i := c)\<rparr>)"
proof -
  let ?s = "s\<lparr>procs_in_use := procs_in_use s + 1, mproc := (mproc s)(i := c)\<rparr>"
  have "used C ?s = insert i (used C s)" using assms(2,4) by (auto simp: used_def)
  moreover have "i \<notin> used C s" "finite (used C s)" using assms(3) by (auto simp: used_def)
  ultimately show ?thesis using assms(1,5) by (simp add: pm_inv_def)
qed

text \<open>The child's slot, before it has a process id.\<close>

lemma fork_child_ok:
  assumes "config_ok C" and "slot_ok C m" and "IN_USE \<in> mp_flags m" and "0 < who" and "who < NR_PROCS C"
    and "IN_USE \<in> I" and "I \<inter> {ZOMBIE, TRACE_ZOMBIE, TOLD_PARENT} = {}"
  shows "slot_ok C (fork_reset C I ep (fork_copy C who m))"
  using assms by (auto simp: slot_ok_def exit_state_ok_def fork_reset_def fork_copy_def Let_def)

lemma slot_ok_fields [simp]:
  "slot_ok C (m\<lparr>mp_pid := x\<rparr>) = slot_ok C m" "slot_ok C (m\<lparr>mp_scheduler := y\<rparr>) = slot_ok C m"
  "slot_ok C (m\<lparr>mp_realuid := a, mp_effuid := a, mp_realgid := b, mp_effgid := b\<rparr>) = slot_ok C m"
  by (simp_all add: slot_ok_def)

definition caller_ok :: "pm_config \<Rightarrow> pm \<Rightarrow> bool" where
  "caller_ok C s \<longleftrightarrow> 0 < who_p s \<and> who_p s < NR_PROCS C \<and> IN_USE \<in> flags s (who_p s) \<and>
     EXITING \<notin> flags s (who_p s) \<and>
     (PRIV_PROC \<in> flags s (who_p s) \<longrightarrow> mp_scheduler (mproc s (who_p s)) = NONE_EP C)"

text \<open>The table after a fork into slot \<open>nc\<close>, before the tracer gets its signal.\<close>

definition fork_state ::
  "pm_config \<Rightarrow> pm_env \<Rightarrow> nat \<Rightarrow> endpoint \<Rightarrow> pm \<Rightarrow> pm" where
  "fork_state C E nc ep s =
     (let rmp = who_p s; c = fork_copy C rmp (mproc s rmp);
          c1 = (if PRIV_PROC \<in> mp_flags c then c\<lparr>mp_scheduler := SCHED_PROC_NR C\<rparr> else c);
          s4 = s\<lparr>procs_in_use := procs_in_use s + 1,
                 mproc := (mproc s)(nc := fork_reset C fork_inherit ep c1)\<rparr>
      in upd_mp nc (mp_pid_update (\<lambda>_. get_free_pid E s4)) s4)"

lemma fork_state_inv:
  assumes "config_ok C" and "pm_inv C s" and "caller_ok C s" and "nc < NR_PROCS C" and "IN_USE \<notin> flags s nc"
  shows "pm_inv C (fork_state C E nc ep s)"
proof -
  let ?m = "mproc s (who_p s)"
  let ?c = "fork_copy C (who_p s) ?m"
  let ?c1 = "if PRIV_PROC \<in> mp_flags ?c then ?c\<lparr>mp_scheduler := SCHED_PROC_NR C\<rparr> else ?c"
  let ?c2 = "fork_reset C fork_inherit ep ?c1"
  let ?s4 = "s\<lparr>procs_in_use := procs_in_use s + 1, mproc := (mproc s)(nc := ?c2)\<rparr>"
  have who: "who_p s < NR_PROCS C" "0 < who_p s" "IN_USE \<in> mp_flags ?m" using assms(3) by (auto simp: caller_ok_def)
  have "slot_ok C (fork_reset C fork_inherit ep ?c)"
    using fork_child_ok [OF assms(1) inv_slot [OF assms(2) who(1)] who(3,2,1), of fork_inherit ep]
    by (simp add: fork_inherit_def)
  then have ok: "slot_ok C ?c2" by (simp add: fork_reset_def slot_ok_def)
  have use: "IN_USE \<in> mp_flags ?c2" using who(3) by (simp add: fork_reset_def fork_copy_def fork_inherit_def Let_def)
  have "pm_inv C ?s4" by (rule inv_add [OF assms(2,4,5) use ok])
  then have "pm_inv C (upd_mp nc (mp_pid_update (\<lambda>_. get_free_pid E ?s4)) ?s4)" by (rule inv_upd) auto
  then show ?thesis by (simp add: fork_state_def Let_def)
qed

lemma tell_fork_tracer_inv:
  "calls_ok C E \<Longrightarrow> pm_inv C s \<Longrightarrow> nc < NR_PROCS C \<Longrightarrow> pm_inv C (tell_fork_tracer C E nc s)"
  by (simp add: tell_fork_tracer_def sig_inv)

lemma tell_vfs_inv:
  assumes "calls_ok C E" and "pm_inv C s" and "IN_USE \<in> flags s i"
  shows "pm_inv C (call_tell_vfs E i m s)"
proof -
  have "pm_inv C (upd_mp i (set_flag VFS_CALL) (event (TellVfs i m) s))"
    by (rule inv_upd) (use assms(2,3) in \<open>auto simp: slot_ok_def exit_state_ok_def\<close>)
  then show ?thesis using assms(1) by (simp add: call_tell_vfs_def calls_ok_def)
qed

lemma fork_state_fields:
  "i \<noteq> nc \<Longrightarrow> mproc (fork_state C E nc ep s) i = mproc s i"
  "procs_in_use (fork_state C E nc ep s) = procs_in_use s + 1"
  "flags (fork_state C E nc ep s) nc = flags s (who_p s) \<inter> {IN_USE, DELAY_CALL, TAINTED}"
  "mp_parent (mproc (fork_state C E nc ep s) nc) = int (who_p s)"
  "mp_endpoint (mproc (fork_state C E nc ep s) nc) = ep"
  "mp_child_utime (mproc (fork_state C E nc ep s) nc) = 0" "mp_child_stime (mproc (fork_state C E nc ep s) nc) = 0"
  "mp_exitstatus (mproc (fork_state C E nc ep s) nc) = 0" "mp_sigstatus (mproc (fork_state C E nc ep s) nc) = 0"
  "mp_effuid (mproc (fork_state C E nc ep s) nc) = mp_effuid (mproc s (who_p s))"
  "TO_TRACEFORK \<notin> mp_trace_flags (mproc s (who_p s)) \<Longrightarrow>
     mp_tracer (mproc (fork_state C E nc ep s) nc) = NO_TRACER C"
  by (simp_all add: fork_state_def fork_reset_def fork_copy_def fork_inherit_def Let_def)

lemma fork_state_pid: "\<exists>t. mp_pid (mproc (fork_state C E nc ep s) nc) = get_free_pid E t"
  by (auto simp: fork_state_def Let_def)

text \<open>What \<open>do_fork\<close> does on each of its paths.\<close>

lemma do_fork_cases:
  assumes "pm_inv C s" and "caller_ok C s"
  obtains (full) "fork_full C s" "do_fork C E s = Returned (s, Err EAGAIN)"
  | (slot) nc r ep where "\<not> fork_full C s" "nc < NR_PROCS C" "IN_USE \<notin> flags s nc"
      "vm_fork E (mp_endpoint (mproc s (who_p s))) nc = (r, ep)"
      "do_fork C E s =
        (let s0 = event (VmFork (mp_endpoint (mproc s (who_p s))) nc) (s\<lparr>next_child := nc\<rparr>)
         in if r \<noteq> OK then Returned (s0, r)
            else let s5 = fork_state C E nc ep s0
                 in Returned (tell_fork_tracer C E nc (call_tell_vfs E nc (VFS_PM_FORK (mp_endpoint (mproc s5 nc))
                      (mp_endpoint (mproc s5 (who_p s))) (mp_pid (mproc s5 nc)) (- 1) (- 1)) s5), SUSPEND))"
proof (cases "fork_full C s")
  case True
  then show thesis by (intro that(1)) (simp_all add: do_fork_def Let_def)
next
  case False
  obtain nc n where f: "find_slot C s (next_child s) 0 = (nc, n)" "n \<le> NR_PROCS C" "nc < NR_PROCS C"
      "IN_USE \<notin> flags s nc"
    by (rule find_slot_ok [OF assms(1) False])
  obtain r ep where v: "vm_fork E (mp_endpoint (mproc s (who_p s))) nc = (r, ep)" by force
  have assert: "\<not> (PRIV_PROC \<in> mp_flags (fork_copy C (who_p s) (mproc s (who_p s))) \<and>
      mp_scheduler (fork_copy C (who_p s) (mproc s (who_p s))) \<noteq> NONE_EP C)"
    using assms(2) by (auto simp: caller_ok_def fork_copy_def Let_def)
  show thesis
    by (rule that(2) [OF False f(3,4) v])
      (use False f v assert in \<open>simp add: do_fork_def fork_state_def Let_def, blast\<close>)
qed

lemma do_fork_safe:
  assumes "calls_ok C E" and "config_ok C" and "pm_inv C s" and "caller_ok C s"
  shows "\<exists>s' r. do_fork C E s = Returned (s', r) \<and> pm_inv C s'"
  using assms(3,4)
proof (cases rule: do_fork_cases [where E = E])
  case full
  with assms(3) show ?thesis by simp
next
  case (slot nc r ep)
  let ?s0 = "event (VmFork (mp_endpoint (mproc s (who_p s))) nc) (s\<lparr>next_child := nc\<rparr>)"
  have i0: "pm_inv C ?s0" using assms(3) by (simp add: pm_inv_def used_def)
  let ?s5 = "fork_state C E nc ep ?s0"
  have i5: "pm_inv C ?s5"
    by (rule fork_state_inv [OF assms(2) i0]) (use assms(4) slot(2,3) in \<open>auto simp: caller_ok_def\<close>)
  have "IN_USE \<in> flags ?s5 nc"
    using assms(4) by (simp add: fork_state_fields caller_ok_def)
  then have "pm_inv C (tell_fork_tracer C E nc (call_tell_vfs E nc m ?s5))" for m
    using tell_fork_tracer_inv [OF assms(1) tell_vfs_inv [OF assms(1) i5] slot(2)] by blast
  with i0 show ?thesis unfolding slot(5) Let_def by auto
qed


subsection \<open>The course of an exit\<close>

text \<open>
  What every step from the death of a process on respects: calls are only appended to the
  record, no slot comes into use, and a slot in use keeps its parent and its tracer or gets
  \<open>INIT\<close> and none. Signals, which may make other processes exit, respect it too.
\<close>

definition later :: "pm_config \<Rightarrow> pm \<Rightarrow> pm \<Rightarrow> bool" where
  "later C s s' \<longleftrightarrow> (\<exists>es. events s' = events s @ es) \<and>
     (\<forall>k. IN_USE \<in> flags s' k \<longrightarrow> IN_USE \<in> flags s k \<and>
        mp_parent (mproc s' k) \<in> {mp_parent (mproc s k), INIT_PROC_NR C} \<and>
        mp_tracer (mproc s' k) \<in> {mp_tracer (mproc s k), NO_TRACER C})"

definition signals_ok :: "pm_config \<Rightarrow> pm_env \<Rightarrow> bool" where
  "signals_ok C E \<longleftrightarrow> (\<forall>i sig s. later C s (sig_proc E i sig s)) \<and> (\<forall>g sig s. later C s (check_sig E g sig s))"

lemma later_refl [simp]: "later C s s"
  by (simp add: later_def)

lemma later_trans: "later C s t \<Longrightarrow> later C t u \<Longrightarrow> later C s u"
  unfolding later_def by (metis append.assoc insert_iff singletonD)

lemma later_event [simp]: "later C s (event e s)"
  by (simp add: later_def)

lemma later_upd:
  assumes "IN_USE \<in> mp_flags (f (mproc s i)) \<Longrightarrow> IN_USE \<in> flags s i \<and>
     mp_parent (f (mproc s i)) \<in> {mp_parent (mproc s i), INIT_PROC_NR C} \<and>
     mp_tracer (f (mproc s i)) \<in> {mp_tracer (mproc s i), NO_TRACER C}"
  shows "later C s (upd_mp i f s)"
  using assms by (auto simp: later_def)

lemma later_cleanup: "later C s (cleanup i s)"
  by (auto simp: later_def cleanup_def)

lemma later_bind:
  assumes "bind_outcome m f = Returned u" and "\<And>t. m = Returned t \<Longrightarrow> later C s t"
    and "\<And>t. f t = Returned u \<Longrightarrow> later C t u"
  shows "later C s u"
  using assms by (auto intro: later_trans)

lemma call_later:
  assumes "calls_ok C E" and "signals_ok C E"
  shows "later C s (call_sig_proc E i sig s)" "later C s (call_reply E p r s)"
proof -
  have "later C (event (SigProc i sig) s) (sig_proc E i sig (event (SigProc i sig) s))"
    using assms(2) by (simp add: signals_ok_def)
  then show "later C s (call_sig_proc E i sig s)"
    unfolding call_sig_proc_def by (rule later_trans [OF later_event])
  show "later C s (call_reply E p r s)" using assms(1) by (simp add: call_reply_def calls_ok_def)
qed

lemma tell_parent_later:
  assumes "calls_ok C E" and "tell_parent E i s = Returned t"
  shows "later C s t"
  using assms by (auto simp: tell_parent_def call_reply_def calls_ok_def later_def Let_def split: if_splits)

lemma tell_tracer_later:
  assumes "calls_ok C E" and "tell_tracer E i s = Returned t"
  shows "later C s t"
  using assms by (auto simp: tell_tracer_def call_reply_def calls_ok_def later_def Let_def split: if_splits)

lemma check_parent_later:
  assumes "calls_ok C E" and "signals_ok C E" and "check_parent C E i tc s = Returned t"
  shows "later C s t"
proof (cases "EXITING \<in> flags s (nat (mp_parent (mproc s i))) \<or>
    \<not> wait_test (mproc s (nat (mp_parent (mproc s i)))) (mproc s i)")
  case True
  with assms(3) call_later(1) [OF assms(1,2)] show ?thesis by (auto simp: check_parent_def Let_def split: if_splits)
next
  case False
  with assms(3) obtain u where "tell_parent E i s = Returned u" "t = u \<or> t = cleanup i u"
    by (auto simp: check_parent_def Let_def split: if_splits)
  then show ?thesis using tell_parent_later [OF assms(1)] later_cleanup later_trans by blast
qed

lemma zombify_later:
  assumes "calls_ok C E" and "signals_ok C E" and "zombify C E i s = Returned t"
  shows "later C s t"
proof -
  define z1 where "z1 = upd_mp i (set_flag TRACE_ZOMBIE) s"
  define z2 where "z2 = upd_mp i (set_flag ZOMBIE) s"
  have z: "later C s z1" "later C s z2" unfolding z1_def z2_def by (rule later_upd; auto)+
  note eq = assms(3) [unfolded zombify_def Let_def z1_def [symmetric] z2_def [symmetric]]
  have check: "later C s t" if "later C s u" and "check_parent C E i False u = Returned t" for u
    using check_parent_later [OF assms(1,2) that(2)] that(1) later_trans by blast
  show ?thesis
  proof (cases "mp_tracer (mproc s i) \<noteq> NO_TRACER C \<and> mp_tracer (mproc s i) \<noteq> mp_parent (mproc s i)")
    case traced: True
    show ?thesis
    proof (cases "wait_test (mproc z1 (nat (mp_tracer (mproc z1 i)))) (mproc z1 i)")
      case True
      with eq traced obtain u where u: "tell_tracer E i z1 = Returned u" "check_parent C E i False u = Returned t"
        by (auto split: if_splits)
      with z(1) show ?thesis using tell_tracer_later [OF assms(1) u(1)] check later_trans by blast
    next
      case False
      with eq traced z(1) show ?thesis by (simp split: if_splits)
    qed
  next
    case False
    with eq z(2) check show ?thesis by (auto split: if_splits)
  qed
qed

lemma tracer_died_rest:
  assumes "calls_ok C E" and "signals_ok C E" and "tracer_died C E i s = Returned t"
  shows "later C (upd_mp i (clear_flag TRACE_EXIT \<circ> mp_tracer_update (\<lambda>_. NO_TRACER C)) s) t"
proof -
  define s1 where "s1 = upd_mp i (clear_flag TRACE_EXIT \<circ> mp_tracer_update (\<lambda>_. NO_TRACER C)) s"
  define s2 where "s2 = upd_mp i (set_flag ZOMBIE \<circ> clear_flag TRACE_ZOMBIE) s1"
  have 2: "later C s1 s2" unfolding s2_def by (rule later_upd) auto
  from assms(3) [unfolded tracer_died_def Let_def, folded s1_def s2_def]
  have "later C s1 t"
    using 2 call_later(1) [OF assms(1,2)] check_parent_later [OF assms(1,2)] later_trans
    by (auto split: if_splits)
  then show ?thesis unfolding s1_def .
qed

lemma tracer_died_later:
  assumes "calls_ok C E" and "signals_ok C E" and "tracer_died C E i s = Returned t"
  shows "later C s t"
proof -
  have "later C s (upd_mp i (clear_flag TRACE_EXIT \<circ> mp_tracer_update (\<lambda>_. NO_TRACER C)) s)"
    by (rule later_upd) auto
  then show ?thesis using tracer_died_rest [OF assms] later_trans by blast
qed

lemma disinherit_child_later:
  assumes "calls_ok C E" and "signals_ok C E" and "disinherit_child C E p i s = Returned t"
  shows "later C s t" and "p \<noteq> INIT_PROC_NR C \<Longrightarrow> IN_USE \<in> flags t i \<Longrightarrow> mp_parent (mproc t i) \<noteq> p"
proof -
  let ?s1 = "upd_mp i (mp_parent_update (\<lambda>_. INIT_PROC_NR C)) s"
  define s2 where "s2 = (if VFS_CALL \<in> flags ?s1 i then upd_mp i (set_flag NEW_PARENT) ?s1 else ?s1)"
  have 1: "later C s ?s1" by (rule later_upd) auto
  have "later C ?s1 (upd_mp i (set_flag NEW_PARENT) ?s1)" by (rule later_upd) auto
  with 1 have 2: "later C s s2" unfolding s2_def by (auto intro: later_trans)
  have par: "mp_parent (mproc s2 i) = INIT_PROC_NR C" by (simp add: s2_def)
  show "later C s t"
  proof (cases "mp_parent (mproc s i) = p")
    case True
    with assms(3) have "check_parent C E i True s2 = Returned t \<or> t = s2"
      unfolding disinherit_child_def Let_def s2_def [symmetric] by (metis outcome.inject(1))
    with 2 show ?thesis using check_parent_later [OF assms(1,2)] later_trans by blast
  next
    case False
    with assms(3) show ?thesis by (simp add: disinherit_child_def)
  qed
  show "mp_parent (mproc t i) \<noteq> p" if "p \<noteq> INIT_PROC_NR C" and "IN_USE \<in> flags t i"
  proof (cases "mp_parent (mproc s i) = p")
    case True
    with assms(3) have "check_parent C E i True s2 = Returned t \<or> t = s2"
      unfolding disinherit_child_def Let_def s2_def [symmetric] by (metis outcome.inject(1))
    then have "later C s2 t" using check_parent_later [OF assms(1,2)] by auto
    with par that show ?thesis unfolding later_def by fastforce
  next
    case False
    with assms(3) show ?thesis by (simp add: disinherit_child_def)
  qed
qed

lemma disinherit_one_later:
  assumes "calls_ok C E" and "signals_ok C E" and "disinherit_one C E p i s = Returned t"
  shows "later C s t"
    and "p \<noteq> INIT_PROC_NR C \<Longrightarrow> p \<noteq> NO_TRACER C \<Longrightarrow> IN_USE \<in> flags t i \<Longrightarrow>
      mp_parent (mproc t i) \<noteq> p \<and> mp_tracer (mproc t i) \<noteq> p"
proof -
  consider (free) "IN_USE \<notin> flags s i" "t = s"
    | (traced) u where "mp_tracer (mproc s i) = p" "tracer_died C E i s = Returned u" "disinherit_child C E p i u = Returned t"
    | (own) "mp_tracer (mproc s i) \<noteq> p" "disinherit_child C E p i s = Returned t"
    using assms(3) by (auto simp: disinherit_one_def split: if_splits)
  then have "later C s t \<and> (p \<noteq> INIT_PROC_NR C \<longrightarrow> p \<noteq> NO_TRACER C \<longrightarrow> IN_USE \<in> flags t i \<longrightarrow>
      mp_parent (mproc t i) \<noteq> p \<and> mp_tracer (mproc t i) \<noteq> p)"
  proof cases
    case free
    then show ?thesis by simp
  next
    case traced
    note u = tracer_died_later [OF assms(1,2) traced(2)]
    note c = disinherit_child_later [OF assms(1,2) traced(3)]
    have "mp_tracer (mproc t i) \<noteq> p" if "p \<noteq> NO_TRACER C" "IN_USE \<in> flags t i"
    proof -
      let ?s1 = "upd_mp i (clear_flag TRACE_EXIT \<circ> mp_tracer_update (\<lambda>_. NO_TRACER C)) s"
      have "later C ?s1 u" by (rule tracer_died_rest [OF assms(1,2) traced(2)])
      from later_trans [OF this c(1)] that have "mp_tracer (mproc t i) = NO_TRACER C" by (auto simp: later_def)
      with that(1) show ?thesis by simp
    qed
    with u c show ?thesis using later_trans by blast
  next
    case own
    note c = disinherit_child_later [OF assms(1,2) own(2)]
    have "mp_tracer (mproc t i) \<noteq> p" if "p \<noteq> NO_TRACER C" "IN_USE \<in> flags t i"
      using c(1) that own(1) unfolding later_def by auto
    with c show ?thesis by blast
  qed
  then show "later C s t" "p \<noteq> INIT_PROC_NR C \<Longrightarrow> p \<noteq> NO_TRACER C \<Longrightarrow> IN_USE \<in> flags t i \<Longrightarrow>
      mp_parent (mproc t i) \<noteq> p \<and> mp_tracer (mproc t i) \<noteq> p" by blast+
qed

lemma disinherit_any_later:
  "calls_ok C E \<Longrightarrow> signals_ok C E \<Longrightarrow> disinherit C E p is s = Returned t \<Longrightarrow> later C s t"
proof (induction "is" arbitrary: s)
  case (Cons i "is")
  then obtain u where "disinherit_one C E p i s = Returned u" "disinherit C E p is u = Returned t" by auto
  with Cons show ?case using disinherit_one_later(1) later_trans by blast
qed simp

definition orphan_free :: "int \<Rightarrow> nat \<Rightarrow> pm \<Rightarrow> bool" where
  "orphan_free p i s \<longleftrightarrow> (IN_USE \<in> flags s i \<longrightarrow> mp_parent (mproc s i) \<noteq> p \<and> mp_tracer (mproc s i) \<noteq> p)"

lemma orphan_free_later:
  "orphan_free p i s \<Longrightarrow> later C s t \<Longrightarrow> p \<noteq> INIT_PROC_NR C \<Longrightarrow> p \<noteq> NO_TRACER C \<Longrightarrow> orphan_free p i t"
  unfolding orphan_free_def later_def by auto

lemma disinherit_later:
  assumes "calls_ok C E" and "signals_ok C E" and "p \<noteq> INIT_PROC_NR C" and "p \<noteq> NO_TRACER C"
  shows "disinherit C E p is s = Returned t \<Longrightarrow> later C s t \<and> (\<forall>i \<in> set is. orphan_free p i t)"
proof (induction "is" arbitrary: s)
  case (Cons i "is")
  then obtain u where u: "disinherit_one C E p i s = Returned u" "disinherit C E p is u = Returned t" by auto
  note one = disinherit_one_later [OF assms(1,2) u(1)]
  have "orphan_free p i u" using one(2) assms(3,4) by (simp add: orphan_free_def)
  with Cons.IH [OF u(2)] show ?case using one(1) orphan_free_later [OF _ _ assms(3,4)] later_trans by fastforce
qed simp

lemma exit_account_frame:
  assumes "exit_account E i s = Returned t"
  shows "events t = events s @ [SysTimes (mp_endpoint (mproc s i))]" "\<forall>k. flags t k = flags s k"
    "\<forall>k. mp_endpoint (mproc t k) = mp_endpoint (mproc s k)" "\<forall>k. mp_sigstatus (mproc t k) = mp_sigstatus (mproc s k)"
    "\<forall>k. mp_name (mproc t k) = mp_name (mproc s k)"
  using assms by (auto simp: exit_account_def Let_def split: if_splits prod.splits)

lemma exit_stop_frame:
  assumes "exit_stop E i s = Returned t"
  shows "events t = events s @ (if PROC_STOPPED \<notin> flags s i then [SysStop (mp_endpoint (mproc s i))] else []) @
       [VmWillexit (mp_endpoint (mproc s i)), VmNotifySig (mp_endpoint (mproc s i))]"
    "flags t i = insert PROC_STOPPED (flags s i)"
    "\<forall>k. mp_endpoint (mproc t k) = mp_endpoint (mproc s k)" "\<forall>k. mp_sigstatus (mproc t k) = mp_sigstatus (mproc s k)"
    "\<forall>k. mp_name (mproc t k) = mp_name (mproc s k)"
  using assms by (auto simp: exit_stop_def Let_def split: if_splits)

lemma exit_tell_vfs_events:
  assumes "calls_ok C E" and "exit_tell_vfs E i d s = Returned t"
  shows "events t = events s @ [TellVfs i (if d then VFS_PM_DUMPCORE (mp_endpoint (mproc s i)) (mp_sigstatus (mproc s i))
         (mp_name (mproc s i)) else VFS_PM_EXIT (mp_endpoint (mproc s i)))] @
       (if PRIV_PROC \<in> flags s i then [SysClear (mp_endpoint (mproc s i))] else [])"
  using assms by (auto simp: exit_tell_vfs_def call_tell_vfs_def calls_ok_def Let_def split: if_splits)

text \<open>The calls an exit makes until VFS knows of it, in this order.\<close>

definition exit_calls :: "pm \<Rightarrow> nat \<Rightarrow> bool \<Rightarrow> pm_event list" where
  "exit_calls s i d =
     (let m = mproc s i; ep = mp_endpoint m;
          dump = (d \<and> mp_realuid m = mp_effuid m \<and> PRIV_PROC \<notin> mp_flags m)
      in (if ALARM_ON \<in> mp_flags m then [SetAlarm i 0] else []) @ [SysTimes ep] @
         (if PROC_STOPPED \<notin> mp_flags m then [SysStop ep] else []) @ [VmWillexit ep, VmNotifySig ep] @
         [TellVfs i (if dump then VFS_PM_DUMPCORE ep (mp_sigstatus m) (mp_name m) else VFS_PM_EXIT ep)] @
         (if PRIV_PROC \<in> mp_flags m then [SysClear ep] else []))"

lemma exit_proc_course:
  assumes "calls_ok C E" and "signals_ok C E" and "exit_proc C E i st d s = Returned t"
    and "mp_endpoint (mproc s i) \<noteq> INIT_PROC_NR C"
  obtains s4 s6 s7 where "events s4 = events s @ exit_calls s i d"
    "later C s4 s6" "disinherit C E (int i) [0..<NR_PROCS C] s6 = Returned s7" "later C s7 t"
proof -
  define dd where "dd = (d \<and> mp_realuid (mproc s i) = mp_effuid (mproc s i) \<and> PRIV_PROC \<notin> flags s i)"
  define g where "g = (if mp_pid (mproc s i) = mp_procgrp (mproc s (who_p s)) then mp_procgrp (mproc s (who_p s)) else 0)"
  define s1 where "s1 = (if ALARM_ON \<in> flags s i then set_alarm E i 0 (event (SetAlarm i 0) s) else s)"
  note eq = assms(3) [unfolded exit_proc_def Let_def, folded dd_def g_def s1_def]
  have s1: "events s1 = events s @ (if ALARM_ON \<in> flags s i then [SetAlarm i 0] else [])"
      "flags s1 i = flags s i - {ALARM_ON}" "mp_endpoint (mproc s1 i) = mp_endpoint (mproc s i)"
      "mp_sigstatus (mproc s1 i) = mp_sigstatus (mproc s i)" "mp_name (mproc s1 i) = mp_name (mproc s i)"
    using assms(1) by (auto simp: s1_def calls_ok_def)
  have ne: "mp_endpoint (mproc s i) \<noteq> VFS_PROC_NR C" using eq assms(4) by auto
  have "\<exists>s2. exit_account E i s1 = Returned s2 \<and> (\<exists>s3. exit_stop E i s2 = Returned s3 \<and>
      (\<exists>s4. exit_tell_vfs E i dd s3 = Returned s4 \<and>
      (\<exists>s6. (if \<not> dd then zombify C E i (exit_mark i st s4) else Returned (exit_mark i st s4)) = Returned s6 \<and>
      (\<exists>s7. disinherit C E (int i) [0..<NR_PROCS C] s6 = Returned s7 \<and>
        (if g \<noteq> 0 then check_sig E (- g) (SIGHUP C) (event (CheckSig (- g) (SIGHUP C)) s7) else s7) = t))))"
    using eq assms(4) ne by simp
  then obtain s2 s3 s4 s6 s7 where s2: "exit_account E i s1 = Returned s2" and s3: "exit_stop E i s2 = Returned s3"
      and s4: "exit_tell_vfs E i dd s3 = Returned s4"
      and s6: "(if \<not> dd then zombify C E i (exit_mark i st s4) else Returned (exit_mark i st s4)) = Returned s6"
      and s7: "disinherit C E (int i) [0..<NR_PROCS C] s6 = Returned s7"
      and t: "(if g \<noteq> 0 then check_sig E (- g) (SIGHUP C) (event (CheckSig (- g) (SIGHUP C)) s7) else s7) = t"
    by blast
  have "later C (event e s7) (check_sig E (- g) (SIGHUP C) (event e s7))" for e
    using assms(2) by (simp add: signals_ok_def)
  then have "later C s7 (check_sig E (- g) (SIGHUP C) (event e s7))" for e
    by (rule later_trans [OF later_event])
  then have "later C s7 t" using t by (auto split: if_splits)
  moreover have "later C s4 (exit_mark i st s4)" unfolding exit_mark_def by (rule later_upd) auto
  then have "later C s4 s6" using s6 zombify_later [OF assms(1,2)] later_trans by (auto split: if_splits)
  moreover have "events s4 = events s @ exit_calls s i d"
    using exit_account_frame [OF s2] exit_stop_frame [OF s3] exit_tell_vfs_events [OF assms(1) s4] s1
    by (simp add: exit_calls_def Let_def dd_def)
  ultimately show thesis using that s7 by blast
qed

text \<open>
  C27: a process that exits (not \<open>INIT\<close>, and with the kernel and VM answering) is stopped
  before VM and VFS hear of its exit, and the kernel destroys it only after VFS has been
  told: these calls come first, in this order, whatever signals the exit sends later. The
  table invariant holds afterwards and nothing panics.
\<close>

theorem exit_proc_order:
  assumes "calls_ok C E" and "signals_ok C E" and "config_ok C" and "pm_inv C s" and "i < NR_PROCS C"
    and "IN_USE \<in> flags s i" and "exit_calls_ok C E s i" and "mp_endpoint (mproc s i) \<noteq> INIT_PROC_NR C"
  shows "\<exists>t rest. exit_proc C E i st d s = Returned t \<and> pm_inv C t \<and>
     events t = events s @ exit_calls s i d @ rest"
proof -
  obtain t where t: "exit_proc C E i st d s = Returned t" "pm_inv C t"
    using exit_proc_safe [OF assms(1,3-7)] by blast
  obtain s4 s6 s7 where "events s4 = events s @ exit_calls s i d"
      "later C s4 s6" "disinherit C E (int i) [0..<NR_PROCS C] s6 = Returned s7" "later C s7 t"
    by (rule exit_proc_course [OF assms(1,2) t(1) assms(8)])
  moreover have "later C s6 s7" using calculation(3) disinherit_any_later [OF assms(1,2)] by blast
  ultimately have "later C s4 t" "events s4 = events s @ exit_calls s i d" using later_trans by blast+
  with t show ?thesis by (auto simp: later_def)
qed

text \<open>
  C28: after an exit no process in use has the dead process as its parent or as its tracer:
  its children belong to \<open>INIT\<close>, its traced processes are without a tracer.
\<close>

theorem exit_proc_reparents:
  assumes "calls_ok C E" and "signals_ok C E" and "config_ok C" and "pm_inv C s" and "0 < i" and "i < NR_PROCS C"
    and "IN_USE \<in> flags s i" and "exit_calls_ok C E s i" and "mp_endpoint (mproc s i) \<noteq> INIT_PROC_NR C"
    and "int i \<noteq> INIT_PROC_NR C"
  shows "\<exists>t. exit_proc C E i st d s = Returned t \<and>
    (\<forall>k < NR_PROCS C. IN_USE \<in> flags t k \<longrightarrow>
       mp_parent (mproc t k) \<noteq> int i \<and> mp_tracer (mproc t k) \<noteq> int i)"
proof -
  obtain t where t: "exit_proc C E i st d s = Returned t"
    using exit_proc_safe [OF assms(1,3,4,6-8)] by blast
  obtain s4 s6 s7 where d: "disinherit C E (int i) [0..<NR_PROCS C] s6 = Returned s7" and l: "later C s7 t"
    by (rule exit_proc_course [OF assms(1,2) t assms(9)])
  have p: "int i \<noteq> NO_TRACER C" using assms(3,5) by (simp add: config_ok_def)
  have "\<forall>k \<in> set [0..<NR_PROCS C]. orphan_free (int i) k s7"
    using disinherit_later [OF assms(1,2,10) p d] by blast
  then have "orphan_free (int i) k t" if "k < NR_PROCS C" for k
    using orphan_free_later [OF _ l assms(10) p] that by simp
  with t show ?thesis by (auto simp: orphan_free_def)
qed

subsection \<open>Waitpid\<close>

definition wait_has_news :: "pm_config \<Rightarrow> int \<Rightarrow> pm \<Rightarrow> nat \<Rightarrow> bool" where
  "wait_has_news C pidarg s i \<longleftrightarrow> wait_candidate (int (who_p s)) pidarg (mproc s i) \<and>
     wait_news_of C (int (who_p s)) (mproc s i) \<noteq> NoNews"

lemma wait_loop_Inl:
  "wait_loop C pidarg s is n = Inl m \<longleftrightarrow> (\<forall>i \<in> set is. \<not> wait_has_news C pidarg s i) \<and>
     m = n + length (filter (\<lambda>i. wait_candidate (int (who_p s)) pidarg (mproc s i)) is)"
  by (induction "is" arbitrary: n) (auto simp: wait_has_news_def split: wait_news.split)

lemma wait_loop_hit:
  "\<forall>j \<in> set xs. \<not> wait_has_news C pidarg s j \<Longrightarrow> wait_has_news C pidarg s i \<Longrightarrow>
     wait_loop C pidarg s (xs @ i # ys) n = Inr (i, wait_news_of C (int (who_p s)) (mproc s i))"
  by (induction xs arbitrary: n) (auto simp: wait_has_news_def split: wait_news.split)

text \<open>
  C29: \<open>do_waitpid\<close> fails with \<open>ECHILD\<close>, and leaves everything as it was, exactly when
  no process of the table qualifies; when some qualify but none has news it returns 0 under
  \<open>WNOHANG\<close> and otherwise puts the caller to sleep waiting for that pid argument; when
  one has news, the one in the lowest slot is dealt with.
\<close>

theorem do_waitpid_correct:
  "if \<forall>i < NR_PROCS C. \<not> wait_candidate (int (who_p s)) (wait_pidarg pid s) (mproc s i)
   then do_waitpid C E pid nohang s = Returned (s, Err ECHILD)
   else if \<forall>i < NR_PROCS C. \<not> wait_has_news C (wait_pidarg pid s) s i
   then do_waitpid C E pid nohang s =
      (if nohang then Returned (s, Ret 0)
       else Returned (upd_mp (who_p s) (\<lambda>m. m\<lparr>mp_flags := insert WAITING (mp_flags m),
              mp_wpid := wait_pidarg pid s\<rparr>) s, SUSPEND))
   else \<exists>i < NR_PROCS C. wait_has_news C (wait_pidarg pid s) s i \<and>
      (\<forall>j < i. \<not> wait_has_news C (wait_pidarg pid s) s j) \<and>
      do_waitpid C E pid nohang s = wait_deliver C E i (wait_news_of C (int (who_p s)) (mproc s i)) s"
proof -
  let ?p = "wait_pidarg pid s" and ?is = "[0..<NR_PROCS C]"
  let ?len = "length (filter (\<lambda>i. wait_candidate (int (who_p s)) ?p (mproc s i)) ?is)"
  have len: "0 < ?len \<longleftrightarrow> \<not> (\<forall>i < NR_PROCS C. \<not> wait_candidate (int (who_p s)) ?p (mproc s i))"
    by (auto simp: filter_empty_conv)
  have none: "wait_loop C ?p s ?is 0 = Inl ?len" if "\<forall>i < NR_PROCS C. \<not> wait_has_news C ?p s i"
    using that wait_loop_Inl [of C ?p s ?is 0] by auto
  consider (no) "\<forall>i < NR_PROCS C. \<not> wait_candidate (int (who_p s)) ?p (mproc s i)"
    | (quiet) "\<not> (\<forall>i < NR_PROCS C. \<not> wait_candidate (int (who_p s)) ?p (mproc s i))" "\<forall>i < NR_PROCS C. \<not> wait_has_news C ?p s i"
    | (news) "\<exists>i. i < NR_PROCS C \<and> wait_has_news C ?p s i" by blast
  then show ?thesis
  proof cases
    case no
    then have "wait_loop C ?p s ?is 0 = Inl ?len" by (intro none) (simp add: wait_has_news_def)
    moreover have "\<not> 0 < ?len" using len no by blast
    ultimately show ?thesis using no by (simp add: do_waitpid_def Let_def)
  next
    case quiet
    then have "0 < ?len" using len by blast
    with none [OF quiet(2)] quiet show ?thesis by (simp add: do_waitpid_def Let_def)
  next
    case news
    define i where "i = (LEAST i. i < NR_PROCS C \<and> wait_has_news C ?p s i)"
    have i: "i < NR_PROCS C" "wait_has_news C ?p s i" unfolding i_def using LeastI_ex [OF news] by blast+
    have first: "\<not> wait_has_news C ?p s j" if "j < i" for j
      using not_less_Least [OF that [unfolded i_def]] that i(1) by simp
    have "[0..<NR_PROCS C] = [0..<i] @ i # [Suc i..<NR_PROCS C]"
      using i(1) upt_add_eq_append [of 0 i "NR_PROCS C - i"] by (simp add: upt_conv_Cons)
    then have "wait_loop C ?p s ?is 0 = Inr (i, wait_news_of C (int (who_p s)) (mproc s i))"
      using wait_loop_hit [of "[0..<i]" C ?p s i "[Suc i..<NR_PROCS C]" 0] i(2) first by simp
    then have "do_waitpid C E pid nohang s = wait_deliver C E i (wait_news_of C (int (who_p s)) (mproc s i)) s"
      by (simp add: do_waitpid_def Let_def)
    moreover have "wait_candidate (int (who_p s)) ?p (mproc s i)" using i(2) by (simp add: wait_has_news_def)
    ultimately show ?thesis using i first by auto
  qed
qed

text \<open>The state of parent and child once the parent has been told.\<close>

lemma tell_parent_result:
  assumes "calls_ok C E" and "mp_parent (mproc s c) = int p" and "0 < p" and "c \<noteq> p"
    and "ZOMBIE \<in> flags s c" and "TOLD_PARENT \<notin> flags s c"
  obtains u where "tell_parent E c s = Returned u"
    "events u = events s @ [Reply (int p) (mp_pid (mproc s c))]"
    "flags u p = flags s p - {WAITING}"
    "mp_reply_status (mproc u p) = W_EXITCODE (mp_exitstatus (mproc s c)) (mp_sigstatus (mproc s c))"
    "flags u c = insert TOLD_PARENT (flags s c - {ZOMBIE})"
    "\<forall>k. k \<noteq> c \<longrightarrow> k \<noteq> p \<longrightarrow> mproc u k = mproc s k" "procs_in_use u = procs_in_use s"
proof -
  let ?s1 = "upd_mp p (mp_reply_status_update (\<lambda>_. W_EXITCODE (mp_exitstatus (mproc s c)) (mp_sigstatus (mproc s c)))) s"
  let ?s2 = "event (Reply (int p) (mp_pid (mproc s c))) ?s1"
  let ?u = "upd_mp c (set_flag TOLD_PARENT \<circ> clear_flag ZOMBIE) (upd_mp p (clear_flag WAITING) ?s2)"
  have reply: "reply E q r t = t" for q r t using assms(1) by (simp add: calls_ok_def)
  have "tell_parent E c s = Returned ?u"
    unfolding tell_parent_def call_reply_def Let_def reply using assms(2-) by simp
  then show thesis by (rule that) (use assms(4) in simp_all)
qed

text \<open>
  C30: no wake-up is lost. Suppose the caller goes to sleep in \<open>waitpid\<close> while its child
  \<open>c\<close> qualifies, and later, after any other steps, that child becomes a zombie (it exits,
  and no other process traces it) with the parent still asleep: the parent gets a reply with
  the child's pid and exit status, is no longer waiting, and the child is marked so that the
  parent is not told again.
\<close>

theorem waiting_parent_is_woken:
  assumes "calls_ok C E"
    and "wait_candidate (int p) pidarg (mproc s c)" and "pidarg \<noteq> 0"
    and asleep: "WAITING \<in> flags t p" "mp_wpid (mproc t p) = pidarg" "EXITING \<notin> flags t p"
    and same: "mp_pid (mproc t c) = mp_pid (mproc s c)" "mp_procgrp (mproc t c) = mp_procgrp (mproc s c)"
    and child: "mp_parent (mproc t c) = int p" "0 < p" "c \<noteq> p" "mp_tracer (mproc t c) = NO_TRACER C"
      "flags t c \<inter> {ZOMBIE, TRACE_ZOMBIE, TOLD_PARENT} = {}"
  shows "\<exists>u. zombify C E c t = Returned u \<and>
    events u = events t @ [Reply (int p) (mp_pid (mproc s c))] \<and>
    mp_reply_status (mproc u p) = W_EXITCODE (mp_exitstatus (mproc t c)) (mp_sigstatus (mproc t c)) \<and>
    WAITING \<notin> flags u p \<and> flags u c = insert TOLD_PARENT (flags t c)"
proof -
  let ?t = "upd_mp c (set_flag ZOMBIE) t"
  have "\<not> (pidarg > 0 \<and> pidarg \<noteq> mp_pid (mproc s c))" "\<not> (pidarg < - 1 \<and> - pidarg \<noteq> mp_procgrp (mproc s c))"
    using assms(2) unfolding wait_candidate_def by blast+
  then have "pidarg = - 1 \<or> pidarg = mp_pid (mproc s c) \<or> - pidarg = mp_procgrp (mproc s c)"
    using assms(3) by linarith
  then have test: "wait_test (mproc ?t p) (mproc ?t c)"
    unfolding wait_test_def using asleep(1,2) same child(3) by simp
  obtain u where u: "tell_parent E c ?t = Returned u"
      "events u = events ?t @ [Reply (int p) (mp_pid (mproc ?t c))]" "flags u p = flags ?t p - {WAITING}"
      "mp_reply_status (mproc u p) = W_EXITCODE (mp_exitstatus (mproc ?t c)) (mp_sigstatus (mproc ?t c))"
      "flags u c = insert TOLD_PARENT (flags ?t c - {ZOMBIE})"
    by (rule tell_parent_result [OF assms(1), of ?t c p]) (use child in auto)
  have "check_parent C E c False ?t = Returned u"
    using test asleep(3) child(1,3) u(1) by (simp add: check_parent_def)
  moreover have "zombify C E c t = check_parent C E c False ?t"
    using child(4,5) by (auto simp: zombify_def)
  moreover have "flags ?t c - {ZOMBIE} = flags t c" using child(5) by auto
  ultimately show ?thesis using u(2-) child(3) same(1) by simp
qed

text \<open>
  A zombie child is collected: when the first process with news is a child of the caller
  that has exited and VFS has no business with it any more, \<open>waitpid\<close> replies to the
  caller with the child's pid and exit status, empties the child's slot, and one process
  less is in use.
\<close>

theorem waitpid_collects_zombie:
  fixes s :: pm
  defines "p \<equiv> who_p s"
  assumes "calls_ok C E" and "0 < p" and "i \<noteq> p" and "i < NR_PROCS C"
    and "wait_has_news C (wait_pidarg pid s) s i" and "\<forall>j < i. \<not> wait_has_news C (wait_pidarg pid s) s j"
    and "wait_news_of C (int p) (mproc s i) = ChildExit" and "VFS_CALL \<notin> flags s i"
  shows "\<exists>u. do_waitpid C E pid nohang s = Returned (u, SUSPEND) \<and>
    events u = events s @ [Reply (int p) (mp_pid (mproc s i))] \<and>
    mp_reply_status (mproc u p) = W_EXITCODE (mp_exitstatus (mproc s i)) (mp_sigstatus (mproc s i)) \<and>
    flags u i = {} \<and> mp_pid (mproc u i) = 0 \<and> procs_in_use u = procs_in_use s - 1 \<and>
    (\<forall>k. k \<noteq> i \<longrightarrow> k \<noteq> p \<longrightarrow> mproc u k = mproc s k)"
proof -
  have z: "ZOMBIE \<in> flags s i" "mp_parent (mproc s i) = int p"
    using assms(8) by (auto simp: wait_news_of_def split: if_splits option.splits)
  have told: "TOLD_PARENT \<notin> flags s i"
    using assms(6) by (auto simp: wait_has_news_def wait_candidate_def)
  obtain u where u: "tell_parent E i s = Returned u"
      "events u = events s @ [Reply (int p) (mp_pid (mproc s i))]" "flags u p = flags s p - {WAITING}"
      "mp_reply_status (mproc u p) = W_EXITCODE (mp_exitstatus (mproc s i)) (mp_sigstatus (mproc s i))"
      "flags u i = insert TOLD_PARENT (flags s i - {ZOMBIE})"
      "\<forall>k. k \<noteq> i \<longrightarrow> k \<noteq> p \<longrightarrow> mproc u k = mproc s k" "procs_in_use u = procs_in_use s"
    by (rule tell_parent_result [OF assms(2) z(2) assms(3,4) z(1) told])
  have "[0..<NR_PROCS C] = [0..<i] @ i # [Suc i..<NR_PROCS C]"
    using assms(5) upt_add_eq_append [of 0 i "NR_PROCS C - i"] by (simp add: upt_conv_Cons)
  then have "wait_loop C (wait_pidarg pid s) s [0..<NR_PROCS C] 0 = Inr (i, ChildExit)"
    using wait_loop_hit [of "[0..<i]" C _ s i "[Suc i..<NR_PROCS C]" 0] assms(6-8) by (simp add: p_def)
  then have "do_waitpid C E pid nohang s = Returned (cleanup i u, SUSPEND)"
    using u(1,5) assms(9) by (simp add: do_waitpid_def wait_deliver_def Let_def)
  with u assms(4) show ?thesis by (simp add: cleanup_def)
qed

subsection \<open>Runs of the process manager\<close>

lemma do_srv_fork_safe:
  assumes "calls_ok C E" and "config_ok C" and "pm_inv C s" and "caller_ok C s"
  shows "\<exists>s' r. do_srv_fork C E uid gid s = Returned (s', r) \<and> pm_inv C s'"
proof (cases "mp_endpoint (mproc s (who_p s)) \<noteq> RS_PROC_NR C \<or> fork_full C s")
  case True
  with assms(3) show ?thesis by (auto simp: do_srv_fork_def Let_def)
next
  case False
  obtain nc n where f: "find_slot C s (next_child_srv s) 0 = (nc, n)" "n \<le> NR_PROCS C" "nc < NR_PROCS C"
      "IN_USE \<notin> flags s nc"
    by (rule find_slot_ok [OF assms(3)]) (use False in auto)
  obtain r ep where v: "vm_fork E (mp_endpoint (mproc s (who_p s))) nc = (r, ep)" by force
  define s2 where "s2 = event (VmFork (mp_endpoint (mproc s (who_p s))) nc) (s\<lparr>next_child_srv := nc\<rparr>)"
  have i2: "pm_inv C s2" using assms(3) by (simp add: s2_def pm_inv_def used_def)
  let ?m = "mproc s (who_p s)"
  let ?c = "fork_reset C srv_fork_inherit ep (fork_copy C (who_p s) ?m)"
  let ?c1 = "?c\<lparr>mp_realuid := uid, mp_effuid := uid, mp_realgid := gid, mp_effgid := gid\<rparr>"
  have who: "who_p s < NR_PROCS C" "0 < who_p s" "IN_USE \<in> mp_flags ?m" using assms(4) by (auto simp: caller_ok_def)
  have "slot_ok C ?c"
    using fork_child_ok [OF assms(2) inv_slot [OF assms(3) who(1)] who(3,2,1), of srv_fork_inherit ep]
    by (simp add: srv_fork_inherit_def)
  then have ok: "slot_ok C ?c1" by simp
  have use: "IN_USE \<in> mp_flags ?c1" using who(3) by (simp add: fork_reset_def fork_copy_def srv_fork_inherit_def Let_def)
  define s4 where "s4 = s2\<lparr>procs_in_use := procs_in_use s2 + 1, mproc := (mproc s2)(nc := ?c1)\<rparr>"
  have i4: "pm_inv C s4" unfolding s4_def by (rule inv_add [OF i2 f(3) _ use ok]) (use f(4) in \<open>simp add: s2_def\<close>)
  define s5 where "s5 = upd_mp nc (mp_pid_update (\<lambda>_. get_free_pid E s4)) s4"
  have i5: "pm_inv C s5" unfolding s5_def by (rule inv_upd [OF i4]) auto
  have use5: "IN_USE \<in> flags s5 nc" using use by (simp add: s5_def s4_def)
  define s6 where "s6 = call_tell_vfs E nc (VFS_PM_SRV_FORK (mp_endpoint (mproc s5 nc)) (mp_endpoint (mproc s5 (who_p s)))
      (mp_pid (mproc s5 nc)) (int uid) (int gid)) s5"
  have i6: "pm_inv C (tell_fork_tracer C E nc s6)"
    unfolding s6_def using tell_fork_tracer_inv [OF assms(1) tell_vfs_inv [OF assms(1) i5 use5] f(3)] .
  then have i8: "pm_inv C (call_reply E (int nc) 0 (tell_fork_tracer C E nc s6))"
    using assms(1) by (simp add: call_reply_def calls_ok_def)
  have "do_srv_fork C E uid gid s = (if r \<noteq> OK then Returned (s2, r)
      else let s8 = call_reply E (int nc) 0 (tell_fork_tracer C E nc s6) in Returned (s8, Ret (nat (mp_pid (mproc s8 nc)))))"
    using False f v by (simp add: do_srv_fork_def s6_def s5_def s4_def s2_def Let_def)
  with i2 i8 show ?thesis by (auto simp: Let_def)
qed

lemma wait_deliver_safe:
  assumes "calls_ok C E" and "pm_inv C s" and "caller_ok C s" and "i < NR_PROCS C"
    and "wait_has_news C pidarg s i" and "NO_TRACER C \<le> 0"
  shows "\<exists>s' r. wait_deliver C E i (wait_news_of C (int (who_p s)) (mproc s i)) s = Returned (s', r) \<and> pm_inv C s'"
proof (cases "wait_news_of C (int (who_p s)) (mproc s i)")
  case TracedExit
  then have t: "TRACE_ZOMBIE \<in> flags s i" "mp_tracer (mproc s i) = int (who_p s)"
    by (auto simp: wait_news_of_def split: if_splits option.splits)
  then have "mp_tracer (mproc s i) \<noteq> NO_TRACER C" using assms(3,6) by (simp add: caller_ok_def)
  then obtain s1 where s1: "tell_tracer E i s = Returned s1" "pm_inv C s1" "ZOMBIE \<in> flags s1 i"
    using tell_tracer_inv [OF assms(1,2,4) t(1)] by blast
  obtain s2 where "check_parent C E i True s1 = Returned s2" "pm_inv C s2"
    using check_parent_safe [OF assms(1) s1(2) assms(4) s1(3), of True] by (auto simp: safe_def)
  with s1 TracedExit show ?thesis by (simp add: wait_deliver_def)
next
  case (TracedStop k)
  let ?s1 = "upd_mp i (mp_sigtrace_update (\<lambda>t. t - {k})) s"
  have "pm_inv C ?s1" by (rule inv_upd [OF assms(2)]) (auto simp: slot_ok_def)
  then have "pm_inv C (upd_mp (who_p ?s1) (mp_reply_status_update (\<lambda>_. W_STOPCODE (int k))) ?s1)"
    by (rule inv_upd) (auto simp: slot_ok_def)
  with TracedStop show ?thesis by (simp add: wait_deliver_def Let_def)
next
  case ChildExit
  then have z: "ZOMBIE \<in> flags s i" by (auto simp: wait_news_of_def split: if_splits option.splits)
  obtain s1 where s1: "tell_parent E i s = Returned s1" "pm_inv C s1"
    "flags s1 i = insert TOLD_PARENT (flags s i - {ZOMBIE}) -
       (if nat (mp_parent (mproc s i)) = i then {WAITING} else {})"
    by (rule tell_parent_inv [OF assms(1,2,4) z])
  have "IN_USE \<in> flags s1 i" using s1(3) flagged_in_use [OF assms(2,4) z] by auto
  then have "pm_inv C (cleanup i s1)" by (rule inv_cleanup [OF s1(2) assms(4)])
  with ChildExit s1 show ?thesis by (simp add: wait_deliver_def)
next
  case NoNews
  with assms(5) show ?thesis by (simp add: wait_has_news_def)
qed

lemma wait_loop_InrD:
  "wait_loop C pidarg s is n = Inr (i, news) \<Longrightarrow>
     i \<in> set is \<and> wait_has_news C pidarg s i \<and> news = wait_news_of C (int (who_p s)) (mproc s i)"
proof (induction "is" arbitrary: n)
  case (Cons k "is")
  show ?case
  proof (cases "wait_has_news C pidarg s k")
    case True
    with Cons.prems wait_loop_hit [of "[]" C pidarg s k "is" n] show ?thesis by simp
  next
    case False
    then have "\<exists>m. wait_loop C pidarg s (k # is) n = wait_loop C pidarg s is m"
      by (auto simp: wait_has_news_def)
    with Cons show ?thesis by (metis list.set_intros(2))
  qed
qed simp

lemma do_waitpid_safe:
  assumes "calls_ok C E" and "config_ok C" and "pm_inv C s" and "caller_ok C s"
  shows "\<exists>s' r. do_waitpid C E pid nohang s = Returned (s', r) \<and> pm_inv C s'"
proof (cases "wait_loop C (wait_pidarg pid s) s [0..<NR_PROCS C] 0")
  case (Inl n)
  have "pm_inv C (upd_mp (who_p s) (\<lambda>m. m\<lparr>mp_flags := insert WAITING (mp_flags m), mp_wpid := wait_pidarg pid s\<rparr>) s)"
    by (rule inv_upd [OF assms(3)]) (use assms(4) in \<open>auto simp: slot_ok_def exit_state_ok_def caller_ok_def\<close>)
  with Inl assms(3) show ?thesis by (simp add: do_waitpid_def Let_def)
next
  case (Inr x)
  obtain i news where x: "x = (i, news)" by force
  note d = wait_loop_InrD [OF Inr [unfolded x]]
  have "\<exists>s' r. wait_deliver C E i news s = Returned (s', r) \<and> pm_inv C s'"
    using wait_deliver_safe [OF assms(1,3,4), of i] d assms(2) by (auto simp: config_ok_def)
  with Inr x show ?thesis by (simp add: do_waitpid_def Let_def)
qed

text \<open>
  The requests this file serves, with the slot of the caller, and the replies of VFS that
  complete an exit. The main loop passes on requests of processes that are in use and not
  exiting; VFS replies to an exit or a core dump it has been told of, and the main loop
  clears \<open>VFS_CALL\<close> before it calls \<open>exit_restart\<close>.
\<close>

datatype pm_request =
    ReqFork nat
  | ReqSrvFork nat nat nat
  | ReqExit nat int
  | ReqWaitpid nat int bool
  | VfsExitReply nat bool

definition pm_serve :: "pm_config \<Rightarrow> pm_env \<Rightarrow> pm_request \<Rightarrow> pm \<Rightarrow> pm outcome" where
  "pm_serve C E r s =
     (let reply_of = (\<lambda>m. bind_outcome m (\<lambda>(s', r). Returned s'))
      in case r of
           ReqFork p \<Rightarrow> reply_of (do_fork C E (s\<lparr>who_p := p\<rparr>))
         | ReqSrvFork p uid gid \<Rightarrow> reply_of (do_srv_fork C E uid gid (s\<lparr>who_p := p\<rparr>))
         | ReqExit p st \<Rightarrow> reply_of (do_exit C E st (s\<lparr>who_p := p\<rparr>))
         | ReqWaitpid p pid nohang \<Rightarrow> reply_of (do_waitpid C E pid nohang (s\<lparr>who_p := p\<rparr>))
         | VfsExitReply i d \<Rightarrow> exit_restart C E i d (upd_mp i (clear_flag VFS_CALL) s))"

definition pm_valid :: "pm_config \<Rightarrow> pm_env \<Rightarrow> pm_request \<Rightarrow> pm \<Rightarrow> bool" where
  "pm_valid C E r s =
     (case r of
        ReqFork p \<Rightarrow> caller_ok C (s\<lparr>who_p := p\<rparr>)
      | ReqSrvFork p uid gid \<Rightarrow> caller_ok C (s\<lparr>who_p := p\<rparr>)
      | ReqExit p st \<Rightarrow> caller_ok C (s\<lparr>who_p := p\<rparr>) \<and> exit_calls_ok C E s p
      | ReqWaitpid p pid nohang \<Rightarrow> caller_ok C (s\<lparr>who_p := p\<rparr>)
      | VfsExitReply i d \<Rightarrow> i < NR_PROCS C \<and> EXITING \<in> flags s i \<and> VFS_CALL \<in> flags s i \<and>
          (d \<longrightarrow> flags s i \<inter> {ZOMBIE, TRACE_ZOMBIE, TOLD_PARENT} = {}) \<and>
          (\<forall>ep. sys_clear E ep = OK \<and> vm_exit E ep = OK))"

lemma inv_who_p [simp]: "pm_inv C (s\<lparr>who_p := p\<rparr>) = pm_inv C s"
  by (simp add: pm_inv_def used_def)

lemma pm_serve_safe:
  assumes "calls_ok C E" and "config_ok C" and "pm_inv C s" and "pm_valid C E r s"
  shows "\<exists>s'. pm_serve C E r s = Returned s' \<and> pm_inv C s'"
proof (cases r)
  case (ReqFork p)
  with do_fork_safe [OF assms(1,2), of "s\<lparr>who_p := p\<rparr>"] assms(3,4) show ?thesis
    by (auto simp: pm_serve_def pm_valid_def)
next
  case (ReqSrvFork p uid gid)
  with do_srv_fork_safe [OF assms(1,2), of "s\<lparr>who_p := p\<rparr>" uid gid] assms(3,4) show ?thesis
    by (auto simp: pm_serve_def pm_valid_def)
next
  case (ReqExit p st)
  then have v: "caller_ok C (s\<lparr>who_p := p\<rparr>)" "exit_calls_ok C E (s\<lparr>who_p := p\<rparr>) p"
    using assms(4) by (simp_all add: pm_valid_def exit_calls_ok_def)
  then obtain s' where "exit_proc C E p st False (s\<lparr>who_p := p\<rparr>) = Returned s'" "pm_inv C s'"
    using exit_proc_safe [OF assms(1,2), of "s\<lparr>who_p := p\<rparr>" p st False] assms(3) by (auto simp: caller_ok_def)
  with ReqExit assms(3) show ?thesis by (simp add: pm_serve_def do_exit_def)
next
  case (ReqWaitpid p pid nohang)
  with do_waitpid_safe [OF assms(1,2), of "s\<lparr>who_p := p\<rparr>" pid nohang] assms(3,4) show ?thesis
    by (auto simp: pm_serve_def pm_valid_def)
next
  case (VfsExitReply i d)
  let ?s = "upd_mp i (clear_flag VFS_CALL) s"
  have "pm_inv C ?s" by (rule inv_upd [OF assms(3)]) (auto simp: slot_ok_def exit_state_ok_def)
  then have "\<exists>s'. exit_restart C E i d ?s = Returned s' \<and> pm_inv C s'"
    by (rule exit_restart_safe [OF assms(1)]) (use VfsExitReply assms(4) in \<open>auto simp: pm_valid_def\<close>)
  with VfsExitReply show ?thesis by (simp add: pm_serve_def)
qed

definition pm_step :: "pm_config \<Rightarrow> pm_env \<Rightarrow> pm \<Rightarrow> pm_request \<Rightarrow> pm" where
  "pm_step C E s r =
     (if pm_valid C E r s then case pm_serve C E r s of Returned s' \<Rightarrow> s' | Aborted _ \<Rightarrow> s else s)"

interpretation pm_server: server "pm_step C E" "\<lambda>s. calls_ok C E \<and> config_ok C \<and> pm_inv C s" for C E
proof
  fix s r
  assume inv: "calls_ok C E \<and> config_ok C \<and> pm_inv C s"
  then show "calls_ok C E \<and> config_ok C \<and> pm_inv C (pm_step C E s r)"
    using pm_serve_safe [of C E s r] by (auto simp: pm_step_def)
qed


subsection \<open>A small table\<close>

text \<open>
  Sixteen slots; slot 1 is \<open>INIT\<close>, slot 4 its child, slot 6 a child of slot 4. The
  calls do what they are documented to do, and signals are only recorded.
\<close>

definition demo_config :: pm_config where
  "demo_config = \<lparr>NR_PROCS = 16, NO_TRACER = 0, INIT_PROC_NR = 1, VFS_PROC_NR = 7, RS_PROC_NR = 2,
     SCHED_PROC_NR = 3, NONE_EP = - 2, NR_ITIMERS = 3, NSIG = 27, SIGCHLD = 20, SIGKILL = 9,
     SIGSTOP = 17, SIGHUP = 1\<rparr>"

definition demo_env :: pm_env where
  "demo_env = \<lparr>vm_fork = (\<lambda>_ nc. (OK, 100 + int nc)), get_free_pid = (\<lambda>_. 42),
     tell_vfs = (\<lambda>i _ s. upd_mp i (set_flag VFS_CALL) s), sig_proc = (\<lambda>_ _ s. s), check_sig = (\<lambda>_ _ s. s),
     set_alarm = (\<lambda>i _ s. upd_mp i (clear_flag ALARM_ON) s), reply = (\<lambda>_ _ s. s), sys_times = (\<lambda>_. (OK, 5, 7)),
     sys_stop = (\<lambda>_. OK), sys_clear = (\<lambda>_. OK), vm_willexit = (\<lambda>_. OK), vm_exit = (\<lambda>_. OK),
     sched_stop = (\<lambda>_ _. OK)\<rparr>"

definition demo_slot :: "mp_flag set \<Rightarrow> int \<Rightarrow> int \<Rightarrow> mproc_t" where
  "demo_slot F n par = \<lparr>mp_flags = F, mp_endpoint = 50 + n, mp_pid = 10 + n, mp_procgrp = 30, mp_wpid = 0,
     mp_parent = par, mp_tracer = 0, mp_trace_flags = {}, mp_sigtrace = {}, mp_scheduler = 3, mp_realuid = 8,
     mp_effuid = 8, mp_realgid = 1, mp_effgid = 1, mp_child_utime = 0, mp_child_stime = 0, mp_exitstatus = 3,
     mp_sigstatus = 0, mp_interval = (\<lambda>_. 0), mp_name = ''demo'', mp_reply_status = 0, mp_reply_data = 0\<rparr>"

text \<open>The table, with the flags of slot 6 and the caller as arguments.\<close>

definition demo_pm :: "mp_flag set \<Rightarrow> nat \<Rightarrow> pm" where
  "demo_pm F who = \<lparr>mproc = (\<lambda>i. if i = 1 then demo_slot {IN_USE} 1 1 else if i = 4 then demo_slot {IN_USE} 4 1
      else if i = 6 then demo_slot F 6 4 else demo_slot {} 0 0),
     procs_in_use = 3, who_p = who, next_child = 3, next_child_srv = 0, events = []\<rparr>"

lemma demo_config_ok: "config_ok demo_config"
  by (simp add: config_ok_def demo_config_def)

lemma demo_calls_ok: "calls_ok demo_config demo_env"
  by (simp add: calls_ok_def demo_env_def)

lemma demo_signals_ok: "signals_ok demo_config demo_env"
  by (simp add: signals_ok_def demo_env_def)

lemma demo_inv: "IN_USE \<in> F \<Longrightarrow> exit_state_ok F \<Longrightarrow> pm_inv demo_config (demo_pm F who)"
proof -
  assume F: "IN_USE \<in> F" "exit_state_ok F"
  then have "used demo_config (demo_pm F who) = {1, 4, 6}"
    by (auto simp: used_def demo_pm_def demo_config_def demo_slot_def split: if_splits)
  with F show ?thesis
    by (simp add: pm_inv_def demo_pm_def demo_config_def demo_slot_def slot_ok_def) (simp add: exit_state_ok_def)
qed

lemma demo_caller: "caller_ok demo_config (demo_pm F 4)"
  by (simp add: caller_ok_def demo_pm_def demo_config_def demo_slot_def)


theorem exit_proc_order_witness:
  "\<exists>t rest. exit_proc demo_config demo_env 6 0 False (demo_pm {IN_USE, ALARM_ON} 6) = Returned t \<and>
     events t = [SetAlarm 6 0, SysTimes 56, SysStop 56, VmWillexit 56, VmNotifySig 56, TellVfs 6 (VFS_PM_EXIT 56)] @ rest"
proof -
  let ?s = "demo_pm {IN_USE, ALARM_ON} 6"
  have inv: "pm_inv demo_config ?s" by (rule demo_inv) (simp_all add: exit_state_ok_def)
  have ep: "mp_endpoint (mproc ?s 6) = 56" "IN_USE \<in> flags ?s 6" by (simp_all add: demo_pm_def demo_slot_def)
  have k: "exit_calls_ok demo_config demo_env ?s 6" using ep by (simp add: exit_calls_ok_def demo_env_def demo_config_def)
  have "exit_calls ?s 6 False =
      [SetAlarm 6 0, SysTimes 56, SysStop 56, VmWillexit 56, VmNotifySig 56, TellVfs 6 (VFS_PM_EXIT 56)]"
    by (simp add: exit_calls_def demo_pm_def demo_slot_def)
  moreover have "events ?s = []" by (simp add: demo_pm_def)
  ultimately show ?thesis
    using exit_proc_order [OF demo_calls_ok demo_signals_ok demo_config_ok inv _ ep(2) k, of 0 False] ep
    by (auto simp: demo_config_def)
qed

theorem exit_proc_reparents_witness:
  "\<exists>t. exit_proc demo_config demo_env 4 0 False (demo_pm {IN_USE} 4) = Returned t \<and>
     (IN_USE \<in> flags t 6 \<longrightarrow> mp_parent (mproc t 6) \<noteq> 4)"
proof -
  let ?s = "demo_pm {IN_USE} 4"
  have inv: "pm_inv demo_config ?s" by (rule demo_inv) (simp_all add: exit_state_ok_def)
  have ep: "mp_endpoint (mproc ?s 4) = 54" "IN_USE \<in> flags ?s 4" by (simp_all add: demo_pm_def demo_slot_def)
  have k: "exit_calls_ok demo_config demo_env ?s 4" using ep by (simp add: exit_calls_ok_def demo_env_def demo_config_def)
  have n: "4 < NR_PROCS demo_config" "6 < NR_PROCS demo_config" "mp_endpoint (mproc ?s 4) \<noteq> INIT_PROC_NR demo_config"
      "int 4 \<noteq> INIT_PROC_NR demo_config" using ep by (simp_all add: demo_config_def)
  obtain t where "exit_proc demo_config demo_env 4 0 False ?s = Returned t"
      "\<forall>k < NR_PROCS demo_config. IN_USE \<in> flags t k \<longrightarrow> mp_parent (mproc t k) \<noteq> int 4 \<and> mp_tracer (mproc t k) \<noteq> int 4"
    using exit_proc_reparents [OF demo_calls_ok demo_signals_ok demo_config_ok inv _ n(1) ep(2) k n(3,4), of 0 False] by auto
  with n(2) show ?thesis by auto
qed

theorem do_waitpid_correct_witness:
  "do_waitpid demo_config demo_env (- 1) True (demo_pm {IN_USE} 6) = Returned (demo_pm {IN_USE} 6, Err ECHILD)"
proof -
  have "\<forall>i < NR_PROCS demo_config. \<not> wait_candidate (int (who_p (demo_pm {IN_USE} 6))) (wait_pidarg (- 1) (demo_pm {IN_USE} 6))
      (mproc (demo_pm {IN_USE} 6) i)"
    by (auto simp: wait_candidate_def demo_pm_def demo_slot_def split: if_splits)
  with do_waitpid_correct [of demo_config "demo_pm {IN_USE} 6" "- 1" demo_env True] show ?thesis by simp
qed

theorem waiting_parent_is_woken_witness:
  "\<exists>u. zombify demo_config demo_env 6
      (upd_mp 4 (\<lambda>m. m\<lparr>mp_flags := {IN_USE, WAITING}, mp_wpid := - 1\<rparr>) (demo_pm {IN_USE, EXITING} 6)) = Returned u \<and>
     events u = [Reply 4 16] \<and> WAITING \<notin> flags u 4"
proof -
  let ?s = "demo_pm {IN_USE, EXITING} 6"
  let ?t = "upd_mp 4 (\<lambda>m. m\<lparr>mp_flags := {IN_USE, WAITING}, mp_wpid := - 1\<rparr>) ?s"
  have c: "wait_candidate (int 4) (- 1) (mproc ?s 6)"
    by (simp add: wait_candidate_def demo_pm_def demo_slot_def)
  have "\<exists>u. zombify demo_config demo_env 6 ?t = Returned u \<and> events u = events ?t @ [Reply (int 4) (mp_pid (mproc ?s 6))] \<and>
      mp_reply_status (mproc u 4) = W_EXITCODE (mp_exitstatus (mproc ?t 6)) (mp_sigstatus (mproc ?t 6)) \<and>
      WAITING \<notin> flags u 4 \<and> flags u 6 = insert TOLD_PARENT (flags ?t 6)"
    by (rule waiting_parent_is_woken [OF demo_calls_ok c])
      (simp_all add: demo_pm_def demo_slot_def demo_config_def)
  moreover have "events ?t = []" "mp_pid (mproc ?s 6) = 16" by (simp_all add: demo_pm_def demo_slot_def)
  ultimately show ?thesis by auto
qed

theorem waitpid_collects_zombie_witness:
  "\<exists>u. do_waitpid demo_config demo_env 16 True (demo_pm {IN_USE, EXITING, ZOMBIE} 4) = Returned (u, SUSPEND) \<and>
     events u = [Reply 4 16] \<and> flags u 6 = {} \<and> procs_in_use u = 2"
proof -
  let ?s = "demo_pm {IN_USE, EXITING, ZOMBIE} 4"
  have w: "who_p ?s = 4" "wait_pidarg 16 ?s = 16" "6 < NR_PROCS demo_config" "VFS_CALL \<notin> flags ?s 6" "events ?s = []"
      "procs_in_use ?s = 3" "mp_pid (mproc ?s 6) = 16"
    by (simp_all add: demo_pm_def wait_pidarg_def demo_config_def demo_slot_def)
  have n: "wait_news_of demo_config (int 4) (mproc ?s 6) = ChildExit"
    by (simp add: wait_news_of_def demo_pm_def demo_slot_def)
  then have h: "wait_has_news demo_config 16 ?s 6"
    by (simp add: wait_has_news_def wait_candidate_def demo_pm_def demo_slot_def)
  have f: "\<forall>j < 6. \<not> wait_has_news demo_config 16 ?s j"
    by (auto simp: wait_has_news_def wait_candidate_def demo_pm_def demo_slot_def split: if_splits)
  from waitpid_collects_zombie [of demo_config demo_env ?s 6 16 True, unfolded w(1,2), OF demo_calls_ok _ _ w(3) h f n w(4)]
  show ?thesis using w by auto
qed


end
