(* ===== verification/Kernel.thy ===== *)
theory Kernel
  imports Prelude
begin

text \<open>
  The system task of the kernel, \<open>Assignment 05/system.c\<close>: the call vector and the
  dispatch of kernel calls, privilege structures and send masks, kernel signals, the
  removal of a process from all message passing, and \<open>sched_proc\<close>, the kernel side of
  a scheduling decision.

  Process and privilege structures are table entries, pointers to them are indices. Flag
  words and bit maps are sets. The queue of the processes that wait to send to a process is
  kept as the code has it, as links in the process table. The value \<open>NONE\<close> of an
  endpoint or process number is \<open>None\<close>. The kernel call handlers and the functions of
  other kernel files are fields of \<open>k_env\<close>. The counter behind
  \<open>increase_proc_signals\<close>, the run queues behind \<open>RTS_SET\<close> and \<open>RTS_UNSET\<close>,
  and messages on the console are left out.
\<close>

subsection \<open>Data\<close>

datatype rts_flag =
    RTS_SLOT_FREE | RTS_SENDING | RTS_RECEIVING | RTS_SIGNALED | RTS_SIG_PENDING | RTS_NO_PRIV
  | RTS_NO_ENDPOINT | RTS_VMREQUEST | RTS_NO_QUANTUM | RTS_OTHER nat

datatype misc_flag = MF_KCALL_RESUME | MF_SIG_DELAY | MF_OTHER nat

datatype trap = RECEIVE | TRAP_OTHER nat

datatype vmstype = VMSTYPE_KERNELCALL | VMSTYPE_OTHER

text \<open>A message: who sent it, its type, and the rest.\<close>

record kmsg =
  m_source :: "endpoint option"
  m_type :: int
  m_payload :: "nat list"

record kproc =
  p_rts_flags :: "rts_flag set"
  p_misc_flags :: "misc_flag set"
  p_endpoint :: endpoint
  p_priv :: "nat option"
  p_priority :: int
  p_quantum_size_ms :: int
  p_cpu_time_left :: nat
  p_cpu :: int
  p_pending :: "nat set"
  p_sendto_e :: endpoint
  p_getfrom_e :: endpoint
  p_caller_q :: "nat option"
  p_q_link :: "nat option"
  p_retreg :: ret
  p_delivermsg_vir :: nat
  p_vmrequest_type :: vmstype
  p_reqmsg :: kmsg \<comment> \<open>\<open>p_vmrequest.saved.reqmsg\<close>\<close>

record kpriv =
  s_proc_nr :: "nat option"
  s_ipc_to :: "nat set"
  s_trap_mask :: "trap set"
  s_k_call_mask :: "nat set"
  s_sig_mgr :: endpoint
  s_bak_sig_mgr :: "endpoint option"
  s_sig_pending :: "nat set"
  s_diag_sig :: bool
  s_notify_pending :: "nat set"
  s_asyn_pending :: "nat set"
  s_asynsize :: nat
  s_sys_proc :: bool \<comment> \<open>\<open>s_flags & SYS_PROC\<close>\<close>
  s_alarm_timer :: "nat option"

text \<open>A result message on its way to a user buffer, or a notification from \<open>SYSTEM\<close>.\<close>

datatype k_event = Notify endpoint | CopyToUser nat kmsg | CancelAsync nat nat

record kernel =
  kproc :: "nat \<Rightarrow> kproc"
  kpriv :: "nat \<Rightarrow> kpriv"
  call_vec :: "nat \<Rightarrow> string option"
  irq_hooks :: "nat \<Rightarrow> endpoint option"
  kbill_kcall :: nat
  k_events :: "k_event list"

record k_config =
  NR_SYS_CALLS :: nat
  KERNEL_CALL :: int
  NR_IRQ_HOOKS :: nat
  NR_SYS_PROCS :: nat
  NR_KPROCS :: nat
  DYN_PRIV :: "nat list" \<comment> \<open>the dynamic privilege slots, in the order of the table\<close>
  NULL_PRIV_ID :: int
  SELF_E :: endpoint
  SYSTEM_E :: endpoint
  TASK_Q :: int
  NR_SCHED_QUEUES :: int
  K_SIGSEGV :: nat
  SIGKSIG :: nat
  SIGKSIGSM :: nat
  SIGSNDELAY :: nat
  SIGKMESS :: nat
  CONFIG_SMP :: bool
  ncpus :: nat
  i386 :: bool
  arm :: bool

record k_env =
  handler :: "string \<Rightarrow> nat \<Rightarrow> kmsg \<Rightarrow> kernel \<Rightarrow> kernel \<times> kmsg \<times> ret"
  call_number :: "string \<Rightarrow> int"
  copy_msg_from_user :: "nat \<Rightarrow> kmsg option"
  copy_msg_to_user :: "kmsg \<Rightarrow> nat \<Rightarrow> bool" \<comment> \<open>whether it fails\<close>
  isokendpt :: "endpoint \<Rightarrow> nat option"
  is_static_priv_id :: "int \<Rightarrow> bool"
  SIGS_IS_LETHAL :: "nat \<Rightarrow> bool"
  has_pending_asend :: "nat \<Rightarrow> kernel \<Rightarrow> nat option"
  cancel_async :: "nat \<Rightarrow> nat \<Rightarrow> kernel \<Rightarrow> kernel"
  P_BLOCKEDON :: "kproc \<Rightarrow> endpoint option"
  cpu_is_ready :: "int \<Rightarrow> bool"
  ms_2_cpu_time :: "int \<Rightarrow> nat"
  cpuid :: int
  smp_schedule_migrate_proc :: "nat \<Rightarrow> int \<Rightarrow> kernel \<Rightarrow> kernel"
  ret_code :: "ret \<Rightarrow> int" \<comment> \<open>the number a result is reported as\<close>

abbreviation upd_kproc :: "nat \<Rightarrow> (kproc \<Rightarrow> kproc) \<Rightarrow> kernel \<Rightarrow> kernel" where
  "upd_kproc i f s \<equiv> s\<lparr>kproc := (kproc s)(i := f (kproc s i))\<rparr>"

abbreviation upd_kpriv :: "nat \<Rightarrow> (kpriv \<Rightarrow> kpriv) \<Rightarrow> kernel \<Rightarrow> kernel" where
  "upd_kpriv i f s \<equiv> s\<lparr>kpriv := (kpriv s)(i := f (kpriv s i))\<rparr>"

abbreviation k_event :: "k_event \<Rightarrow> kernel \<Rightarrow> kernel" where
  "k_event e s \<equiv> s\<lparr>k_events := k_events s @ [e]\<rparr>"

abbreviation rts_flags :: "kernel \<Rightarrow> nat \<Rightarrow> rts_flag set" where
  "rts_flags s i \<equiv> p_rts_flags (kproc s i)"

abbreviation rts_set :: "rts_flag set \<Rightarrow> kproc \<Rightarrow> kproc" where
  "rts_set F \<equiv> p_rts_flags_update (\<lambda>fs. fs \<union> F)"

abbreviation rts_unset :: "rts_flag \<Rightarrow> kproc \<Rightarrow> kproc" where
  "rts_unset f \<equiv> p_rts_flags_update (\<lambda>fs. fs - {f})"

text \<open>\<open>proc_is_runnable\<close>, \<open>isemptyp\<close>, and the privilege structure of a process.\<close>

abbreviation runnable :: "kproc \<Rightarrow> bool" where
  "runnable p \<equiv> p_rts_flags p = {}"

abbreviation isemptyp :: "kernel \<Rightarrow> nat \<Rightarrow> bool" where
  "isemptyp s i \<equiv> RTS_SLOT_FREE \<in> rts_flags s i"

abbreviation priv_id :: "kernel \<Rightarrow> nat \<Rightarrow> nat" where
  "priv_id s i \<equiv> the (p_priv (kproc s i))"

subsection \<open>Privileges\<close>

definition get_priv :: "k_config \<Rightarrow> k_env \<Rightarrow> nat \<Rightarrow> int \<Rightarrow> kernel \<Rightarrow> kernel \<times> ret" where
  "get_priv K E rc pid s =
     (let assign = (\<lambda>sp. (upd_kpriv sp (s_proc_nr_update (\<lambda>_. Some rc)) (upd_kproc rc (p_priv_update (\<lambda>_. Some sp)) s), OK))
      in if pid = NULL_PRIV_ID K then
           case find (\<lambda>sp. s_proc_nr (kpriv s sp) = None) (DYN_PRIV K) of
             None \<Rightarrow> (s, Err ENOSPC)
           | Some sp \<Rightarrow> assign sp
         else if \<not> is_static_priv_id E pid then (s, Err EINVAL)
         else if s_proc_nr (kpriv s (nat pid)) \<noteq> None then (s, Err EBUSY)
         else assign (nat pid))"

definition set_sendto_bit :: "nat \<Rightarrow> nat \<Rightarrow> kernel \<Rightarrow> kernel" where
  "set_sendto_bit rp i s =
     (let me = priv_id s rp
      in if s_proc_nr (kpriv s i) = None \<or> me = i then upd_kpriv me (s_ipc_to_update (\<lambda>m. m - {i})) s
         else let s1 = upd_kpriv me (s_ipc_to_update (insert i)) s
              in if s_trap_mask (kpriv s1 i) - {RECEIVE} \<noteq> {} then upd_kpriv i (s_ipc_to_update (insert me)) s1
                 else s1)"

definition unset_sendto_bit :: "nat \<Rightarrow> nat \<Rightarrow> kernel \<Rightarrow> kernel" where
  "unset_sendto_bit rp i s =
     (let me = priv_id s rp
      in upd_kpriv i (s_ipc_to_update (\<lambda>m. m - {me})) (upd_kpriv me (s_ipc_to_update (\<lambda>m. m - {i})) s))"

definition fill_sendto_mask :: "k_config \<Rightarrow> nat \<Rightarrow> nat set \<Rightarrow> kernel \<Rightarrow> kernel" where
  "fill_sendto_mask K rp m s =
     fold (\<lambda>i s. if i \<in> m then set_sendto_bit rp i s else unset_sendto_bit rp i s) [0..<NR_SYS_PROCS K] s"

subsection \<open>Kernel signals\<close>

definition send_sig :: "k_env \<Rightarrow> endpoint \<Rightarrow> nat \<Rightarrow> kernel \<Rightarrow> kernel \<times> ret" where
  "send_sig E ep sig_nr s =
     (case isokendpt E ep of
        None \<Rightarrow> (s, Err EINVAL)
      | Some rp \<Rightarrow>
          if isemptyp s rp then (s, Err EINVAL)
          else case p_priv (kproc s rp) of
                 None \<Rightarrow> (s, Err ENOENT)
               | Some sp \<Rightarrow> (k_event (Notify (p_endpoint (kproc s rp)))
                              (upd_kpriv sp (s_sig_pending_update (insert sig_nr)) s), OK))"

text \<open>
  The recursive call hands the signal to the backup manager, which is then used up: there is
  at most one.
\<close>

definition cause_sig_self :: "k_config \<Rightarrow> k_env \<Rightarrow> nat \<Rightarrow> nat \<Rightarrow> kernel \<Rightarrow> kernel outcome" where
  "cause_sig_self K E rp sig_nr s =
     (let s1 = upd_kpriv (priv_id s rp) (s_sig_pending_update (insert sig_nr)) s;
          (s2, r) = send_sig E (p_endpoint (kproc s1 rp)) (SIGKSIGSM K) s1
      in if r \<noteq> OK then Aborted ''send_sig failed'' else Returned s2)"

definition cause_sig_mgr :: "k_config \<Rightarrow> k_env \<Rightarrow> endpoint \<Rightarrow> nat \<Rightarrow> nat \<Rightarrow> kernel \<Rightarrow> kernel outcome" where
  "cause_sig_mgr K E sig_mgr rp sig_nr s =
     (if sig_nr \<in> p_pending (kproc s rp) then Returned s
      else let s1 = upd_kproc rp (p_pending_update (insert sig_nr)) s
           in if RTS_SIGNALED \<in> rts_flags s1 rp then Returned s1
              else let s2 = upd_kproc rp (rts_set {RTS_SIGNALED, RTS_SIG_PENDING}) s1;
                       (s3, r) = send_sig E sig_mgr (SIGKSIG K) s2
                   in if r \<noteq> OK then Aborted ''send_sig failed'' else Returned s3)"

definition sig_manager :: "k_config \<Rightarrow> kernel \<Rightarrow> nat \<Rightarrow> endpoint" where
  "sig_manager K s rp =
     (let mgr = s_sig_mgr (kpriv s (priv_id s rp)) in if mgr = SELF_E K then p_endpoint (kproc s rp) else mgr)"

definition backup_takes_over :: "nat \<Rightarrow> endpoint \<Rightarrow> nat \<Rightarrow> kernel \<Rightarrow> kernel" where
  "backup_takes_over rp bak mgr_nr s =
     upd_kproc mgr_nr (rts_unset RTS_NO_PRIV)
       (upd_kpriv (priv_id s rp) (\<lambda>p. p\<lparr>s_sig_mgr := bak, s_bak_sig_mgr := None\<rparr>) s)"

function cause_sig :: "k_config \<Rightarrow> k_env \<Rightarrow> nat \<Rightarrow> nat \<Rightarrow> kernel \<Rightarrow> kernel outcome" where
  "cause_sig K E rp sig_nr s =
     (let sig_mgr = sig_manager K s rp
      in if p_endpoint (kproc s rp) = sig_mgr then
           if SIGS_IS_LETHAL E sig_nr then
             case s_bak_sig_mgr (kpriv s (priv_id s rp)) of
               None \<Rightarrow> Aborted ''cause_sig: sig manager gets lethal signal for itself''
             | Some bak \<Rightarrow>
                 (case isokendpt E bak of
                    None \<Rightarrow> Aborted ''cause_sig: sig manager gets lethal signal for itself''
                  | Some mgr_nr \<Rightarrow> cause_sig K E rp sig_nr (backup_takes_over rp bak mgr_nr s))
           else cause_sig_self K E rp sig_nr s
         else cause_sig_mgr K E sig_mgr rp sig_nr s)"
  by pat_completeness auto
termination
  by (relation "measure (\<lambda>(K, E, rp, sig_nr, s). if s_bak_sig_mgr (kpriv s (priv_id s rp)) = None then 0 else 1)")
    (auto simp: backup_takes_over_def)

declare cause_sig.simps [simp del]

definition sig_delay_done :: "k_config \<Rightarrow> k_env \<Rightarrow> nat \<Rightarrow> kernel \<Rightarrow> kernel outcome" where
  "sig_delay_done K E rp s =
     cause_sig K E rp (SIGSNDELAY K) (upd_kproc rp (p_misc_flags_update (\<lambda>f. f - {MF_SIG_DELAY})) s)"

definition send_diag_sig :: "k_config \<Rightarrow> k_env \<Rightarrow> kernel \<Rightarrow> kernel" where
  "send_diag_sig K E s =
     fold (\<lambda>sp s. case s_proc_nr (kpriv s sp) of
             None \<Rightarrow> s
           | Some nr \<Rightarrow> if s_diag_sig (kpriv s sp) then fst (send_sig E (p_endpoint (kproc s nr)) (SIGKMESS K) s) else s)
       [0..<NR_SYS_PROCS K] s"

subsection \<open>Initialisation\<close>

text \<open>The calls that \<open>system_init\<close> maps, with their handlers.\<close>

definition process_calls :: "(string \<times> string) list" where
  "process_calls =
    [(''SYS_FORK'', ''do_fork''), (''SYS_EXEC'', ''do_exec''), (''SYS_CLEAR'', ''do_clear''),
     (''SYS_EXIT'', ''do_exit''), (''SYS_PRIVCTL'', ''do_privctl''), (''SYS_TRACE'', ''do_trace''),
     (''SYS_SETGRANT'', ''do_setgrant''), (''SYS_RUNCTL'', ''do_runctl''), (''SYS_UPDATE'', ''do_update''),
     (''SYS_STATECTL'', ''do_statectl''),
     (''SYS_KILL'', ''do_kill''), (''SYS_GETKSIG'', ''do_getksig''), (''SYS_ENDKSIG'', ''do_endksig''),
     (''SYS_SIGSEND'', ''do_sigsend''), (''SYS_SIGRETURN'', ''do_sigreturn'')]"

definition device_calls :: "k_config \<Rightarrow> (string \<times> string) list" where
  "device_calls K =
    [(''SYS_IRQCTL'', ''do_irqctl'')] @
    (if i386 K then [(''SYS_DEVIO'', ''do_devio''), (''SYS_VDEVIO'', ''do_vdevio'')] else [])"

definition memory_calls :: "(string \<times> string) list" where
  "memory_calls =
    [(''SYS_MEMSET'', ''do_memset''), (''SYS_VMCTL'', ''do_vmctl''),
     (''SYS_UMAP'', ''do_umap''), (''SYS_UMAP_REMOTE'', ''do_umap_remote''), (''SYS_VUMAP'', ''do_vumap''),
     (''SYS_VIRCOPY'', ''do_vircopy''), (''SYS_PHYSCOPY'', ''do_copy''),
     (''SYS_SAFECOPYFROM'', ''do_safecopy_from''), (''SYS_SAFECOPYTO'', ''do_safecopy_to''),
     (''SYS_VSAFECOPY'', ''do_vsafecopy''), (''SYS_SAFEMEMSET'', ''do_safememset'')]"

definition clock_calls :: "(string \<times> string) list" where
  "clock_calls =
    [(''SYS_TIMES'', ''do_times''), (''SYS_SETALARM'', ''do_setalarm''), (''SYS_STIME'', ''do_stime''),
     (''SYS_SETTIME'', ''do_settime''), (''SYS_VTIMER'', ''do_vtimer''),
     (''SYS_ABORT'', ''do_abort''), (''SYS_GETINFO'', ''do_getinfo''), (''SYS_DIAGCTL'', ''do_diagctl''),
     (''SYS_SPROF'', ''do_sprofile''), (''SYS_CPROF'', ''do_cprofile''), (''SYS_PROFBUF'', ''do_profbuf'')]"

definition machine_calls :: "k_config \<Rightarrow> (string \<times> string) list" where
  "machine_calls K =
    (if arm K then [(''SYS_PADCONF'', ''do_padconf'')] else []) @
    (if i386 K then [(''SYS_READBIOS'', ''do_readbios''), (''SYS_IOPENABLE'', ''do_iopenable''),
                     (''SYS_SDEVIO'', ''do_sdevio'')] else []) @
    [(''SYS_SETMCONTEXT'', ''do_setmcontext''), (''SYS_GETMCONTEXT'', ''do_getmcontext''),
     (''SYS_SCHEDULE'', ''do_schedule''), (''SYS_SCHEDCTL'', ''do_schedctl'')]"

definition sys_calls :: "k_config \<Rightarrow> (string \<times> string) list" where
  "sys_calls K = process_calls @ device_calls K @ memory_calls @ clock_calls @ machine_calls K"

text \<open>The macro \<open>map\<close>, with its assertion, and the initialisation as a whole.\<close>

definition map_call :: "k_config \<Rightarrow> k_env \<Rightarrow> string \<times> string \<Rightarrow> kernel outcome \<Rightarrow> kernel outcome" where
  "map_call K E = (\<lambda>(call, h) m. bind_outcome m (\<lambda>s.
     let call_index = call_number E call - KERNEL_CALL K
     in if 0 \<le> call_index \<and> call_index < int (NR_SYS_CALLS K)
        then Returned (s\<lparr>call_vec := (call_vec s)(nat call_index := Some h)\<rparr>)
        else Aborted ''assert call_index''))"

definition system_init :: "k_config \<Rightarrow> k_env \<Rightarrow> kernel \<Rightarrow> kernel outcome" where
  "system_init K E s =
     (let s1 = fold (\<lambda>i s. s\<lparr>irq_hooks := (irq_hooks s)(i := None)\<rparr>) [0..<NR_IRQ_HOOKS K] s;
          s2 = fold (\<lambda>sp. upd_kpriv sp (s_alarm_timer_update (\<lambda>_. None))) [0..<NR_SYS_PROCS K] s1;
          s3 = fold (\<lambda>i s. s\<lparr>call_vec := (call_vec s)(i := None)\<rparr>) [0..<NR_SYS_CALLS K] s2
      in fold (map_call K E) (sys_calls K) (Returned s3))"

subsection \<open>Kernel calls\<close>

text \<open>
  A handler gets the caller and the message, which it may change, and returns a result. The
  result, the message and the state are passed on.
\<close>

definition kernel_call_dispatch ::
  "k_config \<Rightarrow> k_env \<Rightarrow> nat \<Rightarrow> kmsg \<Rightarrow> kernel \<Rightarrow> kernel \<times> kmsg \<times> ret" where
  "kernel_call_dispatch K E caller msg s =
     (let call_nr = m_type msg - KERNEL_CALL K
      in if call_nr < 0 \<or> call_nr \<ge> int (NR_SYS_CALLS K) then (s, msg, Err EBADREQUEST)
         else if nat call_nr \<notin> s_k_call_mask (kpriv s (priv_id s caller)) then (s, msg, Err ECALLDENIED)
         else case call_vec s (nat call_nr) of
                Some h \<Rightarrow> handler E h caller msg s
              | None \<Rightarrow> (s, msg, Err EBADREQUEST))"

text \<open>
  \<open>msg\<close> is the caller's copy of the message, or the saved request of the process itself
  (\<open>aliased\<close>), which the assignments to \<open>msg\<close> then change.
\<close>

definition kernel_call_finish ::
  "k_config \<Rightarrow> k_env \<Rightarrow> nat \<Rightarrow> bool \<Rightarrow> kmsg \<Rightarrow> ret \<Rightarrow> kernel \<Rightarrow> kernel outcome" where
  "kernel_call_finish K E caller aliased msg result s =
     (if result = Err VMSUSPEND then
        if RTS_VMREQUEST \<notin> rts_flags s caller then Aborted ''assert RTS_VMREQUEST''
        else if p_vmrequest_type (kproc s caller) \<noteq> VMSTYPE_KERNELCALL then Aborted ''assert VMSTYPE_KERNELCALL''
        else Returned (upd_kproc caller (\<lambda>p. p\<lparr>p_reqmsg := msg, p_misc_flags := insert MF_KCALL_RESUME (p_misc_flags p)\<rparr>) s)
      else
        let s1 = upd_kproc caller (\<lambda>p. p\<lparr>p_reqmsg := (p_reqmsg p)\<lparr>m_source := None\<rparr>\<rparr>) s
        in if result = Err EDONTREPLY then Returned s1
           else let msg1 = msg\<lparr>m_source := Some (SYSTEM_E K), m_type := ret_code E result\<rparr>;
                    s2 = (if aliased then upd_kproc caller (\<lambda>p. p\<lparr>p_reqmsg := msg1\<rparr>) s1 else s1);
                    vir = p_delivermsg_vir (kproc s2 caller)
                in if copy_msg_to_user E msg1 vir then cause_sig K E caller (K_SIGSEGV K) s2
                   else Returned (k_event (CopyToUser vir msg1) s2))"

definition kernel_call :: "k_config \<Rightarrow> k_env \<Rightarrow> nat \<Rightarrow> nat \<Rightarrow> kernel \<Rightarrow> kernel outcome" where
  "kernel_call K E m_user caller s =
     (let s1 = upd_kproc caller (p_delivermsg_vir_update (\<lambda>_. m_user)) s
      in case copy_msg_from_user E m_user of
           None \<Rightarrow> cause_sig K E caller (K_SIGSEGV K) s1
         | Some m \<Rightarrow>
             let (s2, msg, result) = kernel_call_dispatch K E caller (m\<lparr>m_source := Some (p_endpoint (kproc s1 caller))\<rparr>) s1
             in kernel_call_finish K E caller False msg result (s2\<lparr>kbill_kcall := caller\<rparr>))"

definition kernel_call_resume :: "k_config \<Rightarrow> k_env \<Rightarrow> nat \<Rightarrow> kernel \<Rightarrow> kernel outcome" where
  "kernel_call_resume K E caller s =
     (if RTS_SLOT_FREE \<in> rts_flags s caller then Aborted ''assert RTS_SLOT_FREE''
      else if RTS_VMREQUEST \<in> rts_flags s caller then Aborted ''assert RTS_VMREQUEST''
      else if m_source (p_reqmsg (kproc s caller)) \<noteq> Some (p_endpoint (kproc s caller)) then Aborted ''assert m_source''
      else let (s1, msg, result) = kernel_call_dispatch K E caller (p_reqmsg (kproc s caller)) s;
               s2 = upd_kproc caller (\<lambda>p. p\<lparr>p_reqmsg := msg, p_misc_flags := p_misc_flags p - {MF_KCALL_RESUME}\<rparr>) s1
           in kernel_call_finish K E caller True (p_reqmsg (kproc s2 caller)) result s2)"

subsection \<open>Removing a process from message passing\<close>

text \<open>
  The pointer \<open>xpp\<close> is at the head of a process' queue or at the link of a queued process.
  The walk takes at most one step per process of the table when the queue ends;
  \<open>None\<close> when it does not.
\<close>

datatype qloc = CallerQ nat | QLink nat

fun q_load :: "kernel \<Rightarrow> qloc \<Rightarrow> nat option" where
  "q_load s (CallerQ t) = p_caller_q (kproc s t)"
| "q_load s (QLink p) = p_q_link (kproc s p)"

fun q_store :: "qloc \<Rightarrow> nat option \<Rightarrow> kernel \<Rightarrow> kernel" where
  "q_store (CallerQ t) v s = upd_kproc t (p_caller_q_update (\<lambda>_. v)) s"
| "q_store (QLink p) v s = upd_kproc p (p_q_link_update (\<lambda>_. v)) s"

fun unqueue :: "nat \<Rightarrow> nat \<Rightarrow> qloc \<Rightarrow> kernel \<Rightarrow> kernel option" where
  "unqueue 0 rc xpp s = None"
| "unqueue (Suc fuel) rc xpp s =
     (case q_load s xpp of
        None \<Rightarrow> Some s
      | Some p \<Rightarrow> if p = rc then Some (q_store xpp (p_q_link (kproc s p)) s) else unqueue fuel rc (QLink p) s)"

definition clear_ipc :: "k_config \<Rightarrow> k_env \<Rightarrow> nat \<Rightarrow> kernel \<Rightarrow> kernel outcome" where
  "clear_ipc K E rc s =
     bind_outcome
       (if RTS_SENDING \<in> rts_flags s rc then
          case isokendpt E (p_sendto_e (kproc s rc)) of
            None \<Rightarrow> Aborted ''okendpt''
          | Some target \<Rightarrow>
              (case unqueue (NR_KPROCS K + 1) rc (CallerQ target) s of
                 None \<Rightarrow> Aborted ''the queue does not end''
               | Some s1 \<Rightarrow> Returned (upd_kproc rc (rts_unset RTS_SENDING) s1))
        else Returned s)
       (\<lambda>s1. Returned (upd_kproc rc (rts_unset RTS_RECEIVING) s1))"

text \<open>Every cancelled sender leaves the set of pending ones, so there are as many rounds as senders.\<close>

fun cancel_asends :: "nat \<Rightarrow> k_env \<Rightarrow> nat \<Rightarrow> kernel \<Rightarrow> kernel outcome" where
  "cancel_asends 0 E rc s = Aborted ''senders do not end''"
| "cancel_asends (Suc fuel) E rc s =
     (case has_pending_asend E rc s of
        None \<Rightarrow> Returned s
      | Some src_id \<Rightarrow>
          let sender = the (s_proc_nr (kpriv s src_id))
          in cancel_asends fuel E rc (cancel_async E sender rc (k_event (CancelAsync sender rc) s)))"

definition clear_refs_one :: "k_config \<Rightarrow> k_env \<Rightarrow> nat \<Rightarrow> ret \<Rightarrow> nat \<Rightarrow> kernel \<Rightarrow> kernel outcome" where
  "clear_refs_one K E rc caller_ret rp s =
     (if isemptyp s rp then Returned s
      else let s1 = upd_kpriv (priv_id s rp) (\<lambda>p. p\<lparr>s_notify_pending := s_notify_pending p - {priv_id s rc},
                      s_asyn_pending := s_asyn_pending p - {priv_id s rc}\<rparr>) s
           in if P_BLOCKEDON E (kproc s1 rp) = Some (p_endpoint (kproc s1 rc))
              then clear_ipc K E rp (upd_kproc rp (p_retreg_update (\<lambda>_. caller_ret)) s1)
              else Returned s1)"

fun clear_refs_loop :: "k_config \<Rightarrow> k_env \<Rightarrow> nat \<Rightarrow> ret \<Rightarrow> nat list \<Rightarrow> kernel \<Rightarrow> kernel outcome" where
  "clear_refs_loop K E rc r [] s = Returned s"
| "clear_refs_loop K E rc r (rp # rps) s =
     bind_outcome (clear_refs_one K E rc r rp s) (clear_refs_loop K E rc r rps)"

definition clear_ipc_refs :: "k_config \<Rightarrow> k_env \<Rightarrow> nat \<Rightarrow> ret \<Rightarrow> kernel \<Rightarrow> kernel outcome" where
  "clear_ipc_refs K E rc caller_ret s =
     bind_outcome (cancel_asends (NR_SYS_PROCS K + 1) E rc s) (clear_refs_loop K E rc caller_ret [0..<NR_KPROCS K])"

definition clear_endpoint :: "k_config \<Rightarrow> k_env \<Rightarrow> nat \<Rightarrow> kernel \<Rightarrow> kernel outcome" where
  "clear_endpoint K E rc s =
     (if isemptyp s rc then Aborted ''clear_proc: empty process''
      else let s1 = upd_kproc rc (rts_set {RTS_NO_ENDPOINT}) s;
               s2 = (if s_sys_proc (kpriv s1 (priv_id s1 rc)) then upd_kpriv (priv_id s1 rc) (s_asynsize_update (\<lambda>_. 0)) s1 else s1)
           in bind_outcome (clear_ipc K E rc s2) (clear_ipc_refs K E rc (Err EDEADSRCDST)))"

subsection \<open>Scheduling\<close>

definition sched_proc_check :: "k_config \<Rightarrow> k_env \<Rightarrow> int \<Rightarrow> int \<Rightarrow> int \<Rightarrow> ret" where
  "sched_proc_check K E priority quantum cpu =
     (if (priority < TASK_Q K \<and> priority \<noteq> - 1) \<or> priority > NR_SCHED_QUEUES K then Err EINVAL
      else if quantum < 1 \<and> quantum \<noteq> - 1 then Err EINVAL
      else if CONFIG_SMP K \<and> ((cpu < 0 \<and> cpu \<noteq> - 1) \<or> (cpu > 0 \<and> cpu \<ge> int (ncpus K))) then Err EINVAL
      else if CONFIG_SMP K \<and> cpu \<noteq> - 1 \<and> \<not> cpu_is_ready E cpu then Err EBADCPU
      else OK)"

definition sched_proc :: "k_config \<Rightarrow> k_env \<Rightarrow> nat \<Rightarrow> int \<Rightarrow> int \<Rightarrow> int \<Rightarrow> kernel \<Rightarrow> kernel \<times> ret" where
  "sched_proc K E p priority quantum cpu s =
     (if sched_proc_check K E priority quantum cpu \<noteq> OK then (s, sched_proc_check K E priority quantum cpu)
      else
        let s1 = (if runnable (kproc s p) then
                    let sm = (if CONFIG_SMP K \<and> p_cpu (kproc s p) \<noteq> cpuid E \<and> cpu \<noteq> - 1 \<and> cpu \<noteq> p_cpu (kproc s p)
                              then smp_schedule_migrate_proc E p cpu s else s)
                    in upd_kproc p (rts_set {RTS_NO_QUANTUM}) sm
                  else s);
            s2 = (if runnable (kproc s1 p) then upd_kproc p (rts_set {RTS_NO_QUANTUM}) s1 else s1);
            s3 = (if priority \<noteq> - 1 then upd_kproc p (p_priority_update (\<lambda>_. priority)) s2 else s2);
            s4 = (if quantum \<noteq> - 1 then upd_kproc p (\<lambda>q. q\<lparr>p_quantum_size_ms := quantum, p_cpu_time_left := ms_2_cpu_time E quantum\<rparr>) s3
                  else s3);
            s5 = (if CONFIG_SMP K \<and> cpu \<noteq> - 1 then upd_kproc p (p_cpu_update (\<lambda>_. cpu)) s4 else s4)
        in (upd_kproc p (rts_unset RTS_NO_QUANTUM) s5, OK))"

end
