(* ===== verification/Kernel_Correct.thy ===== *)
theory Kernel_Correct
  imports Kernel
begin

text \<open>
  Correctness of the system task: scheduling decisions, privileges and send masks, kernel
  signals, the dispatch of calls, and the removal of a process from message passing.
\<close>

subsection \<open>Scheduling decisions\<close>

definition migrates :: "k_config \<Rightarrow> k_env \<Rightarrow> nat \<Rightarrow> int \<Rightarrow> kernel \<Rightarrow> bool" where
  "migrates K E p cpu s \<longleftrightarrow> CONFIG_SMP K \<and> runnable (kproc s p) \<and> p_cpu (kproc s p) \<noteq> cpuid E \<and>
     cpu \<noteq> - 1 \<and> cpu \<noteq> p_cpu (kproc s p)"

text \<open>
  \<open>sched_proc\<close> either rejects its arguments and changes nothing at all, or sets
  exactly what it is given: the priority, the quantum with a full allotment of CPU time, and
  (on a multiprocessor) the CPU, each of them left alone by the value -1; the process is
  without the flag \<open>NO_QUANTUM\<close> afterwards and all its other flags, and all other
  processes, are as before. (The process is not one that runs on another CPU and moves.)
\<close>

theorem sched_proc_correct:
  assumes "\<not> migrates K E p cpu s"
  shows "sched_proc K E p priority quantum cpu s =
    (if sched_proc_check K E priority quantum cpu \<noteq> OK then (s, sched_proc_check K E priority quantum cpu)
     else (upd_kproc p (\<lambda>q. q\<lparr>p_rts_flags := p_rts_flags q - {RTS_NO_QUANTUM},
             p_priority := (if priority = - 1 then p_priority q else priority),
             p_quantum_size_ms := (if quantum = - 1 then p_quantum_size_ms q else quantum),
             p_cpu_time_left := (if quantum = - 1 then p_cpu_time_left q else ms_2_cpu_time E quantum),
             p_cpu := (if CONFIG_SMP K \<and> cpu \<noteq> - 1 then cpu else p_cpu q)\<rparr>) s, OK))"
proof (cases "sched_proc_check K E priority quantum cpu = OK")
  case True
  show ?thesis
  proof (cases "runnable (kproc s p)")
    case r: True
    have stay: "(CONFIG_SMP K \<and> p_cpu (kproc s p) \<noteq> cpuid E \<and> cpu \<noteq> - 1 \<and> cpu \<noteq> p_cpu (kproc s p)) = False"
      using assms r by (auto simp: migrates_def)
    show ?thesis
      using True r unfolding sched_proc_def Let_def stay if_False
      by (cases "kproc s p"; cases "priority = - 1"; cases "quantum = - 1"; cases "CONFIG_SMP K"; cases "cpu = - 1") simp_all
  next
    case r: False
    show ?thesis
      using True r unfolding sched_proc_def Let_def
      by (cases "kproc s p"; cases "priority = - 1"; cases "quantum = - 1"; cases "CONFIG_SMP K"; cases "cpu = - 1") simp_all
  qed
qed (simp add: sched_proc_def)

text \<open>
  \<open>sched_proc\<close> accepts the priority \<open>NR_SCHED_QUEUES\<close>, one more than the index of
  the last run queue, and stores it in the process.
\<close>

theorem sched_proc_off_by_one:
  assumes "TASK_Q K \<le> NR_SCHED_QUEUES K" and "NR_SCHED_QUEUES K \<noteq> - 1"
  shows "snd (sched_proc K E p (NR_SCHED_QUEUES K) (- 1) (- 1) s) = OK \<and>
    p_priority (kproc (fst (sched_proc K E p (NR_SCHED_QUEUES K) (- 1) (- 1) s)) p) = NR_SCHED_QUEUES K"
  using assms by (simp add: sched_proc_def sched_proc_check_def Let_def)

subsection \<open>Privileges\<close>

text \<open>
  \<open>get_priv\<close> gives a process a privilege structure that no process owned: a free
  dynamic one, the first in the table, or the static one it asks for; the structure then
  belongs to the process and no other entry changes. It fails, changing nothing, with
  \<open>ENOSPC\<close> exactly when every dynamic structure is taken, with \<open>EINVAL\<close> when the id is
  not a static one, and with \<open>EBUSY\<close> when the static structure has an owner.
\<close>

theorem get_priv_correct:
  "(\<exists>sp. s_proc_nr (kpriv s sp) = None \<and>
      (if pid = NULL_PRIV_ID K then sp \<in> set (DYN_PRIV K) else is_static_priv_id E pid \<and> sp = nat pid) \<and>
      get_priv K E rc pid s =
        (upd_kpriv sp (s_proc_nr_update (\<lambda>_. Some rc)) (upd_kproc rc (p_priv_update (\<lambda>_. Some sp)) s), OK)) \<or>
   (get_priv K E rc pid s = (s, Err ENOSPC) \<and> pid = NULL_PRIV_ID K \<and> (\<forall>sp \<in> set (DYN_PRIV K). s_proc_nr (kpriv s sp) \<noteq> None)) \<or>
   (get_priv K E rc pid s = (s, Err EINVAL) \<and> pid \<noteq> NULL_PRIV_ID K \<and> \<not> is_static_priv_id E pid) \<or>
   (get_priv K E rc pid s = (s, Err EBUSY) \<and> pid \<noteq> NULL_PRIV_ID K \<and> is_static_priv_id E pid \<and>
      s_proc_nr (kpriv s (nat pid)) \<noteq> None)"
proof (cases "pid = NULL_PRIV_ID K")
  case True
  show ?thesis
  proof (cases "find (\<lambda>sp. s_proc_nr (kpriv s sp) = None) (DYN_PRIV K)")
    case None
    then have "\<forall>sp \<in> set (DYN_PRIV K). s_proc_nr (kpriv s sp) \<noteq> None" by (simp add: find_None_iff)
    with None True show ?thesis by (simp add: get_priv_def)
  next
    case (Some sp)
    then have "sp \<in> set (DYN_PRIV K)" "s_proc_nr (kpriv s sp) = None" by (auto simp: find_Some_iff)
    with Some True show ?thesis by (auto simp: get_priv_def Let_def)
  qed
next
  case False
  then show ?thesis by (auto simp: get_priv_def Let_def)
qed

text \<open>A process can reply if it may use other traps than \<open>RECEIVE\<close>.\<close>

abbreviation can_reply :: "kernel \<Rightarrow> nat \<Rightarrow> bool" where
  "can_reply s i \<equiv> s_trap_mask (kpriv s i) - {RECEIVE} \<noteq> {}"

definition mask_step :: "nat \<Rightarrow> nat set \<Rightarrow> nat \<Rightarrow> kernel \<Rightarrow> kernel" where
  "mask_step rp m i s = (if i \<in> m then set_sendto_bit rp i s else unset_sendto_bit rp i s)"

lemma mask_step_frame:
  "kproc (mask_step rp m i s) = kproc s"
  "s_proc_nr (kpriv (mask_step rp m i s) k) = s_proc_nr (kpriv s k)"
  "s_trap_mask (kpriv (mask_step rp m i s) k) = s_trap_mask (kpriv s k)"
  by (auto simp: mask_step_def set_sendto_bit_def unset_sendto_bit_def Let_def)

lemma mask_step_own:
  assumes "p_priv (kproc s rp) = Some me"
  shows "j \<in> s_ipc_to (kpriv (mask_step rp m i s) me) \<longleftrightarrow>
    (if j = i then i \<in> m \<and> s_proc_nr (kpriv s i) \<noteq> None \<and> i \<noteq> me else j \<in> s_ipc_to (kpriv s me))"
  using assms by (auto simp: mask_step_def set_sendto_bit_def unset_sendto_bit_def Let_def)

lemma mask_step_other:
  assumes "p_priv (kproc s rp) = Some me" and "k \<noteq> me"
  shows "me \<in> s_ipc_to (kpriv (mask_step rp m i s) k) \<longleftrightarrow>
     (if k \<noteq> i then me \<in> s_ipc_to (kpriv s k)
      else if i \<notin> m then False
      else if s_proc_nr (kpriv s i) \<noteq> None \<and> can_reply s i then True
      else me \<in> s_ipc_to (kpriv s k))"
    and "j \<noteq> me \<Longrightarrow> j \<in> s_ipc_to (kpriv (mask_step rp m i s) k) \<longleftrightarrow> j \<in> s_ipc_to (kpriv s k)"
  using assms by (auto simp: mask_step_def set_sendto_bit_def unset_sendto_bit_def Let_def)

lemma fill_mask:
  fixes m :: "nat set"
  assumes "p_priv (kproc s rp) = Some me"
  defines "s' n \<equiv> fold (mask_step rp m) [0..<n] s"
  shows "kproc (s' n) = kproc s" "s_proc_nr (kpriv (s' n) k) = s_proc_nr (kpriv s k)"
    "s_trap_mask (kpriv (s' n) k) = s_trap_mask (kpriv s k)"
    "j \<in> s_ipc_to (kpriv (s' n) me) \<longleftrightarrow>
       (if j < n then j \<in> m \<and> s_proc_nr (kpriv s j) \<noteq> None \<and> j \<noteq> me else j \<in> s_ipc_to (kpriv s me))"
    "k \<noteq> me \<Longrightarrow> me \<in> s_ipc_to (kpriv (s' n) k) \<longleftrightarrow>
       (if k \<ge> n then me \<in> s_ipc_to (kpriv s k)
        else if k \<notin> m then False
        else if s_proc_nr (kpriv s k) \<noteq> None \<and> can_reply s k then True
        else me \<in> s_ipc_to (kpriv s k))"
    "k \<noteq> me \<Longrightarrow> j \<noteq> me \<Longrightarrow> j \<in> s_ipc_to (kpriv (s' n) k) \<longleftrightarrow> j \<in> s_ipc_to (kpriv s k)"
proof -
  have step: "s' (Suc n) = mask_step rp m n (s' n)" for n by (simp add: s'_def)
  have zero: "s' 0 = s" by (simp add: s'_def)
  show a: "kproc (s' n) = kproc s" for n by (induction n) (simp_all add: zero step mask_step_frame)
  then have own: "p_priv (kproc (s' n) rp) = Some me" for n using assms(1) by simp
  show b: "s_proc_nr (kpriv (s' n) k) = s_proc_nr (kpriv s k)" for n k
    by (induction n) (simp_all add: zero step mask_step_frame)
  show c: "s_trap_mask (kpriv (s' n) k) = s_trap_mask (kpriv s k)" for n k
    by (induction n) (simp_all add: zero step mask_step_frame)
  show "j \<in> s_ipc_to (kpriv (s' n) me) \<longleftrightarrow>
       (if j < n then j \<in> m \<and> s_proc_nr (kpriv s j) \<noteq> None \<and> j \<noteq> me else j \<in> s_ipc_to (kpriv s me))"
    by (induction n) (auto simp: zero step mask_step_own [OF own] b less_Suc_eq)
  show "me \<in> s_ipc_to (kpriv (s' n) k) \<longleftrightarrow>
       (if k \<ge> n then me \<in> s_ipc_to (kpriv s k)
        else if k \<notin> m then False
        else if s_proc_nr (kpriv s k) \<noteq> None \<and> can_reply s k then True
        else me \<in> s_ipc_to (kpriv s k))" if "k \<noteq> me"
    by (induction n) (auto simp: zero step mask_step_other(1) [OF own that] b c less_Suc_eq)
  show "j \<in> s_ipc_to (kpriv (s' n) k) \<longleftrightarrow> j \<in> s_ipc_to (kpriv s k)" if "k \<noteq> me" "j \<noteq> me"
    by (induction n) (simp_all add: zero step mask_step_other(2) [OF own that])
qed

lemma fill_sendto_mask_fold: "fill_sendto_mask K rp m s = fold (mask_step rp m) [0..<NR_SYS_PROCS K] s"
  by (simp add: fill_sendto_mask_def mask_step_def [abs_def])

text \<open>
  Who may send to a process that can reply must be able to get the reply: the send masks of
  the structures with an owner are symmetric in this sense.
\<close>

definition masks_symmetric :: "k_config \<Rightarrow> kernel \<Rightarrow> bool" where
  "masks_symmetric K s \<longleftrightarrow> (\<forall>i < NR_SYS_PROCS K. \<forall>j < NR_SYS_PROCS K. s_proc_nr (kpriv s i) \<noteq> None \<longrightarrow>
     s_proc_nr (kpriv s j) \<noteq> None \<longrightarrow> j \<in> s_ipc_to (kpriv s i) \<longrightarrow> can_reply s j \<longrightarrow> i \<in> s_ipc_to (kpriv s j))"

text \<open>
  C36: \<open>fill_sendto_mask\<close> gives a process exactly the targets of the map it is passed,
  less itself and structures without an owner, and keeps the send masks symmetric: whoever
  the process may now send to and can reply may reply, and whoever it may no longer send to
  may no longer send to it.
\<close>

theorem fill_sendto_mask_correct:
  assumes "p_priv (kproc s rp) = Some me" and "masks_symmetric K s" and "me < NR_SYS_PROCS K"
  shows "masks_symmetric K (fill_sendto_mask K rp m s) \<and>
    (\<forall>j < NR_SYS_PROCS K. j \<in> s_ipc_to (kpriv (fill_sendto_mask K rp m s) me) \<longleftrightarrow>
       j \<in> m \<and> s_proc_nr (kpriv s j) \<noteq> None \<and> j \<noteq> me) \<and>
    (\<forall>j < NR_SYS_PROCS K. j \<noteq> me \<and> j \<notin> m \<longrightarrow> me \<notin> s_ipc_to (kpriv (fill_sendto_mask K rp m s) j))"
proof -
  let ?n = "NR_SYS_PROCS K"
  let ?s = "fold (mask_step rp m) [0..<?n] s"
  note f = fill_mask [OF assms(1), where m = m and n = ?n]
  have "i \<in> s_ipc_to (kpriv ?s j)"
    if "i < ?n" "j < ?n" "s_proc_nr (kpriv s i) \<noteq> None" "s_proc_nr (kpriv s j) \<noteq> None"
      "j \<in> s_ipc_to (kpriv ?s i)" "can_reply s j" for i j
  proof (cases "i = me \<or> j = me")
    case True
    moreover have "i \<noteq> j" using True that(1,5) f(4) [of me] by auto
    ultimately consider "i = me" "j \<noteq> me" | "j = me" "i \<noteq> me" by auto
    then show ?thesis
    proof cases
      case 1
      then have "j \<in> m" using that(2,5) f(4) [of j] by simp
      with 1 show ?thesis using f(5) [of j] that(2,4,6) by simp
    next
      case 2
      then have "i \<in> m" using that(1,5) f(5) [of i] by (auto split: if_splits)
      with 2 show ?thesis using f(4) [of i] that(1,3) by simp
    qed
  next
    case False
    then have "j \<in> s_ipc_to (kpriv s i)" using f(6) that by simp
    then have "i \<in> s_ipc_to (kpriv s j)" using assms(2) that by (simp add: masks_symmetric_def)
    then show ?thesis using f(6) False by simp
  qed
  then have "masks_symmetric K ?s" by (simp add: masks_symmetric_def f(2,3))
  then show ?thesis using f(4,5) by (auto simp: fill_sendto_mask_fold)
qed

subsection \<open>Kernel signals\<close>

lemma send_sig_ok:
  assumes "isokendpt E ep = Some g" and "\<not> isemptyp s g" and "p_priv (kproc s g) = Some gp"
  shows "send_sig E ep sig s =
    (k_event (Notify (p_endpoint (kproc s g))) (upd_kpriv gp (s_sig_pending_update (insert sig)) s), OK)"
  using assms by (simp add: send_sig_def)

text \<open>
  A signal for a process with another signal manager is pending afterwards, and the
  process is stopped until the manager has dealt with it. The manager is notified, with
  \<open>SIGKSIG\<close> among its signals, exactly when the process had no signals before; a signal
  that was pending already changes nothing.
\<close>

theorem cause_sig_delivers:
  assumes "p_pending (kproc s rp) \<noteq> {} \<longrightarrow> RTS_SIGNALED \<in> rts_flags s rp"
    and "sig_manager K s rp \<noteq> p_endpoint (kproc s rp)"
    and "isokendpt E (sig_manager K s rp) = Some g" and "\<not> isemptyp s g" and "p_priv (kproc s g) = Some gp"
  shows "\<exists>s'. cause_sig K E rp sig s = Returned s' \<and> sig \<in> p_pending (kproc s' rp) \<and> RTS_SIGNALED \<in> rts_flags s' rp \<and>
    (if sig \<in> p_pending (kproc s rp) then s' = s
     else p_pending (kproc s' rp) = insert sig (p_pending (kproc s rp)) \<and>
       (if RTS_SIGNALED \<in> rts_flags s rp then k_events s' = k_events s \<and> kpriv s' = kpriv s
        else k_events s' = k_events s @ [Notify (p_endpoint (kproc s g))] \<and> SIGKSIG K \<in> s_sig_pending (kpriv s' gp) \<and>
          RTS_SIG_PENDING \<in> rts_flags s' rp))"
proof -
  let ?s2 = "upd_kproc rp (rts_set {RTS_SIGNALED, RTS_SIG_PENDING}) (upd_kproc rp (p_pending_update (insert sig)) s)"
  have g: "\<not> isemptyp ?s2 g" "p_priv (kproc ?s2 g) = Some gp" "p_endpoint (kproc ?s2 g) = p_endpoint (kproc s g)"
    using assms(4,5) by auto
  note send = send_sig_ok [OF assms(3) g(1,2), of "SIGKSIG K", unfolded g(3)]
  have c: "cause_sig K E rp sig s = cause_sig_mgr K E (sig_manager K s rp) rp sig s"
    using assms(2) by (subst cause_sig.simps) (simp add: Let_def eq_commute)
  show ?thesis
  proof (cases "sig \<in> p_pending (kproc s rp) \<or> RTS_SIGNALED \<in> rts_flags s rp")
    case True
    with assms(1) show ?thesis unfolding c by (auto simp: cause_sig_mgr_def)
  next
    case False
    then have "cause_sig K E rp sig s =
        Returned (k_event (Notify (p_endpoint (kproc s g))) (upd_kpriv gp (s_sig_pending_update (insert (SIGKSIG K))) ?s2))"
      unfolding c cause_sig_mgr_def Let_def using send by simp
    with False show ?thesis by simp
  qed
qed

text \<open>
  A lethal signal for a process that is its own signal manager goes to the backup
  manager, if there is one that exists: it becomes the process' signal manager for good, is
  made runnable, and gets the signal; there is no backup any more. Without a backup the
  kernel panics.
\<close>

theorem cause_sig_lethal:
  assumes "sig_manager K s rp = p_endpoint (kproc s rp)" and "SIGS_IS_LETHAL E sig"
    and "p_priv (kproc s rp) = Some me"
  shows "(case s_bak_sig_mgr (kpriv s me) of
      None \<Rightarrow> \<not> returns (cause_sig K E rp sig s)
    | Some bak \<Rightarrow>
        if isokendpt E bak = None then \<not> returns (cause_sig K E rp sig s)
        else bak \<noteq> p_endpoint (kproc s rp) \<longrightarrow> bak \<noteq> SELF_E K \<longrightarrow>
          (let t = backup_takes_over rp bak (the (isokendpt E bak)) s
           in cause_sig K E rp sig s = cause_sig_mgr K E bak rp sig t \<and> s_bak_sig_mgr (kpriv t me) = None \<and>
              sig_manager K t rp = bak \<and> RTS_NO_PRIV \<notin> rts_flags t (the (isokendpt E bak))))"
proof -
  have c: "cause_sig K E rp sig s = (case s_bak_sig_mgr (kpriv s me) of
      None \<Rightarrow> Aborted ''cause_sig: sig manager gets lethal signal for itself''
    | Some bak \<Rightarrow> (case isokendpt E bak of
         None \<Rightarrow> Aborted ''cause_sig: sig manager gets lethal signal for itself''
       | Some mgr_nr \<Rightarrow> cause_sig K E rp sig (backup_takes_over rp bak mgr_nr s)))"
    using assms by (subst cause_sig.simps) (simp add: Let_def)
  have "cause_sig K E rp sig t = cause_sig_mgr K E bak rp sig t"
    if "sig_manager K t rp = bak" "p_endpoint (kproc t rp) \<noteq> bak" for t bak
    using that by (subst cause_sig.simps) (simp add: Let_def)
  then show ?thesis unfolding c using assms(3)
    by (auto simp: backup_takes_over_def sig_manager_def Let_def split: option.split)
qed

subsection \<open>Kernel calls\<close>

definition call_index :: "k_config \<Rightarrow> k_env \<Rightarrow> string \<Rightarrow> nat" where
  "call_index K E c = nat (call_number E c - KERNEL_CALL K)"

definition in_vector :: "k_config \<Rightarrow> k_env \<Rightarrow> string \<Rightarrow> bool" where
  "in_vector K E c \<longleftrightarrow> KERNEL_CALL K \<le> call_number E c \<and> call_number E c < KERNEL_CALL K + int (NR_SYS_CALLS K)"

lemma map_calls:
  assumes "\<forall>(c, h) \<in> set cs. in_vector K E c" and "distinct (map (call_index K E \<circ> fst) cs)"
  shows "\<exists>s'. fold (map_call K E) cs (Returned s) = Returned s' \<and>
    call_vec s' = (\<lambda>n. case map_of (map (\<lambda>(c, h). (call_index K E c, h)) cs) n of Some h \<Rightarrow> Some h | None \<Rightarrow> call_vec s n)"
  using assms
proof (induction cs arbitrary: s)
  case (Cons ch cs)
  obtain c h where ch: "ch = (c, h)" by force
  let ?s = "s\<lparr>call_vec := (call_vec s)(call_index K E c := Some h)\<rparr>"
  have one: "map_call K E ch (Returned s) = Returned ?s"
    using Cons.prems(1) by (simp add: ch map_call_def in_vector_def call_index_def Let_def)
  obtain s' where s': "fold (map_call K E) cs (Returned ?s) = Returned s'"
    "call_vec s' = (\<lambda>n. case map_of (map (\<lambda>(c, h). (call_index K E c, h)) cs) n of Some h \<Rightarrow> Some h | None \<Rightarrow> call_vec ?s n)"
    using Cons.IH [of ?s] Cons.prems by auto
  have "map_of (map (\<lambda>(c, h). (call_index K E c, h)) cs) (call_index K E c) = None"
    using Cons.prems(2) by (auto simp: ch map_of_eq_None_iff image_iff)
  with s' show ?case by (auto simp: ch one [unfolded ch] split: option.split)
qed simp

lemma reset_vector:
  "call_vec (fold (\<lambda>i s. s\<lparr>call_vec := (call_vec s)(i := None)\<rparr>) ns s) n = (if n \<in> set ns then None else call_vec s n)"
  by (induction ns arbitrary: s) auto

text \<open>
  After \<open>system_init\<close> every call the kernel knows is dispatched to its own handler
  when the caller's mask allows it, and is denied when it does not; every other number is
  refused. (The call numbers are in the range of the vector, and no two are the same.)
\<close>

theorem system_init_dispatch:
  assumes "\<forall>(c, h) \<in> set (sys_calls K). in_vector K E c" and "distinct (map (call_index K E \<circ> fst) (sys_calls K))"
  shows "\<exists>s'. system_init K E s = Returned s' \<and>
    (\<forall>t caller msg. call_vec t = call_vec s' \<longrightarrow>
       (\<forall>(c, h) \<in> set (sys_calls K). m_type msg = call_number E c \<longrightarrow>
          kernel_call_dispatch K E caller msg t =
            (if call_index K E c \<in> s_k_call_mask (kpriv t (priv_id t caller)) then handler E h caller msg t
             else (t, msg, Err ECALLDENIED))) \<and>
       (m_type msg \<notin> call_number E ` fst ` set (sys_calls K) \<longrightarrow>
          (\<exists>e. kernel_call_dispatch K E caller msg t = (t, msg, Err e))))"
proof -
  let ?cs = "map (\<lambda>(c, h). (call_index K E c, h)) (sys_calls K)"
  have dist: "distinct (map fst ?cs)" using assms(2) by (simp add: comp_def case_prod_beta)
  define s3 where "s3 = fold (\<lambda>i s. s\<lparr>call_vec := (call_vec s)(i := None)\<rparr>) [0..<NR_SYS_CALLS K]
     (fold (\<lambda>sp. upd_kpriv sp (s_alarm_timer_update (\<lambda>_. None))) [0..<NR_SYS_PROCS K]
       (fold (\<lambda>i s. s\<lparr>irq_hooks := (irq_hooks s)(i := None)\<rparr>) [0..<NR_IRQ_HOOKS K] s))"
  have reset: "call_vec s3 n = None" if "n < NR_SYS_CALLS K" for n using that by (simp add: s3_def reset_vector)
  obtain s' where s': "system_init K E s = Returned s'"
    "call_vec s' = (\<lambda>n. case map_of ?cs n of Some h \<Rightarrow> Some h | None \<Rightarrow> call_vec s3 n)"
    using map_calls [OF assms, of s3] by (auto simp: system_init_def Let_def simp flip: s3_def)
  have known: "kernel_call_dispatch K E caller msg t =
        (if call_index K E c \<in> s_k_call_mask (kpriv t (priv_id t caller)) then handler E h caller msg t
         else (t, msg, Err ECALLDENIED))"
    if t: "call_vec t = call_vec s'" and ch: "(c, h) \<in> set (sys_calls K)" and m: "m_type msg = call_number E c"
    for t caller msg c h
  proof -
    have "(call_index K E c, h) \<in> set ?cs" using ch by force
    then have "map_of ?cs (call_index K E c) = Some h" using dist by simp
    then have "call_vec t (call_index K E c) = Some h" using t s'(2) by simp
    moreover have "in_vector K E c" using assms(1) ch by auto
    ultimately show ?thesis using m by (simp add: kernel_call_dispatch_def in_vector_def call_index_def Let_def)
  qed
  have unknown: "\<exists>e. kernel_call_dispatch K E caller msg t = (t, msg, Err e)"
    if t: "call_vec t = call_vec s'" and m: "m_type msg \<notin> call_number E ` fst ` set (sys_calls K)" for t caller msg
  proof (cases "0 \<le> m_type msg - KERNEL_CALL K \<and> m_type msg - KERNEL_CALL K < int (NR_SYS_CALLS K)")
    case True
    let ?n = "nat (m_type msg - KERNEL_CALL K)"
    have "call_index K E c \<noteq> ?n" if ch: "(c, h) \<in> set (sys_calls K)" for c h
    proof
      assume "call_index K E c = ?n"
      moreover have "in_vector K E c" using assms(1) ch by auto
      ultimately have "m_type msg = call_number E c" using True by (simp add: call_index_def in_vector_def eq_nat_nat_iff)
      with m ch show False by force
    qed
    then have "?n \<notin> fst ` set ?cs" by (auto simp: image_iff) (metis)
    then have "map_of ?cs ?n = None" by (simp only: map_of_eq_None_iff not_False_eq_True)
    moreover have "?n < NR_SYS_CALLS K" using True by (simp add: nat_less_iff)
    ultimately have "call_vec t ?n = None" using t s'(2) reset by simp
    with True show ?thesis by (simp add: kernel_call_dispatch_def Let_def)
  qed (auto simp: kernel_call_dispatch_def Let_def)
  from s'(1) known unknown show ?thesis by (intro exI [of _ s']) auto
qed

text \<open>
  A kernel call that waits for VM is repeated with the same message. When the handler
  suspends, the request is saved and the process is marked; when VM has let the process go
  on, \<open>kernel_call_resume\<close> passes exactly the saved request to the dispatcher, and if the
  call is then finished with a reply, the user gets it and the mark is gone. The saved
  request, however, then names \<open>SYSTEM\<close> as its source and not \<open>NONE\<close>: it is the
  message the reply was built in.
\<close>

theorem kernel_call_resumes:
  assumes "copy_msg_from_user E m_user = Some m"
    and "kernel_call_dispatch K E caller (m\<lparr>m_source := Some (p_endpoint (kproc s caller))\<rparr>)
           (upd_kproc caller (p_delivermsg_vir_update (\<lambda>_. m_user)) s) = (s2, msg, Err VMSUSPEND)"
    and "RTS_VMREQUEST \<in> rts_flags s2 caller" and "p_vmrequest_type (kproc s2 caller) = VMSTYPE_KERNELCALL"
    and "m_source msg = Some (p_endpoint (kproc s2 caller))" and "RTS_SLOT_FREE \<notin> rts_flags s2 caller"
  shows "\<exists>s'. kernel_call K E m_user caller s = Returned s' \<and> p_reqmsg (kproc s' caller) = msg \<and>
    MF_KCALL_RESUME \<in> p_misc_flags (kproc s' caller) \<and>
    (\<forall>t u msg' r. kproc t caller = rts_unset RTS_VMREQUEST (kproc s' caller) \<longrightarrow>
       kernel_call_dispatch K E caller msg t = (u, msg', r) \<longrightarrow> r \<notin> {Err VMSUSPEND, Err EDONTREPLY} \<longrightarrow>
       \<not> copy_msg_to_user E (msg'\<lparr>m_source := Some (SYSTEM_E K), m_type := ret_code E r\<rparr>) (p_delivermsg_vir (kproc u caller)) \<longrightarrow>
       (\<exists>v. kernel_call_resume K E caller t = Returned v \<and> MF_KCALL_RESUME \<notin> p_misc_flags (kproc v caller) \<and>
          k_events v = k_events u @ [CopyToUser (p_delivermsg_vir (kproc u caller))
            (msg'\<lparr>m_source := Some (SYSTEM_E K), m_type := ret_code E r\<rparr>)] \<and>
          m_source (p_reqmsg (kproc v caller)) = Some (SYSTEM_E K)))"
proof -
  let ?s' = "upd_kproc caller (\<lambda>p. p\<lparr>p_reqmsg := msg, p_misc_flags := insert MF_KCALL_RESUME (p_misc_flags p)\<rparr>)
    (s2\<lparr>kbill_kcall := caller\<rparr>)"
  have "kernel_call K E m_user caller s = Returned ?s'"
    using assms(1-4) by (simp add: kernel_call_def kernel_call_finish_def Let_def)
  moreover have "\<exists>v. kernel_call_resume K E caller t = Returned v \<and> MF_KCALL_RESUME \<notin> p_misc_flags (kproc v caller) \<and>
      k_events v = k_events u @ [CopyToUser (p_delivermsg_vir (kproc u caller))
        (msg'\<lparr>m_source := Some (SYSTEM_E K), m_type := ret_code E r\<rparr>)] \<and>
      m_source (p_reqmsg (kproc v caller)) = Some (SYSTEM_E K)"
    if "kproc t caller = rts_unset RTS_VMREQUEST (kproc ?s' caller)" "kernel_call_dispatch K E caller msg t = (u, msg', r)"
      "r \<notin> {Err VMSUSPEND, Err EDONTREPLY}"
      "\<not> copy_msg_to_user E (msg'\<lparr>m_source := Some (SYSTEM_E K), m_type := ret_code E r\<rparr>) (p_delivermsg_vir (kproc u caller))"
    for t u msg' r
    using that assms(5,6) by (simp add: kernel_call_resume_def kernel_call_finish_def Let_def)
  ultimately show ?thesis by (intro exI [of _ ?s']) simp
qed

subsection \<open>Caller queues\<close>

text \<open>The queue that starts at a pointer, as a list.\<close>

fun chain :: "kernel \<Rightarrow> qloc \<Rightarrow> nat list \<Rightarrow> bool" where
  "chain s xpp [] = (q_load s xpp = None)"
| "chain s xpp (x # xs) = (q_load s xpp = Some x \<and> chain s (QLink x) xs)"

lemma chain_frame:
  "chain s xpp xs \<Longrightarrow> q_load s' xpp = q_load s xpp \<Longrightarrow> (\<forall>x \<in> set xs. p_q_link (kproc s' x) = p_q_link (kproc s x)) \<Longrightarrow>
     chain s' xpp xs"
  by (induction xs arbitrary: xpp) auto

lemma unqueue_correct:
  assumes "chain s xpp xs" and "distinct xs" and "length xs < fuel" and "\<forall>p. xpp = QLink p \<longrightarrow> p \<notin> set xs"
  shows "\<exists>loc. unqueue fuel rc xpp s = Some (if rc \<in> set xs then q_store loc (p_q_link (kproc s rc)) s else s) \<and>
    (loc = xpp \<or> (\<exists>p \<in> set xs. p \<noteq> rc \<and> loc = QLink p)) \<and>
    chain (if rc \<in> set xs then q_store loc (p_q_link (kproc s rc)) s else s) xpp (remove1 rc xs)"
  using assms
proof (induction xs arbitrary: xpp fuel)
  case Nil
  then show ?case by (cases fuel) auto
next
  case (Cons x xs)
  obtain f where f: "fuel = Suc f" using Cons.prems(3) by (cases fuel) auto
  have x: "q_load s xpp = Some x" "chain s (QLink x) xs" using Cons.prems(1) by auto
  show ?case
  proof (cases "x = rc")
    case True
    let ?s = "q_store xpp (p_q_link (kproc s rc)) s"
    have "q_load ?s xpp = q_load s (QLink rc)" by (cases xpp) auto
    moreover have "\<forall>y \<in> set xs. p_q_link (kproc ?s y) = p_q_link (kproc s y)"
      using Cons.prems(4) by (cases xpp) auto
    moreover have "chain s (QLink rc) xs" using x(2) True by simp
    ultimately have "chain ?s xpp xs" by (cases xs) (auto intro: chain_frame)
    with x True f show ?thesis by (intro exI [of _ xpp]) simp
  next
    case False
    obtain loc where loc: "unqueue f rc (QLink x) s = Some (if rc \<in> set xs then q_store loc (p_q_link (kproc s rc)) s else s)"
        "loc = QLink x \<or> (\<exists>p \<in> set xs. p \<noteq> rc \<and> loc = QLink p)"
        "chain (if rc \<in> set xs then q_store loc (p_q_link (kproc s rc)) s else s) (QLink x) (remove1 rc xs)"
      using Cons.IH [of "QLink x" f] x(2) Cons.prems(2,3) f by auto
    let ?s = "if rc \<in> set xs then q_store loc (p_q_link (kproc s rc)) s else s"
    have "loc \<noteq> xpp" using loc(2) Cons.prems(4) by auto
    moreover from loc(2) obtain p where "loc = QLink p" by auto
    ultimately have "q_load ?s xpp = Some x" using x(1) by (cases xpp) auto
    with loc x(1) False f show ?thesis by (intro exI [of _ loc]) auto
  qed
qed

text \<open>
  The queues of all processes: no process is on two of them, and only processes of the table
  are on them.
\<close>

definition queues :: "k_config \<Rightarrow> kernel \<Rightarrow> (nat \<Rightarrow> nat list) \<Rightarrow> bool" where
  "queues K s Q \<longleftrightarrow> (\<forall>t. chain s (CallerQ t) (Q t) \<and> distinct (Q t) \<and> set (Q t) \<subseteq> {..<NR_KPROCS K}) \<and>
     (\<forall>t u. t \<noteq> u \<longrightarrow> set (Q t) \<inter> set (Q u) = {})"

definition same_links :: "kernel \<Rightarrow> kernel \<Rightarrow> bool" where
  "same_links s s' \<longleftrightarrow> (\<forall>i. p_caller_q (kproc s' i) = p_caller_q (kproc s i) \<and> p_q_link (kproc s' i) = p_q_link (kproc s i))"

lemma same_links_load: "same_links s s' \<Longrightarrow> q_load s' xpp = q_load s xpp"
  by (cases xpp) (auto simp: same_links_def)

lemma queues_same_links:
  assumes "queues K s Q" and "same_links s s'"
  shows "queues K s' Q"
proof -
  have "chain s' (CallerQ t) (Q t)" for t
    using assms chain_frame [of s "CallerQ t" "Q t" s'] same_links_load [OF assms(2)]
    by (auto simp: queues_def same_links_def)
  with assms(1) show ?thesis by (simp add: queues_def)
qed

text \<open>Everything but the links is as before.\<close>

definition but_links :: "kernel \<Rightarrow> kernel \<Rightarrow> bool" where
  "but_links s s' \<longleftrightarrow> kpriv s' = kpriv s \<and> k_events s' = k_events s \<and>
     (\<forall>i. (kproc s' i)\<lparr>p_caller_q := None, p_q_link := None\<rparr> = (kproc s i)\<lparr>p_caller_q := None, p_q_link := None\<rparr>)"

lemma but_links_store: "but_links s (q_store loc v s)"
  by (cases loc) (auto simp: but_links_def)

lemma but_linksD:
  assumes "but_links s s'"
  shows "p_rts_flags (kproc s' i) = p_rts_flags (kproc s i)" "p_endpoint (kproc s' i) = p_endpoint (kproc s i)"
    "p_priv (kproc s' i) = p_priv (kproc s i)" "p_retreg (kproc s' i) = p_retreg (kproc s i)"
    "p_sendto_e (kproc s' i) = p_sendto_e (kproc s i)" "p_getfrom_e (kproc s' i) = p_getfrom_e (kproc s i)"
proof -
  have eq: "(kproc s' i)\<lparr>p_caller_q := None, p_q_link := None\<rparr> = (kproc s i)\<lparr>p_caller_q := None, p_q_link := None\<rparr>"
    using assms by (simp add: but_links_def)
  show "p_rts_flags (kproc s' i) = p_rts_flags (kproc s i)" using arg_cong [OF eq, of p_rts_flags] by simp
  show "p_endpoint (kproc s' i) = p_endpoint (kproc s i)" using arg_cong [OF eq, of p_endpoint] by simp
  show "p_priv (kproc s' i) = p_priv (kproc s i)" using arg_cong [OF eq, of p_priv] by simp
  show "p_retreg (kproc s' i) = p_retreg (kproc s i)" using arg_cong [OF eq, of p_retreg] by simp
  show "p_sendto_e (kproc s' i) = p_sendto_e (kproc s i)" using arg_cong [OF eq, of p_sendto_e] by simp
  show "p_getfrom_e (kproc s' i) = p_getfrom_e (kproc s i)" using arg_cong [OF eq, of p_getfrom_e] by simp
qed

lemma unqueue_queues:
  assumes "queues K s Q"
  obtains s' where "unqueue (NR_KPROCS K + 1) rc (CallerQ t) s = Some s'" "queues K s' (Q(t := remove1 rc (Q t)))" "but_links s s'"
proof -
  have q: "chain s (CallerQ t) (Q t)" "distinct (Q t)" "set (Q t) \<subseteq> {..<NR_KPROCS K}" using assms by (auto simp: queues_def)
  have "card (set (Q t)) \<le> card {..<NR_KPROCS K}" using q(3) by (intro card_mono) auto
  then have len: "length (Q t) < NR_KPROCS K + 1" using distinct_card [OF q(2)] by simp
  obtain loc where loc: "unqueue (NR_KPROCS K + 1) rc (CallerQ t) s =
        Some (if rc \<in> set (Q t) then q_store loc (p_q_link (kproc s rc)) s else s)"
      "loc = CallerQ t \<or> (\<exists>p \<in> set (Q t). p \<noteq> rc \<and> loc = QLink p)"
      "chain (if rc \<in> set (Q t) then q_store loc (p_q_link (kproc s rc)) s else s) (CallerQ t) (remove1 rc (Q t))"
    using unqueue_correct [OF q(1,2) len, of rc] by auto
  let ?s = "if rc \<in> set (Q t) then q_store loc (p_q_link (kproc s rc)) s else s"
  have other: "chain ?s (CallerQ u) (Q u)" if "u \<noteq> t" for u
  proof -
    have disj: "set (Q u) \<inter> set (Q t) = {}" using assms that by (auto simp: queues_def)
    have "chain s (CallerQ u) (Q u)" using assms by (simp add: queues_def)
    then show ?thesis
    proof (rule chain_frame)
      show "q_load ?s (CallerQ u) = q_load s (CallerQ u)" using loc(2) that by (cases loc) auto
      show "\<forall>x \<in> set (Q u). p_q_link (kproc ?s x) = p_q_link (kproc s x)"
        using loc(2) disj by (cases loc) (auto simp: disjoint_iff)
    qed
  qed
  have sub: "set (remove1 rc (Q t)) \<subseteq> set (Q t)" by (rule set_remove1_subset)
  have "queues K ?s (Q(t := remove1 rc (Q t)))"
    using assms loc(3) other sub by (auto simp: queues_def disjoint_iff)
  moreover have "but_links s ?s" using but_links_store by (simp add: but_links_def)
  ultimately show thesis using that loc(1) by blast
qed

lemma clear_ipc_correct:
  assumes "queues K s Q" and "RTS_SENDING \<in> rts_flags s rc \<Longrightarrow> isokendpt E (p_sendto_e (kproc s rc)) = Some t"
  obtains s' where "clear_ipc K E rc s = Returned s'"
    "queues K s' (if RTS_SENDING \<in> rts_flags s rc then Q(t := remove1 rc (Q t)) else Q)"
    "\<exists>u. but_links s u \<and> s' = upd_kproc rc (p_rts_flags_update (\<lambda>F. F - {RTS_SENDING, RTS_RECEIVING})) u"
proof (cases "RTS_SENDING \<in> rts_flags s rc")
  case True
  obtain u where u: "unqueue (NR_KPROCS K + 1) rc (CallerQ t) s = Some u" "queues K u (Q(t := remove1 rc (Q t)))" "but_links s u"
    by (rule unqueue_queues [OF assms(1)])
  let ?s' = "upd_kproc rc (p_rts_flags_update (\<lambda>F. F - {RTS_SENDING, RTS_RECEIVING})) u"
  have comp: "(\<lambda>fs. fs - {RTS_RECEIVING}) \<circ> (\<lambda>fs. fs - {RTS_SENDING}) = (\<lambda>F. F - {RTS_SENDING, RTS_RECEIVING})"
    by auto
  have "clear_ipc K E rc s = Returned ?s'"
    using True assms(2) u(1) by (simp add: clear_ipc_def comp)
  moreover have "queues K ?s' (Q(t := remove1 rc (Q t)))"
    by (rule queues_same_links [OF u(2)]) (simp add: same_links_def)
  ultimately show thesis using that True u(3) by auto
next
  case False
  let ?s' = "upd_kproc rc (p_rts_flags_update (\<lambda>F. F - {RTS_SENDING, RTS_RECEIVING})) s"
  have eq: "rts_unset RTS_RECEIVING (kproc s rc) = p_rts_flags_update (\<lambda>F. F - {RTS_SENDING, RTS_RECEIVING}) (kproc s rc)"
    using False by (cases "kproc s rc") auto
  have "clear_ipc K E rc s = Returned (upd_kproc rc (rts_unset RTS_RECEIVING) s)"
    using False by (simp add: clear_ipc_def)
  then have "clear_ipc K E rc s = Returned ?s'" unfolding eq .
  moreover have "queues K ?s' Q" by (rule queues_same_links [OF assms(1)]) (simp add: same_links_def)
  moreover have "but_links s s" by (simp add: but_links_def)
  ultimately show thesis using that False by auto
qed

text \<open>
  C25: \<open>clear_ipc\<close> takes a process out of the queue it waits in, wherever in the queue it
  is, and leaves the order of the others and all other queues alone; the walk along the
  links ends. Afterwards the process neither sends nor receives.
\<close>

theorem clear_ipc_dequeues:
  assumes "queues K s Q" and "RTS_SENDING \<in> rts_flags s rc" and "isokendpt E (p_sendto_e (kproc s rc)) = Some t"
  shows "\<exists>s'. clear_ipc K E rc s = Returned s' \<and> queues K s' (Q(t := remove1 rc (Q t))) \<and>
    rts_flags s' rc = rts_flags s rc - {RTS_SENDING, RTS_RECEIVING} \<and> (\<forall>i. i \<noteq> rc \<longrightarrow> rts_flags s' i = rts_flags s i)"
proof -
  obtain s' where s': "clear_ipc K E rc s = Returned s'"
      "queues K s' (if RTS_SENDING \<in> rts_flags s rc then Q(t := remove1 rc (Q t)) else Q)"
      "\<exists>u. but_links s u \<and> s' = upd_kproc rc (p_rts_flags_update (\<lambda>F. F - {RTS_SENDING, RTS_RECEIVING})) u"
    by (rule clear_ipc_correct [OF assms(1), of rc E t]) (use assms(3) in auto)
  then show ?thesis using assms(2) but_linksD(1) by fastforce
qed

subsection \<open>The end of a process\<close>

text \<open>
  What the code relies on: a process is blocked on whom it sends to or, failing that,
  receives from; and there are finitely many pending asynchronous senders, one fewer after
  each is cancelled, which changes no process.
\<close>

definition blockedon_ok :: "k_env \<Rightarrow> bool" where
  "blockedon_ok E \<longleftrightarrow> (\<forall>p. P_BLOCKEDON E p =
     (if RTS_SENDING \<in> p_rts_flags p then Some (p_sendto_e p)
      else if RTS_RECEIVING \<in> p_rts_flags p then Some (p_getfrom_e p) else None))"

definition pending_asends :: "k_config \<Rightarrow> kernel \<Rightarrow> nat \<Rightarrow> nat set" where
  "pending_asends K s rc = s_asyn_pending (kpriv s (priv_id s rc)) \<inter> {..<NR_SYS_PROCS K}"

definition asend_ok :: "k_config \<Rightarrow> k_env \<Rightarrow> bool" where
  "asend_ok K E \<longleftrightarrow>
     (\<forall>rc s. case has_pending_asend E rc s of
        None \<Rightarrow> True
      | Some src \<Rightarrow> src \<in> pending_asends K s rc \<and>
          (\<forall>e. let s' = cancel_async E (the (s_proc_nr (kpriv s src))) rc (k_event e s)
               in kproc s' = kproc s \<and> pending_asends K s' rc = pending_asends K s rc - {src}))"

lemma cancel_asends_ends:
  "asend_ok K E \<Longrightarrow> card (pending_asends K s rc) < fuel \<Longrightarrow>
     \<exists>s'. cancel_asends fuel E rc s = Returned s' \<and> kproc s' = kproc s"
proof (induction fuel arbitrary: s)
  case (Suc fuel)
  show ?case
  proof (cases "has_pending_asend E rc s")
    case (Some src)
    let ?snd = "the (s_proc_nr (kpriv s src))"
    let ?s = "cancel_async E ?snd rc (k_event (CancelAsync ?snd rc) s)"
    have src: "src \<in> pending_asends K s rc" "kproc ?s = kproc s" "pending_asends K ?s rc = pending_asends K s rc - {src}"
      using Suc.prems(1) Some unfolding asend_ok_def Let_def by (auto split: option.splits dest!: spec [of _ rc] spec [of _ s])
    have "finite (pending_asends K s rc)" by (simp add: pending_asends_def)
    then have "card (pending_asends K ?s rc) < fuel" using Suc.prems(2) src card_Diff1_less by fastforce
    from Suc.IH [OF Suc.prems(1) this] Some src(2) show ?thesis by (simp add: Let_def)
  qed simp
qed simp

lemma cancel_asends_returns:
  assumes "asend_ok K E"
  shows "\<exists>s'. cancel_asends (NR_SYS_PROCS K + 1) E rc s = Returned s' \<and> kproc s' = kproc s"
proof -
  have "card (pending_asends K s rc) \<le> card {..<NR_SYS_PROCS K}" by (rule card_mono) (auto simp: pending_asends_def)
  then show ?thesis using cancel_asends_ends [OF assms, of s rc "NR_SYS_PROCS K + 1"] by simp
qed

text \<open>A process without its links, and whether it is blocked on \<open>rc\<close>.\<close>

definition core :: "kernel \<Rightarrow> nat \<Rightarrow> kproc" where
  "core s i = (kproc s i)\<lparr>p_caller_q := None, p_q_link := None\<rparr>"

definition blocked :: "k_env \<Rightarrow> nat \<Rightarrow> kernel \<Rightarrow> nat \<Rightarrow> bool" where
  "blocked E rc s i \<longleftrightarrow> \<not> isemptyp s i \<and> P_BLOCKEDON E (kproc s i) = Some (p_endpoint (kproc s rc))"

definition senders_ok :: "k_config \<Rightarrow> k_env \<Rightarrow> kernel \<Rightarrow> bool" where
  "senders_ok K E s \<longleftrightarrow> (\<forall>i < NR_KPROCS K. RTS_SENDING \<in> rts_flags s i \<longrightarrow> isokendpt E (p_sendto_e (kproc s i)) \<noteq> None)"

abbreviation released :: "ret \<Rightarrow> kproc \<Rightarrow> kproc" where
  "released r p \<equiv> p\<lparr>p_rts_flags := p_rts_flags p - {RTS_SENDING, RTS_RECEIVING}, p_retreg := r\<rparr>"

lemma core_sel:
  "p_rts_flags (core s i) = rts_flags s i" "p_endpoint (core s i) = p_endpoint (kproc s i)"
  "p_sendto_e (core s i) = p_sendto_e (kproc s i)" "p_getfrom_e (core s i) = p_getfrom_e (kproc s i)"
  "p_retreg (core s i) = p_retreg (kproc s i)" "p_priv (core s i) = p_priv (kproc s i)"
  by (simp_all add: core_def)

lemma but_links_core: "but_links s s' \<Longrightarrow> core s' i = core s i"
  by (simp add: but_links_def core_def)

lemma core_upd_flags:
  "core (upd_kproc rp (p_rts_flags_update F) u) i = (if i = rp then p_rts_flags_update F (core u rp) else core u i)"
  by (simp add: core_def)

lemma blocked_core:
  assumes "blockedon_ok E"
  shows "blocked E rc s i \<longleftrightarrow> RTS_SLOT_FREE \<notin> p_rts_flags (core s i) \<and>
    P_BLOCKEDON E (core s i) = Some (p_endpoint (core s rc))"
  using assms by (simp add: blocked_def core_def blockedon_ok_def)

lemma clear_refs_one_correct:
  assumes "blockedon_ok E" and "queues K s Q" and "senders_ok K E s" and "rp < NR_KPROCS K"
  shows "\<exists>s' Q'. clear_refs_one K E rc r rp s = Returned s' \<and> queues K s' Q' \<and>
    (\<forall>i. core s' i = (if i = rp \<and> blocked E rc s rp then released r (core s i) else core s i))"
proof (cases "isemptyp s rp")
  case True
  with assms(2) show ?thesis by (auto simp: clear_refs_one_def blocked_def)
next
  case False
  let ?s1 = "upd_kpriv (priv_id s rp) (\<lambda>p. p\<lparr>s_notify_pending := s_notify_pending p - {priv_id s rc},
      s_asyn_pending := s_asyn_pending p - {priv_id s rc}\<rparr>) s"
  have q1: "queues K ?s1 Q" by (rule queues_same_links [OF assms(2)]) (simp add: same_links_def)
  show ?thesis
  proof (cases "P_BLOCKEDON E (kproc s rp) = Some (p_endpoint (kproc s rc))")
    case b: True
    let ?s2 = "upd_kproc rp (p_retreg_update (\<lambda>_. r)) ?s1"
    have q2: "queues K ?s2 Q" by (rule queues_same_links [OF q1]) (simp add: same_links_def)
    obtain t where t: "RTS_SENDING \<in> rts_flags ?s2 rp \<Longrightarrow> isokendpt E (p_sendto_e (kproc ?s2 rp)) = Some t"
      using assms(3,4) by (auto simp: senders_ok_def)
    obtain s' where s': "clear_ipc K E rp ?s2 = Returned s'"
        "queues K s' (if RTS_SENDING \<in> rts_flags ?s2 rp then Q(t := remove1 rp (Q t)) else Q)"
        "\<exists>u. but_links ?s2 u \<and> s' = upd_kproc rp (p_rts_flags_update (\<lambda>F. F - {RTS_SENDING, RTS_RECEIVING})) u"
      by (rule clear_ipc_correct [OF q2 t])
    then obtain u where u: "but_links ?s2 u"
        "s' = upd_kproc rp (p_rts_flags_update (\<lambda>F. F - {RTS_SENDING, RTS_RECEIVING})) u" by blast
    have "core s' i = (if i = rp then released r (core s i) else core s i)" for i
      unfolding u(2) core_upd_flags but_links_core [OF u(1)] by (cases "kproc s rp") (simp add: core_def)
    moreover have "clear_refs_one K E rc r rp s = Returned s'"
      using False b s'(1) by (simp add: clear_refs_one_def Let_def)
    moreover have "blocked E rc s rp" using False b by (simp add: blocked_def)
    ultimately show ?thesis using s'(2) by auto
  next
    case b: False
    then have "clear_refs_one K E rc r rp s = Returned ?s1" using False by (simp add: clear_refs_one_def Let_def)
    moreover have "core ?s1 i = core s i" for i by (simp add: core_def)
    ultimately show ?thesis using q1 b by (auto simp: blocked_def)
  qed
qed

lemma clear_refs_loop_correct:
  assumes "blockedon_ok E"
  shows "queues K s Q \<Longrightarrow> senders_ok K E s \<Longrightarrow> distinct rps \<Longrightarrow> \<forall>rp \<in> set rps. rp < NR_KPROCS K \<Longrightarrow>
    \<exists>s' Q'. clear_refs_loop K E rc r rps s = Returned s' \<and> queues K s' Q' \<and>
      (\<forall>i. core s' i = (if i \<in> set rps \<and> blocked E rc s i then released r (core s i) else core s i))"
proof (induction rps arbitrary: s Q)
  case Nil
  then show ?case by auto
next
  case (Cons rp rps)
  obtain s1 Q1 where s1: "clear_refs_one K E rc r rp s = Returned s1" "queues K s1 Q1"
      "\<And>i. core s1 i = (if i = rp \<and> blocked E rc s rp then released r (core s i) else core s i)"
    using clear_refs_one_correct [OF assms Cons.prems(1,2), of rp rc r] Cons.prems(4) by auto
  have "senders_ok K E s1" unfolding senders_ok_def
  proof (intro allI impI)
    fix i assume "i < NR_KPROCS K" "RTS_SENDING \<in> rts_flags s1 i"
    moreover have "rts_flags s1 i \<subseteq> rts_flags s i" "p_sendto_e (kproc s1 i) = p_sendto_e (kproc s i)"
      using s1(3) [of i] core_sel(1,3) [of s1 i] core_sel(1,3) [of s i] by (auto split: if_splits)
    ultimately show "isokendpt E (p_sendto_e (kproc s1 i)) \<noteq> None" using Cons.prems(2) by (auto simp: senders_ok_def)
  qed
  with Cons s1(2) obtain s' Q' where s': "clear_refs_loop K E rc r rps s1 = Returned s'" "queues K s' Q'"
      "\<And>i. core s' i = (if i \<in> set rps \<and> blocked E rc s1 i then released r (core s1 i) else core s1 i)"
    by (metis distinct.simps(2) list.set_intros(2))
  have ep: "p_endpoint (core s1 rc) = p_endpoint (core s rc)" using s1(3) [of rc] by auto
  have "blocked E rc s1 i \<longleftrightarrow> blocked E rc s i" if "i \<noteq> rp" for i
    using s1(3) [of i] that ep by (simp add: blocked_core [OF assms])
  then have "core s' i = (if i \<in> set (rp # rps) \<and> blocked E rc s i then released r (core s i) else core s i)" for i
    using s'(3) [of i] s1(3) [of i] Cons.prems(3) by (cases "i = rp") auto
  with s1(1) s'(1,2) show ?case by auto
qed


subsection \<open>A small system\<close>

text \<open>
  Process 5 is the signal manager of the others; process 2 waits to send to process 3,
  behind process 4. Endpoints are slot numbers plus 100.
\<close>

definition demo_k :: k_config where
  "demo_k = \<lparr>NR_SYS_CALLS = 100, KERNEL_CALL = 1536, NR_IRQ_HOOKS = 16, NR_SYS_PROCS = 8, NR_KPROCS = 8, DYN_PRIV = [6, 7],
     NULL_PRIV_ID = - 1, SELF_E = - 3, SYSTEM_E = - 2, TASK_Q = 0, NR_SCHED_QUEUES = 16, K_SIGSEGV = 11,
     SIGKSIG = 28, SIGKSIGSM = 29, SIGSNDELAY = 30, SIGKMESS = 31, CONFIG_SMP = False, ncpus = 1, i386 = True, arm = False\<rparr>"

text \<open>The call numbers follow the order of the table.\<close>

definition demo_ke :: k_env where
  "demo_ke = \<lparr>handler = (\<lambda>_ _ m s. (s, m, OK)),
     call_number = (\<lambda>c. 1536 + int (length (takeWhile (\<lambda>x. fst x \<noteq> c) (sys_calls demo_k)))),
     copy_msg_from_user = (\<lambda>_. Some \<lparr>m_source = None, m_type = 1536, m_payload = []\<rparr>), copy_msg_to_user = (\<lambda>_ _. False),
     isokendpt = (\<lambda>e. if 100 \<le> e \<and> e < 108 then Some (nat (e - 100)) else None), is_static_priv_id = (\<lambda>i. 0 \<le> i \<and> i < 6),
     SIGS_IS_LETHAL = (\<lambda>n. n = 11), has_pending_asend = (\<lambda>_ _. None), cancel_async = (\<lambda>_ _ s. s),
     P_BLOCKEDON = (\<lambda>p. if RTS_SENDING \<in> p_rts_flags p then Some (p_sendto_e p)
       else if RTS_RECEIVING \<in> p_rts_flags p then Some (p_getfrom_e p) else None),
     cpu_is_ready = (\<lambda>_. True), ms_2_cpu_time = (\<lambda>q. nat q * 1000), cpuid = 0,
     smp_schedule_migrate_proc = (\<lambda>_ _ s. s), ret_code = (\<lambda>_. 0)\<rparr>"

definition demo_kproc :: "nat \<Rightarrow> rts_flag set \<Rightarrow> nat option \<Rightarrow> nat option \<Rightarrow> kproc" where
  "demo_kproc i F cq l = \<lparr>p_rts_flags = F, p_misc_flags = {}, p_endpoint = 100 + int i, p_priv = Some i, p_priority = 7,
     p_quantum_size_ms = 200, p_cpu_time_left = 0, p_cpu = 0, p_pending = {}, p_sendto_e = 103, p_getfrom_e = 103,
     p_caller_q = cq, p_q_link = l, p_retreg = OK, p_delivermsg_vir = 0, p_vmrequest_type = VMSTYPE_KERNELCALL,
     p_reqmsg = \<lparr>m_source = None, m_type = 0, m_payload = []\<rparr>\<rparr>"

definition demo_kpriv :: "nat \<Rightarrow> kpriv" where
  "demo_kpriv i = \<lparr>s_proc_nr = (if i < 6 then Some i else None), s_ipc_to = {}, s_trap_mask = {TRAP_OTHER 0},
     s_k_call_mask = {0}, s_sig_mgr = 105, s_bak_sig_mgr = (if i = 5 then Some 104 else None), s_sig_pending = {}, s_diag_sig = False,
     s_notify_pending = {}, s_asyn_pending = {}, s_asynsize = 0, s_sys_proc = True, s_alarm_timer = None\<rparr>"

definition demo_kernel :: kernel where
  "demo_kernel = \<lparr>kproc = (\<lambda>i. if i = 2 then demo_kproc 2 {RTS_SENDING} None None
       else if i = 3 then demo_kproc 3 {RTS_NO_QUANTUM} (Some 4) None else if i = 4 then demo_kproc 4 {RTS_SENDING} None (Some 2)
       else demo_kproc i {} None None),
     kpriv = demo_kpriv, call_vec = (\<lambda>_. None), irq_hooks = (\<lambda>_. None), kbill_kcall = 0, k_events = []\<rparr>"

lemma demo_queues: "queues demo_k demo_kernel (\<lambda>t. if t = 3 then [4, 2] else [])"
  by (auto simp: queues_def demo_kernel_def demo_kproc_def demo_k_def)

lemma demo_env_ok: "blockedon_ok demo_ke" "asend_ok demo_k demo_ke" "senders_ok demo_k demo_ke demo_kernel"
  by (simp_all add: blockedon_ok_def asend_ok_def senders_ok_def demo_ke_def demo_k_def demo_kernel_def demo_kproc_def)

theorem sched_proc_correct_witness:
  "p_priority (kproc (fst (sched_proc demo_k demo_ke 3 5 (- 1) (- 1) demo_kernel)) 3) = 5 \<and>
   rts_flags (fst (sched_proc demo_k demo_ke 3 5 (- 1) (- 1) demo_kernel)) 3 = {}"
proof -
  have "\<not> migrates demo_k demo_ke 3 (- 1) demo_kernel" by (simp add: migrates_def)
  from sched_proc_correct [OF this, of 5 "- 1"] show ?thesis
    by (simp add: sched_proc_check_def demo_k_def demo_kernel_def demo_kproc_def)
qed

theorem sched_proc_off_by_one_witness:
  "snd (sched_proc demo_k demo_ke 3 16 (- 1) (- 1) demo_kernel) = OK"
  using sched_proc_off_by_one [of demo_k demo_ke 3 demo_kernel] by (simp add: demo_k_def)

theorem get_priv_correct_witness:
  "\<exists>sp \<in> {6, 7}. snd (get_priv demo_k demo_ke 1 (- 1) demo_kernel) = OK \<and>
     s_proc_nr (kpriv (fst (get_priv demo_k demo_ke 1 (- 1) demo_kernel)) sp) = Some 1"
  using get_priv_correct [of demo_kernel "- 1" demo_k demo_ke 1]
  by (auto simp: demo_k_def demo_kernel_def demo_kpriv_def)

theorem fill_sendto_mask_correct_witness:
  "s_ipc_to (kpriv (fill_sendto_mask demo_k 1 {1, 2, 7} demo_kernel) 1) \<inter> {..<8} = {2} \<and>
   masks_symmetric demo_k (fill_sendto_mask demo_k 1 {1, 2, 7} demo_kernel)"
proof -
  have "p_priv (kproc demo_kernel 1) = Some 1" by (simp add: demo_kernel_def demo_kproc_def)
  moreover have "masks_symmetric demo_k demo_kernel" by (simp add: masks_symmetric_def demo_kernel_def demo_kpriv_def)
  moreover have "1 < NR_SYS_PROCS demo_k" by (simp add: demo_k_def)
  ultimately have f: "masks_symmetric demo_k (fill_sendto_mask demo_k 1 {1, 2, 7} demo_kernel)"
      "\<forall>j < NR_SYS_PROCS demo_k. j \<in> s_ipc_to (kpriv (fill_sendto_mask demo_k 1 {1, 2, 7} demo_kernel) 1) \<longleftrightarrow>
         j \<in> {1, 2, 7} \<and> s_proc_nr (kpriv demo_kernel j) \<noteq> None \<and> j \<noteq> 1"
    using fill_sendto_mask_correct [of demo_kernel 1 1 demo_k "{1, 2, 7}"] by blast+
  moreover have "NR_SYS_PROCS demo_k = 8" by (simp add: demo_k_def)
  ultimately show ?thesis by (auto simp: demo_kernel_def demo_kpriv_def)
qed

theorem cause_sig_delivers_witness:
  "\<exists>s'. cause_sig demo_k demo_ke 3 14 demo_kernel = Returned s' \<and> 14 \<in> p_pending (kproc s' 3) \<and> k_events s' = [Notify 105]"
proof -
  have m: "sig_manager demo_k demo_kernel 3 = 105"
    by (simp add: sig_manager_def demo_kernel_def demo_kpriv_def demo_kproc_def demo_k_def)
  have g: "isokendpt demo_ke 105 = Some 5" by (simp add: demo_ke_def)
  have p: "p_pending (kproc demo_kernel 3) = {}" "p_endpoint (kproc demo_kernel 3) = 103" "\<not> isemptyp demo_kernel 5"
      "p_priv (kproc demo_kernel 5) = Some 5" "RTS_SIGNALED \<notin> rts_flags demo_kernel 3" "p_endpoint (kproc demo_kernel 5) = 105"
      "k_events demo_kernel = []"
    by (simp_all add: demo_kernel_def demo_kproc_def)
  from cause_sig_delivers [of demo_kernel 3 demo_k demo_ke 5 5 14] m g p show ?thesis by auto
qed

theorem cause_sig_lethal_witness:
  "sig_manager demo_k (backup_takes_over 5 104 4 demo_kernel) 5 = 104 \<and>
   cause_sig demo_k demo_ke 5 11 demo_kernel = cause_sig_mgr demo_k demo_ke 104 5 11 (backup_takes_over 5 104 4 demo_kernel)"
proof -
  have "sig_manager demo_k demo_kernel 5 = p_endpoint (kproc demo_kernel 5)"
    by (simp add: sig_manager_def demo_kernel_def demo_kpriv_def demo_kproc_def demo_k_def)
  moreover have "SIGS_IS_LETHAL demo_ke 11" "isokendpt demo_ke 104 = Some 4" by (simp_all add: demo_ke_def)
  moreover have "p_priv (kproc demo_kernel 5) = Some 5" "s_bak_sig_mgr (kpriv demo_kernel 5) = Some 104"
      "p_endpoint (kproc demo_kernel 5) = 105" "SELF_E demo_k = - 3"
    by (simp_all add: demo_kernel_def demo_kproc_def demo_kpriv_def demo_k_def)
  ultimately show ?thesis using cause_sig_lethal [of demo_k demo_kernel 5 demo_ke 11 5] by (simp add: Let_def)
qed

theorem clear_ipc_dequeues_witness:
  "\<exists>s'. clear_ipc demo_k demo_ke 2 demo_kernel = Returned s' \<and> p_caller_q (kproc s' 3) = Some 4 \<and> p_q_link (kproc s' 4) = None"
proof -
  let ?Q = "\<lambda>t. if t = 3 then [4, 2] else []"
  have "RTS_SENDING \<in> rts_flags demo_kernel 2" "isokendpt demo_ke (p_sendto_e (kproc demo_kernel 2)) = Some 3"
    by (simp_all add: demo_kernel_def demo_kproc_def demo_ke_def)
  from clear_ipc_dequeues [OF demo_queues this] obtain s' where
    s': "clear_ipc demo_k demo_ke 2 demo_kernel = Returned s'" "queues demo_k s' (?Q(3 := remove1 2 (?Q 3)))" by auto
  then have "chain s' (CallerQ 3) [4]" unfolding queues_def by (auto dest: spec [of _ 3])
  with s'(1) show ?thesis by auto
qed


lemma demo_calls:
  "\<forall>(c, h) \<in> set (sys_calls demo_k). in_vector demo_k demo_ke c"
  "distinct (map (call_index demo_k demo_ke \<circ> fst) (sys_calls demo_k))"
  by code_simp+

theorem system_init_dispatch_witness:
  "\<exists>s'. system_init demo_k demo_ke demo_kernel = Returned s' \<and>
     kernel_call_dispatch demo_k demo_ke 1 \<lparr>m_source = None, m_type = 9999, m_payload = []\<rparr> s' =
       (s', \<lparr>m_source = None, m_type = 9999, m_payload = []\<rparr>, Err EBADREQUEST)"
proof -
  obtain s' where s': "system_init demo_k demo_ke demo_kernel = Returned s'"
    "\<forall>t caller msg. call_vec t = call_vec s' \<longrightarrow>
       (m_type msg \<notin> call_number demo_ke ` fst ` set (sys_calls demo_k) \<longrightarrow>
          (\<exists>e. kernel_call_dispatch demo_k demo_ke caller msg t = (t, msg, Err e)))"
    using system_init_dispatch [OF demo_calls, of demo_kernel] by blast
  then show ?thesis by (intro exI [of _ s']) (simp add: kernel_call_dispatch_def demo_k_def)
qed

text \<open>A call that has to wait for VM the first time.\<close>

definition demo_suspending :: k_env where
  "demo_suspending = demo_ke\<lparr>handler := (\<lambda>_ c m s. if MF_KCALL_RESUME \<in> p_misc_flags (kproc s c) then (s, m, OK)
     else (upd_kproc c (rts_set {RTS_VMREQUEST}) s, m, Err VMSUSPEND))\<rparr>"

theorem kernel_call_resumes_witness:
  "\<exists>s'. kernel_call demo_k demo_suspending 77 1 (demo_kernel\<lparr>call_vec := (\<lambda>_. Some ''do_copy'')\<rparr>) = Returned s' \<and>
     p_reqmsg (kproc s' 1) = \<lparr>m_source = Some 101, m_type = 1536, m_payload = []\<rparr> \<and>
     (\<exists>v. kernel_call_resume demo_k demo_suspending 1 (upd_kproc 1 (rts_unset RTS_VMREQUEST) s') = Returned v \<and>
        m_source (p_reqmsg (kproc v 1)) = Some (- 2))"
proof -
  let ?s = "demo_kernel\<lparr>call_vec := (\<lambda>_. Some ''do_copy'')\<rparr>"
  let ?m = "\<lparr>m_source = None, m_type = 1536, m_payload = []\<rparr>"
  let ?msg = "\<lparr>m_source = Some 101, m_type = 1536, m_payload = []\<rparr>"
  let ?s1 = "upd_kproc 1 (p_delivermsg_vir_update (\<lambda>_. 77)) ?s"
  let ?s2 = "upd_kproc 1 (rts_set {RTS_VMREQUEST}) ?s1"
  note defs = demo_suspending_def demo_ke_def demo_kernel_def demo_kproc_def demo_kpriv_def demo_k_def
  have 1: "copy_msg_from_user demo_suspending 77 = Some ?m" by (simp add: defs)
  have 2: "kernel_call_dispatch demo_k demo_suspending 1 (?m\<lparr>m_source := Some (p_endpoint (kproc ?s 1))\<rparr>) ?s1 =
      (?s2, ?msg, Err VMSUSPEND)"
    by (simp add: kernel_call_dispatch_def defs)
  have 3: "RTS_VMREQUEST \<in> rts_flags ?s2 1" "p_vmrequest_type (kproc ?s2 1) = VMSTYPE_KERNELCALL"
      "m_source ?msg = Some (p_endpoint (kproc ?s2 1))" "RTS_SLOT_FREE \<notin> rts_flags ?s2 1"
    by (simp_all add: defs)
  obtain s' where s': "kernel_call demo_k demo_suspending 77 1 ?s = Returned s'" "p_reqmsg (kproc s' 1) = ?msg"
      "MF_KCALL_RESUME \<in> p_misc_flags (kproc s' 1)"
    and resume: "\<forall>t u msg' r. kproc t 1 = rts_unset RTS_VMREQUEST (kproc s' 1) \<longrightarrow>
       kernel_call_dispatch demo_k demo_suspending 1 ?msg t = (u, msg', r) \<longrightarrow> r \<notin> {Err VMSUSPEND, Err EDONTREPLY} \<longrightarrow>
       \<not> copy_msg_to_user demo_suspending (msg'\<lparr>m_source := Some (SYSTEM_E demo_k), m_type := ret_code demo_suspending r\<rparr>)
           (p_delivermsg_vir (kproc u 1)) \<longrightarrow>
       (\<exists>v. kernel_call_resume demo_k demo_suspending 1 t = Returned v \<and> m_source (p_reqmsg (kproc v 1)) = Some (SYSTEM_E demo_k))"
    using kernel_call_resumes [OF 1 2 3] by blast
  let ?t = "upd_kproc 1 (rts_unset RTS_VMREQUEST) s'"
  have "s' = upd_kproc 1 (\<lambda>p. p\<lparr>p_reqmsg := ?msg, p_misc_flags := insert MF_KCALL_RESUME (p_misc_flags p)\<rparr>) (?s2\<lparr>kbill_kcall := 1\<rparr>)"
    using s'(1) 1 2 by (simp add: kernel_call_def kernel_call_finish_def Let_def) (simp add: demo_kernel_def demo_kproc_def)
  then have "kernel_call_dispatch demo_k demo_suspending 1 ?msg ?t = (?t, ?msg, OK)"
    by (simp add: kernel_call_dispatch_def defs)
  then obtain v where "kernel_call_resume demo_k demo_suspending 1 ?t = Returned v" "m_source (p_reqmsg (kproc v 1)) = Some (SYSTEM_E demo_k)"
    using resume [rule_format, of ?t ?t ?msg OK] by (auto simp: demo_suspending_def demo_ke_def)
  with s'(1,2) show ?thesis by (auto simp: demo_k_def)
qed

end
