(* ===== verification/Mfs.thy ===== *)
theory Mfs
  imports Prelude
begin

unbundle bit_operations_syntax

text \<open>
  The file server with immediate files, \<open>Assignment 10\<close>: the mode bits of
  \<open>const.h\<close>, \<open>fslib.c\<close>, and \<open>mfs/read.c\<close> and \<open>mfs/write.c\<close>, that is the
  maps from file positions to blocks, the transfer of data in chunks, and the data of
  immediate files in the zone array of the inode.

  Block buffers are the bytes of their block: the cache behind \<open>get_block\<close> and
  \<open>put_block\<close> is not under the sources, and what a buffer holds that is acquired without
  reading its block (\<open>NO_READ\<close>) is a field of \<open>mfs_env\<close>. The zone array of an inode is
  its forty bytes, which the code reads as ten zone numbers or as characters. Disk
  addresses and positions are natural numbers; sums that can exceed 32 bits are reduced.
  The user's buffer is the memory behind the grant.
\<close>

subsection \<open>Mode bits\<close>

definition I_TYPE :: u16 where "I_TYPE = 0xF000"
definition I_REGULAR :: u16 where "I_REGULAR = 0x8000"
definition I_IMMEDIATE :: u16 where "I_IMMEDIATE = 0x9000"
definition I_BLOCK_SPECIAL :: u16 where "I_BLOCK_SPECIAL = 0x6000"
definition I_DIRECTORY :: u16 where "I_DIRECTORY = 0x4000"
definition I_CHAR_SPECIAL :: u16 where "I_CHAR_SPECIAL = 0x2000"
definition I_NAMED_PIPE :: u16 where "I_NAMED_PIPE = 0x1000"
definition I_SYMBOLIC_LINK :: u16 where "I_SYMBOLIC_LINK = 0xA000"
definition I_UNIX_SOCKET :: u16 where "I_UNIX_SOCKET = 0xC000"
definition ALL_MODES :: u16 where "ALL_MODES = 0x0FFF"

lemmas mode_defs = I_TYPE_def I_REGULAR_def I_IMMEDIATE_def I_BLOCK_SPECIAL_def I_DIRECTORY_def
  I_CHAR_SPECIAL_def I_NAMED_PIPE_def I_SYMBOLIC_LINK_def I_UNIX_SOCKET_def ALL_MODES_def

definition NO_BLOCK :: nat where "NO_BLOCK = 0"
definition NO_ZONE :: nat where "NO_ZONE = 0"
definition NO_DEV :: nat where "NO_DEV = 0"
definition MAX_FILE_POS :: nat where "MAX_FILE_POS = 0x7FFFFFFF"

datatype rw_flag = READING | WRITING | PEEKING

subsection \<open>\<open>fslib.c\<close>\<close>

datatype dtype = DT_REG | DT_DIR | DT_LNK | DT_CHR | DT_BLK | DT_FIFO | DT_SOCK

text \<open>\<open>FS_BITS_PER_BLOCK\<close> is the number of bits of a block.\<close>

definition bitmapsize :: "nat \<Rightarrow> nat \<Rightarrow> nat" where
  "bitmapsize nr_bits block_size =
     (let per = block_size * 8; nr_blocks = nr_bits div per
      in if nr_blocks * per < nr_bits then nr_blocks + 1 else nr_blocks)"

definition fs_mode_to_type :: "u16 \<Rightarrow> dtype outcome" where
  "fs_mode_to_type mode =
     (let t = mode AND I_TYPE
      in if t = I_REGULAR then Returned DT_REG
         else if t = I_IMMEDIATE then Returned DT_REG
         else if t = I_DIRECTORY then Returned DT_DIR
         else if t = I_SYMBOLIC_LINK then Returned DT_LNK
         else if t = I_CHAR_SPECIAL then Returned DT_CHR
         else if t = I_BLOCK_SPECIAL then Returned DT_BLK
         else if t = I_NAMED_PIPE then Returned DT_FIFO
         else if t = I_UNIX_SOCKET then Returned DT_SOCK
         else Aborted ''unknown type'')"

subsection \<open>State\<close>

type_synonym bytes = "nat \<Rightarrow> u8"

datatype time_flag = ATIME | CTIME | MTIME

record inode =
  i_mode :: u16
  i_size :: nat
  i_dev :: nat
  i_num :: nat
  i_ndzones :: nat
  i_nindirs :: nat
  i_zone :: bytes \<comment> \<open>the zone array, as its bytes\<close>
  i_zsearch :: nat
  i_no_seek :: bool \<comment> \<open>\<open>i_seek == NO_SEEK\<close>\<close>
  i_update :: "time_flag set"
  i_dirty :: bool

record super_block =
  s_block_size :: nat
  s_log_zone_size :: nat
  s_max_size :: nat
  s_firstdatazone :: nat
  s_zones :: nat
  s_rd_only :: bool
  s_native :: bool
  s_v3 :: bool \<comment> \<open>\<open>s_version == V3\<close>\<close>
  s_dev :: nat

record mfs =
  blk :: "nat \<Rightarrow> nat \<Rightarrow> bytes" \<comment> \<open>device, block\<close>
  inodes :: "nat \<Rightarrow> inode"
  sb :: super_block
  zmap :: "nat set" \<comment> \<open>the zones in use\<close>
  err_code :: errno
  ubuf :: bytes \<comment> \<open>the memory behind the grant\<close>
  out_seek_pos :: nat
  out_nbytes :: nat
  read_ahead :: "nat list" \<comment> \<open>the blocks asked for in advance\<close>
  readqsize :: nat

datatype rdwt = NoErr | EndOfFile | RdwtErr errno

record mfs_env =
  conv4 :: "bool \<Rightarrow> nat \<Rightarrow> nat"
  unread :: "nat \<Rightarrow> nat \<Rightarrow> bytes"
  alloc_from :: "nat set \<Rightarrow> nat \<Rightarrow> nat option" \<comment> \<open>a free zone, searched from the hint on\<close>
  find_inode :: "nat \<Rightarrow> nat option"
  get_block_size :: "nat \<Rightarrow> nat"
  safecopyto :: "nat \<Rightarrow> nat \<Rightarrow> ret" \<comment> \<open>result of a copy of so many bytes at an offset\<close>
  safecopyfrom :: "nat \<Rightarrow> nat \<Rightarrow> ret"
  safememset :: "nat \<Rightarrow> nat \<Rightarrow> ret"
  lmfs_rdwt_err :: "mfs \<Rightarrow> rdwt"
  cached :: "nat \<Rightarrow> nat \<Rightarrow> bool" \<comment> \<open>\<open>lmfs_dev\<close> of a prefetched buffer is not \<open>NO_DEV\<close>\<close>
  lmfs_nr_bufs :: nat
  lmfs_bufs_in_use :: nat
  NR_IOREQS :: nat
  read_q_alloc :: bool \<comment> \<open>whether memory for the read queue is found\<close>
  get_inode :: "nat \<Rightarrow> nat option"
  DIRENT_RECLEN :: "nat \<Rightarrow> nat" \<comment> \<open>length of a directory record for a name of so many bytes\<close>
  GETDENTS_BUFSIZE :: nat

definition V2_NR_TZONES :: nat where "V2_NR_TZONES = 10"

text \<open>A zone number in an array of bytes.\<close>

definition get_zone :: "bytes \<Rightarrow> nat \<Rightarrow> nat" where
  "get_zone d i = unat (d (4 * i)) + 256 * unat (d (4 * i + 1)) + 65536 * unat (d (4 * i + 2)) + 16777216 * unat (d (4 * i + 3))"

definition set_zone :: "nat \<Rightarrow> nat \<Rightarrow> bytes \<Rightarrow> bytes" where
  "set_zone i z d = d(4 * i := of_nat z, 4 * i + 1 := of_nat (z div 256), 4 * i + 2 := of_nat (z div 65536),
     4 * i + 3 := of_nat (z div 16777216))"

abbreviation zone_no :: "inode \<Rightarrow> nat \<Rightarrow> nat" where
  "zone_no rip i \<equiv> get_zone (i_zone rip) i"

abbreviation upd_inode :: "nat \<Rightarrow> (inode \<Rightarrow> inode) \<Rightarrow> mfs \<Rightarrow> mfs" where
  "upd_inode r f s \<equiv> s\<lparr>inodes := (inodes s)(r := f (inodes s r))\<rparr>"

abbreviation upd_blk :: "nat \<Rightarrow> nat \<Rightarrow> (bytes \<Rightarrow> bytes) \<Rightarrow> mfs \<Rightarrow> mfs" where
  "upd_blk dev b f s \<equiv> s\<lparr>blk := (blk s)(dev := (blk s dev)(b := f (blk s dev b)))\<rparr>"

abbreviation set_izone :: "nat \<Rightarrow> nat \<Rightarrow> nat \<Rightarrow> mfs \<Rightarrow> mfs" where
  "set_izone r i z s \<equiv> upd_inode r (i_zone_update (set_zone i z)) s"

text \<open>Acquiring a buffer: reading the block, or not. Zones of the device.\<close>

datatype iomode = NORMAL | NO_READ | PREFETCH

definition get_block :: "mfs_env \<Rightarrow> nat \<Rightarrow> nat \<Rightarrow> iomode \<Rightarrow> mfs \<Rightarrow> mfs" where
  "get_block E dev b mode s = (if mode = NO_READ then upd_blk dev b (\<lambda>_. unread E dev b) s else s)"

definition alloc_zone :: "mfs_env \<Rightarrow> nat \<Rightarrow> mfs \<Rightarrow> mfs \<times> nat" where
  "alloc_zone E hint s =
     (case alloc_from E (zmap s) hint of
        None \<Rightarrow> (s\<lparr>err_code := ENOSPC\<rparr>, NO_ZONE)
      | Some z \<Rightarrow> (s\<lparr>zmap := insert z (zmap s)\<rparr>, z))"

definition free_zone :: "nat \<Rightarrow> mfs \<Rightarrow> mfs" where
  "free_zone z s = s\<lparr>zmap := zmap s - {z}\<rparr>"

subsection \<open>Indirect blocks\<close>

text \<open>An index beyond the end of the block is an access outside the buffer.\<close>

definition V2_INDIRECTS :: "super_block \<Rightarrow> nat" where
  "V2_INDIRECTS p = s_block_size p div 4"

definition rd_indir :: "mfs_env \<Rightarrow> nat \<Rightarrow> nat \<Rightarrow> nat \<Rightarrow> mfs \<Rightarrow> nat outcome" where
  "rd_indir E dev b index s =
     (if \<not> s_v3 (sb s) then Aborted ''assert s_version''
      else if index \<ge> V2_INDIRECTS (sb s) then Aborted ''outside the block''
      else let zone = conv4 E (s_native (sb s)) (get_zone (blk s dev b) index)
           in if zone \<noteq> NO_ZONE \<and> (zone < s_firstdatazone (sb s) \<or> zone \<ge> s_zones (sb s))
              then Aborted ''check file system'' else Returned zone)"

definition wr_indir :: "mfs_env \<Rightarrow> nat \<Rightarrow> nat \<Rightarrow> nat \<Rightarrow> nat \<Rightarrow> mfs \<Rightarrow> mfs outcome" where
  "wr_indir E dev b index zone s =
     (if \<not> s_v3 (sb s) then Aborted ''assert s_version''
      else if index \<ge> V2_INDIRECTS (sb s) then Aborted ''outside the block''
      else Returned (upd_blk dev b (set_zone index (conv4 E (s_native (sb s)) zone)) s))"

definition empty_indir :: "nat \<Rightarrow> nat \<Rightarrow> mfs \<Rightarrow> bool" where
  "empty_indir dev b s \<longleftrightarrow> list_all (\<lambda>i. get_zone (blk s dev b) i = NO_ZONE) [0..<V2_INDIRECTS (sb s)]"

definition zero_block :: "nat \<Rightarrow> nat \<Rightarrow> mfs \<Rightarrow> mfs" where
  "zero_block dev b s = upd_blk dev b (\<lambda>_ _. 0) s"

definition clear_zone :: "mfs \<Rightarrow> mfs outcome" where
  "clear_zone s = (if s_log_zone_size (sb s) = 0 then Returned s else Aborted ''assert scale'')"

subsection \<open>The block of a position\<close>

text \<open>
  A prefetched buffer that is not in the cache ends an opportunistic lookup. The zone number
  found, if there is one, gives the block.
\<close>

definition read_map_block :: "nat \<Rightarrow> nat \<Rightarrow> nat \<Rightarrow> nat" where
  "read_map_block scale boff z = (if z = NO_ZONE then NO_BLOCK else z * 2 ^ scale + boff)"

definition read_map_single ::
  "mfs_env \<Rightarrow> inode \<Rightarrow> bool \<Rightarrow> nat \<Rightarrow> nat \<Rightarrow> nat \<Rightarrow> nat \<Rightarrow> mfs \<Rightarrow> nat outcome" where
  "read_map_single E rip opportunistic scale boff z excess s =
     (if z = NO_ZONE then Returned NO_BLOCK
      else let b = z * 2 ^ scale
           in if opportunistic \<and> \<not> cached E (i_dev rip) b then Returned NO_BLOCK
              else bind_outcome (rd_indir E (i_dev rip) b excess s) (\<lambda>z'. Returned (read_map_block scale boff z')))"

definition read_map :: "mfs_env \<Rightarrow> inode \<Rightarrow> nat \<Rightarrow> bool \<Rightarrow> mfs \<Rightarrow> nat outcome" where
  "read_map E rip position opportunistic s =
     (let scale = s_log_zone_size (sb s);
          block_pos = position div s_block_size (sb s);
          zone = block_pos div 2 ^ scale;
          boff = block_pos - zone * 2 ^ scale;
          dzones = i_ndzones rip;
          nr_indirects = i_nindirs rip
      in if zone < dzones then Returned (read_map_block scale boff (zone_no rip zone))
         else let excess = zone - dzones
         in if excess < nr_indirects then
              read_map_single E rip opportunistic scale boff (zone_no rip dzones) excess s
            else let z = zone_no rip (dzones + 1); excess' = excess - nr_indirects; index = excess' div nr_indirects
            in if z = NO_ZONE then Returned NO_BLOCK
               else if index > nr_indirects then Returned NO_BLOCK
               else if opportunistic \<and> \<not> cached E (i_dev rip) (z * 2 ^ scale) then Returned NO_BLOCK
               else bind_outcome (rd_indir E (i_dev rip) (z * 2 ^ scale) index s) (\<lambda>z1.
                      read_map_single E rip opportunistic scale boff z1 (excess' mod nr_indirects) s))"

text \<open>The buffer of a position: its device and block, or none.\<close>

definition get_block_map :: "mfs_env \<Rightarrow> nat \<Rightarrow> nat \<Rightarrow> mfs \<Rightarrow> (nat \<times> nat) option outcome" where
  "get_block_map E rip position s =
     bind_outcome (read_map E (inodes s rip) position False s) (\<lambda>b.
       Returned (if b = NO_BLOCK then None else Some (i_dev (inodes s rip), b)))"

subsection \<open>Changing the map\<close>

text \<open>
  Where the reference to the single indirect block is: in the inode, or at an index of the
  double indirect block.
\<close>

datatype ind_ref = InInode nat | InDouble nat nat

definition set_ind_ref :: "mfs_env \<Rightarrow> nat \<Rightarrow> ind_ref \<Rightarrow> nat \<Rightarrow> mfs \<Rightarrow> mfs outcome" where
  "set_ind_ref E r ref z s =
     (case ref of
        InInode zones \<Rightarrow> Returned (set_izone r zones z s)
      | InDouble dind ind_ex \<Rightarrow> wr_indir E (i_dev (inodes s r)) dind ind_ex z s)"

text \<open>The single indirect block, created if there is none: its zone, and whether it is new.\<close>

definition write_map_create ::
  "mfs_env \<Rightarrow> nat \<Rightarrow> bool \<Rightarrow> ind_ref \<Rightarrow> nat \<Rightarrow> mfs \<Rightarrow> (mfs \<times> nat \<times> bool) outcome" where
  "write_map_create E r wmap_free ref z1 s =
     (if z1 = NO_ZONE \<and> \<not> wmap_free then
        let (s1, z) = alloc_zone E (zone_no (inodes s r) 0) s
        in bind_outcome (set_ind_ref E r ref z s1) (\<lambda>s2. Returned (s2, z, True))
      else Returned (s, z1, False))"

text \<open>Freeing the zone at an index of the single indirect block, and the block if it is empty then.\<close>

definition write_map_release ::
  "mfs_env \<Rightarrow> nat \<Rightarrow> ind_ref \<Rightarrow> nat \<Rightarrow> nat \<Rightarrow> mfs \<Rightarrow> (mfs \<times> nat) outcome" where
  "write_map_release E r ref z1 ex s =
     (let dev = i_dev (inodes s r); b = z1 * 2 ^ s_log_zone_size (sb s)
      in bind_outcome (rd_indir E dev b ex s) (\<lambda>old_zone.
         bind_outcome (if old_zone \<noteq> NO_ZONE then wr_indir E dev b ex NO_ZONE (free_zone old_zone s) else Returned s) (\<lambda>s1.
           if empty_indir dev b s1 then
             bind_outcome (set_ind_ref E r ref NO_ZONE (free_zone z1 s1)) (\<lambda>s2. Returned (s2, NO_ZONE))
           else Returned (s1, z1))))"

definition write_map_entry ::
  "mfs_env \<Rightarrow> nat \<Rightarrow> nat \<Rightarrow> bool \<Rightarrow> ind_ref \<Rightarrow> nat \<Rightarrow> bool \<Rightarrow> nat \<Rightarrow> mfs \<Rightarrow> (mfs \<times> nat) outcome" where
  "write_map_entry E r new_zone wmap_free ref z1 new_ind ex s =
     (if z1 = NO_ZONE then Returned (s, z1)
      else let dev = i_dev (inodes s r); b = z1 * 2 ^ s_log_zone_size (sb s);
               s1 = get_block E dev b (if new_ind then NO_READ else NORMAL) s;
               s2 = (if new_ind then zero_block dev b s1 else s1)
           in if wmap_free then write_map_release E r ref z1 ex s2
              else bind_outcome (wr_indir E dev b ex new_zone s2) (\<lambda>s3. Returned (s3, z1)))"

text \<open>The common part for single and double indirect positions.\<close>

definition write_map_ind ::
  "mfs_env \<Rightarrow> nat \<Rightarrow> nat \<Rightarrow> bool \<Rightarrow> ind_ref \<Rightarrow> nat \<Rightarrow> nat \<Rightarrow> nat \<Rightarrow> mfs \<Rightarrow> (mfs \<times> ret) outcome" where
  "write_map_ind E r new_zone wmap_free ref z1 z2 excess s =
     bind_outcome (write_map_create E r wmap_free ref z1 s) (\<lambda>(s1, z1', new_ind).
       if new_ind \<and> z1' = NO_ZONE then Returned (s1, Err (err_code s1))
       else bind_outcome (write_map_entry E r new_zone wmap_free ref z1' new_ind excess s1) (\<lambda>(s2, z1'').
         case ref of
           InInode _ \<Rightarrow> Returned (s2, OK)
         | InDouble dind _ \<Rightarrow>
             if z1'' = NO_ZONE \<and> z2 \<noteq> NO_ZONE \<and> empty_indir (i_dev (inodes s2 r)) dind s2
             then Returned (set_izone r (i_ndzones (inodes s2 r) + 1) NO_ZONE (free_zone z2 s2), OK)
             else Returned (s2, OK)))"

text \<open>A position behind the double indirect block, which is created if there is none.\<close>

definition write_map_dbl ::
  "mfs_env \<Rightarrow> nat \<Rightarrow> nat \<Rightarrow> bool \<Rightarrow> nat \<Rightarrow> mfs \<Rightarrow> (mfs \<times> ret) outcome" where
  "write_map_dbl E r new_zone wmap_free excess0 s =
     (let rip = inodes s r; zones = i_ndzones rip; nr = i_nindirs rip;
          z2 = zone_no rip (zones + 1);
          new_dbl = (z2 = NO_ZONE \<and> \<not> wmap_free);
          (s1, z) = (if new_dbl then
                       let (sa, za) = alloc_zone E (zone_no rip 0) s
                       in (if za = NO_ZONE then sa else set_izone r (zones + 1) za sa, za)
                     else (s, z2));
          ind_ex = excess0 div nr; excess = excess0 mod nr
      in if new_dbl \<and> z = NO_ZONE then Returned (s1, Err (err_code s1))
         else if ind_ex \<ge> nr then Returned (s1, Err EFBIG)
         else if z = NO_ZONE \<and> wmap_free then Returned (s1, OK)
         else let b = z * 2 ^ s_log_zone_size (sb s1); dev = i_dev (inodes s1 r);
                  s2 = get_block E dev b (if new_dbl then NO_READ else NORMAL) s1;
                  s3 = (if new_dbl then zero_block dev b s2 else s2)
              in bind_outcome (rd_indir E dev b ind_ex s3) (\<lambda>z1.
                   write_map_ind E r new_zone wmap_free (InDouble b ind_ex) z1 z2 excess s3))"

text \<open>The result \<open>NO_BLOCK\<close> for immediate files is 0, that is \<open>OK\<close>.\<close>

definition write_map :: "mfs_env \<Rightarrow> nat \<Rightarrow> nat \<Rightarrow> nat \<Rightarrow> bool \<Rightarrow> mfs \<Rightarrow> (mfs \<times> ret) outcome" where
  "write_map E r position new_zone wmap_free s =
     (if i_mode (inodes s r) AND I_TYPE = I_IMMEDIATE then Returned (s, Ret NO_BLOCK)
      else let s0 = upd_inode r (i_dirty_update (\<lambda>_. True)) s;
               rip = inodes s0 r;
               zone = (position div s_block_size (sb s0)) div 2 ^ s_log_zone_size (sb s0);
               zones = i_ndzones rip; nr = i_nindirs rip
           in if zone < zones then
                if zone_no rip zone \<noteq> NO_ZONE \<and> wmap_free
                then Returned (set_izone r zone NO_ZONE (free_zone (zone_no rip zone) s0), OK)
                else Returned (set_izone r zone new_zone s0, OK)
              else let excess = zone - zones
              in if excess < nr then write_map_ind E r new_zone wmap_free (InInode zones) (zone_no rip zones) NO_ZONE excess s0
                 else write_map_dbl E r new_zone wmap_free (excess - nr) s0)"

text \<open>A new block for a position: its block number, zeroed, or none with \<open>err_code\<close>.\<close>

definition new_block_hint :: "inode \<Rightarrow> mfs \<Rightarrow> nat" where
  "new_block_hint rip s =
     (if i_zsearch rip = NO_ZONE then if zone_no rip 0 = NO_ZONE then s_firstdatazone (sb s) else zone_no rip 0
      else i_zsearch rip)"

definition new_block_zone :: "mfs_env \<Rightarrow> nat \<Rightarrow> nat \<Rightarrow> mfs \<Rightarrow> (mfs \<times> nat option) outcome" where
  "new_block_zone E r position s =
     (let (s1, z) = alloc_zone E (new_block_hint (inodes s r) s) s
      in if z = NO_ZONE then Returned (s1, None)
         else bind_outcome (write_map E r position z False (upd_inode r (i_zsearch_update (\<lambda>_. z)) s1)) (\<lambda>(s2, res).
           if res \<noteq> OK then
             Returned ((free_zone z s2)\<lparr>err_code := (case res of Err e \<Rightarrow> e | _ \<Rightarrow> err_code s2)\<rparr>, None)
           else bind_outcome (if position \<noteq> i_size (inodes s2 r) then clear_zone s2 else Returned s2) (\<lambda>s3.
             let scale = s_log_zone_size (sb s3); zone_size = s_block_size (sb s3) * 2 ^ scale
             in Returned (s3, Some (z * 2 ^ scale + (position mod zone_size) div s_block_size (sb s3))))))"

definition new_block :: "mfs_env \<Rightarrow> nat \<Rightarrow> nat \<Rightarrow> mfs \<Rightarrow> (mfs \<times> nat option) outcome" where
  "new_block E r position s =
     bind_outcome (read_map E (inodes s r) position False s) (\<lambda>b0.
     bind_outcome (if b0 = NO_BLOCK then new_block_zone E r position s else Returned (s, Some b0)) (\<lambda>(s1, bo).
       case bo of
         None \<Rightarrow> Returned (s1, None)
       | Some b \<Rightarrow> let dev = i_dev (inodes s1 r)
                   in Returned (zero_block dev b (get_block E dev b NO_READ s1), Some b)))"

subsection \<open>Reading ahead\<close>

definition BLOCKS_MINIMUM :: "mfs_env \<Rightarrow> u32" where
  "BLOCKS_MINIMUM E = (if lmfs_nr_bufs E < 50 then 18 else 32)"

text \<open>The number of blocks to ask for, in the unsigned arithmetic of the code.\<close>

definition rahead_blocks :: "mfs_env \<Rightarrow> inode \<Rightarrow> bool \<Rightarrow> nat \<Rightarrow> nat \<Rightarrow> nat \<Rightarrow> mfs \<Rightarrow> u32" where
  "rahead_blocks E rip block_spec block_size position bytes_ahead s =
     (let fragment = position mod block_size; pos = position - fragment;
          ba0 = of_nat ((bytes_ahead + fragment + block_size - 1) div block_size);
          bl0 = (of_nat (i_size rip) - of_nat pos + of_nat (block_size - 1)) div of_nat block_size;
          ind1_pos = i_ndzones rip * (block_size * 2 ^ s_log_zone_size (sb s));
          (ba, bl) = (if block_spec \<and> i_size rip = 0 then (ba0, of_nat (NR_IOREQS E))
                      else if \<not> block_spec \<and> pos mod 2 ^ 32 \<le> ind1_pos \<and> i_size rip > ind1_pos then (ba0 + 1, bl0 + 1)
                      else (ba0, bl0));
          ba1 = (if ba > of_nat (NR_IOREQS E) then of_nat (NR_IOREQS E) else ba);
          ba2 = (if ba1 < BLOCKS_MINIMUM E \<and> i_no_seek rip then BLOCKS_MINIMUM E else ba1)
      in if ba2 > bl then bl else ba2)"

text \<open>
  The loop that acquires buffers, with the queue so far. As long as it runs, each round takes
  one more buffer, and it stops before the last four are taken.
\<close>

function rahead_loop ::
  "mfs_env \<Rightarrow> inode \<Rightarrow> bool \<Rightarrow> nat \<Rightarrow> nat \<Rightarrow> u32 \<Rightarrow> nat \<Rightarrow> nat \<Rightarrow> nat \<Rightarrow> nat list \<Rightarrow> mfs \<Rightarrow> nat list outcome" where
  "rahead_loop E rip block_spec dev block_size blocks_ahead block bp position_running q s =
     (let q' = q @ [bp]
      in if blocks_ahead - 1 = 0 then Returned q'
         else if lmfs_bufs_in_use E + length q' \<ge> lmfs_nr_bufs E - 4 then Returned q'
         else let block' = block + 1; pos' = position_running + block_size
         in bind_outcome (if block_spec then Returned NO_BLOCK else read_map E rip (pos' mod 2 ^ 32) True s) (\<lambda>thisblock.
              let bp' = (if thisblock \<noteq> NO_BLOCK then thisblock else block')
              in if cached E dev bp' then Returned q'
                 else rahead_loop E rip block_spec dev block_size (blocks_ahead - 1) block' bp' pos' q' s))"
  by pat_completeness auto
termination
  by (relation "measure (\<lambda>(E, rip, spec, dev, bs, ba, block, bp, pos, q, s). lmfs_nr_bufs E - (lmfs_bufs_in_use E + length q))") auto

declare rahead_loop.simps [simp del]

text \<open>The buffer returned is that of \<open>baseblock\<close>.\<close>

definition rahead :: "mfs_env \<Rightarrow> inode \<Rightarrow> nat \<Rightarrow> nat \<Rightarrow> nat \<Rightarrow> mfs \<Rightarrow> mfs outcome" where
  "rahead E rip baseblock position bytes_ahead s =
     (if readqsize s \<noteq> lmfs_nr_bufs E \<and> \<not> read_q_alloc E then Aborted ''couldn't allocate read_q''
      else let s1 = s\<lparr>readqsize := lmfs_nr_bufs E\<rparr>;
               block_spec = (i_mode rip AND I_TYPE = I_BLOCK_SPECIAL);
               dev = (if block_spec then zone_no rip 0 else i_dev rip);
               block_size = get_block_size E dev
           in if dev = NO_DEV then Aborted ''assert dev''
              else if cached E dev baseblock then Returned s1
              else bind_outcome
                (rahead_loop E rip block_spec dev block_size (rahead_blocks E rip block_spec block_size position bytes_ahead s1)
                   baseblock baseblock (position - position mod block_size) [] s1)
                (\<lambda>q. Returned (s1\<lparr>read_ahead := read_ahead s1 @ q\<rparr>)))"

subsection \<open>One chunk\<close>

definition copy_bytes :: "bytes \<Rightarrow> nat \<Rightarrow> nat \<Rightarrow> bytes \<Rightarrow> nat \<Rightarrow> bytes" where
  "copy_bytes src so n dst do = (\<lambda>i. if do \<le> i \<and> i < do + n then src (so + (i - do)) else dst i)"

text \<open>
  \<open>rw_chunk\<close> for the inode \<open>rip\<close>, which is entry \<open>r\<close> of the table unless it is the
  pseudo inode of \<open>fs_breadwrite\<close>. First the buffer: none if the transfer is over.
\<close>

definition chunk_buffer ::
  "mfs_env \<Rightarrow> nat \<Rightarrow> inode \<Rightarrow> nat \<Rightarrow> nat \<Rightarrow> nat \<Rightarrow> nat \<Rightarrow> rw_flag \<Rightarrow> nat \<Rightarrow> nat \<Rightarrow> nat \<Rightarrow> mfs \<Rightarrow>
     (mfs \<times> (ret + nat)) outcome" where
  "chunk_buffer E r rip position off chunk left rw buf_off block_size b s =
     (let block_spec = (i_mode rip AND I_TYPE = I_BLOCK_SPECIAL); dev = (if block_spec then zone_no rip 0 else i_dev rip)
      in if \<not> block_spec \<and> b = NO_BLOCK then
           if rw = READING then
             Returned (if safememset E buf_off chunk = OK then s\<lparr>ubuf := copy_bytes (\<lambda>_. 0) 0 chunk (ubuf s) buf_off\<rparr> else s,
                       Inl (safememset E buf_off chunk))
           else bind_outcome (new_block E r position s) (\<lambda>(s1, bo).
                  case bo of None \<Rightarrow> Returned (s1, Inl (Err (err_code s1))) | Some b' \<Rightarrow> Returned (s1, Inr b'))
         else if rw = READING \<or> rw = PEEKING then
           bind_outcome (rahead E rip b position left s) (\<lambda>s1. Returned (s1, Inr b))
         else let n = (if chunk = block_size \<or> (\<not> block_spec \<and> off = 0 \<and> position \<ge> i_size rip) then NO_READ else NORMAL)
              in Returned (get_block E dev b n s, Inr b))"

definition rw_chunk ::
  "mfs_env \<Rightarrow> nat \<Rightarrow> inode \<Rightarrow> nat \<Rightarrow> nat \<Rightarrow> nat \<Rightarrow> nat \<Rightarrow> rw_flag \<Rightarrow> nat \<Rightarrow> nat \<Rightarrow> mfs \<Rightarrow> (mfs \<times> ret) outcome" where
  "rw_chunk E r rip position off chunk left rw buf_off block_size s =
     (let block_spec = (i_mode rip AND I_TYPE = I_BLOCK_SPECIAL); dev = (if block_spec then zone_no rip 0 else i_dev rip)
      in if \<not> block_spec \<and> position \<ge> 2 ^ 32 then Aborted ''rw_chunk: position too high''
         else bind_outcome (if block_spec then Returned (position div block_size) else read_map E rip position False s) (\<lambda>b.
           if \<not> block_spec \<and> i_num rip = 0 then Aborted ''assert ino''
           else bind_outcome (chunk_buffer E r rip position off chunk left rw buf_off block_size b s) (\<lambda>(s1, bo).
             case bo of
               Inl res \<Rightarrow> Returned (s1, res)
             | Inr b' \<Rightarrow>
                 let s2 = (if rw = WRITING \<and> chunk \<noteq> block_size \<and> \<not> block_spec \<and> position \<ge> i_size rip \<and> off = 0
                           then zero_block dev b' s1 else s1)
                 in case rw of
                      READING \<Rightarrow>
                        Returned (if safecopyto E buf_off chunk = OK
                                  then s2\<lparr>ubuf := copy_bytes (blk s2 dev b') off chunk (ubuf s2) buf_off\<rparr> else s2,
                                  safecopyto E buf_off chunk)
                    | WRITING \<Rightarrow>
                        Returned (if safecopyfrom E buf_off chunk = OK
                                  then upd_blk dev b' (\<lambda>d. copy_bytes (ubuf s2) buf_off chunk d off) s2 else s2,
                                  safecopyfrom E buf_off chunk)
                    | PEEKING \<Rightarrow> Returned (s2, OK))))"

subsection \<open>Reading and writing files\<close>

definition removeInodeEntry :: "nat \<Rightarrow> mfs \<Rightarrow> mfs" where
  "removeInodeEntry r = upd_inode r (\<lambda>rip. rip\<lparr>i_size := 0, i_update := {ATIME, CTIME, MTIME}, i_dirty := True,
     i_zone := fold (\<lambda>i. set_zone i NO_ZONE) [0..<V2_NR_TZONES] (i_zone rip)\<rparr>)"

text \<open>
  The checks before a transfer: an error, or the state to go on with. The subtraction in the
  test for the maximal size is done in 32 bits and its result taken as signed.
\<close>

definition rw_check :: "nat \<Rightarrow> bool \<Rightarrow> nat \<Rightarrow> rw_flag \<Rightarrow> nat \<Rightarrow> nat \<Rightarrow> mfs \<Rightarrow> (errno + mfs) outcome" where
  "rw_check r block_spec f_size rw position nrbytes s =
     (if rw = WRITING \<and> \<not> block_spec then
        if s_rd_only (sb s) then Returned (Inl EROFS)
        else if int position > sint (of_nat (s_max_size (sb s)) - of_nat nrbytes :: u32) then Returned (Inl EFBIG)
        else if position > f_size then bind_outcome (clear_zone s) (\<lambda>s1. Returned (Inr s1))
        else Returned (Inr s)
      else if block_spec \<and> rw = WRITING \<and> zone_no (inodes s r) 0 = s_dev (sb s) \<and> s_rd_only (sb s) then Returned (Inl EROFS)
      else Returned (Inr s))"

text \<open>
  The bytes of an immediate file, copied to the buffer of 40 characters.
\<close>

definition imm_buffer :: "nat \<Rightarrow> bytes \<Rightarrow> u8 list outcome" where
  "imm_buffer f_size z = (if f_size \<le> 40 then Returned (map z [0..<f_size]) else Aborted ''buffer overflow'')"

text \<open>
  An immediate file that grows beyond 32 bytes becomes a regular one with its data in the
  first block. No block: the error, and the inode is already erased.
\<close>

definition imm_convert :: "mfs_env \<Rightarrow> nat \<Rightarrow> nat \<Rightarrow> mfs \<Rightarrow> (mfs \<times> bool) outcome" where
  "imm_convert E r f_size s =
     bind_outcome (imm_buffer f_size (i_zone (inodes s r))) (\<lambda>buffer.
       let s1 = removeInodeEntry r s;
           s2 = upd_inode r (\<lambda>rip. rip\<lparr>i_mode := I_REGULAR OR (i_mode rip AND ALL_MODES)\<rparr>) s1
       in bind_outcome (new_block E r 0 s2) (\<lambda>(s3, bo).
            case bo of
              None \<Rightarrow> Returned (s3, False)
            | Some b \<Rightarrow> Returned (upd_blk (i_dev (inodes s3 r)) b (\<lambda>d i. if i < f_size then buffer ! i else d i) s3, True)))"

text \<open>A transfer: the bytes still to do, those done, the position, the last result.\<close>

record transfer =
  t_left :: nat
  t_cum_io :: nat
  t_pos :: nat
  t_res :: ret

definition imm_transfer :: "mfs_env \<Rightarrow> nat \<Rightarrow> nat \<Rightarrow> rw_flag \<Rightarrow> transfer \<Rightarrow> mfs \<Rightarrow> (mfs \<times> transfer) outcome" where
  "imm_transfer E r f_size rw t s =
     (if rw = READING then
        let res = safecopyto E (t_cum_io t) f_size;
            s1 = (if res = OK then s\<lparr>ubuf := copy_bytes (i_zone (inodes s r)) 0 f_size (ubuf s) (t_cum_io t)\<rparr> else s)
        in bind_outcome (imm_buffer f_size (i_zone (inodes s1 r))) (\<lambda>buffer.
             Returned (s1, if res = OK then \<lparr>t_left = 0, t_cum_io = t_cum_io t + f_size, t_pos = t_pos t + f_size, t_res = res\<rparr>
                           else t\<lparr>t_res := res\<rparr>))
      else
        let res = safecopyfrom E (t_cum_io t) (t_left t);
            s1 = (if res = OK
                  then upd_inode r (i_zone_update (\<lambda>z. copy_bytes (ubuf s) (t_cum_io t) (t_left t) z (t_pos t))) s else s);
            s2 = upd_inode r (i_dirty_update (\<lambda>_. True)) s1
        in Returned (s2, if res = OK then \<lparr>t_left = 0, t_cum_io = t_cum_io t + t_left t, t_pos = t_pos t + t_left t, t_res = res\<rparr>
                         else t\<lparr>t_res := res\<rparr>))"

text \<open>The loop over chunks that do not span two blocks.\<close>

function rw_loop :: "mfs_env \<Rightarrow> nat \<Rightarrow> rw_flag \<Rightarrow> nat \<Rightarrow> nat \<Rightarrow> transfer \<Rightarrow> mfs \<Rightarrow> (mfs \<times> transfer) outcome" where
  "rw_loop E r rw f_size block_size t s =
     (if t_left t = 0 then Returned (s, t)
      else if block_size = 0 then Aborted ''division by zero''
      else let off = t_pos t mod block_size;
               chunk0 = min (t_left t) (block_size - off)
           in if rw = READING \<and> t_pos t \<ge> f_size then Returned (s, t)
              else let chunk = (if rw = READING \<and> chunk0 > f_size - t_pos t then f_size - t_pos t else chunk0)
                   in case rw_chunk E r (inodes s r) (t_pos t) off chunk (t_left t) rw (t_cum_io t) block_size s of
                        Aborted w \<Rightarrow> Aborted w
                      | Returned (s1, res) \<Rightarrow>
                          if res \<noteq> OK \<or> lmfs_rdwt_err E s1 \<noteq> NoErr then Returned (s1, t\<lparr>t_res := res\<rparr>)
                          else rw_loop E r rw f_size block_size
                                 \<lparr>t_left = t_left t - chunk, t_cum_io = t_cum_io t + chunk, t_pos = t_pos t + chunk, t_res = res\<rparr> s1)"
  by pat_completeness auto
termination
  by (relation "measure (\<lambda>(E, r, rw, f_size, block_size, t, s). t_left t)") (auto simp: min_def split: if_splits)

declare rw_loop.simps [simp del]

definition rw_finish :: "mfs_env \<Rightarrow> nat \<Rightarrow> rw_flag \<Rightarrow> bool \<Rightarrow> nat \<Rightarrow> transfer \<Rightarrow> mfs \<Rightarrow> mfs \<times> ret" where
  "rw_finish E r rw sized f_size t s =
     (let s1 = s\<lparr>out_seek_pos := t_pos t\<rparr>;
          s2 = (if rw = WRITING \<and> sized \<and> t_pos t > f_size then upd_inode r (i_size_update (\<lambda>_. t_pos t)) s1 else s1);
          s3 = upd_inode r (i_no_seek_update (\<lambda>_. True)) s2;
          res = (case lmfs_rdwt_err E s3 of NoErr \<Rightarrow> t_res t | EndOfFile \<Rightarrow> OK | RdwtErr e \<Rightarrow> Err e);
          s4 = (if res = OK \<and> \<not> s_rd_only (sb s3) then
                  upd_inode r (\<lambda>rip. rip\<lparr>i_update := i_update rip \<union> (case rw of READING \<Rightarrow> {ATIME} | WRITING \<Rightarrow> {CTIME, MTIME} | PEEKING \<Rightarrow> {}),
                    i_dirty := True\<rparr>) s3
                else s3)
      in (s4\<lparr>out_nbytes := t_cum_io t\<rparr>, res))"

text \<open>
  Whether an immediate file is served from the inode: for a write whenever the data fits
  (otherwise the file has been converted), else whenever there is something to read.
\<close>

definition imm_step ::
  "mfs_env \<Rightarrow> nat \<Rightarrow> nat \<Rightarrow> rw_flag \<Rightarrow> nat \<Rightarrow> nat \<Rightarrow> mfs \<Rightarrow> (mfs \<times> bool option) outcome" where
  "imm_step E r f_size rw position nrbytes s =
     (if i_mode (inodes s r) AND I_TYPE \<noteq> I_IMMEDIATE then Returned (s, Some False)
      else if rw = WRITING then
        if (position + nrbytes) mod 2 ^ 32 > 32 then
          bind_outcome (imm_convert E r f_size s) (\<lambda>(s1, ok). Returned (s1, if ok then Some False else None))
        else Returned (s, Some True)
      else Returned (s, Some (position < f_size)))"

definition fs_readwrite :: "mfs_env \<Rightarrow> nat \<Rightarrow> rw_flag \<Rightarrow> nat \<Rightarrow> nat \<Rightarrow> mfs \<Rightarrow> (mfs \<times> ret) outcome" where
  "fs_readwrite E ino rw position nrbytes s =
     (case find_inode E ino of
        None \<Rightarrow> Returned (s, Err EINVAL)
      | Some r \<Rightarrow>
          let rip = inodes s r; mode_word = i_mode rip AND I_TYPE;
              regular = (mode_word = I_REGULAR \<or> mode_word = I_NAMED_PIPE \<or> mode_word = I_IMMEDIATE);
              block_spec = (mode_word = I_BLOCK_SPECIAL);
              block_size = (if block_spec then get_block_size E (zone_no rip 0) else s_block_size (sb s));
              f_size = (if block_spec then MAX_FILE_POS else i_size rip)
          in bind_outcome (rw_check r block_spec f_size rw position nrbytes s) (\<lambda>c.
               case c of
                 Inl e \<Rightarrow> Returned (s, Err e)
               | Inr s1 \<Rightarrow>
                   bind_outcome (imm_step E r f_size rw position nrbytes s1) (\<lambda>(s2, imm).
                     let t0 = \<lparr>t_left = nrbytes, t_cum_io = 0, t_pos = position, t_res = OK\<rparr>;
                         sized = (regular \<or> mode_word = I_DIRECTORY)
                     in case imm of
                          None \<Rightarrow> Returned (s2, Err (err_code s2))
                        | Some i \<Rightarrow>
                            bind_outcome (if i then imm_transfer E r f_size rw t0 s2 else Returned (s2, t0)) (\<lambda>(s3, t1).
                            bind_outcome (rw_loop E r rw f_size block_size t1 s3) (\<lambda>(s4, t2).
                              Returned (rw_finish E r rw sized f_size t2 s4))))))"

text \<open>
  Block devices: the loop of \<open>fs_breadwrite\<close> works on a pseudo inode that names the device.
\<close>

definition pseudo_inode :: "nat \<Rightarrow> inode" where
  "pseudo_inode dev = \<lparr>i_mode = I_BLOCK_SPECIAL, i_size = 0, i_dev = 0, i_num = 0, i_ndzones = 0, i_nindirs = 0,
     i_zone = set_zone 0 dev (\<lambda>_. 0), i_zsearch = 0, i_no_seek = False, i_update = {}, i_dirty = False\<rparr>"

function brw_loop :: "mfs_env \<Rightarrow> inode \<Rightarrow> rw_flag \<Rightarrow> nat \<Rightarrow> transfer \<Rightarrow> mfs \<Rightarrow> (mfs \<times> transfer) outcome" where
  "brw_loop E rip rw block_size t s =
     (if t_left t = 0 then Returned (s, t)
      else if block_size = 0 then Aborted ''division by zero''
      else let off = t_pos t mod block_size; chunk = min (t_left t) (block_size - off)
           in case rw_chunk E 0 rip (t_pos t) off chunk (t_left t) rw (t_cum_io t) block_size s of
                Aborted w \<Rightarrow> Aborted w
              | Returned (s1, res) \<Rightarrow>
                  if res \<noteq> OK \<or> lmfs_rdwt_err E s1 \<noteq> NoErr then Returned (s1, t\<lparr>t_res := res\<rparr>)
                  else brw_loop E rip rw block_size
                         \<lparr>t_left = t_left t - chunk, t_cum_io = t_cum_io t + chunk, t_pos = t_pos t + chunk, t_res = res\<rparr> s1)"
  by pat_completeness auto
termination
  by (relation "measure (\<lambda>(E, rip, rw, block_size, t, s). t_left t)") (auto simp: min_def split: if_splits)

declare brw_loop.simps [simp del]

definition fs_breadwrite :: "mfs_env \<Rightarrow> nat \<Rightarrow> bool \<Rightarrow> nat \<Rightarrow> nat \<Rightarrow> mfs \<Rightarrow> (mfs \<times> ret) outcome" where
  "fs_breadwrite E target_dev bread position nrbytes s =
     (if s_dev (sb s) = target_dev \<and> s_rd_only (sb s) then Returned (s, Err EROFS)
      else bind_outcome
        (brw_loop E (pseudo_inode target_dev) (if bread then READING else WRITING) (get_block_size E target_dev)
           \<lparr>t_left = nrbytes, t_cum_io = 0, t_pos = position, t_res = OK\<rparr> s)
        (\<lambda>(s1, t). let res = (case lmfs_rdwt_err E s1 of NoErr \<Rightarrow> t_res t | EndOfFile \<Rightarrow> OK | RdwtErr e \<Rightarrow> Err e)
                   in Returned (s1\<lparr>out_seek_pos := t_pos t, out_nbytes := t_cum_io t\<rparr>, res)))"

subsection \<open>Directory entries\<close>

text \<open>
  An entry of a directory block is 64 bytes: a 4-byte inode number and a name of at most 60
  bytes that ends at the first zero byte, if there is one.
\<close>

definition DIR_ENTRY_SIZE :: nat where "DIR_ENTRY_SIZE = 64"
definition MFS_DIRSIZ :: nat where "MFS_DIRSIZ = 60"

definition dir_ino :: "bytes \<Rightarrow> nat \<Rightarrow> nat" where
  "dir_ino d k = get_zone d (16 * k)"

definition dir_name :: "bytes \<Rightarrow> nat \<Rightarrow> u8 list" where
  "dir_name d k = takeWhile (\<lambda>c. c \<noteq> 0) (map (\<lambda>i. d (DIR_ENTRY_SIZE * k + 4 + i)) [0..<MFS_DIRSIZ])"

text \<open>A record for the user, and the two buffers: what is copied out and what waits.\<close>

record dirent =
  d_fileno :: nat
  d_reclen :: nat
  d_name :: "u8 list"
  d_type :: dtype

record getdents =
  g_tmp :: "dirent list"
  g_tmpbuf_off :: nat
  g_out :: "dirent list"
  g_userbuf_off :: nat
  g_new_pos :: nat
  g_done :: bool

definition getdents_flush :: "mfs_env \<Rightarrow> getdents \<Rightarrow> getdents + ret \<times> dirent list" where
  "getdents_flush E g =
     (let r = safecopyto E (g_userbuf_off g) (g_tmpbuf_off g)
      in if r = OK then Inl (g\<lparr>g_out := g_out g @ g_tmp g, g_tmp := [], g_userbuf_off := g_userbuf_off g + g_tmpbuf_off g, g_tmpbuf_off := 0\<rparr>)
         else Inr (r, g_out g))"

text \<open>The entries of one block from index \<open>k\<close> on.\<close>

fun getdents_block ::
  "mfs_env \<Rightarrow> mfs \<Rightarrow> nat \<Rightarrow> bytes \<Rightarrow> nat \<Rightarrow> nat list \<Rightarrow> getdents \<Rightarrow> (getdents + ret \<times> dirent list) outcome" where
  "getdents_block E s usize d block_pos [] g = Returned (Inl g)"
| "getdents_block E s usize d block_pos (k # ks) g =
     (if dir_ino d k = 0 then getdents_block E s usize d block_pos ks g
      else let name = dir_name d k; reclen = DIRENT_RECLEN E (length name); ent_pos = block_pos + DIR_ENTRY_SIZE * k
           in if g_userbuf_off g + g_tmpbuf_off g + reclen \<ge> usize then Returned (Inl (g\<lparr>g_done := True, g_new_pos := ent_pos\<rparr>))
              else case (if g_tmpbuf_off g + reclen \<ge> GETDENTS_BUFSIZE E * 8 then getdents_flush E g else Inl g) of
                     Inr r \<Rightarrow> Returned (Inr r)
                   | Inl g1 \<Rightarrow>
                       (case get_inode E (dir_ino d k) of
                          None \<Rightarrow> Aborted ''unexpected get_inode failure''
                        | Some e \<Rightarrow>
                            (case fs_mode_to_type (i_mode (inodes s e)) of
                               Aborted w \<Rightarrow> Aborted w
                             | Returned ty \<Rightarrow>
                                 getdents_block E s usize d block_pos ks
                                   (g1\<lparr>g_tmp := g_tmp g1 @ [\<lparr>d_fileno = dir_ino d k, d_reclen = reclen, d_name = name, d_type = ty\<rparr>],
                                       g_tmpbuf_off := g_tmpbuf_off g1 + reclen\<rparr>))))"

function getdents_loop ::
  "mfs_env \<Rightarrow> mfs \<Rightarrow> nat \<Rightarrow> nat \<Rightarrow> nat \<Rightarrow> nat \<Rightarrow> getdents \<Rightarrow> (getdents + ret \<times> dirent list) outcome" where
  "getdents_loop E s r usize pos block_pos g =
     (let rip = inodes s r; block_size = s_block_size (sb s)
      in if block_pos \<ge> i_size rip \<or> block_size = 0 then Returned (Inl g)
         else case get_block_map E r block_pos s of
                Aborted w \<Rightarrow> Aborted w
              | Returned None \<Rightarrow> Aborted ''assert bp''
              | Returned (Some (dev, b)) \<Rightarrow>
                  let first = (if block_pos < pos then (pos mod block_size) div DIR_ENTRY_SIZE else 0)
                  in case getdents_block E s usize (blk s dev b) block_pos [first..<block_size div DIR_ENTRY_SIZE] g of
                       Aborted w \<Rightarrow> Aborted w
                     | Returned (Inr res) \<Rightarrow> Returned (Inr res)
                     | Returned (Inl g1) \<Rightarrow>
                         if g_done g1 then Returned (Inl g1) else getdents_loop E s r usize pos (block_pos + block_size) g1)"
  by pat_completeness auto
termination
  by (relation "measure (\<lambda>(E, s, r, usize, pos, block_pos, g). i_size (inodes s r) - block_pos)") auto

declare getdents_loop.simps [simp del]

text \<open>The records copied to the user are returned with the state and the result.\<close>

definition fs_getdents :: "mfs_env \<Rightarrow> nat \<Rightarrow> nat \<Rightarrow> nat \<Rightarrow> mfs \<Rightarrow> (mfs \<times> ret \<times> dirent list) outcome" where
  "fs_getdents E ino usize pos s =
     (if pos mod 2 ^ 32 mod DIR_ENTRY_SIZE \<noteq> 0 then Returned (s, Err ENOENT, [])
      else case get_inode E ino of
             None \<Rightarrow> Returned (s, Err EINVAL, [])
           | Some r \<Rightarrow>
               if s_block_size (sb s) = 0 then Aborted ''division by zero''
               else bind_outcome
                 (getdents_loop E s r usize pos (pos - pos mod s_block_size (sb s))
                    \<lparr>g_tmp = [], g_tmpbuf_off = 0, g_out = [], g_userbuf_off = 0, g_new_pos = i_size (inodes s r), g_done = False\<rparr>)
                 (\<lambda>res. case res of
                    Inr (e, copied) \<Rightarrow> Returned (s, e, copied)
                  | Inl g \<Rightarrow>
                      (case (if g_tmpbuf_off g \<noteq> 0 then getdents_flush E g else Inl g) of
                         Inr (e, copied) \<Rightarrow> Returned (s, e, copied)
                       | Inl g1 \<Rightarrow>
                           if g_done g1 \<and> g_userbuf_off g1 = 0 then Returned (s, Err EINVAL, [])
                           else let s1 = s\<lparr>out_nbytes := g_userbuf_off g1, out_seek_pos := g_new_pos g1\<rparr>
                                in Returned (if \<not> s_rd_only (sb s1)
                                             then upd_inode r (\<lambda>rip. rip\<lparr>i_update := insert ATIME (i_update rip), i_dirty := True\<rparr>) s1
                                             else s1, OK, g_out g1))))"

end
