(* ===== verification/Mfs_Map.thy ===== *)
theory Mfs_Map
  imports Mfs
begin

unbundle bit_operations_syntax

text \<open>
  The map of a file from positions to zones: what \<open>read_map\<close> finds is a function of the
  zone number of the position, and \<open>write_map\<close> changes this function at one point, over
  direct, single and double indirect zones, creating indirect blocks where there are none.
\<close>

subsection \<open>Zone numbers in byte arrays\<close>

lemma base_256_digits:
  "z < 4294967296 \<Longrightarrow>
     z mod 256 + 256 * (z div 256 mod 256) + 65536 * (z div 65536 mod 256) + 16777216 * (z div 16777216 mod 256) = (z :: nat)"
proof -
  assume z: "z < 4294967296"
  define a where "a = z div 256"
  define b where "b = a div 256"
  define c where "c = b div 256"
  have d: "z div 65536 = b" "z div 16777216 = c" by (simp_all add: a_def b_def c_def flip: div_mult2_eq)
  have "c < 256" using z by (simp add: d(2) [symmetric])
  then have "c mod 256 = c" by simp
  moreover have "z = 256 * a + z mod 256" "a = 256 * b + a mod 256" "b = 256 * c + b mod 256"
    by (simp_all add: a_def b_def c_def)
  ultimately show ?thesis unfolding d a_def [symmetric] by linarith
qed

lemma get_set_zone: "z < 2 ^ 32 \<Longrightarrow> get_zone (set_zone i z d) j = (if i = j then z else get_zone d j)"
proof (cases "i = j")
  case True
  assume "z < 2 ^ 32"
  then have "z < 4294967296" by simp
  with True base_256_digits [OF this] show ?thesis
    by (simp add: get_zone_def set_zone_def unat_of_nat)
next
  case False
  have ne: "4 * i + a \<noteq> 4 * j + b" if "a < 4" "b < 4" for a b :: nat using False that by presburger
  show ?thesis using False ne [of 0 0] ne [of 0 1] ne [of 0 2] ne [of 0 3] ne [of 1 0] ne [of 1 1] ne [of 1 2] ne [of 1 3]
      ne [of 2 0] ne [of 2 1] ne [of 2 2] ne [of 2 3] ne [of 3 0] ne [of 3 1] ne [of 3 2] ne [of 3 3]
    by (simp add: get_zone_def set_zone_def)
qed

lemma get_zone_zero [simp]: "get_zone (\<lambda>_. 0) i = 0"
  by (simp add: get_zone_def)

subsection \<open>Well-formed maps\<close>

text \<open>
  What the code relies on: converting the byte order twice gives the number back, and 0
  stays 0; the allocator gives a zone of the data area that was free.
\<close>

definition conv_ok :: "mfs_env \<Rightarrow> bool" where
  "conv_ok E \<longleftrightarrow> (\<forall>n z. z < 2 ^ 32 \<longrightarrow> conv4 E n (conv4 E n z) = z \<and> conv4 E n z < 2 ^ 32) \<and> (\<forall>n. conv4 E n 0 = 0)"

definition alloc_ok :: "mfs_env \<Rightarrow> super_block \<Rightarrow> bool" where
  "alloc_ok E p \<longleftrightarrow> (\<forall>U h z. alloc_from E U h = Some z \<longrightarrow> z \<notin> U \<and> s_firstdatazone p \<le> z \<and> z < s_zones p)"

definition legal :: "super_block \<Rightarrow> nat \<Rightarrow> bool" where
  "legal p z \<longleftrightarrow> z = 0 \<or> s_firstdatazone p \<le> z \<and> z < s_zones p"

text \<open>The entry of an indirect block.\<close>

definition ent :: "mfs_env \<Rightarrow> mfs \<Rightarrow> nat \<Rightarrow> nat \<Rightarrow> nat \<Rightarrow> nat" where
  "ent E s r z k = conv4 E (s_native (sb s)) (get_zone (blk s (i_dev (inodes s r)) (z * 2 ^ s_log_zone_size (sb s))) k)"

text \<open>
  The abstract map of a file: the zone numbers \<open>d\<close> of its inode, of which the first \<open>nd\<close>
  are direct, the next is the single and the one after it the double indirect zone, and the
  entries \<open>e\<close> of the indirect blocks, \<open>N\<close> in each.
\<close>

definition indirects :: "nat \<Rightarrow> nat \<Rightarrow> (nat \<Rightarrow> nat) \<Rightarrow> (nat \<Rightarrow> nat \<Rightarrow> nat) \<Rightarrow> nat set" where
  "indirects nd N d e = ({d nd, d (Suc nd)} \<union> (if d (Suc nd) = 0 then {} else e (d (Suc nd)) ` {..<N})) - {0}"

text \<open>Indirect blocks do not share zones, their entries are legal, and their zones are in use.\<close>

definition shape_ok :: "super_block \<Rightarrow> nat \<Rightarrow> nat \<Rightarrow> nat set \<Rightarrow> (nat \<Rightarrow> nat) \<Rightarrow> (nat \<Rightarrow> nat \<Rightarrow> nat) \<Rightarrow> bool" where
  "shape_ok p nd N U d e \<longleftrightarrow> indirects nd N d e \<subseteq> U \<and>
     (\<forall>z \<in> indirects nd N d e. \<forall>k < N. legal p (e z k)) \<and>
     (d nd \<noteq> 0 \<longrightarrow> d nd \<noteq> d (Suc nd)) \<and>
     (d (Suc nd) \<noteq> 0 \<longrightarrow> (\<forall>k < N. e (d (Suc nd)) k \<noteq> 0 \<longrightarrow>
        e (d (Suc nd)) k \<noteq> d (Suc nd) \<and> e (d (Suc nd)) k \<noteq> d nd \<and>
        (\<forall>k' < N. e (d (Suc nd)) k' = e (d (Suc nd)) k \<longrightarrow> k' = k)))"

definition deref :: "(nat \<Rightarrow> nat \<Rightarrow> nat) \<Rightarrow> nat \<Rightarrow> nat \<Rightarrow> nat" where
  "deref e z k = (if z = 0 then 0 else e z k)"

text \<open>The zone of zone number \<open>n\<close> of the file, 0 if there is none.\<close>

definition zone_at :: "nat \<Rightarrow> nat \<Rightarrow> (nat \<Rightarrow> nat) \<Rightarrow> (nat \<Rightarrow> nat \<Rightarrow> nat) \<Rightarrow> nat \<Rightarrow> nat" where
  "zone_at nd N d e n =
     (if n < nd then d n
      else if n - nd < N then deref e (d nd) (n - nd)
      else if n - nd - N < N * N then deref e (deref e (d (Suc nd)) ((n - nd - N) div N)) ((n - nd - N) mod N)
      else 0)"

text \<open>The map of inode \<open>r\<close>.\<close>

abbreviation nind :: "mfs \<Rightarrow> nat \<Rightarrow> nat" where
  "nind s r \<equiv> i_nindirs (inodes s r)"

definition geometry_ok :: "mfs \<Rightarrow> nat \<Rightarrow> bool" where
  "geometry_ok s r \<longleftrightarrow> s_v3 (sb s) \<and> nind s r = V2_INDIRECTS (sb s) \<and> 0 < nind s r \<and>
     0 < s_firstdatazone (sb s) \<and> s_zones (sb s) \<le> 2 ^ 32"

definition map_zone :: "mfs_env \<Rightarrow> mfs \<Rightarrow> nat \<Rightarrow> nat \<Rightarrow> nat" where
  "map_zone E s r = zone_at (i_ndzones (inodes s r)) (nind s r) (zone_no (inodes s r)) (ent E s r)"

definition meta :: "mfs_env \<Rightarrow> mfs \<Rightarrow> nat \<Rightarrow> nat set" where
  "meta E s r = indirects (i_ndzones (inodes s r)) (nind s r) (zone_no (inodes s r)) (ent E s r)"

definition map_ok :: "mfs_env \<Rightarrow> mfs \<Rightarrow> nat \<Rightarrow> bool" where
  "map_ok E s r \<longleftrightarrow> geometry_ok s r \<and>
     shape_ok (sb s) (i_ndzones (inodes s r)) (nind s r) (zmap s) (zone_no (inodes s r)) (ent E s r)"

definition nzones :: "mfs \<Rightarrow> nat \<Rightarrow> nat" where
  "nzones s r = i_ndzones (inodes s r) + nind s r + nind s r * nind s r"

subsection \<open>Changes of an abstract map\<close>

lemma indirects_memb:
  "d nd \<noteq> 0 \<Longrightarrow> d nd \<in> indirects nd N d e"
  "d (Suc nd) \<noteq> 0 \<Longrightarrow> d (Suc nd) \<in> indirects nd N d e"
  "d (Suc nd) \<noteq> 0 \<Longrightarrow> k < N \<Longrightarrow> e (d (Suc nd)) k \<noteq> 0 \<Longrightarrow> e (d (Suc nd)) k \<in> indirects nd N d e"
  by (auto simp: indirects_def)

lemma shape_okD:
  assumes "shape_ok p nd N U d e"
  shows "indirects nd N d e \<subseteq> U"
    and "\<And>z k. z \<in> indirects nd N d e \<Longrightarrow> k < N \<Longrightarrow> legal p (e z k)"
    and "d nd \<noteq> 0 \<Longrightarrow> d nd \<noteq> d (Suc nd)"
    and "\<And>k. d (Suc nd) \<noteq> 0 \<Longrightarrow> k < N \<Longrightarrow> e (d (Suc nd)) k \<noteq> 0 \<Longrightarrow> e (d (Suc nd)) k \<noteq> d (Suc nd)"
    and "\<And>k. d (Suc nd) \<noteq> 0 \<Longrightarrow> k < N \<Longrightarrow> e (d (Suc nd)) k \<noteq> 0 \<Longrightarrow> e (d (Suc nd)) k \<noteq> d nd"
    and "\<And>k k'. d (Suc nd) \<noteq> 0 \<Longrightarrow> k < N \<Longrightarrow> k' < N \<Longrightarrow> e (d (Suc nd)) k \<noteq> 0 \<Longrightarrow>
      e (d (Suc nd)) k' = e (d (Suc nd)) k \<Longrightarrow> k' = k"
  using assms unfolding shape_ok_def by blast+

text \<open>A direct zone.\<close>

lemma direct_update:
  assumes "shape_ok p nd N U d e" and "n < nd"
  shows "shape_ok p nd N U (d(n := v)) e" and "zone_at nd N (d(n := v)) e = (zone_at nd N d e)(n := v)"
    and "indirects nd N (d(n := v)) e = indirects nd N d e"
proof -
  show i: "indirects nd N (d(n := v)) e = indirects nd N d e" using assms(2) by (simp add: indirects_def)
  show "shape_ok p nd N U (d(n := v)) e" using assms unfolding shape_ok_def i by simp
  show "zone_at nd N (d(n := v)) e = (zone_at nd N d e)(n := v)" using assms(2) by (auto simp: zone_at_def)
qed

text \<open>An entry of an indirect block that is not the double indirect one.\<close>

lemma indirects_entry:
  assumes "z \<noteq> d (Suc nd)"
  shows "indirects nd N d (e(z := f)) = indirects nd N d e"
  using assms by (simp add: indirects_def)

lemma shape_entry:
  assumes "shape_ok p nd N U d e" and "z \<noteq> d (Suc nd)" and "\<forall>k < N. legal p (f k)"
  shows "shape_ok p nd N U d (e(z := f))"
proof -
  have "indirects nd N d (e(z := f)) = indirects nd N d e" using assms(2) by (rule indirects_entry)
  then show ?thesis using assms unfolding shape_ok_def by simp
qed

lemma single_update:
  assumes "shape_ok p nd N U d e" and "d nd \<noteq> 0" and "k < N"
  shows "zone_at nd N d (e(d nd := (e (d nd))(k := v))) = (zone_at nd N d e)(nd + k := v)"
proof
  fix n
  have ne: "deref e (d (Suc nd)) j \<noteq> d nd" if "j < N" for j
    using shape_okD(5) [OF assms(1), of j] that assms(2) by (cases "e (d (Suc nd)) j = 0") (auto simp: deref_def)
  have "(n - nd - N) div N < N" if "n - nd - N < N * N" using that by (simp add: less_mult_imp_div_less)
  then show "zone_at nd N d (e(d nd := (e (d nd))(k := v))) n = ((zone_at nd N d e)(nd + k := v)) n"
    using assms(2, 3) ne [of "(n - nd - N) div N"] shape_okD(3) [OF assms(1)]
    by (auto simp: zone_at_def deref_def)
qed

lemma double_update:
  assumes "shape_ok p nd N U d e" and D: "d (Suc nd) \<noteq> 0" and j: "j < N" and z: "z = e (d (Suc nd)) j" "z \<noteq> 0" and k: "k < N"
  shows "zone_at nd N d (e(z := (e z)(k := v))) = (zone_at nd N d e)(nd + N + j * N + k := v)"
proof
  fix n
  have zd: "z \<noteq> d (Suc nd)" "z \<noteq> d nd" using shape_okD(4, 5) [OF assms(1) D j] z by auto
  have uniq: "i = j" if "i < N" "e (d (Suc nd)) i = z" for i
    using shape_okD(6) [OF assms(1) D j that(1)] z that(2) by simp
  consider "n < nd + N" | "nd + N \<le> n" "n - nd - N < N * N" | "nd + N \<le> n" "\<not> n - nd - N < N * N" by linarith
  then show "zone_at nd N d (e(z := (e z)(k := v))) n = ((zone_at nd N d e)(nd + N + j * N + k := v)) n"
  proof cases
    case 1
    then show ?thesis using zd by (auto simp: zone_at_def deref_def)
  next
    case 2
    define m where "m = n - nd - N"
    have n: "n = nd + N + m" using 2 by (simp add: m_def)
    have mN: "m div N < N" using 2 by (simp add: m_def less_mult_imp_div_less)
    have m: "m = j * N + k \<longleftrightarrow> m div N = j \<and> m mod N = k"
      using k by (metis div_mult_mod_eq add.commute div_mult_self1 div_less add_0 mod_mult_self1 mod_less less_nat_zero_code)
    show ?thesis using 2 m D zd uniq [OF mN] z by (auto simp: zone_at_def deref_def n)
  next
    case 3
    have "j * N + k < N * N" using j k by (metis add.commute add_less_cancel_left less_le_trans mult_Suc mult_le_mono1 Suc_leI)
    then show ?thesis using 3 by (auto simp: zone_at_def)
  qed
qed

text \<open>A fresh indirect block with no entries: the single one, the double one, one of the double one.\<close>

lemma legal_0 [simp]: "legal p 0"
  by (simp add: legal_def)

lemma deref_fresh: "z \<notin> indirects nd N d e \<Longrightarrow> y = 0 \<or> y \<in> indirects nd N d e \<Longrightarrow> deref (e(z := f)) y = deref e y"
  by (auto simp: deref_def)

lemma new_single:
  assumes sh: "shape_ok p nd N U d e" and S: "d nd = 0" and z: "z \<notin> U" "z \<noteq> 0"
  shows "shape_ok p nd N (insert z U) (d(nd := z)) (e(z := \<lambda>_. 0))"
    and "zone_at nd N (d(nd := z)) (e(z := \<lambda>_. 0)) = zone_at nd N d e"
    and "indirects nd N (d(nd := z)) (e(z := \<lambda>_. 0)) = insert z (indirects nd N d e)"
proof -
  let ?e = "e(z := \<lambda>_. 0)"
  have zi: "z \<notin> indirects nd N d e" using shape_okD(1) [OF sh] z by blast
  then have zD: "d (Suc nd) \<noteq> z" using z indirects_memb(2) [of d nd N e] by auto
  show ind: "indirects nd N (d(nd := z)) ?e = insert z (indirects nd N d e)"
    using zD S z by (auto simp: indirects_def)
  show "shape_ok p nd N (insert z U) (d(nd := z)) ?e"
    unfolding shape_ok_def ind using sh zD z zi indirects_memb(3) [of d nd _ N e]
    by (fastforce simp: shape_ok_def)
  have "deref ?e (deref ?e (d (Suc nd)) j) = deref e (deref e (d (Suc nd)) j)" if "j < N" for j
  proof -
    have "deref ?e (d (Suc nd)) = deref e (d (Suc nd))" using zD by (auto simp: deref_def)
    moreover have "deref e (d (Suc nd)) j = 0 \<or> deref e (d (Suc nd)) j \<in> indirects nd N d e"
      using indirects_memb(3) [of d nd j N e] that by (auto simp: deref_def)
    ultimately show ?thesis using deref_fresh [OF zi] by simp
  qed
  then show "zone_at nd N (d(nd := z)) ?e = zone_at nd N d e"
    using S z by (auto simp: zone_at_def fun_eq_iff deref_def less_mult_imp_div_less)
qed

lemma new_double:
  assumes sh: "shape_ok p nd N U d e" and D: "d (Suc nd) = 0" and z: "z \<notin> U" "z \<noteq> 0"
  shows "shape_ok p nd N (insert z U) (d(Suc nd := z)) (e(z := \<lambda>_. 0))"
    and "zone_at nd N (d(Suc nd := z)) (e(z := \<lambda>_. 0)) = zone_at nd N d e"
    and "indirects nd N (d(Suc nd := z)) (e(z := \<lambda>_. 0)) = insert z (indirects nd N d e)"
proof -
  let ?e = "e(z := \<lambda>_. 0)"
  have zi: "z \<notin> indirects nd N d e" using shape_okD(1) [OF sh] z by blast
  then have zS: "d nd \<noteq> z" using z indirects_memb(1) [of d nd N e] by auto
  show ind: "indirects nd N (d(Suc nd := z)) ?e = insert z (indirects nd N d e)"
    using zS D z by (auto simp: indirects_def)
  show "shape_ok p nd N (insert z U) (d(Suc nd := z)) ?e"
    unfolding shape_ok_def ind using sh zS z zi by (auto simp: shape_ok_def)
  show "zone_at nd N (d(Suc nd := z)) ?e = zone_at nd N d e"
    using zS D z by (auto simp: zone_at_def fun_eq_iff deref_def)
qed

lemma new_in_double:
  assumes sh: "shape_ok p nd N U d e" and D: "d (Suc nd) \<noteq> 0" and j: "j < N" and ej: "e (d (Suc nd)) j = 0"
    and z: "z \<notin> U" "z \<noteq> 0" "legal p z"
    and e': "e' = e(d (Suc nd) := (e (d (Suc nd)))(j := z), z := \<lambda>_. 0)"
  shows "shape_ok p nd N (insert z U) d e'"
    and "zone_at nd N d e' = zone_at nd N d e"
    and "indirects nd N d e' = insert z (indirects nd N d e)"
proof -
  have zi: "z \<notin> indirects nd N d e" using shape_okD(1) [OF sh] z by blast
  then have zS: "d nd \<noteq> z" and zD: "d (Suc nd) \<noteq> z"
    using z indirects_memb(1, 2) [of d nd N e] by auto
  have zk: "e (d (Suc nd)) k \<noteq> z" if "k < N" for k
    using zi D that z(2) indirects_memb(3) [of d nd k N e] by auto
  have eD: "e' (d (Suc nd)) = (e (d (Suc nd)))(j := z)" and ez: "e' z = (\<lambda>_. 0)"
    and eo: "\<And>y. y \<noteq> z \<Longrightarrow> y \<noteq> d (Suc nd) \<Longrightarrow> e' y = e y" using zD by (simp_all add: e')
  have "e' (d (Suc nd)) ` {..<N} - {0} = insert z (e (d (Suc nd)) ` {..<N} - {0})"
    using j ej z(2) unfolding eD by (auto simp: image_iff)
  then show ind: "indirects nd N d e' = insert z (indirects nd N d e)"
    using D z(2) by (simp add: indirects_def Un_Diff) blast
  show "shape_ok p nd N (insert z U) d e'"
    unfolding shape_ok_def ind
  proof (intro conjI ballI impI allI)
    show "insert z (indirects nd N d e) \<subseteq> insert z U" using shape_okD(1) [OF sh] by blast
    show "legal p (e' y k)" if "y \<in> insert z (indirects nd N d e)" "k < N" for y k
      using shape_okD(2) [OF sh, of y k] that z(3) by (cases "y = z") (auto simp: ez e')
    show "d nd \<noteq> d (Suc nd)" if "d nd \<noteq> 0" using shape_okD(3) [OF sh that] .
    fix k assume k: "k < N" "e' (d (Suc nd)) k \<noteq> 0"
    show "e' (d (Suc nd)) k \<noteq> d (Suc nd)" using shape_okD(4) [OF sh D k(1)] k(2) zD by (auto simp: eD)
    show "e' (d (Suc nd)) k \<noteq> d nd" using shape_okD(5) [OF sh D k(1)] k(2) zS by (auto simp: eD)
    show "k' = k" if "k' < N" "e' (d (Suc nd)) k' = e' (d (Suc nd)) k" for k'
      using shape_okD(6) [OF sh D k(1) that(1)] that k zk [of k] zk [of k'] by (auto simp: eD split: if_splits)
  qed
  have S: "deref e' (d nd) = deref e (d nd)"
    using zS shape_okD(3) [OF sh] eo [of "d nd"] by (auto simp: deref_def fun_eq_iff)
  have "deref e' (deref e' (d (Suc nd)) i) k = deref e (deref e (d (Suc nd)) i) k" if "i < N" for i k
    using D ej zk [OF that] z(2) shape_okD(4) [OF sh D that] eo [of "e (d (Suc nd)) i"]
    by (cases "i = j") (auto simp: deref_def eD ez)
  then show "zone_at nd N d e' = zone_at nd N d e"
    by (auto simp: zone_at_def fun_eq_iff S less_mult_imp_div_less)
qed

subsection \<open>Indirect blocks\<close>

lemma rd_indir_ent:
  assumes "geometry_ok s r" and "k < nind s r" and "legal (sb s) (ent E s r z k)"
  shows "rd_indir E (i_dev (inodes s r)) (z * 2 ^ s_log_zone_size (sb s)) k s = Returned (ent E s r z k)"
  using assms by (auto simp: rd_indir_def geometry_ok_def ent_def legal_def NO_ZONE_def Let_def)

text \<open>\<open>read_map\<close> computes the map.\<close>

lemma read_map_zone:
  assumes "map_ok E s r" and "n = position div s_block_size (sb s) div 2 ^ s_log_zone_size (sb s)" and "n < nzones s r"
  shows "read_map E (inodes s r) position False s =
    Returned (read_map_block (s_log_zone_size (sb s))
      (position div s_block_size (sb s) - n * 2 ^ s_log_zone_size (sb s)) (map_zone E s r n))"
proof -
  let ?nd = "i_ndzones (inodes s r)" and ?N = "nind s r"
  have g: "geometry_ok s r" and sh: "shape_ok (sb s) ?nd ?N (zmap s) (zone_no (inodes s r)) (ent E s r)"
    using assms(1) by (simp_all add: map_ok_def)
  have leg: "legal (sb s) (ent E s r z k)" if "z \<in> meta E s r" "k < ?N" for z k
    using shape_okD(2) [OF sh] that by (simp add: meta_def)
  note memb = indirects_memb [where d = "zone_no (inodes s r)" and nd = ?nd and N = ?N and e = "ent E s r", folded meta_def]
  have sing: "read_map_single E (inodes s r) False sc bo z k s = Returned (read_map_block sc bo (deref (ent E s r) z k))"
    if "z = 0 \<or> z \<in> meta E s r" "k < ?N" "sc = s_log_zone_size (sb s)" for z k sc bo
    using that rd_indir_ent [OF g that(2) leg [of z k]]
    by (auto simp: read_map_single_def deref_def NO_ZONE_def read_map_block_def NO_BLOCK_def)
  consider (direct) "n < ?nd" | (single) "\<not> n < ?nd" "n - ?nd < ?N" | (double) "\<not> n < ?nd" "\<not> n - ?nd < ?N" by blast
  then show ?thesis
  proof cases
    case direct
    with assms(2) show ?thesis by (simp add: read_map_def map_zone_def zone_at_def Let_def)
  next
    case single
    have "zone_no (inodes s r) ?nd = 0 \<or> zone_no (inodes s r) ?nd \<in> meta E s r" using memb(1) by blast
    from sing [OF this single(2)] single assms(2) show ?thesis
      by (simp add: read_map_def map_zone_def zone_at_def Let_def)
  next
    case double
    let ?m = "n - ?nd - ?N"
    have N: "0 < ?N" using g by (simp add: geometry_ok_def)
    have mm: "?m < ?N * ?N" using assms(3) double by (simp add: nzones_def)
    then have idx: "?m div ?N < ?N" using N by (simp add: less_mult_imp_div_less)
    have ex: "?m mod ?N < ?N" using N by simp
    show ?thesis
    proof (cases "zone_no (inodes s r) (Suc ?nd) = 0")
      case True
      with double assms(2) show ?thesis
        by (simp add: read_map_def map_zone_def zone_at_def Let_def deref_def NO_ZONE_def read_map_block_def NO_BLOCK_def)
    next
      case False
      let ?z1 = "ent E s r (zone_no (inodes s r) (Suc ?nd)) (?m div ?N)"
      have rd: "rd_indir E (i_dev (inodes s r)) (zone_no (inodes s r) (Suc ?nd) * 2 ^ s_log_zone_size (sb s)) (?m div ?N) s = Returned ?z1"
        by (rule rd_indir_ent [OF g idx leg [OF memb(2) [OF False] idx]])
      have z1: "?z1 = 0 \<or> ?z1 \<in> meta E s r" using memb(3) [OF False idx] by blast
      have "map_zone E s r n = deref (ent E s r) ?z1 (?m mod ?N)" using double False mm by (simp add: map_zone_def zone_at_def deref_def Let_def)
      moreover have "\<not> ?m div ?N > ?N" using idx by simp
      ultimately show ?thesis using double False rd assms(2) sing [OF z1 ex]
        by (simp add: read_map_def Let_def NO_ZONE_def)
    qed
  qed
qed

subsection \<open>Steps of \<open>write_map\<close>\<close>

lemma ent_write:
  assumes "conv_ok E" and "v < 2 ^ 32" and "dev = i_dev (inodes s r)" and "b = z * 2 ^ s_log_zone_size (sb s)"
  shows "ent E (upd_blk dev b (set_zone k (conv4 E (s_native (sb s)) v)) s) r = (ent E s r)(z := (ent E s r z)(k := v))"
  using assms(1, 2) by (auto simp: ent_def fun_eq_iff get_set_zone conv_ok_def assms(3, 4))

lemma ent_zero:
  assumes "conv_ok E" and "dev = i_dev (inodes s r)" and "b = z * 2 ^ s_log_zone_size (sb s)"
  shows "ent E (zero_block dev b s) r = (ent E s r)(z := \<lambda>_. 0)"
  using assms(1) by (auto simp: ent_def fun_eq_iff zero_block_def conv_ok_def assms(2, 3))

lemma ent_cong:
  "sb s' = sb s \<Longrightarrow> blk s' = blk s \<Longrightarrow> i_dev (inodes s' r) = i_dev (inodes s r) \<Longrightarrow> ent E s' r = ent E s r"
  by (intro ext) (simp add: ent_def)

lemma zone_no_set: "z < 2 ^ 32 \<Longrightarrow> get_zone (set_zone i z d) = (get_zone d)(i := z)"
  by (auto simp: get_set_zone fun_eq_iff)

lemma zero_block_get: "zero_block dev b (get_block E dev b m s) = zero_block dev b s"
  by (simp add: zero_block_def get_block_def fun_eq_iff)

lemma get_block_NORMAL [simp]: "get_block E dev b NORMAL s = s"
  by (simp add: get_block_def)

text \<open>
  What a step may change: the zone numbers of the inode, the zones in use, and blocks of the
  zones that are indirect blocks afterwards. The map stays well-formed, and no zone is taken
  into use that is not an indirect block of the file, and none becomes one that was in use.
\<close>

definition map_step :: "mfs_env \<Rightarrow> nat \<Rightarrow> mfs \<Rightarrow> mfs \<Rightarrow> bool" where
  "map_step E r s s' \<longleftrightarrow> map_ok E s' r \<and>
     s'\<lparr>blk := blk s, inodes := inodes s, zmap := zmap s, err_code := err_code s\<rparr> = s \<and>
     (inodes s')(r := inodes s r) = inodes s \<and>
     (inodes s' r)\<lparr>i_zone := i_zone (inodes s r), i_dirty := i_dirty (inodes s r)\<rparr> = inodes s r \<and>
     zmap s' = zmap s \<union> meta E s' r \<and> meta E s' r \<inter> zmap s = meta E s r \<and>
     (\<forall>dev b. dev \<noteq> i_dev (inodes s r) \<or> b \<notin> (\<lambda>z. z * 2 ^ s_log_zone_size (sb s)) ` meta E s' r \<longrightarrow> blk s' dev b = blk s dev b)"

lemma map_step_same:
  "map_step E r s s' \<Longrightarrow> s'\<lparr>blk := blk s, inodes := inodes s, zmap := zmap s, err_code := err_code s\<rparr> = s"
  by (simp add: map_step_def)

lemma map_step_sb: "map_step E r s s' \<Longrightarrow> sb s' = sb s"
  by (drule map_step_same [THEN arg_cong [where f = sb]]) simp

lemma map_step_inode:
  assumes "map_step E r s s'"
  shows "i_ndzones (inodes s' r) = i_ndzones (inodes s r)" "i_nindirs (inodes s' r) = i_nindirs (inodes s r)"
    "i_dev (inodes s' r) = i_dev (inodes s r)" "i_mode (inodes s' r) = i_mode (inodes s r)"
    "i_size (inodes s' r) = i_size (inodes s r)" "i_num (inodes s' r) = i_num (inodes s r)"
proof -
  have "(inodes s' r)\<lparr>i_zone := i_zone (inodes s r), i_dirty := i_dirty (inodes s r)\<rparr> = inodes s r"
    using assms by (simp add: map_step_def)
  then show "i_ndzones (inodes s' r) = i_ndzones (inodes s r)" "i_nindirs (inodes s' r) = i_nindirs (inodes s r)"
    "i_dev (inodes s' r) = i_dev (inodes s r)" "i_mode (inodes s' r) = i_mode (inodes s r)"
    "i_size (inodes s' r) = i_size (inodes s r)" "i_num (inodes s' r) = i_num (inodes s r)"
    by (cases "inodes s' r", cases "inodes s r", simp)+
qed

lemma map_step_trans:
  assumes "map_step E r s s'" and "map_step E r s' s''"
  shows "map_step E r s s''"
proof -
  note fr = map_step_sb [OF assms(1)] map_step_inode [OF assms(1)]
  have "s''\<lparr>blk := blk s, inodes := inodes s, zmap := zmap s, err_code := err_code s\<rparr> = s"
    using assms by (cases s, cases s', cases s'', simp add: map_step_def)
  moreover have "(inodes s'')(r := inodes s r) = inodes s"
    using assms unfolding map_step_def by (metis fun_upd_upd)
  moreover have "(inodes s'' r)\<lparr>i_zone := i_zone (inodes s r), i_dirty := i_dirty (inodes s r)\<rparr> = inodes s r"
    using assms unfolding map_step_def by (cases "inodes s r", cases "inodes s' r", cases "inodes s'' r", simp)
  moreover have m: "meta E s'' r \<inter> zmap s = meta E s r" "meta E s' r \<subseteq> meta E s'' r" "zmap s'' = zmap s \<union> meta E s'' r"
    using assms unfolding map_step_def by blast+
  moreover have "blk s'' dev b = blk s dev b"
    if "dev \<noteq> i_dev (inodes s r) \<or> b \<notin> (\<lambda>z. z * 2 ^ s_log_zone_size (sb s)) ` meta E s'' r" for dev b
    using assms that m(2) unfolding map_step_def fr by (metis (no_types, lifting) image_mono subsetD)
  ultimately show ?thesis using assms unfolding map_step_def by blast
qed

text \<open>To show that something is a step, its zone numbers and entries are compared with those before.\<close>

lemma map_stepI:
  fixes s s' :: mfs and zs :: bytes and B :: "nat \<Rightarrow> nat \<Rightarrow> bytes" and r :: nat
  defines "nd \<equiv> i_ndzones (inodes s r)" and "N \<equiv> nind s r"
  assumes ok: "map_ok E s r"
    and s': "s' = s\<lparr>blk := B, inodes := (inodes s)(r := (inodes s r)\<lparr>i_zone := zs, i_dirty := dt\<rparr>), zmap := U, err_code := ec\<rparr>"
    and d: "get_zone zs = d" and e: "ent E s' r = e"
    and sh: "shape_ok (sb s) nd N U d e" and U: "U = zmap s \<union> indirects nd N d e"
    and mono: "indirects nd N d e \<inter> zmap s = indirects nd N (zone_no (inodes s r)) (ent E s r)"
    and B: "\<And>dev b. dev \<noteq> i_dev (inodes s r) \<or> b \<notin> (\<lambda>z. z * 2 ^ s_log_zone_size (sb s)) ` indirects nd N d e \<Longrightarrow> B dev b = blk s dev b"
  shows "map_step E r s s'" and "map_zone E s' r = zone_at nd N d e" and "meta E s' r = indirects nd N d e"
proof -
  have i: "inodes s' r = (inodes s r)\<lparr>i_zone := zs, i_dirty := dt\<rparr>" "sb s' = sb s" "zmap s' = U" "blk s' = B" by (simp_all add: s')
  show m: "meta E s' r = indirects nd N d e" by (simp add: meta_def i e d nd_def N_def)
  show "map_zone E s' r = zone_at nd N d e" by (simp add: map_zone_def i e d nd_def N_def)
  have "map_ok E s' r" using ok sh by (simp add: map_ok_def geometry_ok_def i e d nd_def N_def)
  moreover have "s'\<lparr>blk := blk s, inodes := inodes s, zmap := zmap s, err_code := err_code s\<rparr> = s" by (simp add: s')
  moreover have "(inodes s')(r := inodes s r) = inodes s" by (simp add: s')
  moreover have "(inodes s' r)\<lparr>i_zone := i_zone (inodes s r), i_dirty := i_dirty (inodes s r)\<rparr> = inodes s r" by (simp add: i)
  moreover have "meta E s' r \<inter> zmap s = meta E s r" using mono unfolding m by (simp add: meta_def nd_def N_def)
  ultimately show "map_step E r s s'" using U B unfolding map_step_def m i by blast
qed

text \<open>Only the dirty mark or the error code changes.\<close>

lemma map_ok_zmap: "map_ok E s r \<Longrightarrow> zmap s = zmap s \<union> meta E s r"
  using shape_okD(1) unfolding map_ok_def meta_def by blast

lemma upd_zone: "i_zone_update f rip = rip\<lparr>i_zone := f (i_zone rip), i_dirty := i_dirty rip\<rparr>"
  by (cases rip) simp

lemma step_same:
  assumes "map_ok E s r" and "s' = s\<lparr>inodes := (inodes s)(r := (inodes s r)\<lparr>i_dirty := dt\<rparr>), err_code := ec\<rparr>"
  shows "map_step E r s s'" and "map_zone E s' r = map_zone E s r"
proof -
  have eq: "s' = s\<lparr>blk := blk s, inodes := (inodes s)(r := (inodes s r)\<lparr>i_zone := i_zone (inodes s r), i_dirty := dt\<rparr>), zmap := zmap s, err_code := ec\<rparr>"
    using assms(2) by simp
  have e: "ent E s' r = ent E s r" using assms(2) by (intro ent_cong) simp_all
  have sh: "shape_ok (sb s) (i_ndzones (inodes s r)) (nind s r) (zmap s) (zone_no (inodes s r)) (ent E s r)"
    using assms(1) by (simp add: map_ok_def)
  note * = map_stepI [OF assms(1) eq refl e sh map_ok_zmap [OF assms(1), unfolded meta_def] Int_absorb2 [OF shape_okD(1) [OF sh]] refl]
  show "map_step E r s s'" by (rule *(1))
  show "map_zone E s' r = map_zone E s r" by (subst *(2)) (simp add: map_zone_def)
qed

lemma step_direct:
  assumes "map_ok E s r" and "n < i_ndzones (inodes s r)" and "z < 2 ^ 32"
  shows "map_step E r s (set_izone r n z s)" and "map_zone E (set_izone r n z s) r = (map_zone E s r)(n := z)"
proof -
  let ?s = "set_izone r n z s" and ?d = "zone_no (inodes s r)" and ?nd = "i_ndzones (inodes s r)" and ?N = "nind s r"
  have e: "ent E ?s r = ent E s r" by (rule ent_cong) simp_all
  have eq: "?s = s\<lparr>blk := blk s, inodes := (inodes s)(r := (inodes s r)\<lparr>i_zone := set_zone n z (i_zone (inodes s r)), i_dirty := i_dirty (inodes s r)\<rparr>),
    zmap := zmap s, err_code := err_code s\<rparr>" by (simp add: upd_zone [of "set_zone n z"])
  have sh: "shape_ok (sb s) ?nd ?N (zmap s) ?d (ent E s r)" using assms(1) by (simp add: map_ok_def)
  note du = direct_update [OF sh assms(2), of z]
  have U: "zmap s = zmap s \<union> indirects ?nd ?N (?d(n := z)) (ent E s r)" using shape_okD(1) [OF sh] du(3) by auto
  note * = map_stepI [OF assms(1) eq zone_no_set [OF assms(3)] e du(1) U]
  show "map_step E r s ?s" using shape_okD(1) [OF sh] by (intro *(1)) (auto simp: du(3))
  show "map_zone E ?s r = (map_zone E s r)(n := z)" using shape_okD(1) [OF sh]
    by (subst *(2)) (auto simp: du(2, 3) map_zone_def)
qed

text \<open>An entry of an indirect block that the double indirect block does not hold itself.\<close>

lemma step_entry:
  fixes s :: mfs and r :: nat and E :: mfs_env
  defines "nd \<equiv> i_ndzones (inodes s r)" and "N \<equiv> nind s r" and "d \<equiv> zone_no (inodes s r)" and "e \<equiv> ent E s r"
  assumes ok: "map_ok E s r" and c: "conv_ok E" and z: "z \<in> indirects nd N d e" "z \<noteq> d (Suc nd)"
    and v: "legal (sb s) v" and k: "k < N"
    and s': "s' = upd_blk (i_dev (inodes s r)) (z * 2 ^ s_log_zone_size (sb s)) (set_zone k (conv4 E (s_native (sb s)) v)) s"
  shows "map_step E r s s'" and "map_zone E s' r = zone_at nd N d (e(z := (e z)(k := v)))"
proof -
  have sh: "shape_ok (sb s) nd N (zmap s) d e" using ok by (simp add: map_ok_def nd_def N_def d_def e_def)
  have v32: "v < 2 ^ 32" using ok v by (auto simp: map_ok_def geometry_ok_def legal_def)
  have ent: "ent E s' r = e(z := (e z)(k := v))" unfolding s' e_def by (rule ent_write [OF c v32 refl refl])
  have ind: "indirects nd N d (e(z := (e z)(k := v))) = indirects nd N d e" using z(2) by (rule indirects_entry)
  have sh': "shape_ok (sb s) nd N (zmap s) d (e(z := (e z)(k := v)))"
    using shape_okD(2) [OF sh z(1)] v by (intro shape_entry [OF sh z(2)]) simp
  have eq: "s' = s\<lparr>blk := blk s', inodes := (inodes s)(r := (inodes s r)\<lparr>i_zone := i_zone (inodes s r), i_dirty := i_dirty (inodes s r)\<rparr>),
    zmap := zmap s, err_code := err_code s\<rparr>" by (simp add: s')
  have U: "zmap s = zmap s \<union> indirects nd N d (e(z := (e z)(k := v)))" using shape_okD(1) [OF sh] unfolding ind by blast
  have B: "blk s' dev b = blk s dev b"
    if "dev \<noteq> i_dev (inodes s r) \<or> b \<notin> (\<lambda>z. z * 2 ^ s_log_zone_size (sb s)) ` indirects nd N d (e(z := (e z)(k := v)))" for dev b
    using that z(1) unfolding ind by (auto simp: s')
  note * = map_stepI [OF ok eq refl ent, folded nd_def N_def, folded d_def e_def, OF sh' U]
  show "map_step E r s s'" using B shape_okD(1) [OF sh] by (intro *(1)) (auto simp: ind)
  show "map_zone E s' r = zone_at nd N d (e(z := (e z)(k := v)))" using B shape_okD(1) [OF sh] by (intro *(2)) (auto simp: ind)
qed

text \<open>A new indirect block, referred to from the inode.\<close>

lemma step_new_inode:
  fixes s :: mfs and r :: nat
  defines "nd \<equiv> i_ndzones (inodes s r)" and "d \<equiv> zone_no (inodes s r)"
  assumes ok: "map_ok E s r" and c: "conv_ok E" and i: "i = nd \<or> i = Suc nd" "d i = 0"
    and z: "z \<notin> zmap s" "z \<noteq> 0" "legal (sb s) z"
    and s': "s' = zero_block (i_dev (inodes s r)) (z * 2 ^ s_log_zone_size (sb s)) (set_izone r i z (s\<lparr>zmap := insert z (zmap s)\<rparr>))"
  shows "map_step E r s s'" and "map_zone E s' r = map_zone E s r" and "ent E s' r = (ent E s r)(z := \<lambda>_. 0)"
    and "zone_no (inodes s' r) = d(i := z)"
proof -
  let ?N = "nind s r" and ?e = "ent E s r" and ?e' = "(ent E s r)(z := \<lambda>_. 0)"
  have sh: "shape_ok (sb s) nd ?N (zmap s) d ?e" using ok by (simp add: map_ok_def nd_def d_def)
  have z32: "z < 2 ^ 32" using ok z(3) by (auto simp: map_ok_def geometry_ok_def legal_def)
  have "ent E (set_izone r i z (s\<lparr>zmap := insert z (zmap s)\<rparr>)) r = ?e" by (rule ent_cong) simp_all
  then show ent: "ent E s' r = ?e'"
    unfolding s' using ent_zero [OF c, of "i_dev (inodes s r)" "set_izone r i z (s\<lparr>zmap := insert z (zmap s)\<rparr>)" r _ z] by simp
  show zn: "zone_no (inodes s' r) = d(i := z)" by (auto simp: s' zero_block_def zone_no_set [OF z32] d_def)
  have new: "shape_ok (sb s) nd ?N (insert z (zmap s)) (d(i := z)) ?e'" "zone_at nd ?N (d(i := z)) ?e' = zone_at nd ?N d ?e"
    "indirects nd ?N (d(i := z)) ?e' = insert z (indirects nd ?N d ?e)"
    using i new_single [OF sh _ z(1, 2)] new_double [OF sh _ z(1, 2)] by auto
  have eq: "s' = s\<lparr>blk := blk s', inodes := (inodes s)(r := (inodes s r)\<lparr>i_zone := set_zone i z (i_zone (inodes s r)), i_dirty := i_dirty (inodes s r)\<rparr>),
    zmap := insert z (zmap s), err_code := err_code s\<rparr>" by (simp add: s' zero_block_def upd_zone [of "set_zone i z"])
  have U: "insert z (zmap s) = zmap s \<union> indirects nd ?N (d(i := z)) ?e'" using shape_okD(1) [OF sh] unfolding new(3) by blast
  have B: "blk s' dev b = blk s dev b"
    if "dev \<noteq> i_dev (inodes s r) \<or> b \<notin> (\<lambda>z. z * 2 ^ s_log_zone_size (sb s)) ` indirects nd ?N (d(i := z)) ?e'" for dev b
    using that unfolding new(3) by (auto simp: s' zero_block_def)
  note * = map_stepI [OF ok eq zone_no_set [OF z32] ent, folded nd_def, folded d_def, OF new(1) U]
  show "map_step E r s s'" using B shape_okD(1) [OF sh] z(1) by (intro *(1)) (auto simp: new(3))
  have "map_zone E s' r = zone_at nd ?N (d(i := z)) ?e'" using B shape_okD(1) [OF sh] z(1) by (intro *(2)) (auto simp: new(3))
  moreover have "map_zone E s r = zone_at nd ?N d ?e" by (simp add: map_zone_def nd_def d_def)
  ultimately show "map_zone E s' r = map_zone E s r" by (simp only: new(2))
qed

text \<open>A new indirect block, referred to from the double indirect block.\<close>

lemma step_new_double:
  fixes s :: mfs and r :: nat
  defines "nd \<equiv> i_ndzones (inodes s r)" and "d \<equiv> zone_no (inodes s r)"
  assumes ok: "map_ok E s r" and c: "conv_ok E" and D: "d (Suc nd) \<noteq> 0" and j: "j < nind s r" "ent E s r (d (Suc nd)) j = 0"
    and z: "z \<notin> zmap s" "z \<noteq> 0" "legal (sb s) z"
    and s': "s' = zero_block (i_dev (inodes s r)) (z * 2 ^ s_log_zone_size (sb s))
      (upd_blk (i_dev (inodes s r)) (d (Suc nd) * 2 ^ s_log_zone_size (sb s)) (set_zone j (conv4 E (s_native (sb s)) z))
        (s\<lparr>zmap := insert z (zmap s)\<rparr>))"
  shows "map_step E r s s'" and "map_zone E s' r = map_zone E s r"
    and "ent E s' r = (ent E s r)(d (Suc nd) := (ent E s r (d (Suc nd)))(j := z), z := \<lambda>_. 0)"
proof -
  let ?N = "nind s r" and ?e = "ent E s r"
  let ?e' = "?e(d (Suc nd) := (?e (d (Suc nd)))(j := z), z := \<lambda>_. 0)" and ?t = "s\<lparr>zmap := insert z (zmap s)\<rparr>"
  have sh: "shape_ok (sb s) nd ?N (zmap s) d ?e" using ok by (simp add: map_ok_def nd_def d_def)
  have z32: "z < 2 ^ 32" using ok z(3) by (auto simp: map_ok_def geometry_ok_def legal_def)
  have "ent E ?t r = ?e" by (rule ent_cong) simp_all
  then show ent: "ent E s' r = ?e'"
    unfolding s' using ent_write [OF c z32, of _ ?t r _ "d (Suc nd)" j] by (subst ent_zero [OF c, where z = z]) simp_all
  note new = new_in_double [OF sh D j z refl]
  have eq: "s' = s\<lparr>blk := blk s', inodes := (inodes s)(r := (inodes s r)\<lparr>i_zone := i_zone (inodes s r), i_dirty := i_dirty (inodes s r)\<rparr>),
    zmap := insert z (zmap s), err_code := err_code s\<rparr>" by (simp add: s' zero_block_def)
  have U: "insert z (zmap s) = zmap s \<union> indirects nd ?N d ?e'" using shape_okD(1) [OF sh] unfolding new(3) by blast
  have B: "blk s' dev b = blk s dev b"
    if "dev \<noteq> i_dev (inodes s r) \<or> b \<notin> (\<lambda>z. z * 2 ^ s_log_zone_size (sb s)) ` indirects nd ?N d ?e'" for dev b
    using that indirects_memb(2) [of d nd ?N ?e, OF D] unfolding new(3) by (auto simp: s' zero_block_def)
  note * = map_stepI [OF ok eq refl ent, folded nd_def, folded d_def, OF new(1) U]
  show "map_step E r s s'" using B shape_okD(1) [OF sh] z(1) by (intro *(1)) (auto simp: new(3))
  have "map_zone E s' r = zone_at nd ?N d ?e'" using B shape_okD(1) [OF sh] z(1) by (intro *(2)) (auto simp: new(3))
  moreover have "map_zone E s r = zone_at nd ?N d ?e" by (simp add: map_zone_def nd_def d_def)
  ultimately show "map_zone E s' r = map_zone E s r" by (simp only: new(2))
qed

subsection \<open>\<open>write_map\<close>\<close>

text \<open>
  The result of entering \<open>z\<close> for zone number \<open>n\<close>: a step after which the map has the new
  entry, or none of the map has changed and there is no space.
\<close>

definition wrote :: "mfs_env \<Rightarrow> nat \<Rightarrow> nat \<Rightarrow> nat \<Rightarrow> mfs \<Rightarrow> (mfs \<times> ret) outcome \<Rightarrow> bool" where
  "wrote E r n z s out \<longleftrightarrow> (\<exists>s' res. out = Returned (s', res) \<and> map_step E r s s' \<and>
     (res = OK \<and> map_zone E s' r = (map_zone E s r)(n := z) \<or> res = Err ENOSPC \<and> map_zone E s' r = map_zone E s r))"

lemma wrote_after:
  assumes "map_step E r s t" and "map_zone E t r = map_zone E s r" and "wrote E r n z t out"
  shows "wrote E r n z s out"
  using assms map_step_trans unfolding wrote_def by metis

lemma wrote_OK: "map_step E r s s' \<Longrightarrow> map_zone E s' r = (map_zone E s r)(n := z) \<Longrightarrow> wrote E r n z s (Returned (s', OK))"
  by (auto simp: wrote_def)

lemma wrote_ENOSPC: "map_step E r s s' \<Longrightarrow> map_zone E s' r = map_zone E s r \<Longrightarrow> wrote E r n z s (Returned (s', Err ENOSPC))"
  by (auto simp: wrote_def)

lemma wr_indir_returns:
  "geometry_ok s r \<Longrightarrow> k < nind s r \<Longrightarrow>
     wr_indir E dev b k z s = Returned (upd_blk dev b (set_zone k (conv4 E (s_native (sb s)) z)) s)"
  by (simp add: wr_indir_def geometry_ok_def)

text \<open>The entry in an indirect block that is there.\<close>

lemma entry_single:
  assumes ok: "map_ok E s r" and c: "conv_ok E" and v: "legal (sb s) v" and k: "k < nind s r"
    and S: "zone_no (inodes s r) (i_ndzones (inodes s r)) \<noteq> 0"
  shows "wrote E r (i_ndzones (inodes s r) + k) v s
    (bind_outcome (wr_indir E (i_dev (inodes s r)) (zone_no (inodes s r) (i_ndzones (inodes s r)) * 2 ^ s_log_zone_size (sb s)) k v s)
      (\<lambda>t. Returned (t, OK)))"
proof -
  let ?d = "zone_no (inodes s r)" and ?nd = "i_ndzones (inodes s r)" and ?N = "nind s r"
  have g: "geometry_ok s r" and sh: "shape_ok (sb s) ?nd ?N (zmap s) ?d (ent E s r)" using ok by (simp_all add: map_ok_def)
  note step = step_entry [OF ok c _ _ v k refl, of "?d ?nd", OF indirects_memb(1) [of ?d ?nd, OF S] shape_okD(3) [OF sh S]]
  show ?thesis unfolding wr_indir_returns [OF g k] bind_outcome.simps
    by (rule wrote_OK [OF step(1)]) (simp only: step(2) single_update [OF sh S k], simp add: map_zone_def)
qed

lemma entry_double:
  fixes s :: mfs and r :: nat and E :: mfs_env
  defines "nd \<equiv> i_ndzones (inodes s r)" and "D \<equiv> zone_no (inodes s r) (Suc (i_ndzones (inodes s r)))"
  assumes ok: "map_ok E s r" and c: "conv_ok E" and v: "legal (sb s) v" and k: "k < nind s r" and j: "j < nind s r"
    and D: "D \<noteq> 0" and z: "z = ent E s r D j" "z \<noteq> 0"
  shows "wrote E r (nd + nind s r + j * nind s r + k) v s
    (bind_outcome (wr_indir E (i_dev (inodes s r)) (z * 2 ^ s_log_zone_size (sb s)) k v s) (\<lambda>t. Returned (t, OK)))"
proof -
  let ?d = "zone_no (inodes s r)" and ?N = "nind s r"
  have g: "geometry_ok s r" and sh: "shape_ok (sb s) nd ?N (zmap s) ?d (ent E s r)" using ok by (simp_all add: map_ok_def nd_def)
  have D': "?d (Suc nd) \<noteq> 0" and z': "z = ent E s r (?d (Suc nd)) j" using D z by (simp_all add: D_def nd_def)
  have zd: "z \<noteq> ?d (Suc nd)" using shape_okD(4) [OF sh D' j] z(2) z' by simp
  have "z \<in> indirects nd ?N ?d (ent E s r)" using indirects_memb(3) [of ?d nd j ?N, OF D' j] z(2) z' by simp
  note step = step_entry [OF ok c this [unfolded nd_def] zd [unfolded nd_def] v k refl]
  show ?thesis unfolding wr_indir_returns [OF g k] bind_outcome.simps
    using double_update [OF sh D' j z' z(2) k, of v]
    by (intro wrote_OK [OF step(1)]) (simp only: step(2) nd_def, simp add: map_zone_def nd_def)
qed

text \<open>Entering no zone where there is none changes nothing.\<close>

lemma get_zone_lt: "get_zone d i < 2 ^ 32"
proof -
  have lt: "unat (x :: u8) < 256" for x using unsigned_less [of x, where 'a = nat] by simp
  show ?thesis using lt [of "d (4 * i)"] lt [of "d (4 * i + 1)"] lt [of "d (4 * i + 2)"] lt [of "d (4 * i + 3)"]
    by (simp add: get_zone_def)
qed

lemma set_zone_none: "get_zone d i = 0 \<Longrightarrow> set_zone i 0 d = d"
  by (auto simp: get_zone_def set_zone_def fun_eq_iff unat_eq_0)

lemma set_entry_none:
  assumes "conv_ok E" and "ent E s r z k = 0" and "b = z * 2 ^ s_log_zone_size (sb s)" and "dev = i_dev (inodes s r)"
  shows "upd_blk dev b (set_zone k (conv4 E (s_native (sb s)) 0)) s = s"
proof -
  let ?x = "get_zone (blk s dev b) k"
  have "?x = conv4 E (s_native (sb s)) (conv4 E (s_native (sb s)) ?x)" using assms(1) get_zone_lt by (simp add: conv_ok_def)
  also have "\<dots> = 0" using assms by (simp add: ent_def conv_ok_def)
  finally have "set_zone k (conv4 E (s_native (sb s)) 0) (blk s dev b) = blk s dev b"
    using assms(1) by (simp add: set_zone_none conv_ok_def)
  then show ?thesis by simp
qed

lemma alloc_zone_cases:
  assumes "alloc_ok E (sb s)" and "0 < s_firstdatazone (sb s)"
  obtains (none) "alloc_zone E h s = (s\<lparr>err_code := ENOSPC\<rparr>, 0)"
  | (some) z where "alloc_zone E h s = (s\<lparr>zmap := insert z (zmap s)\<rparr>, z)" "z \<notin> zmap s" "z \<noteq> 0" "legal (sb s) z"
proof (cases "alloc_from E (zmap s) h")
  case None
  then show ?thesis by (intro none) (simp add: alloc_zone_def NO_ZONE_def)
next
  case (Some z)
  then have "z \<notin> zmap s" "s_firstdatazone (sb s) \<le> z" "z < s_zones (sb s)" using assms(1) by (simp_all add: alloc_ok_def)
  with Some assms(2) show ?thesis by (intro some [of z]) (simp_all add: alloc_zone_def legal_def)
qed

lemma step_err: "map_ok E s r \<Longrightarrow> map_step E r s (s\<lparr>err_code := ec\<rparr>) \<and> map_zone E (s\<lparr>err_code := ec\<rparr>) r = map_zone E s r"
  using step_same [of E s r "s\<lparr>err_code := ec\<rparr>" ec "i_dirty (inodes s r)"] by simp

lemma map_stepD:
  assumes "map_step E r s s'"
  shows "map_ok E s' r" "alloc_ok E (sb s) \<Longrightarrow> alloc_ok E (sb s')" "legal (sb s) v \<Longrightarrow> legal (sb s') v"
  using assms map_step_sb [OF assms] by (simp_all add: map_step_def)

lemma write_map_single:
  assumes ok: "map_ok E s r" and c: "conv_ok E" and a: "alloc_ok E (sb s)" and v: "legal (sb s) v" and k: "k < nind s r"
  shows "wrote E r (i_ndzones (inodes s r) + k) v s
    (write_map_ind E r v False (InInode (i_ndzones (inodes s r))) (zone_no (inodes s r) (i_ndzones (inodes s r))) NO_ZONE k s)"
proof (cases "zone_no (inodes s r) (i_ndzones (inodes s r)) = 0")
  case False
  have "bind_outcome (bind_outcome m (\<lambda>t. Returned (t, z))) (\<lambda>(t, _). Returned (t, OK)) = bind_outcome m (\<lambda>t. Returned (t, OK))"
    for m :: "mfs outcome" and z :: nat by (cases m) simp_all
  with False show ?thesis using entry_single [OF ok c v k]
    by (simp add: write_map_ind_def write_map_create_def write_map_entry_def NO_ZONE_def Let_def)
next
  case True
  let ?nd = "i_ndzones (inodes s r)"
  have f: "0 < s_firstdatazone (sb s)" using ok by (simp add: map_ok_def geometry_ok_def)
  show ?thesis
  proof (rule alloc_zone_cases [OF a f, of "zone_no (inodes s r) 0"], goal_cases none some)
    case none
    have "set_izone r ?nd 0 (s\<lparr>err_code := ENOSPC\<rparr>) = s\<lparr>err_code := ENOSPC\<rparr>"
      using True by (simp add: upd_zone [of "set_zone ?nd 0"] set_zone_none)
    then have "write_map_ind E r v False (InInode ?nd) 0 NO_ZONE k s = Returned (s\<lparr>err_code := ENOSPC\<rparr>, Err ENOSPC)"
      using none by (simp add: write_map_ind_def write_map_create_def set_ind_ref_def NO_ZONE_def)
    then show ?thesis using True step_err [OF ok, of ENOSPC] by (simp add: wrote_ENOSPC)
  next
    case (some z)
    define t where "t = zero_block (i_dev (inodes s r)) (z * 2 ^ s_log_zone_size (sb s)) (set_izone r ?nd z (s\<lparr>zmap := insert z (zmap s)\<rparr>))"
    note new = step_new_inode [OF ok c disjI1 [OF refl] True some(2-4) t_def]
    note fr = map_step_inode [OF new(1)] map_step_sb [OF new(1)]
    have S: "zone_no (inodes t r) ?nd = z" using new(4) by (metis fun_upd_same)
    have "write_map_ind E r v False (InInode ?nd) 0 NO_ZONE k s =
      bind_outcome (wr_indir E (i_dev (inodes s r)) (z * 2 ^ s_log_zone_size (sb s)) k v t) (\<lambda>t. Returned (t, OK))"
      using some by (cases "wr_indir E (i_dev (inodes s r)) (z * 2 ^ s_log_zone_size (sb s)) k v t")
        (simp_all add: write_map_ind_def write_map_create_def set_ind_ref_def write_map_entry_def NO_ZONE_def zero_block_get t_def Let_def)
    moreover have "wrote E r (?nd + k) v t \<dots>"
      using entry_single [OF map_stepD(1) [OF new(1)] c map_stepD(3) [OF new(1) v], of k] k some(3) by (simp add: fr S)
    ultimately show ?thesis using True wrote_after [OF new(1, 2)] by simp
  qed
qed

lemma write_map_double:
  fixes s :: mfs and r :: nat and E :: mfs_env
  defines "nd \<equiv> i_ndzones (inodes s r)" and "D \<equiv> zone_no (inodes s r) (Suc (i_ndzones (inodes s r)))"
  assumes ok: "map_ok E s r" and c: "conv_ok E" and a: "alloc_ok E (sb s)" and v: "legal (sb s) v"
    and k: "k < nind s r" and j: "j < nind s r" and D: "D \<noteq> 0"
  shows "wrote E r (nd + nind s r + j * nind s r + k) v s
    (write_map_ind E r v False (InDouble (D * 2 ^ s_log_zone_size (sb s)) j) (ent E s r D j) z2 k s)"
    (is "wrote E r ?n v s (write_map_ind E r v False ?ref _ z2 k s)")
proof (cases "ent E s r D j = 0")
  case False
  let ?b = "ent E s r D j * 2 ^ s_log_zone_size (sb s)"
  have "write_map_ind E r v False ?ref (ent E s r D j) z2 k s =
      bind_outcome (wr_indir E (i_dev (inodes s r)) ?b k v s) (\<lambda>t. Returned (t, OK))"
    using False by (cases "wr_indir E (i_dev (inodes s r)) ?b k v s")
      (simp_all add: write_map_ind_def write_map_create_def write_map_entry_def NO_ZONE_def Let_def)
  then show ?thesis using entry_double [OF ok c v k j _ refl, folded D_def, OF D] False by (simp add: nd_def)
next
  case True
  have g: "geometry_ok s r" using ok by (simp add: map_ok_def)
  then have f: "0 < s_firstdatazone (sb s)" by (simp add: geometry_ok_def)
  let ?b = "D * 2 ^ s_log_zone_size (sb s)" and ?dev = "i_dev (inodes s r)"
  show ?thesis
  proof (rule alloc_zone_cases [OF a f, of "zone_no (inodes s r) 0"], goal_cases none some)
    case none
    let ?t = "s\<lparr>err_code := ENOSPC\<rparr>"
    have "ent E ?t r D j = 0" using True ent_cong [of ?t s r E] by simp
    then have "wr_indir E ?dev ?b j 0 ?t = Returned ?t"
      using set_entry_none [OF c, of ?t r D j ?b ?dev] g j by (subst wr_indir_returns [where r = r]) (simp_all add: geometry_ok_def)
    then have "write_map_ind E r v False ?ref 0 z2 k s = Returned (?t, Err ENOSPC)"
      using none by (simp add: write_map_ind_def write_map_create_def set_ind_ref_def NO_ZONE_def)
    then show ?case using True step_err [OF ok, of ENOSPC] by (simp add: wrote_ENOSPC)
  next
    case (some z)
    let ?u = "s\<lparr>zmap := insert z (zmap s)\<rparr>" and ?bz = "z * 2 ^ s_log_zone_size (sb s)"
    define t where "t = zero_block ?dev ?bz (upd_blk ?dev ?b (set_zone j (conv4 E (s_native (sb s)) z)) ?u)"
    note new = step_new_double [OF ok c _ j _ some(2-4), folded D_def, OF D True t_def]
    note fr = map_step_inode [OF new(1)] map_step_sb [OF new(1)]
    have zn: "zone_no (inodes t r) i = zone_no (inodes s r) i" for i by (simp add: t_def zero_block_def)
    have "D \<in> zmap s" using shape_okD(1) [of "sb s" nd "nind s r" "zmap s" "zone_no (inodes s r)" "ent E s r"] ok D
        indirects_memb(2) [of "zone_no (inodes s r)" nd "nind s r" "ent E s r"] by (auto simp: map_ok_def D_def nd_def)
    with some(2) have e: "ent E t r D j = z" by (subst new(3)) auto
    have "wr_indir E ?dev ?b j z ?u = Returned (upd_blk ?dev ?b (set_zone j (conv4 E (s_native (sb s)) z)) ?u)"
      using g j by (subst wr_indir_returns [where r = r]) (simp_all add: geometry_ok_def)
    then have "write_map_ind E r v False ?ref 0 z2 k s = bind_outcome (wr_indir E ?dev ?bz k v t) (\<lambda>t. Returned (t, OK))"
      using some by (cases "wr_indir E ?dev ?bz k v t")
        (simp_all add: write_map_ind_def write_map_create_def set_ind_ref_def write_map_entry_def NO_ZONE_def zero_block_get t_def Let_def)
    moreover have "wrote E r ?n v t \<dots>"
      using entry_double [OF map_stepD(1) [OF new(1)] c map_stepD(3) [OF new(1) v], of k j z] k j D some(3) e
      by (simp add: fr zn D_def nd_def)
    ultimately show ?case using True wrote_after [OF new(1, 2)] by simp
  qed
qed

lemma rd_double:
  assumes "map_ok E s r" and "zone_no (inodes s r) (Suc (i_ndzones (inodes s r))) \<noteq> 0" and "j < nind s r"
  shows "rd_indir E (i_dev (inodes s r)) (zone_no (inodes s r) (Suc (i_ndzones (inodes s r))) * 2 ^ s_log_zone_size (sb s)) j s =
    Returned (ent E s r (zone_no (inodes s r) (Suc (i_ndzones (inodes s r)))) j)"
  using assms shape_okD(2) indirects_memb(2) [of "zone_no (inodes s r)"] by (intro rd_indir_ent) (fastforce simp: map_ok_def)+

lemma write_map_dbl_wrote:
  fixes s :: mfs and r :: nat
  defines "nd \<equiv> i_ndzones (inodes s r)"
  assumes ok: "map_ok E s r" and c: "conv_ok E" and a: "alloc_ok E (sb s)" and v: "legal (sb s) v"
    and m: "m < nind s r * nind s r"
  shows "wrote E r (nd + nind s r + m) v s (write_map_dbl E r v False m s)"
proof -
  let ?N = "nind s r" and ?D = "zone_no (inodes s r) (Suc nd)" and ?sc = "s_log_zone_size (sb s)" and ?dev = "i_dev (inodes s r)"
  have g: "0 < s_firstdatazone (sb s)" "0 < ?N" using ok by (simp_all add: map_ok_def geometry_ok_def)
  have j: "m div ?N < ?N" and k: "m mod ?N < ?N" using m g(2) by (simp_all add: less_mult_imp_div_less)
  have n: "nd + ?N + m div ?N * ?N + m mod ?N = nd + ?N + m" by simp
  show ?thesis
  proof (cases "?D = 0")
    case False
    then have "write_map_dbl E r v False m s =
      write_map_ind E r v False (InDouble (?D * 2 ^ ?sc) (m div ?N)) (ent E s r ?D (m div ?N)) ?D (m mod ?N) s"
      using rd_double [OF ok _ j] j by (simp add: write_map_dbl_def Let_def NO_ZONE_def nd_def)
    then show ?thesis using write_map_double [OF ok c a v k j] False n by (simp add: nd_def ac_simps)
  next
    case True
    show ?thesis
    proof (rule alloc_zone_cases [OF a g(1), of "zone_no (inodes s r) 0"], goal_cases none some)
      case none
      then have "write_map_dbl E r v False m s = Returned (s\<lparr>err_code := ENOSPC\<rparr>, Err ENOSPC)"
        using True by (simp add: write_map_dbl_def Let_def NO_ZONE_def nd_def)
      then show ?case using step_err [OF ok, of ENOSPC] by (simp add: wrote_ENOSPC)
    next
      case (some z)
      define t where "t = zero_block ?dev (z * 2 ^ ?sc) (set_izone r (Suc nd) z (s\<lparr>zmap := insert z (zmap s)\<rparr>))"
      have t: "t = zero_block ?dev (z * 2 ^ ?sc)
        (s\<lparr>zmap := insert z (zmap s), inodes := (inodes s)(r := i_zone_update (set_zone (Suc nd) z) (inodes s r))\<rparr>)"
        by (simp add: t_def)
      note new = step_new_inode [OF ok c _ _ some(2-4), of "Suc nd", folded nd_def, OF disjI2 [OF refl] True t_def]
      note fr = map_step_inode [OF new(1)] map_step_sb [OF new(1)]
      have D: "zone_no (inodes t r) (Suc nd) = z" using new(4) by (metis fun_upd_same)
      have "write_map_dbl E r v False m s =
        write_map_ind E r v False (InDouble (z * 2 ^ ?sc) (m div ?N)) (ent E t r z (m div ?N)) ?D (m mod ?N) t"
        using rd_double [OF map_stepD(1) [OF new(1)], of "m div ?N"] j some True D
        by (simp add: write_map_dbl_def Let_def NO_ZONE_def fr zero_block_get t [symmetric] flip: nd_def)
      moreover have "wrote E r (nd + ?N + m) v t \<dots>"
        using write_map_double [OF map_stepD(1) [OF new(1)] c map_stepD(2) [OF new(1) a] map_stepD(3) [OF new(1) v], of "m mod ?N" "m div ?N"]
          k j some(3) n by (simp add: fr D flip: nd_def)
      ultimately show ?case using wrote_after [OF new(1, 2)] by simp
    qed
  qed
qed

lemma write_map_wrote:
  fixes s :: mfs and position :: nat
  defines "n \<equiv> position div s_block_size (sb s) div 2 ^ s_log_zone_size (sb s)"
  assumes ok: "map_ok E s r" and c: "conv_ok E" and a: "alloc_ok E (sb s)" and v: "legal (sb s) v"
    and n: "n < nzones s r" and imm: "i_mode (inodes s r) AND I_TYPE \<noteq> I_IMMEDIATE"
  shows "wrote E r n v s (write_map E r position v False s)"
proof -
  let ?s = "upd_inode r (i_dirty_update (\<lambda>_. True)) s" and ?nd = "i_ndzones (inodes s r)" and ?N = "nind s r"
  have d: "map_step E r s ?s" "map_zone E ?s r = map_zone E s r" using step_same [OF ok, of ?s "err_code s" True] by simp_all
  note dirty = d map_stepD [OF d(1)]
  have "wrote E r n v ?s (write_map E r position v False s)"
  proof (cases "n < ?nd")
    case True
    have "v < 2 ^ 32" using ok v by (auto simp: map_ok_def geometry_ok_def legal_def)
    from step_direct [OF dirty(3) _ this, of n] True imm show ?thesis
      by (simp add: write_map_def n_def Let_def wrote_OK)
  next
    case False
    show ?thesis
    proof (cases "n - ?nd < ?N")
      case True
      have "write_map E r position v False s =
        write_map_ind E r v False (InInode ?nd) (zone_no (inodes ?s r) ?nd) NO_ZONE (n - ?nd) ?s"
        using False True imm by (simp add: write_map_def Let_def n_def)
      then show ?thesis using write_map_single [OF dirty(3) c dirty(4) [OF a] dirty(5) [OF v], of "n - ?nd"] False True
        by (simp add: not_less)
    next
      case False': False
      have "write_map E r position v False s = write_map_dbl E r v False (n - ?nd - ?N) ?s"
        using False False' imm by (simp add: write_map_def Let_def n_def)
      moreover have "n - ?nd - ?N < ?N * ?N" "?nd + ?N + (n - ?nd - ?N) = n"
        using n False False' by (simp_all add: nzones_def)
      ultimately show ?thesis
        using write_map_dbl_wrote [OF dirty(3) c dirty(4) [OF a] dirty(5) [OF v], of "n - ?nd - ?N"] by simp
    qed
  qed
  then show ?thesis by (rule wrote_after [OF dirty(1, 2)])
qed


text \<open>A small file system: blocks of eight bytes, two direct zones, and room for zones 5 to 99.\<close>

definition tiny_env :: mfs_env where
  "tiny_env = \<lparr>conv4 = \<lambda>_ z. z, unread = \<lambda>_ _ _. 255,
     alloc_from = \<lambda>U h. (case filter (\<lambda>z. z \<notin> U) [5..<100] of [] \<Rightarrow> None | z # _ \<Rightarrow> Some z),
     find_inode = \<lambda>i. if i = 1 then Some 0 else None, get_block_size = \<lambda>_. 8,
     safecopyto = \<lambda>_ _. OK, safecopyfrom = \<lambda>_ _. OK, safememset = \<lambda>_ _. OK, lmfs_rdwt_err = \<lambda>_. NoErr,
     cached = \<lambda>_ _. False, lmfs_nr_bufs = 64, lmfs_bufs_in_use = 0, NR_IOREQS = 64, read_q_alloc = True,
     get_inode = \<lambda>i. if i = 1 then Some 0 else None, DIRENT_RECLEN = \<lambda>n. n + 24, GETDENTS_BUFSIZE = 85\<rparr>"

definition tiny :: mfs where
  "tiny = \<lparr>blk = \<lambda>_ _ _. 0,
     inodes = \<lambda>_. \<lparr>i_mode = I_REGULAR, i_size = 0, i_dev = 1, i_num = 1, i_ndzones = 2, i_nindirs = 2, i_zone = \<lambda>_. 0,
       i_zsearch = 0, i_no_seek = True, i_update = {}, i_dirty = False\<rparr>,
     sb = \<lparr>s_block_size = 8, s_log_zone_size = 0, s_max_size = 64, s_firstdatazone = 5, s_zones = 100, s_rd_only = False,
       s_native = True, s_v3 = True, s_dev = 1\<rparr>,
     zmap = {}, err_code = EINVAL, ubuf = \<lambda>_. 0, out_seek_pos = 0, out_nbytes = 0, read_ahead = [], readqsize = 64\<rparr>"

lemma tiny_ok: "map_ok tiny_env tiny r" "conv_ok tiny_env" "alloc_ok tiny_env (sb tiny)"
proof -
  have e: "ent tiny_env tiny r = (\<lambda>_ _. 0)" by (simp add: fun_eq_iff ent_def tiny_env_def tiny_def)
  have "get_zone (\<lambda>_. 0) = (\<lambda>_. 0)" by (simp add: fun_eq_iff)
  moreover have "indirects nd N (\<lambda>_. 0) (\<lambda>_ _. 0) = {}" for nd N by (simp add: indirects_def)
  ultimately show "map_ok tiny_env tiny r"
    by (simp add: map_ok_def geometry_ok_def shape_ok_def e) (simp add: tiny_def V2_INDIRECTS_def)
  show "conv_ok tiny_env" by (simp add: conv_ok_def tiny_env_def)
  show "alloc_ok tiny_env (sb tiny)"
    by (auto simp: alloc_ok_def tiny_env_def tiny_def split: list.splits dest!: filter_eq_ConsD)
qed


end
