(* ===== verification/Mfs_Files.thy ===== *)
theory Mfs_Files
  imports Mfs_Map
begin

unbundle bit_operations_syntax

text \<open>
  New blocks of a file, the data of immediate files, reading ahead, and the records of a
  directory: what \<open>new_block\<close>, \<open>fs_readwrite\<close>, \<open>rahead\<close> and \<open>fs_getdents\<close> do, over the
  map of \<open>Mfs_Map\<close>.
\<close>

subsection \<open>\<open>new_block\<close>\<close>

lemma shape_ok_mono: "shape_ok p nd N U d e \<Longrightarrow> U \<subseteq> U' \<Longrightarrow> shape_ok p nd N U' d e"
  by (auto simp: shape_ok_def)

lemma shape_ok_less: "shape_ok p nd N U d e \<Longrightarrow> z \<notin> indirects nd N d e \<Longrightarrow> shape_ok p nd N (U - {z}) d e"
  by (auto simp: shape_ok_def)

lemma map_ok_sub: "map_ok E s r \<Longrightarrow> meta E s r \<subseteq> zmap s"
  unfolding map_ok_def meta_def by (blast dest: shape_okD(1))

text \<open>A state with the same map: only zones that are no indirect blocks come and go.\<close>

lemma map_same:
  assumes "sb s' = sb s" and "blk s' = blk s" and "i_dev (inodes s' r) = i_dev (inodes s r)"
    and "i_ndzones (inodes s' r) = i_ndzones (inodes s r)" and "i_nindirs (inodes s' r) = i_nindirs (inodes s r)"
    and "i_zone (inodes s' r) = i_zone (inodes s r)"
  shows "map_zone E s' r = map_zone E s r" and "meta E s' r = meta E s r"
    and "map_ok E s r \<Longrightarrow> meta E s r \<subseteq> zmap s' \<Longrightarrow> map_ok E s' r"
  using assms ent_cong [OF assms(1-3)] by (simp_all add: map_zone_def meta_def map_ok_def geometry_ok_def shape_ok_def)

text \<open>Clearing a block of a zone that is no indirect block.\<close>

lemma map_zero:
  assumes "b \<notin> (\<lambda>z. z * 2 ^ s_log_zone_size (sb s)) ` meta E s r" and "map_ok E s r"
    and s': "s' = upd_blk (i_dev (inodes s r)) b f s"
  shows "map_zone E s' r = map_zone E s r" and "meta E s' r = meta E s r" and "map_ok E s' r"
proof -
  let ?nd = "i_ndzones (inodes s r)" and ?N = "nind s r" and ?d = "zone_no (inodes s r)"
  have "ent E s' r z = ent E s r z" if "z \<in> meta E s r" for z
    using assms(1) that by (auto simp: ent_def fun_eq_iff s')
  then have e: "ent E s' r z = ent E s r z" if "z \<in> indirects ?nd ?N ?d (ent E s r)" for z using that by (simp add: meta_def)
  have D: "?d (Suc ?nd) \<noteq> 0 \<Longrightarrow> ent E s' r (?d (Suc ?nd)) = ent E s r (?d (Suc ?nd))" by (rule e, rule indirects_memb(2))
  have ind: "indirects ?nd ?N ?d (ent E s' r) = indirects ?nd ?N ?d (ent E s r)" using D by (simp add: indirects_def)
  have i: "inodes s' r = inodes s r" "sb s' = sb s" "zmap s' = zmap s" by (simp_all add: s')
  show "meta E s' r = meta E s r" by (simp add: meta_def ind i)
  have "shape_ok (sb s) ?nd ?N (zmap s) ?d (ent E s' r)"
    using assms(2) e D unfolding map_ok_def shape_ok_def ind by simp
  then show "map_ok E s' r" using assms(2) by (simp add: map_ok_def geometry_ok_def i)
  have dr: "deref (ent E s' r) z k = deref (ent E s r) z k" if "z = 0 \<or> z \<in> indirects ?nd ?N ?d (ent E s r)" for z k
    using e [of z] that by (auto simp: deref_def)
  have "deref (ent E s' r) (deref (ent E s r) (?d (Suc ?nd)) j) k = deref (ent E s r) (deref (ent E s r) (?d (Suc ?nd)) j) k"
    if "j < ?N" for j k using indirects_memb(3) [of ?d ?nd j ?N "ent E s r"] that by (intro dr) (auto simp: deref_def)
  moreover have "deref (ent E s' r) (?d ?nd) k = deref (ent E s r) (?d ?nd) k"
    "deref (ent E s' r) (?d (Suc ?nd)) k = deref (ent E s r) (?d (Suc ?nd)) k" for k
    using indirects_memb(1, 2) [of ?d ?nd ?N "ent E s r"] by (intro dr, blast)+
  ultimately show "map_zone E s' r = map_zone E s r"
    by (auto simp: map_zone_def zone_at_def fun_eq_iff i less_mult_imp_div_less)
qed

lemma block_scale_0: "s_log_zone_size (sb s) = 0 \<Longrightarrow>
    read_map_block (s_log_zone_size (sb s)) (p div s_block_size (sb s) - p div s_block_size (sb s) div 2 ^ s_log_zone_size (sb s) * 2 ^ s_log_zone_size (sb s)) z = z"
  by (simp add: read_map_block_def NO_BLOCK_def NO_ZONE_def)

text \<open>
  A new zone for a hole: the state after the zone has been allocated, and what \<open>write_map\<close>
  makes of it.
\<close>

lemma new_block_zone_correct:
  fixes s :: mfs and position :: nat
  defines "n \<equiv> position div s_block_size (sb s)"
  assumes ok: "map_ok E s r" and c: "conv_ok E" and a: "alloc_ok E (sb s)" and n: "n < nzones s r"
    and imm: "i_mode (inodes s r) AND I_TYPE \<noteq> I_IMMEDIATE" and sc: "s_log_zone_size (sb s) = 0"
  shows "\<exists>s' bo. new_block_zone E r position s = Returned (s', bo) \<and> map_ok E s' r \<and> sb s' = sb s \<and>
    i_dev (inodes s' r) = i_dev (inodes s r) \<and> nzones s' r = nzones s r \<and> meta E s' r \<inter> zmap s = meta E s r \<and>
    (\<forall>dev b. dev \<noteq> i_dev (inodes s r) \<or> b \<notin> meta E s' r \<longrightarrow> blk s' dev b = blk s dev b) \<and>
    (case bo of
       None \<Rightarrow> err_code s' = ENOSPC \<and> zmap s' = zmap s \<union> meta E s' r \<and> map_zone E s' r = map_zone E s r
     | Some b \<Rightarrow> b \<notin> zmap s \<and> b \<noteq> 0 \<and> legal (sb s) b \<and> b \<notin> meta E s' r \<and> zmap s' = zmap s \<union> {b} \<union> meta E s' r \<and>
         map_zone E s' r = (map_zone E s r)(n := b))"
proof -
  have f: "0 < s_firstdatazone (sb s)" using ok by (simp add: map_ok_def geometry_ok_def)
  show ?thesis
  proof (rule alloc_zone_cases [OF a f, of "new_block_hint (inodes s r) s"], goal_cases none some)
    case none
    let ?s = "s\<lparr>err_code := ENOSPC\<rparr>"
    have "new_block_zone E r position s = Returned (?s, None)" using none by (simp add: new_block_zone_def NO_ZONE_def)
    moreover have "map_zone E ?s r = map_zone E s r" "meta E ?s r = meta E s r" "map_ok E ?s r"
      using map_same [of ?s s r E] ok map_ok_sub [OF ok] by simp_all
    ultimately show ?case using map_ok_sub [OF ok] by (auto simp: nzones_def)
  next
    case (some z)
    define t where "t = upd_inode r (i_zsearch_update (\<lambda>_. z)) (s\<lparr>zmap := insert z (zmap s)\<rparr>)"
    have t: "map_zone E t r = map_zone E s r" "meta E t r = meta E s r" "map_ok E t r"
      using map_same [of t s r E] ok map_ok_sub [OF ok] by (simp_all add: t_def subset_insertI2)
    have tf: "sb t = sb s" "blk t = blk s" "zmap t = insert z (zmap s)" "nzones t r = nzones s r" "i_dev (inodes t r) = i_dev (inodes s r)"
      "i_mode (inodes t r) = i_mode (inodes s r)" "i_ndzones (inodes t r) = i_ndzones (inodes s r)" "nind t r = nind s r"
      by (simp_all add: t_def nzones_def)
    obtain u res where w: "write_map E r position z False t = Returned (u, res)" "map_step E r t u"
      "res = OK \<and> map_zone E u r = (map_zone E s r)(n := z) \<or> res = Err ENOSPC \<and> map_zone E u r = map_zone E s r"
      using write_map_wrote [OF t(3) c, of z position] a some(4) n imm sc unfolding wrote_def by (auto simp: tf t n_def)
    note fr = map_step_sb [OF w(2)] map_step_inode [OF w(2)]
    have m: "meta E u r \<inter> zmap t = meta E s r" "zmap u = zmap t \<union> meta E u r" using w(2) by (simp_all add: map_step_def t)
    have "meta E s r \<subseteq> zmap s" using map_ok_sub [OF ok] by blast
    then have zm: "z \<notin> meta E u r" "meta E u r \<inter> zmap s = meta E s r" using m(1) some(2) tf(3) by auto
    have B: "blk u dev b = blk s dev b" if "dev \<noteq> i_dev (inodes s r) \<or> b \<notin> meta E u r" for dev b
      using w(2) that sc by (simp add: map_step_def tf)
    have u: "map_ok E u r" by (rule map_stepD(1) [OF w(2)])
    have nb: "new_block_zone E r position s = bind_outcome (write_map E r position z False t) (\<lambda>(s2, res).
           if res \<noteq> OK then
             Returned ((free_zone z s2)\<lparr>err_code := (case res of Err e \<Rightarrow> e | _ \<Rightarrow> err_code s2)\<rparr>, None)
           else bind_outcome (if position \<noteq> i_size (inodes s2 r) then clear_zone s2 else Returned s2) (\<lambda>s3.
             let scale = s_log_zone_size (sb s3); zone_size = s_block_size (sb s3) * 2 ^ scale
             in Returned (s3, Some (z * 2 ^ scale + (position mod zone_size) div s_block_size (sb s3)))))"
      using some by (simp add: new_block_zone_def t_def NO_ZONE_def)
    show ?case
    proof (cases "res = OK")
      case True
      have "0 < s_block_size (sb s)" using ok by (auto simp: map_ok_def geometry_ok_def V2_INDIRECTS_def)
      then have "new_block_zone E r position s = Returned (u, Some z)"
        unfolding nb using w(1) True sc by (simp add: fr tf clear_zone_def)
      then show ?thesis using True w(3) u zm m B some by (auto simp: fr tf nzones_def)
    next
      case False
      let ?u = "(free_zone z u)\<lparr>err_code := ENOSPC\<rparr>"
      have "new_block_zone E r position s = Returned (?u, None)"
        unfolding nb using w False by simp
      moreover have "map_zone E ?u r = map_zone E u r" "meta E ?u r = meta E u r" "map_ok E ?u r"
        using map_same [of ?u u r E] u zm map_ok_sub [OF u] by (simp_all add: free_zone_def subset_Diff_insert)
      moreover have "zmap ?u = zmap s \<union> meta E u r" using m(2) tf(3) some(2) zm by (auto simp: free_zone_def)
      ultimately show ?thesis using False w(3) zm B by (auto simp: fr tf nzones_def free_zone_def)
    qed
  qed
qed



subsection \<open>Immediate files\<close>

text \<open>What the calls to other components have to allow for a transfer to go through.\<close>

definition no_errors :: "mfs_env \<Rightarrow> bool" where
  "no_errors E \<longleftrightarrow> lmfs_rdwt_err E = (\<lambda>_. NoErr) \<and> (\<forall>o' n. safecopyfrom E o' n = OK \<and> safecopyto E o' n = OK)"

abbreviation immediate :: "mfs \<Rightarrow> nat \<Rightarrow> bool" where
  "immediate s r \<equiv> i_mode (inodes s r) AND I_TYPE = I_IMMEDIATE"

abbreviation fits :: "mfs \<Rightarrow> nat \<Rightarrow> nat \<Rightarrow> bool" where
  "fits s position n \<equiv> int position \<le> sint (of_nat (s_max_size (sb s)) - of_nat n :: u32)"

lemma imm_types: "I_IMMEDIATE \<noteq> I_BLOCK_SPECIAL" "I_REGULAR \<noteq> I_BLOCK_SPECIAL" "I_REGULAR \<noteq> I_IMMEDIATE"
  by (simp_all add: mode_defs)

lemma rw_loop_0: "t_left t = 0 \<Longrightarrow> rw_loop E r rw f_size block_size t s = Returned (s, t)"
  by (subst rw_loop.simps) simp

text \<open>A write that stays within the inode, and a read of an immediate file.\<close>

lemma imm_write:
  assumes "find_inode E ino = Some r" and "immediate s r" and "no_errors E" and "\<not> s_rd_only (sb s)" and "fits s position n"
    and "position + n \<le> 32" and "position \<le> i_size (inodes s r)"
  shows "fs_readwrite E ino WRITING position n s =
    Returned (s\<lparr>inodes := (inodes s)(r := (inodes s r)\<lparr>i_size := max (i_size (inodes s r)) (position + n),
        i_zone := copy_bytes (ubuf s) 0 n (i_zone (inodes s r)) position, i_no_seek := True,
        i_update := i_update (inodes s r) \<union> {CTIME, MTIME}, i_dirty := True\<rparr>),
      out_seek_pos := position + n, out_nbytes := n\<rparr>, OK)"
proof -
  let ?t = "\<lparr>t_left = 0, t_cum_io = n, t_pos = position + n, t_res = OK\<rparr>"
  let ?s = "upd_inode r (i_dirty_update (\<lambda>_. True)) (upd_inode r (i_zone_update (\<lambda>z. copy_bytes (ubuf s) 0 n z position)) s)"
  have ck: "rw_check r False (i_size (inodes s r)) WRITING position n s = Returned (Inr s)"
    using assms by (simp add: rw_check_def)
  have st: "imm_step E r (i_size (inodes s r)) WRITING position n s = Returned (s, Some True)"
    using assms by (simp add: imm_step_def)
  have tr: "imm_transfer E r (i_size (inodes s r)) WRITING \<lparr>t_left = n, t_cum_io = 0, t_pos = position, t_res = OK\<rparr> s = Returned (?s, ?t)"
    using assms(3) by (simp add: imm_transfer_def no_errors_def)
  have fin: "rw_finish E r WRITING True (i_size (inodes s r)) ?t ?s =
    (s\<lparr>inodes := (inodes s)(r := (inodes s r)\<lparr>i_size := max (i_size (inodes s r)) (position + n),
        i_zone := copy_bytes (ubuf s) 0 n (i_zone (inodes s r)) position, i_no_seek := True,
        i_update := i_update (inodes s r) \<union> {CTIME, MTIME}, i_dirty := True\<rparr>),
      out_seek_pos := position + n, out_nbytes := n\<rparr>, OK)"
    using assms(3, 4) by (cases "inodes s r") (simp add: rw_finish_def no_errors_def Let_def max_def fun_eq_iff)
  show ?thesis using assms(1, 2) fin by (simp add: fs_readwrite_def Let_def imm_types ck st tr rw_loop_0)
qed

lemma imm_read:
  assumes "find_inode E ino = Some r" and "immediate s r" and "no_errors E" and "\<not> s_rd_only (sb s)"
    and "position < i_size (inodes s r)" and "i_size (inodes s r) \<le> 40"
  shows "fs_readwrite E ino READING position m s =
    Returned (s\<lparr>inodes := (inodes s)(r := (inodes s r)\<lparr>i_no_seek := True, i_update := insert ATIME (i_update (inodes s r)), i_dirty := True\<rparr>),
      ubuf := copy_bytes (i_zone (inodes s r)) 0 (i_size (inodes s r)) (ubuf s) 0,
      out_seek_pos := position + i_size (inodes s r), out_nbytes := i_size (inodes s r)\<rparr>, OK)"
proof -
  let ?f = "i_size (inodes s r)"
  let ?t = "\<lparr>t_left = 0, t_cum_io = ?f, t_pos = position + ?f, t_res = OK\<rparr>"
  let ?s = "s\<lparr>ubuf := copy_bytes (i_zone (inodes s r)) 0 ?f (ubuf s) 0\<rparr>"
  have ck: "rw_check r False ?f READING position m s = Returned (Inr s)" by (simp add: rw_check_def)
  have st: "imm_step E r ?f READING position m s = Returned (s, Some True)" using assms by (simp add: imm_step_def)
  have tr: "imm_transfer E r ?f READING \<lparr>t_left = m, t_cum_io = 0, t_pos = position, t_res = OK\<rparr> s = Returned (?s, ?t)"
    using assms(3, 6) by (simp add: imm_transfer_def no_errors_def imm_buffer_def)
  have fin: "rw_finish E r READING True ?f ?t ?s =
    (s\<lparr>inodes := (inodes s)(r := (inodes s r)\<lparr>i_no_seek := True, i_update := insert ATIME (i_update (inodes s r)), i_dirty := True\<rparr>),
      ubuf := copy_bytes (i_zone (inodes s r)) 0 ?f (ubuf s) 0, out_seek_pos := position + ?f, out_nbytes := ?f\<rparr>, OK)"
    using assms(3, 4) by (simp add: rw_finish_def no_errors_def Let_def fun_eq_iff)
  show ?thesis using assms(1, 2) fin by (simp add: fs_readwrite_def Let_def imm_types ck st tr rw_loop_0)
qed

text \<open>
  C11: small writes to an immediate file and reading it back. As long as a write ends within
  the first 32 bytes, no block and no zone is touched: the file stays immediate and grows to
  the end of the write; whatever the user's buffer holds then, reading the whole file from
  its beginning gives the bytes just written where they were written and the old ones
  elsewhere.
\<close>

theorem imm_write_read:
  assumes "find_inode E ino = Some r" and "immediate s r" and "no_errors E" and "\<not> s_rd_only (sb s)" and "fits s position n"
    and "position + n \<le> 32" and "position \<le> i_size (inodes s r)" and "i_size (inodes s r) \<le> 32" and "0 < position + n"
  defines "len \<equiv> max (i_size (inodes s r)) (position + n)"
  shows "\<exists>s1. fs_readwrite E ino WRITING position n s = Returned (s1, OK) \<and> out_nbytes s1 = n \<and> immediate s1 r \<and>
    i_size (inodes s1 r) = len \<and> blk s1 = blk s \<and> zmap s1 = zmap s \<and>
    (\<forall>u. \<exists>s2. fs_readwrite E ino READING 0 len (s1\<lparr>ubuf := u\<rparr>) = Returned (s2, OK) \<and> out_nbytes s2 = len \<and>
      (\<forall>i. ubuf s2 i =
         (if position \<le> i \<and> i < position + n then ubuf s (i - position) else if i < len then i_zone (inodes s r) i else u i)))"
proof -
  define s1 where "s1 = s\<lparr>inodes := (inodes s)(r := (inodes s r)\<lparr>i_size := max (i_size (inodes s r)) (position + n),
        i_zone := copy_bytes (ubuf s) 0 n (i_zone (inodes s r)) position, i_no_seek := True,
        i_update := i_update (inodes s r) \<union> {CTIME, MTIME}, i_dirty := True\<rparr>), out_seek_pos := position + n, out_nbytes := n\<rparr>"
  have w: "fs_readwrite E ino WRITING position n s = Returned (s1, OK)" unfolding s1_def by (rule imm_write [OF assms(1-7)])
  have f: "i_mode (inodes s1 r) = i_mode (inodes s r)" "i_size (inodes s1 r) = len" "sb s1 = sb s"
    "i_zone (inodes s1 r) = copy_bytes (ubuf s) 0 n (i_zone (inodes s r)) position"
    by (simp_all add: s1_def len_def)
  have l: "0 < len" "len \<le> 40" "\<And>i. i < position + n \<Longrightarrow> i < len" using assms(6, 8, 9) by (auto simp: len_def)
  have "\<exists>s2. fs_readwrite E ino READING 0 len (s1\<lparr>ubuf := u\<rparr>) = Returned (s2, OK) \<and> out_nbytes s2 = len \<and>
      (\<forall>i. ubuf s2 i =
         (if position \<le> i \<and> i < position + n then ubuf s (i - position) else if i < len then i_zone (inodes s r) i else u i))" for u
    using assms(2-4) l imm_read [OF assms(1), of "s1\<lparr>ubuf := u\<rparr>" 0 len]
    by (simp add: f copy_bytes_def)
  then show ?thesis using w assms(2) by (intro exI [of _ s1]) (simp add: f, simp add: s1_def)
qed

definition tiny_imm :: mfs where
  "tiny_imm = tiny\<lparr>inodes := \<lambda>_. (inodes tiny 0)\<lparr>i_mode := I_IMMEDIATE OR 420, i_size := 3, i_zone := (\<lambda>_. 0)(0 := 97, 1 := 98, 2 := 99)\<rparr>,
     ubuf := \<lambda>i. 100 + of_nat i\<rparr>"

lemma tiny_imm_ok: "find_inode tiny_env 1 = Some 0" "immediate tiny_imm 0" "no_errors tiny_env" "\<not> s_rd_only (sb tiny_imm)"
  "fits tiny_imm 2 4" "i_size (inodes tiny_imm 0) = 3" "fits tiny_imm 2 40"
  by (simp_all add: tiny_env_def tiny_imm_def tiny_def no_errors_def mode_defs)

theorem imm_write_read_witness:
  "\<exists>s1. fs_readwrite tiny_env 1 WRITING 2 4 tiny_imm = Returned (s1, OK) \<and> i_size (inodes s1 0) = 6"
  using imm_write_read [OF tiny_imm_ok(1-5)] by (auto simp: tiny_imm_ok)

text \<open>
  A read of an immediate file ignores what was asked for: from any position before the
  end of the file and for any number of bytes, the whole file is copied to the user from its
  first byte on, and the position moves on by the size of the file.
\<close>

theorem imm_read_ignores_request:
  assumes "find_inode E ino = Some r" and "immediate s r" and "no_errors E" and "\<not> s_rd_only (sb s)"
    and "position < i_size (inodes s r)" and "i_size (inodes s r) \<le> 32"
  shows "\<exists>s'. fs_readwrite E ino READING position m s = Returned (s', OK) \<and> out_nbytes s' = i_size (inodes s r) \<and>
    out_seek_pos s' = position + i_size (inodes s r) \<and>
    (\<forall>i. ubuf s' i = (if i < i_size (inodes s r) then i_zone (inodes s r) i else ubuf s i))"
  using assms by (simp add: imm_read copy_bytes_def)

theorem imm_read_ignores_request_witness:
  "\<exists>s'. fs_readwrite tiny_env 1 READING 2 1 tiny_imm = Returned (s', OK) \<and> out_nbytes s' = 3 \<and> out_seek_pos s' = 5 \<and> ubuf s' 0 = 97"
  using imm_read_ignores_request [OF tiny_imm_ok(1-4), of 2 1] by (auto simp: tiny_imm_ok(6)) (simp add: tiny_imm_def)

subsection \<open>Immediate files that grow\<close>

lemma regular_mode: "(I_REGULAR OR (m AND ALL_MODES)) AND I_TYPE = I_REGULAR"
  by (simp add: mode_defs bit.conj_disj_distrib2 and.assoc)

lemma erased_zone_0: "get_zone (fold (\<lambda>i. set_zone i NO_ZONE) [0..<V2_NR_TZONES] d) 0 = 0"
proof -
  have "get_zone (fold (\<lambda>i. set_zone i NO_ZONE) is d) j = (if j \<in> set is then 0 else get_zone d j)" for j "is"
    by (induction "is" arbitrary: d) (auto simp: get_set_zone NO_ZONE_def)
  then show ?thesis by (simp add: V2_NR_TZONES_def)
qed

text \<open>The inode after the data have been taken out of it.\<close>

definition erased :: "inode \<Rightarrow> inode" where
  "erased rip = rip\<lparr>i_size := 0, i_update := {ATIME, CTIME, MTIME}, i_dirty := True,
     i_zone := fold (\<lambda>i. set_zone i NO_ZONE) [0..<V2_NR_TZONES] (i_zone rip), i_mode := I_REGULAR OR (i_mode rip AND ALL_MODES)\<rparr>"

lemma imm_convert_eq:
  assumes "f_size \<le> 40"
  shows "imm_convert E r f_size s = bind_outcome (new_block E r 0 (s\<lparr>inodes := (inodes s)(r := erased (inodes s r))\<rparr>)) (\<lambda>(s3, bo).
    case bo of
      None \<Rightarrow> Returned (s3, False)
    | Some b \<Rightarrow> Returned (upd_blk (i_dev (inodes s3 r)) b (\<lambda>d i. if i < f_size then i_zone (inodes s r) i else d i) s3, True))"
  using assms by (simp add: imm_convert_def imm_buffer_def removeInodeEntry_def erased_def Let_def cong: if_cong)

lemma new_block_erased:
  fixes s :: mfs and r :: nat
  defines "s2 \<equiv> s\<lparr>inodes := (inodes s)(r := erased (inodes s r))\<rparr>"
  assumes "0 < i_ndzones (inodes s r)" and "0 < s_block_size (sb s)"
  shows "new_block E r 0 s2 =
    (case alloc_zone E (new_block_hint (erased (inodes s r)) s2) s2 of
       (s3, z) \<Rightarrow> if z = 0 then Returned (s3, None)
         else let s4 = set_izone r 0 z (upd_inode r (\<lambda>rip. rip\<lparr>i_zsearch := z, i_dirty := True\<rparr>) s3); b = z * 2 ^ s_log_zone_size (sb s)
              in Returned (zero_block (i_dev (inodes s r)) b s4, Some b))"
proof -
  have e: "i_mode (erased (inodes s r)) AND I_TYPE = I_REGULAR" "get_zone (i_zone (erased (inodes s r))) 0 = 0"
    "i_size (erased (inodes s r)) = 0" "i_ndzones (erased (inodes s r)) = i_ndzones (inodes s r)" "i_dev (erased (inodes s r)) = i_dev (inodes s r)"
    by (simp_all add: erased_def regular_mode erased_zone_0)
  have rm: "read_map E (erased (inodes s r)) 0 False s2 = Returned NO_BLOCK"
    using assms(2) by (simp add: read_map_def e read_map_block_def NO_ZONE_def)
  obtain s3 z where a: "alloc_zone E (new_block_hint (erased (inodes s r)) s2) s2 = (s3, z)" by fastforce
  have i2: "inodes s2 r = erased (inodes s r)" "sb s2 = sb s" by (simp_all add: s2_def)
  from a have s3: "sb s3 = sb s" "inodes s3 = inodes s2" by (auto simp: alloc_zone_def i2 split: option.splits)
  show ?thesis using rm
    by (simp add: new_block_def new_block_zone_def a s3 i2 NO_BLOCK_def NO_ZONE_def Let_def write_map_def e imm_types zero_block_get
        assms(2))
qed

text \<open>A write into the first block of a regular file.\<close>

lemma write_first_block:
  assumes ino: "i_mode (inodes s r) AND I_TYPE = I_REGULAR" "i_num (inodes s r) \<noteq> 0" "0 < i_ndzones (inodes s r)"
    and z: "zone_no (inodes s r) 0 = z" "z \<noteq> 0" and sc: "s_log_zone_size (sb s) = 0"
    and n: "0 < n" "position + n \<le> s_block_size (sb s)" "position + n < 2 ^ 32" and e: "no_errors E"
  shows "\<exists>d. rw_loop E r WRITING f (s_block_size (sb s)) \<lparr>t_left = n, t_cum_io = 0, t_pos = position, t_res = OK\<rparr> s =
      Returned (upd_blk (i_dev (inodes s r)) z (\<lambda>_. d) s, \<lparr>t_left = 0, t_cum_io = n, t_pos = position + n, t_res = OK\<rparr>) \<and>
    (\<forall>i < position + n. d i = (if position \<le> i then ubuf s (i - position) else blk s (i_dev (inodes s r)) z i))"
proof -
  let ?bs = "s_block_size (sb s)" and ?dev = "i_dev (inodes s r)"
  have p: "position < ?bs" "position < 2 ^ 32" using n by simp_all
  have rm: "read_map E (inodes s r) position False s = Returned z"
    using p z ino(3) sc by (simp add: read_map_def read_map_block_def NO_ZONE_def)
  define m where "m = (if n = ?bs \<or> position = 0 \<and> position \<ge> i_size (inodes s r) then NO_READ else NORMAL)"
  define s1 where "s1 = get_block E ?dev z m s"
  define s2 where "s2 = (if n \<noteq> ?bs \<and> position \<ge> i_size (inodes s r) \<and> position = 0 then zero_block ?dev z s1 else s1)"
  obtain d1 where d1: "s1 = upd_blk ?dev z (\<lambda>_. d1) s" "0 < position \<Longrightarrow> d1 = blk s ?dev z"
  proof (cases "m = NO_READ")
    case True
    then have "position = 0" using n by (auto simp: m_def split: if_splits)
    with True show ?thesis by (intro that [of "unread E ?dev z"]) (simp_all add: s1_def get_block_def)
  next
    case False
    then show ?thesis by (intro that [of "blk s ?dev z"]) (simp_all add: s1_def get_block_def)
  qed
  obtain d where d: "s2 = upd_blk ?dev z (\<lambda>_. d) s" "0 < position \<Longrightarrow> d = blk s ?dev z"
  proof (cases "n \<noteq> ?bs \<and> position \<ge> i_size (inodes s r) \<and> position = 0")
    case True
    then show ?thesis by (intro that [of "\<lambda>_. 0"]) (simp_all add: s2_def d1(1) zero_block_def)
  next
    case False
    then have "s2 = s1" unfolding s2_def by (rule if_not_P)
    then show ?thesis using d1 by (intro that [of d1]) simp_all
  qed
  have ch: "chunk_buffer E r (inodes s r) position position n n WRITING 0 ?bs z s = Returned (s1, Inr z)"
    using ino z by (simp add: chunk_buffer_def imm_types NO_BLOCK_def s1_def m_def Let_def)
  have rw: "rw_chunk E r (inodes s r) position position n n WRITING 0 ?bs s =
      Returned (upd_blk ?dev z (\<lambda>d. copy_bytes (ubuf s2) 0 n d position) s2, OK)"
    using ino p e by (simp add: rw_chunk_def imm_types rm ch Let_def s2_def no_errors_def)
  have mn: "min n (?bs - position) = n" using n by simp
  define d' where "d' = copy_bytes (ubuf s) 0 n d position"
  have "upd_blk ?dev z (\<lambda>d. copy_bytes (ubuf s2) 0 n d position) s2 = upd_blk ?dev z (\<lambda>_. d') s" by (simp add: d d'_def)
  then have "rw_loop E r WRITING f ?bs \<lparr>t_left = n, t_cum_io = 0, t_pos = position, t_res = OK\<rparr> s =
      Returned (upd_blk ?dev z (\<lambda>_. d') s, \<lparr>t_left = 0, t_cum_io = n, t_pos = position + n, t_res = OK\<rparr>)"
    using n p e rw mn by (subst rw_loop.simps) (simp add: no_errors_def Let_def rw_loop_0)
  moreover have "d' i = (if position \<le> i then ubuf s (i - position) else blk s ?dev z i)" if "i < position + n" for i
    using that d(2) by (auto simp: d'_def copy_bytes_def)
  ultimately show ?thesis by blast
qed

text \<open>
  C24: an immediate file that outgrows its inode. A write that ends beyond 32 bytes makes the
  file regular: a zone that was free becomes its first one, the block holds the old bytes
  before the position and the written ones from it on, the size is the end of the write, and
  the permission bits are kept. (A zone is free, the write fits in one block, and it starts
  within the file.)
\<close>

theorem imm_grow_keeps_data:
  assumes find: "find_inode E ino = Some r" and imm: "immediate s r" and e: "no_errors E" "\<not> s_rd_only (sb s)" "fits s position n"
    and n: "32 < position + n" "position + n \<le> s_block_size (sb s)" "s_block_size (sb s) < 2 ^ 32"
    and pos: "position \<le> i_size (inodes s r)" "i_size (inodes s r) \<le> 32"
    and ino: "i_num (inodes s r) \<noteq> 0" "0 < i_ndzones (inodes s r)"
    and dev: "s_log_zone_size (sb s) = 0" "0 < s_firstdatazone (sb s)" "s_zones (sb s) \<le> 2 ^ 32" "alloc_ok E (sb s)"
      "\<forall>h. alloc_from E (zmap s) h \<noteq> None"
  shows "\<exists>s' z. fs_readwrite E ino WRITING position n s = Returned (s', OK) \<and> out_nbytes s' = n \<and>
    i_mode (inodes s' r) = I_REGULAR OR (i_mode (inodes s r) AND ALL_MODES) \<and> i_size (inodes s' r) = position + n \<and>
    z \<notin> zmap s \<and> zmap s' = insert z (zmap s) \<and> read_map E (inodes s' r) 0 False s' = Returned z \<and>
    (\<forall>i < position + n. blk s' (i_dev (inodes s r)) z i = (if position \<le> i then ubuf s (i - position) else i_zone (inodes s r) i)) \<and>
    (\<forall>d b. d \<noteq> i_dev (inodes s r) \<or> b \<noteq> z \<longrightarrow> blk s' d b = blk s d b)"
proof -
  let ?f = "i_size (inodes s r)" and ?dev = "i_dev (inodes s r)" and ?bs = "s_block_size (sb s)"
  define s2 where "s2 = s\<lparr>inodes := (inodes s)(r := erased (inodes s r))\<rparr>"
  have s2f: "sb s2 = sb s" "zmap s2 = zmap s" by (simp_all add: s2_def)
  obtain z where z: "alloc_zone E (new_block_hint (erased (inodes s r)) s2) s2 = (s2\<lparr>zmap := insert z (zmap s2)\<rparr>, z)" "z \<notin> zmap s" "z \<noteq> 0" "z < 2 ^ 32"
  proof -
    obtain z where "alloc_from E (zmap s) (new_block_hint (erased (inodes s r)) s2) = Some z" using dev(5) by fastforce
    moreover from this have "z \<notin> zmap s" "s_firstdatazone (sb s) \<le> z" "z < s_zones (sb s)" using dev(4) by (simp_all add: alloc_ok_def)
    ultimately show ?thesis using that [of z] dev(2, 3) by (simp add: alloc_zone_def s2f)
  qed
  define s3 where "s3 = zero_block ?dev z
    (set_izone r 0 z (upd_inode r (\<lambda>rip. rip\<lparr>i_zsearch := z, i_dirty := True\<rparr>) (s2\<lparr>zmap := insert z (zmap s2)\<rparr>)))"
  define s4 where "s4 = upd_blk ?dev z (\<lambda>d i. if i < ?f then i_zone (inodes s r) i else d i) s3"
  have nb: "new_block E r 0 s2 = Returned (s3, Some z)"
    unfolding s2_def by (subst new_block_erased [OF ino(2)], use n in simp, fold s2_def, simp add: z(1, 3) s3_def dev(1))
  have i3: "i_dev (inodes s3 r) = ?dev" by (simp add: s3_def s2_def zero_block_def erased_def)
  have cv: "imm_convert E r ?f s = Returned (s4, True)"
    unfolding imm_convert_eq [of ?f E r s, OF order.trans [OF pos(2)], simplified] s2_def [symmetric] nb by (simp add: s4_def i3 cong: if_cong)
  have f4: "sb s4 = sb s" "zmap s4 = insert z (zmap s)" "ubuf s4 = ubuf s" "i_mode (inodes s4 r) = I_REGULAR OR (i_mode (inodes s r) AND ALL_MODES)"
    "i_num (inodes s4 r) \<noteq> 0" "0 < i_ndzones (inodes s4 r)" "i_dev (inodes s4 r) = ?dev"
    using ino by (simp_all add: s4_def s3_def s2_def zero_block_def erased_def)
  have z4: "zone_no (inodes s4 r) 0 = z" using z(4) by (simp add: s4_def s3_def zero_block_def get_set_zone)
  have b4: "blk s4 ?dev z i = (if i < ?f then i_zone (inodes s r) i else 0)" for i by (simp add: s4_def s3_def zero_block_def)
  have o4: "blk s4 d b = blk s d b" if "d \<noteq> ?dev \<or> b \<noteq> z" for d b using that by (auto simp: s4_def s3_def s2_def zero_block_def)
  obtain d where d: "rw_loop E r WRITING ?f ?bs \<lparr>t_left = n, t_cum_io = 0, t_pos = position, t_res = OK\<rparr> s4 =
      Returned (upd_blk ?dev z (\<lambda>_. d) s4, \<lparr>t_left = 0, t_cum_io = n, t_pos = position + n, t_res = OK\<rparr>)"
    "\<forall>i < position + n. d i = (if position \<le> i then ubuf s (i - position) else blk s4 ?dev z i)"
    using write_first_block [of s4 r z n position E ?f] regular_mode n pos z(3) dev(1) e(1) by (auto simp: f4 z4)
  define s5 where "s5 = upd_blk ?dev z (\<lambda>_. d) s4"
  have st: "imm_step E r ?f WRITING position n s = Returned (s4, Some False)" using imm n by (simp add: imm_step_def cv)
  have ck: "rw_check r False ?f WRITING position n s = Returned (Inr s)" using e pos by (simp add: rw_check_def)
  have fs: "fs_readwrite E ino WRITING position n s =
      Returned (rw_finish E r WRITING True ?f \<lparr>t_left = 0, t_cum_io = n, t_pos = position + n, t_res = OK\<rparr> s5)"
    using find imm d(1) by (simp add: fs_readwrite_def Let_def imm_types ck st s5_def)
  obtain s' where s': "rw_finish E r WRITING True ?f \<lparr>t_left = 0, t_cum_io = n, t_pos = position + n, t_res = OK\<rparr> s5 = (s', OK)"
    "out_nbytes s' = n" "sb s' = sb s" "blk s' = blk s5" "zmap s' = insert z (zmap s)" "i_mode (inodes s' r) = i_mode (inodes s4 r)"
    "i_size (inodes s' r) = position + n" "zone_no (inodes s' r) 0 = z" "0 < i_ndzones (inodes s' r)"
    using e n pos z4 f4 by (simp add: rw_finish_def no_errors_def Let_def s5_def)
  have rm: "read_map E (inodes s' r) 0 False s' = Returned z"
    using s'(8, 9) z(3) dev(1) by (simp add: read_map_def read_map_block_def NO_ZONE_def s'(3))
  have "blk s5 ?dev z = d" "\<And>d' b. d' \<noteq> ?dev \<or> b \<noteq> z \<Longrightarrow> blk s5 d' b = blk s d' b" using o4 by (auto simp: s5_def)
  then show ?thesis using fs s' rm z(2) d(2) b4 pos(1) f4(4) by (intro exI [of _ s'] exI [of _ z]) auto
qed

definition tiny_grow :: mfs where
  "tiny_grow = tiny_imm\<lparr>sb := (sb tiny)\<lparr>s_block_size := 64, s_max_size := 1000\<rparr>\<rparr>"

lemma tiny_grow_ok: "immediate tiny_grow 0" "\<not> s_rd_only (sb tiny_grow)" "fits tiny_grow 2 40"
  "i_size (inodes tiny_grow 0) = 3" "s_block_size (sb tiny_grow) = 64" "i_num (inodes tiny_grow 0) = 1"
  "i_ndzones (inodes tiny_grow 0) = 2" "s_log_zone_size (sb tiny_grow) = 0"
  "s_firstdatazone (sb tiny_grow) = 5" "s_zones (sb tiny_grow) = 100" "alloc_ok tiny_env (sb tiny_grow)" "zmap tiny_grow = {}"
  using tiny_imm_ok(2) tiny_ok(3) by (simp_all add: tiny_grow_def alloc_ok_def) (simp_all add: tiny_imm_def tiny_def)

theorem imm_grow_keeps_data_witness:
  "\<exists>s'. fs_readwrite tiny_env 1 WRITING 2 40 tiny_grow = Returned (s', OK) \<and> i_size (inodes s' 0) = 42"
proof -
  have "\<forall>h. alloc_from tiny_env (zmap tiny_grow) h \<noteq> None"
    by (simp add: tiny_env_def tiny_grow_ok upt_rec)
  then show ?thesis
    using imm_grow_keeps_data [OF tiny_imm_ok(1) tiny_grow_ok(1) tiny_imm_ok(3) tiny_grow_ok(2, 3)] tiny_grow_ok(4-11)
    by (simp add: tiny_grow_ok) blast
qed

text \<open>
  When the device is full, the same write destroys the file: the inode is erased before
  the block is asked for, so the error \<open>ENOSPC\<close> leaves an empty regular file, whose first
  position is not mapped.
\<close>

theorem imm_grow_full_device_loses_data:
  assumes "find_inode E ino = Some r" and "immediate s r" and "\<not> s_rd_only (sb s)" and "fits s position n"
    and "32 < position + n" and "position + n < 2 ^ 32" and "position \<le> i_size (inodes s r)" and "i_size (inodes s r) \<le> 32"
    and "0 < i_ndzones (inodes s r)" and "0 < s_block_size (sb s)" and "\<forall>h. alloc_from E (zmap s) h = None"
  shows "\<exists>s'. fs_readwrite E ino WRITING position n s = Returned (s', Err ENOSPC) \<and> i_size (inodes s' r) = 0 \<and>
    i_mode (inodes s' r) AND I_TYPE = I_REGULAR \<and> read_map E (inodes s' r) 0 False s' = Returned NO_BLOCK"
proof -
  define s2 where "s2 = s\<lparr>inodes := (inodes s)(r := erased (inodes s r))\<rparr>"
  have a: "alloc_zone E h s2 = (s2\<lparr>err_code := ENOSPC\<rparr>, 0)" for h using assms(11) by (simp add: alloc_zone_def s2_def NO_ZONE_def)
  have "new_block E r 0 s2 = Returned (s2\<lparr>err_code := ENOSPC\<rparr>, None)"
    unfolding s2_def by (subst new_block_erased [OF assms(9, 10)], fold s2_def, simp add: a)
  then have "imm_convert E r (i_size (inodes s r)) s = Returned (s2\<lparr>err_code := ENOSPC\<rparr>, False)"
    using assms(8) by (simp add: imm_convert_eq s2_def)
  then have "imm_step E r (i_size (inodes s r)) WRITING position n s = Returned (s2\<lparr>err_code := ENOSPC\<rparr>, None)"
    using assms(2, 5, 6) by (simp add: imm_step_def)
  moreover have "rw_check r False (i_size (inodes s r)) WRITING position n s = Returned (Inr s)"
    using assms(3, 4, 7) by (simp add: rw_check_def)
  ultimately have "fs_readwrite E ino WRITING position n s = Returned (s2\<lparr>err_code := ENOSPC\<rparr>, Err ENOSPC)"
    using assms(1, 2) by (simp add: fs_readwrite_def Let_def imm_types)
  then show ?thesis using assms(9) erased_zone_0
    by (simp add: s2_def erased_def regular_mode read_map_def read_map_block_def NO_ZONE_def)
qed

theorem imm_grow_full_device_loses_data_witness:
  "\<exists>s'. fs_readwrite (tiny_env\<lparr>alloc_from := \<lambda>_ _. None\<rparr>) 1 WRITING 2 40 tiny_grow = Returned (s', Err ENOSPC) \<and> i_size (inodes s' 0) = 0"
  using imm_grow_full_device_loses_data [of "tiny_env\<lparr>alloc_from := \<lambda>_ _. None\<rparr>" 1 0, OF _ tiny_grow_ok(1-3)] tiny_imm_ok(1)
  by (simp add: tiny_grow_ok) blast

subsection \<open>Reading ahead\<close>

lemma rahead_loop_length:
  "rahead_loop E rip spec dev bs ba block bp pos q s = Returned q' \<Longrightarrow>
     length q' \<le> max (length q + 1) (lmfs_nr_bufs E - 4 - lmfs_bufs_in_use E)"
proof (induction E rip spec dev bs ba block bp pos q s rule: rahead_loop.induct)
  case (1 E rip spec dev bs ba block bp pos q s)
  show ?case
  proof (cases "ba - 1 = 0 \<or> lmfs_bufs_in_use E + length (q @ [bp]) \<ge> lmfs_nr_bufs E - 4")
    case True
    with 1(2) have "q' = q @ [bp]" by (subst (asm) rahead_loop.simps) (auto simp: Let_def split: if_splits)
    then show ?thesis by simp
  next
    case False
    let ?m = "if spec then Returned NO_BLOCK else read_map E rip ((pos + bs) mod 2 ^ 32) True s"
    obtain b where b: "?m = Returned b" using 1(2) False by (subst (asm) rahead_loop.simps) (auto simp: Let_def)
    let ?bp = "if b \<noteq> NO_BLOCK then b else block + 1"
    have "q' = q @ [bp] \<or> rahead_loop E rip spec dev bs (ba - 1) (block + 1) ?bp (pos + bs) (q @ [bp]) s = Returned q'"
      using 1(2) False b by (subst (asm) rahead_loop.simps) (auto simp: Let_def split: if_splits)
    then show ?thesis
    proof
      assume r: "rahead_loop E rip spec dev bs (ba - 1) (block + 1) ?bp (pos + bs) (q @ [bp]) s = Returned q'"
      have "\<not> cached E dev ?bp \<or> q' = q @ [bp]"
        using 1(2) False b by (subst (asm) rahead_loop.simps) (auto simp: Let_def split: if_splits)
      then show ?thesis
        using 1(1) [OF refl _ _ refl refl, of ?bp b] r False by auto
    qed simp
  qed
qed

text \<open>
  Reading ahead stays within its queue. \<open>rahead\<close> enters at most as many blocks in the
  array \<open>read_q\<close> as this was allocated for, one for each buffer of the cache, and beyond
  the first one it leaves four buffers of the cache free.
\<close>

theorem rahead_within_queue:
  assumes "rahead E rip baseblock position bytes_ahead s = Returned s'" and "0 < lmfs_nr_bufs E"
  shows "\<exists>q. read_ahead s' = read_ahead s @ q \<and> length q \<le> readqsize s' \<and> readqsize s' = lmfs_nr_bufs E \<and>
    (length q \<le> 1 \<or> lmfs_bufs_in_use E + length q + 4 \<le> lmfs_nr_bufs E)"
proof (cases "read_ahead s' = read_ahead s")
  case True
  then show ?thesis using assms by (auto simp: rahead_def Let_def split: if_splits)
next
  case False
  then obtain q spec dev bs ba b pos s1 where "read_ahead s' = read_ahead s @ q" "readqsize s' = lmfs_nr_bufs E"
    "rahead_loop E rip spec dev bs ba b b pos [] s1 = Returned q"
    using assms(1) by (auto simp: rahead_def Let_def split: if_splits)
  with rahead_loop_length [OF this(3)] assms(2) show ?thesis by auto
qed

lemma rahead_loop_1: "rahead_loop E rip spec dev bs 1 block bp pos q s = Returned (q @ [bp])"
  by (subst rahead_loop.simps) simp

theorem rahead_within_queue_witness:
  "\<exists>s'. rahead tiny_env ((inodes tiny 0)\<lparr>i_size := 8\<rparr>) 5 0 8 tiny = Returned s' \<and> length (read_ahead s') \<le> 64"
proof -
  have "\<exists>s'. rahead tiny_env ((inodes tiny 0)\<lparr>i_size := 8\<rparr>) 5 0 8 tiny = Returned s'"
    by (simp add: rahead_def rahead_loop_1 NO_DEV_def tiny_def tiny_env_def rahead_blocks_def BLOCKS_MINIMUM_def mode_defs)
  then obtain s' where "rahead tiny_env ((inodes tiny 0)\<lparr>i_size := 8\<rparr>) 5 0 8 tiny = Returned s'" by blast
  with rahead_within_queue [OF this] show ?thesis by (auto simp: tiny_def tiny_env_def)
qed

subsection \<open>Directories\<close>

text \<open>The entries of a directory in use, from a position on: position, inode number, name.\<close>

definition block_entries :: "bytes \<Rightarrow> nat \<Rightarrow> nat list \<Rightarrow> (nat \<times> nat \<times> u8 list) list" where
  "block_entries d block_pos ks = map (\<lambda>k. (block_pos + DIR_ENTRY_SIZE * k, dir_ino d k, dir_name d k)) (filter (\<lambda>k. dir_ino d k \<noteq> 0) ks)"

function dir_entries :: "mfs_env \<Rightarrow> mfs \<Rightarrow> nat \<Rightarrow> nat \<Rightarrow> nat \<Rightarrow> (nat \<times> nat \<times> u8 list) list" where
  "dir_entries E s r pos block_pos =
     (let block_size = s_block_size (sb s)
      in if block_pos \<ge> i_size (inodes s r) \<or> block_size = 0 then []
         else case get_block_map E r block_pos s of
                Returned (Some (dev, b)) \<Rightarrow>
                  block_entries (blk s dev b) block_pos
                    [if block_pos < pos then (pos mod block_size) div DIR_ENTRY_SIZE else 0..<block_size div DIR_ENTRY_SIZE] @
                  dir_entries E s r pos (block_pos + block_size)
              | _ \<Rightarrow> [])"
  by pat_completeness auto
termination
  by (relation "measure (\<lambda>(E, s, r, pos, block_pos). i_size (inodes s r) - block_pos)") auto

declare dir_entries.simps [simp del]

definition listing :: "dirent list \<Rightarrow> (nat \<times> u8 list) list" where
  "listing recs = map (\<lambda>d. (d_fileno d, d_name d)) recs"

lemma listing_append: "listing (xs @ ys) = listing xs @ listing ys"
  by (simp add: listing_def)

abbreviation reclens :: "dirent list \<Rightarrow> nat" where
  "reclens recs \<equiv> sum_list (map d_reclen recs)"

text \<open>The offsets are the lengths of what the two buffers hold, and there is room for all of it.\<close>

definition getdents_ok :: "nat \<Rightarrow> getdents \<Rightarrow> bool" where
  "getdents_ok usize g \<longleftrightarrow> g_tmpbuf_off g = reclens (g_tmp g) \<and> g_userbuf_off g = reclens (g_out g) \<and>
     (\<forall>d \<in> set (g_tmp g). 0 < d_reclen d) \<and> (g_out g @ g_tmp g = [] \<or> g_userbuf_off g + g_tmpbuf_off g < usize)"

text \<open>From \<open>g\<close> to \<open>g'\<close> the entries \<open>es\<close> have been listed, all of them or up to the next position.\<close>

definition listed :: "(nat \<times> nat \<times> u8 list) list \<Rightarrow> getdents \<Rightarrow> getdents \<Rightarrow> bool" where
  "listed es g g' \<longleftrightarrow> (\<exists>m. listing (g_out g' @ g_tmp g') = listing (g_out g @ g_tmp g) @ map snd (take m es) \<and>
     (if g_done g' then m < length es \<and> g_new_pos g' = fst (es ! m) else m = length es \<and> g_new_pos g' = g_new_pos g))"

lemma listed_nil: "\<not> g_done g \<Longrightarrow> listed [] g g"
  by (simp add: listed_def)

lemma listed_stop: "es \<noteq> [] \<Longrightarrow> listed es g (g\<lparr>g_done := True, g_new_pos := fst (hd es)\<rparr>)"
  by (auto simp: listed_def hd_conv_nth intro!: exI [of _ 0])

lemma listed_append:
  assumes "listed es g g'" and "\<not> g_done g'" and "listed es' g' g''"
  shows "listed (es @ es') g g''"
proof -
  obtain m where "listing (g_out g'' @ g_tmp g'') = listing (g_out g' @ g_tmp g') @ map snd (take m es')"
    "if g_done g'' then m < length es' \<and> g_new_pos g'' = fst (es' ! m) else m = length es' \<and> g_new_pos g'' = g_new_pos g'"
    using assms(3) by (auto simp: listed_def)
  with assms(1, 2) show ?thesis
    by (auto simp: listed_def nth_append intro!: exI [of _ "length es + m"])
qed

lemma listed_append_done: "listed es g g' \<Longrightarrow> g_done g' \<Longrightarrow> listed (es @ es') g g'"
  by (auto simp: listed_def nth_append)

lemma getdents_flush_ok:
  assumes "getdents_flush E g = Inl g'" and "getdents_ok usize g"
  shows "getdents_ok usize g'" and "g_out g' @ g_tmp g' = g_out g @ g_tmp g" and "g_done g' = g_done g" and "g_new_pos g' = g_new_pos g"
    and "g_tmp g' = []" and "g_userbuf_off g' + g_tmpbuf_off g' = g_userbuf_off g + g_tmpbuf_off g"
  using assms by (auto simp: getdents_flush_def getdents_ok_def Let_def split: if_splits)

lemma getdents_block_lists:
  "getdents_block E s usize d block_pos ks g = Returned (Inl g') \<Longrightarrow> \<not> g_done g \<Longrightarrow> getdents_ok usize g \<Longrightarrow>
     \<forall>n. 0 < DIRENT_RECLEN E n \<Longrightarrow> getdents_ok usize g' \<and> listed (block_entries d block_pos ks) g g'"
proof (induction ks arbitrary: g)
  case Nil
  then show ?case by (simp add: block_entries_def listed_nil)
next
  case (Cons k ks)
  show ?case
  proof (cases "dir_ino d k = 0")
    case True
    with Cons show ?thesis by (simp add: block_entries_def)
  next
    case used: False
    let ?len = "DIRENT_RECLEN E (length (dir_name d k))" and ?p = "block_pos + DIR_ENTRY_SIZE * k"
    have es: "block_entries d block_pos (k # ks) = [(?p, dir_ino d k, dir_name d k)] @ block_entries d block_pos ks"
      using used by (simp add: block_entries_def)
    show ?thesis
    proof (cases "g_userbuf_off g + g_tmpbuf_off g + ?len \<ge> usize")
      case True
      with Cons.prems(1) used have "g' = g\<lparr>g_done := True, g_new_pos := ?p\<rparr>" by (simp add: Let_def)
      with Cons.prems(3) show ?thesis using listed_stop [of "block_entries d block_pos (k # ks)" g]
        by (auto simp: es getdents_ok_def)
    next
      case room: False
      obtain g1 where g1: "(if g_tmpbuf_off g + ?len \<ge> GETDENTS_BUFSIZE E * 8 then getdents_flush E g else Inl g) = Inl g1"
        using Cons.prems(1) used room by (auto simp: Let_def split: sum.splits)
      have f: "getdents_ok usize g1" "g_out g1 @ g_tmp g1 = g_out g @ g_tmp g" "\<not> g_done g1" "g_new_pos g1 = g_new_pos g"
        "g_userbuf_off g1 + g_tmpbuf_off g1 = g_userbuf_off g + g_tmpbuf_off g"
        using g1 Cons.prems(2, 3) getdents_flush_ok [of E g g1 usize] by (auto split: if_splits)
      obtain ty where rec: "getdents_block E s usize d block_pos ks
         (g1\<lparr>g_tmp := g_tmp g1 @ [\<lparr>d_fileno = dir_ino d k, d_reclen = ?len, d_name = dir_name d k, d_type = ty\<rparr>],
             g_tmpbuf_off := g_tmpbuf_off g1 + ?len\<rparr>) = Returned (Inl g')" (is "getdents_block _ _ _ _ _ _ ?g2 = _")
        using Cons.prems(1) used room g1 by (auto simp: Let_def split: option.splits outcome.splits)
      have "getdents_ok usize ?g2" using f room Cons.prems(4) by (auto simp: getdents_ok_def)
      with Cons.IH [OF rec] f Cons.prems(4) have ih: "getdents_ok usize g'" "listed (block_entries d block_pos ks) ?g2 g'" by simp_all
      have "listed [(?p, dir_ino d k, dir_name d k)] g ?g2"
        using f(3, 4) arg_cong [OF f(2), of listing] by (simp add: listed_def listing_append) (simp add: listing_def)
      then show ?thesis using ih listed_append [of _ g ?g2 _ g'] f(3) unfolding es by fastforce
    qed
  qed
qed

lemma getdents_loop_lists:
  "getdents_loop E s r usize pos block_pos g = Returned (Inl g') \<Longrightarrow> \<not> g_done g \<Longrightarrow> getdents_ok usize g \<Longrightarrow>
     \<forall>n. 0 < DIRENT_RECLEN E n \<Longrightarrow> getdents_ok usize g' \<and> listed (dir_entries E s r pos block_pos) g g'"
proof (induction E s r usize pos block_pos g rule: getdents_loop.induct)
  case (1 E s r usize pos block_pos g)
  let ?bs = "s_block_size (sb s)"
  show ?case
  proof (cases "block_pos \<ge> i_size (inodes s r) \<or> ?bs = 0")
    case True
    with 1(2-5) show ?thesis by (subst dir_entries.simps, subst (asm) getdents_loop.simps) (auto simp: listed_nil)
  next
    case more: False
    let ?ks = "[if block_pos < pos then (pos mod ?bs) div DIR_ENTRY_SIZE else 0..<?bs div DIR_ENTRY_SIZE]"
    obtain dev b where gb: "get_block_map E r block_pos s = Returned (Some (dev, b))"
      using 1(2) more by (subst (asm) getdents_loop.simps) (auto simp: Let_def split: outcome.splits option.splits)
    obtain g1 where g1: "getdents_block E s usize (blk s dev b) block_pos ?ks g = Returned (Inl g1)"
      "(if g_done g1 then Returned (Inl g1) else getdents_loop E s r usize pos (block_pos + ?bs) g1) = Returned (Inl g')"
      using 1(2) more gb by (subst (asm) getdents_loop.simps) (auto simp: Let_def split: outcome.splits sum.splits)
    note blk = getdents_block_lists [OF g1(1) 1(3-5)]
    have es: "dir_entries E s r pos block_pos = block_entries (blk s dev b) block_pos ?ks @ dir_entries E s r pos (block_pos + ?bs)"
      using more gb by (subst dir_entries.simps) (simp add: Let_def)
    show ?thesis
    proof (cases "g_done g1")
      case True
      with g1(2) blk show ?thesis unfolding es by (auto intro: listed_append_done)
    next
      case False
      with g1(2) have rec: "getdents_loop E s r usize pos (block_pos + ?bs) g1 = Returned (Inl g')" by simp
      have "getdents_ok usize g' \<and> listed (dir_entries E s r pos (block_pos + ?bs)) g1 g'"
        using 1(1) [OF refl refl more gb refl refl refl g1(1) refl False rec False] blk 1(5) by blast
      then show ?thesis using blk False unfolding es by (auto intro: listed_append)
    qed
  qed
qed

text \<open>An error that ends the listing is an error.\<close>

lemma getdents_flush_err: "getdents_flush E g = Inr (e, c) \<Longrightarrow> e \<noteq> OK"
  by (auto simp: getdents_flush_def Let_def split: if_splits)

lemma getdents_block_err: "getdents_block E s usize d block_pos ks g = Returned (Inr (e, c)) \<Longrightarrow> e \<noteq> OK"
  by (induction ks arbitrary: g)
    (auto simp: Let_def dest: getdents_flush_err split: if_splits sum.splits option.splits outcome.splits)

lemma getdents_loop_err: "getdents_loop E s r usize pos block_pos g = Returned (Inr (e, c)) \<Longrightarrow> e \<noteq> OK"
proof (induction E s r usize pos block_pos g rule: getdents_loop.induct)
  case (1 E s r usize pos block_pos g)
  let ?bs = "s_block_size (sb s)"
  let ?ks = "[if block_pos < pos then (pos mod ?bs) div DIR_ENTRY_SIZE else 0..<?bs div DIR_ENTRY_SIZE]"
  have more: "\<not> (block_pos \<ge> i_size (inodes s r) \<or> ?bs = 0)"
    using 1(2) by (subst (asm) getdents_loop.simps) (auto simp: Let_def split: if_splits)
  obtain dev b where gb: "get_block_map E r block_pos s = Returned (Some (dev, b))"
    using 1(2) more by (subst (asm) getdents_loop.simps) (auto simp: Let_def split: outcome.splits option.splits)
  have "getdents_block E s usize (blk s dev b) block_pos ?ks g = Returned (Inr (e, c)) \<or>
    (\<exists>g1. getdents_block E s usize (blk s dev b) block_pos ?ks g = Returned (Inl g1) \<and> \<not> g_done g1 \<and>
       getdents_loop E s r usize pos (block_pos + ?bs) g1 = Returned (Inr (e, c)))"
    using 1(2) more gb by (subst (asm) getdents_loop.simps) (auto simp: Let_def split: outcome.splits sum.splits if_splits)
  then show ?case
    using 1(1) [OF refl refl more gb refl refl refl _ refl] getdents_block_err by blast
qed

text \<open>
  C33: listing a directory. When \<open>fs_getdents\<close> succeeds, the records it has copied to the
  user are the entries in use from the position on, in the order of the directory and
  without a gap; they fill as many bytes as it reports, fewer than the user's buffer has; and
  the next position is that of the first entry that is left, or the end of the directory
  when there is none.
\<close>

theorem getdents_lists_directory:
  assumes "fs_getdents E ino usize pos s = Returned (s', OK, recs)" and "\<forall>n. 0 < DIRENT_RECLEN E n"
  shows "\<exists>r es m. get_inode E ino = Some r \<and> es = dir_entries E s r pos (pos - pos mod s_block_size (sb s)) \<and>
    listing recs = map snd (take m es) \<and> m \<le> length es \<and>
    out_seek_pos s' = (if m < length es then fst (es ! m) else i_size (inodes s r)) \<and>
    out_nbytes s' = reclens recs \<and> (recs \<noteq> [] \<longrightarrow> out_nbytes s' < usize)"
proof -
  let ?bp = "pos - pos mod s_block_size (sb s)"
  define g0 where "g0 r = \<lparr>g_tmp = [], g_tmpbuf_off = 0, g_out = [], g_userbuf_off = 0, g_new_pos = i_size (inodes s r), g_done = False\<rparr>" for r
  obtain r x where r: "get_inode E ino = Some r" and x: "getdents_loop E s r usize pos ?bp (g0 r) = Returned x"
    using assms(1) by (cases "get_inode E ino") (auto simp: fs_getdents_def g0_def split: if_splits)
  obtain g where g: "x = Inl g"
    using assms(1) r x getdents_loop_err [of E s r usize pos ?bp "g0 r"]
    by (cases x) (auto simp: fs_getdents_def g0_def [symmetric] split: if_splits)
  let ?es = "dir_entries E s r pos ?bp"
  have ok: "getdents_ok usize g" and li: "listed ?es (g0 r) g"
    using getdents_loop_lists [OF x [unfolded g] _ _ assms(2)] by (auto simp: getdents_ok_def g0_def)
  obtain g1 where fl: "(if g_tmpbuf_off g \<noteq> 0 then getdents_flush E g else Inl g) = Inl g1"
    using assms(1) r x g getdents_flush_err
    by (cases "if g_tmpbuf_off g \<noteq> 0 then getdents_flush E g else Inl g")
      (fastforce simp: fs_getdents_def g0_def [symmetric] split: if_splits)+
  have out: "recs = g_out g1" "out_nbytes s' = g_userbuf_off g1" "out_seek_pos s' = g_new_pos g1"
    using assms(1) r x g fl by (auto simp: fs_getdents_def g0_def [symmetric] Let_def split: if_splits)
  have g1: "getdents_ok usize g1" "g_out g1 = g_out g @ g_tmp g" "g_tmp g1 = []" "g_done g1 = g_done g" "g_new_pos g1 = g_new_pos g"
  proof -
    have "g_tmp g = []" if "g_tmpbuf_off g = 0" using that ok by (cases "g_tmp g") (auto simp: getdents_ok_def)
    then have *: "g_tmpbuf_off g = 0 \<Longrightarrow> g1 = g \<and> g_tmp g = []" using fl by simp
    have **: "getdents_flush E g = Inl g1" if "g_tmpbuf_off g \<noteq> 0" using fl that by simp
    note f = getdents_flush_ok [OF ** ok]
    show "getdents_ok usize g1" "g_tmp g1 = []" "g_done g1 = g_done g" "g_new_pos g1 = g_new_pos g"
      using * ok f(1, 3-5) by (cases "g_tmpbuf_off g = 0", blast, blast)+
    then show "g_out g1 = g_out g @ g_tmp g" using * f(2) by (cases "g_tmpbuf_off g = 0") simp_all
  qed
  obtain m where "listing recs = map snd (take m ?es)"
    "if g_done g then m < length ?es \<and> g_new_pos g = fst (?es ! m) else m = length ?es \<and> g_new_pos g = i_size (inodes s r)"
    using li by (auto simp: listed_def out(1) g1(2) g0_def listing_def)
  moreover have "out_nbytes s' = reclens recs" "recs \<noteq> [] \<longrightarrow> out_nbytes s' < usize"
    using g1(1, 3) by (auto simp: getdents_ok_def out)
  ultimately show ?thesis using r by (intro exI [of _ r] exI [of _ ?es] exI [of _ m]) (auto simp: out g1 split: if_splits)
qed

text \<open>A directory with one entry, \<open>a\<close> with inode 1, in block 9.\<close>

definition tiny_dir :: mfs where
  "tiny_dir = tiny\<lparr>sb := (sb tiny)\<lparr>s_block_size := 64\<rparr>,
     inodes := \<lambda>_. (inodes tiny 0)\<lparr>i_mode := I_DIRECTORY, i_size := 64, i_zone := (\<lambda>_. 0)(0 := 9)\<rparr>,
     blk := \<lambda>_ _. (\<lambda>_. 0)(0 := 1, 4 := 97)\<rparr>"

theorem getdents_lists_directory_witness:
  "\<exists>s' recs. fs_getdents tiny_env 1 100 0 tiny_dir = Returned (s', OK, recs) \<and> length recs \<le> 1 \<and> out_nbytes s' = reclens recs"
proof -
  have nm: "dir_name ((\<lambda>_. 0)(0 := 1, 4 := 97)) 0 = [97]"
    by (simp add: dir_name_def MFS_DIRSIZ_def DIR_ENTRY_SIZE_def upt_conv_Cons)
  have run: "\<exists>s' recs. fs_getdents tiny_env 1 100 0 tiny_dir = Returned (s', OK, recs) \<and> length recs \<le> 1"
    by (simp add: fs_getdents_def getdents_loop.simps tiny_dir_def tiny_def tiny_env_def get_block_map_def read_map_def read_map_block_def
      get_zone_def dir_ino_def nm DIR_ENTRY_SIZE_def NO_ZONE_def NO_BLOCK_def fs_mode_to_type_def mode_defs
      getdents_flush_def Let_def)
  moreover have "\<forall>n. 0 < DIRENT_RECLEN tiny_env n" by (simp add: tiny_env_def)
  ultimately show ?thesis using getdents_lists_directory by blast
qed

end
