(* ===== verification/Vfs.thy ===== *)
theory Vfs
  imports Mfs
begin

unbundle bit_operations_syntax

text \<open>
  The virtual file system server of \<open>Assignment 10\<close>: \<open>vfs/read.c\<close>, \<open>vfs/link.c\<close> and
  \<open>vfs/open.c\<close>. Vnodes, file positions (\<open>filp\<close>), processes and mounts are entries of
  tables, and a pointer is the index of an entry. What the code calls in other files (path
  lookup, the requests to file servers and drivers, the functions on file descriptors and
  pipes) is a field of \<open>vfs_env\<close>, most of them transforming the whole state. Every lock
  that is taken or released and every request that is made is recorded in \<open>calls\<close>, in the
  order of the code, and so are the messages the assignment prints. A panic, a failed
  assertion and a use of a null pointer are the outcome \<open>Aborted\<close>.
\<close>

subsection \<open>Data\<close>

datatype access = R_BIT | W_BIT | X_BIT

datatype oflag = O_CREAT | O_EXCL | O_TRUNC | O_APPEND | O_NONBLOCK | O_CLOEXEC | O_NOCTTY | O_NOSIGPIPE

datatype vnode_lock = VNODE_READ | VNODE_OPCL | VNODE_WRITE
datatype vmnt_lock = VMNT_READ | VMNT_WRITE

record vnode_t =
  v_fs_e :: endpoint
  v_inode_nr :: nat
  v_mode :: u16
  v_size :: int
  v_uid :: nat
  v_gid :: nat
  v_sdev :: nat
  v_vmnt :: nat
  v_dev :: nat
  v_bfs_e :: endpoint
  v_mapfs_e :: endpoint
  v_mapinode_nr :: nat
  v_ref_count :: nat
  v_fs_count :: nat

record filp_t =
  filp_mode :: "access set"
  filp_flags :: "oflag set"
  filp_count :: nat
  filp_vno :: "nat option"
  filp_pos :: int

record fproc_t =
  fp_endpoint :: endpoint
  fp_pid :: int
  fp_filp :: "nat \<Rightarrow> nat option"
  fp_cloexec_set :: "nat set"
  fp_umask :: u16
  fp_effuid :: nat
  fp_effgid :: nat
  fp_wd :: nat
  fp_cum_io_partial :: nat
  sc_fd_nr :: nat \<comment> \<open>the scratch pad\<close>
  sc_io_buffer :: nat
  sc_io_nbytes :: nat

record vmnt_t =
  m_fs_e :: endpoint
  m_dev :: nat
  m_forcerootbsf :: bool
  m_mount_path :: string

record file_lock_t =
  lock_type :: nat
  lock_vnode :: nat
  lock_pid :: int

text \<open>
  What is recorded. A filp is locked together with the vnode it names, if any; to unlock it
  releases the vnode too, unless its count is 0; to close it releases both.
\<close>

datatype vfs_call =
    LockFilp nat "nat option" | UnlockFilp nat "nat option"
  | LockVnode nat | UnlockVnode nat | UpgradeVnode nat | PutVnode nat
  | LockVmnt nat | UnlockVmnt nat | UpgradeVmnt nat | DowngradeVmnt nat
  | LockBsf | UnlockBsf
  | ReqReadWrite endpoint nat int rw_flag endpoint nat nat
  | ReqPeek endpoint nat int nat
  | ReqBReadWrite endpoint nat int rw_flag endpoint nat nat
  | ReqBPeek endpoint nat int nat
  | CdevIo rw_flag nat endpoint nat int nat
  | SysKill endpoint
  | ReqGetdents endpoint nat int nat nat
  | PipeSuspend nat nat nat
  | ReqFtrunc endpoint nat int
  | ReqLink endpoint nat string nat
  | ReqUnlink endpoint nat string
  | ReqRmdir endpoint nat string
  | ReqRename endpoint nat string nat string
  | ReqSlink endpoint nat string endpoint nat nat
  | ReqRdlink endpoint nat endpoint nat
  | ReqCreate endpoint nat u16 nat nat string
  | ReqMknod endpoint nat string nat nat u16 nat
  | ReqMkdir endpoint nat string nat nat u16
  | ReqInhibread endpoint nat
  | ReqNewdriver endpoint nat
  | CdevOpen nat | BdevOpen nat | BdevClose nat | MapVnode nat
  | SuspendPopen | ReleasePipe nat | CloseFilp nat "nat option" | LockRevive
  | Printed string nat "(nat \<times> int) option" \<comment> \<open>what, inode, bytes and offset\<close>

record vfs =
  vnodes :: "nat \<Rightarrow> vnode_t"
  filps :: "nat \<Rightarrow> filp_t"
  fprocs :: "nat \<Rightarrow> fproc_t"
  vmnts :: "nat \<Rightarrow> vmnt_t"
  file_locks :: "file_lock_t list"
  nr_locks :: int
  susp_count :: nat
  vfs_err :: errno
  fp :: nat \<comment> \<open>the process that is served\<close>
  who_e :: endpoint
  calls :: "vfs_call list"

text \<open>A path to look up, and what a lookup finds: the vnode, whether it has been locked, the mount if that has been locked, and the path that is left.\<close>

record lookup_t =
  l_path :: string
  l_ret_symlink :: bool
  l_vmnt_lock :: vmnt_lock
  l_vnode_lock :: vnode_lock

record found =
  lr_vnode :: nat
  lr_locked :: bool
  lr_vmnt :: "nat option"
  lr_path :: string

text \<open>A lookup that fails leaves a path in the buffer too.\<close>

type_synonym looked = "vfs \<times> ((errno \<times> string) + found)"

record node_details =
  res_fs_e :: endpoint
  res_inode_nr :: nat
  res_fmode :: u16
  res_fsize :: int
  res_uid :: nat
  res_gid :: nat
  res_dev :: nat

record vfs_env =
  SSIZE_MAX :: nat
  PATH_MAX :: nat
  POSIX_SYMLINK_MAX :: nat
  SU_UID :: nat
  ROOT_FS_E :: endpoint
  PFS_PROC_NR :: endpoint
  NO_ENDPOINT :: endpoint
  VFS_ENDPOINT :: endpoint
  NR_MNTS :: nat
  get_filp2 :: "nat \<Rightarrow> nat \<Rightarrow> vnode_lock \<Rightarrow> vfs \<Rightarrow> vfs \<times> (errno + nat)"
  find_vmnt :: "endpoint \<Rightarrow> vfs \<Rightarrow> nat option"
  mutex_trylock :: "vfs \<Rightarrow> int"
  mutex_lock :: "vfs \<Rightarrow> int"
  mutex_unlock :: "vfs \<Rightarrow> int"
  EBUSY_code :: int
  req_readwrite :: "endpoint \<Rightarrow> nat \<Rightarrow> int \<Rightarrow> rw_flag \<Rightarrow> endpoint \<Rightarrow> nat \<Rightarrow> nat \<Rightarrow> vfs \<Rightarrow> ret \<times> int \<times> nat" \<comment> \<open>result, position, bytes\<close>
  req_peek :: "endpoint \<Rightarrow> nat \<Rightarrow> int \<Rightarrow> nat \<Rightarrow> vfs \<Rightarrow> ret"
  req_breadwrite :: "endpoint \<Rightarrow> nat \<Rightarrow> int \<Rightarrow> rw_flag \<Rightarrow> endpoint \<Rightarrow> nat \<Rightarrow> nat \<Rightarrow> vfs \<Rightarrow> ret \<times> int \<times> nat"
  req_bpeek :: "endpoint \<Rightarrow> nat \<Rightarrow> int \<Rightarrow> nat \<Rightarrow> vfs \<Rightarrow> ret"
  cdev_io :: "rw_flag \<Rightarrow> nat \<Rightarrow> endpoint \<Rightarrow> nat \<Rightarrow> int \<Rightarrow> nat \<Rightarrow> oflag set \<Rightarrow> vfs \<Rightarrow> ret"
  pipe_check :: "nat \<Rightarrow> rw_flag \<Rightarrow> oflag set \<Rightarrow> nat \<Rightarrow> vfs \<Rightarrow> ret"
  pipe_suspend :: "nat \<Rightarrow> nat \<Rightarrow> nat \<Rightarrow> vfs \<Rightarrow> vfs"
  req_getdents :: "endpoint \<Rightarrow> nat \<Rightarrow> int \<Rightarrow> nat \<Rightarrow> nat \<Rightarrow> vfs \<Rightarrow> ret \<times> int"
  fetch_name :: "nat \<Rightarrow> nat \<Rightarrow> vfs \<Rightarrow> errno + string"
  copy_path :: "vfs \<Rightarrow> errno + string" \<comment> \<open>the name in the message\<close>
  eat_path :: "lookup_t \<Rightarrow> nat \<Rightarrow> vfs \<Rightarrow> looked"
  last_dir :: "lookup_t \<Rightarrow> nat \<Rightarrow> vfs \<Rightarrow> looked"
  advance :: "nat \<Rightarrow> lookup_t \<Rightarrow> nat \<Rightarrow> vfs \<Rightarrow> looked"
  forbidden :: "nat \<Rightarrow> nat \<Rightarrow> access set \<Rightarrow> vfs \<Rightarrow> ret"
  put_vnode :: "nat \<Rightarrow> vfs \<Rightarrow> vfs"
  req_ftrunc :: "endpoint \<Rightarrow> nat \<Rightarrow> int \<Rightarrow> vfs \<Rightarrow> ret"
  req_link :: "endpoint \<Rightarrow> nat \<Rightarrow> string \<Rightarrow> nat \<Rightarrow> vfs \<Rightarrow> ret"
  req_unlink :: "endpoint \<Rightarrow> nat \<Rightarrow> string \<Rightarrow> vfs \<Rightarrow> ret"
  req_rmdir :: "endpoint \<Rightarrow> nat \<Rightarrow> string \<Rightarrow> vfs \<Rightarrow> ret"
  req_rename :: "endpoint \<Rightarrow> nat \<Rightarrow> string \<Rightarrow> nat \<Rightarrow> string \<Rightarrow> vfs \<Rightarrow> ret"
  req_slink :: "endpoint \<Rightarrow> nat \<Rightarrow> string \<Rightarrow> endpoint \<Rightarrow> nat \<Rightarrow> nat \<Rightarrow> nat \<Rightarrow> nat \<Rightarrow> vfs \<Rightarrow> ret"
  req_rdlink :: "endpoint \<Rightarrow> nat \<Rightarrow> endpoint \<Rightarrow> nat \<Rightarrow> nat \<Rightarrow> vfs \<Rightarrow> ret \<times> string"
  req_create :: "endpoint \<Rightarrow> nat \<Rightarrow> u16 \<Rightarrow> nat \<Rightarrow> nat \<Rightarrow> string \<Rightarrow> vfs \<Rightarrow> ret \<times> node_details"
  req_mknod :: "endpoint \<Rightarrow> nat \<Rightarrow> string \<Rightarrow> nat \<Rightarrow> nat \<Rightarrow> u16 \<Rightarrow> nat \<Rightarrow> vfs \<Rightarrow> ret"
  req_mkdir :: "endpoint \<Rightarrow> nat \<Rightarrow> string \<Rightarrow> nat \<Rightarrow> nat \<Rightarrow> u16 \<Rightarrow> vfs \<Rightarrow> ret"
  req_inhibread :: "endpoint \<Rightarrow> nat \<Rightarrow> vfs \<Rightarrow> ret"
  get_fd :: "nat \<Rightarrow> access set \<Rightarrow> vfs \<Rightarrow> vfs \<times> (errno + nat \<times> nat)" \<comment> \<open>descriptor and filp\<close>
  get_free_vnode :: "vfs \<Rightarrow> vfs \<times> (errno + nat)"
  cdev_open :: "nat \<Rightarrow> access set \<Rightarrow> bool \<Rightarrow> vfs \<Rightarrow> vfs \<times> ret"
  bdev_open :: "nat \<Rightarrow> access set \<Rightarrow> vfs \<Rightarrow> ret"
  dmap_driver :: "nat \<Rightarrow> vfs \<Rightarrow> endpoint"
  req_newdriver :: "endpoint \<Rightarrow> nat \<Rightarrow> vfs \<Rightarrow> ret"
  map_vnode :: "nat \<Rightarrow> endpoint \<Rightarrow> vfs \<Rightarrow> vfs \<times> ret"
  find_filp :: "nat \<Rightarrow> access \<Rightarrow> vfs \<Rightarrow> nat option"
  suspend_popen :: "vfs \<Rightarrow> vfs"
  release_pipe :: "nat \<Rightarrow> vfs \<Rightarrow> vfs"
  close_filp :: "nat \<Rightarrow> vfs \<Rightarrow> vfs"
  lock_revive :: "vfs \<Rightarrow> vfs"

subsection \<open>Modes\<close>

abbreviation S_ISREG :: "u16 \<Rightarrow> bool" where "S_ISREG m \<equiv> m AND I_TYPE = I_REGULAR"
abbreviation S_ISDIR :: "u16 \<Rightarrow> bool" where "S_ISDIR m \<equiv> m AND I_TYPE = I_DIRECTORY"
abbreviation S_ISCHR :: "u16 \<Rightarrow> bool" where "S_ISCHR m \<equiv> m AND I_TYPE = I_CHAR_SPECIAL"
abbreviation S_ISBLK :: "u16 \<Rightarrow> bool" where "S_ISBLK m \<equiv> m AND I_TYPE = I_BLOCK_SPECIAL"
abbreviation S_ISFIFO :: "u16 \<Rightarrow> bool" where "S_ISFIFO m \<equiv> m AND I_TYPE = I_NAMED_PIPE"
abbreviation S_ISLNK :: "u16 \<Rightarrow> bool" where "S_ISLNK m \<equiv> m AND I_TYPE = I_SYMBOLIC_LINK"
abbreviation S_ISSOCK :: "u16 \<Rightarrow> bool" where "S_ISSOCK m \<equiv> m AND I_TYPE = I_UNIX_SOCKET"
abbreviation S_ISIMM :: "u16 \<Rightarrow> bool" where "S_ISIMM m \<equiv> m AND I_TYPE = I_IMMEDIATE"

text \<open>The sticky bit.\<close>

definition S_ISVTX :: u16 where "S_ISVTX = 0x0200"

subsection \<open>Access to the state\<close>

abbreviation vcall :: "vfs_call \<Rightarrow> vfs \<Rightarrow> vfs" where
  "vcall c s \<equiv> s\<lparr>calls := calls s @ [c]\<rparr>"

abbreviation upd_vnode :: "nat \<Rightarrow> (vnode_t \<Rightarrow> vnode_t) \<Rightarrow> vfs \<Rightarrow> vfs" where
  "upd_vnode v f s \<equiv> s\<lparr>vnodes := (vnodes s)(v := f (vnodes s v))\<rparr>"

abbreviation upd_filp :: "nat \<Rightarrow> (filp_t \<Rightarrow> filp_t) \<Rightarrow> vfs \<Rightarrow> vfs" where
  "upd_filp i f s \<equiv> s\<lparr>filps := (filps s)(i := f (filps s i))\<rparr>"

abbreviation upd_fproc :: "nat \<Rightarrow> (fproc_t \<Rightarrow> fproc_t) \<Rightarrow> vfs \<Rightarrow> vfs" where
  "upd_fproc i f s \<equiv> s\<lparr>fprocs := (fprocs s)(i := f (fprocs s i))\<rparr>"

definition unlock_filp :: "nat \<Rightarrow> vfs \<Rightarrow> vfs" where
  "unlock_filp f s = vcall (UnlockFilp f (if filp_count (filps s f) = 0 then None else filp_vno (filps s f))) s"

definition release_vnode :: "vfs_env \<Rightarrow> nat \<Rightarrow> vfs \<Rightarrow> vfs" where
  "release_vnode E v s = put_vnode E v (vcall (PutVnode v) s)"

definition lock_filp :: "vfs_env \<Rightarrow> nat \<Rightarrow> nat \<Rightarrow> vnode_lock \<Rightarrow> vfs \<Rightarrow> vfs \<times> (errno + nat)" where
  "lock_filp E rfp fd lk s =
     (case get_filp2 E rfp fd lk s of
        (s1, Inl e) \<Rightarrow> (s1\<lparr>vfs_err := e\<rparr>, Inl e)
      | (s1, Inr f) \<Rightarrow> (vcall (LockFilp f (filp_vno (filps s1 f))) s1, Inr f))"

text \<open>The result of a lookup, with the locks it has taken.\<close>

definition looked_up :: "looked \<Rightarrow> vfs \<times> (errno + found)" where
  "looked_up x =
     (case x of
        (s, Inl (e, _)) \<Rightarrow> (s\<lparr>vfs_err := e\<rparr>, Inl e)
      | (s, Inr l) \<Rightarrow>
          let s1 = (case lr_vmnt l of None \<Rightarrow> s | Some m \<Rightarrow> vcall (LockVmnt m) s)
          in (if lr_locked l then vcall (LockVnode (lr_vnode l)) s1 else s1, Inr l))"

definition left_path :: "looked \<Rightarrow> string" where
  "left_path x = (case snd x of Inl (_, p) \<Rightarrow> p | Inr l \<Rightarrow> lr_path l)"

text \<open>\<open>unlock_vmnt\<close> of a pointer that a lookup has set or not.\<close>

definition unlock_vmnt_ptr :: "nat option \<Rightarrow> vfs \<Rightarrow> vfs outcome" where
  "unlock_vmnt_ptr m s = (case m of None \<Rightarrow> Aborted ''unlock_vmnt'' | Some k \<Rightarrow> Returned (vcall (UnlockVmnt k) s))"

subsection \<open>\<open>read.c\<close>\<close>

definition lock_bsf :: "vfs_env \<Rightarrow> vfs \<Rightarrow> vfs outcome" where
  "lock_bsf E s =
     (if mutex_trylock E s = 0 then Returned (vcall LockBsf s)
      else if mutex_lock E s \<noteq> 0 then Aborted ''unable to lock block special file lock''
      else Returned (vcall LockBsf s))"

definition unlock_bsf :: "vfs_env \<Rightarrow> vfs \<Rightarrow> vfs outcome" where
  "unlock_bsf E s =
     (if mutex_unlock E s \<noteq> 0 then Aborted ''failed to unlock block special file lock'' else Returned (vcall UnlockBsf s))"

definition check_bsf_lock :: "vfs_env \<Rightarrow> vfs \<Rightarrow> vfs outcome" where
  "check_bsf_lock E s =
     (let r = mutex_trylock E s
      in if r = - EBUSY_code E then Aborted ''bsf_lock locked''
         else if r \<noteq> 0 then Aborted ''bsf_lock weird state''
         else unlock_bsf E (vcall LockBsf s))"

text \<open>Reading and writing a pipe, whose inode is mapped on the pipe file server.\<close>

definition rw_pipe :: "vfs_env \<Rightarrow> rw_flag \<Rightarrow> endpoint \<Rightarrow> nat \<Rightarrow> nat \<Rightarrow> nat \<Rightarrow> nat \<Rightarrow> vfs \<Rightarrow> (vfs \<times> ret) outcome" where
  "rw_pipe E rw usr_e f vp buf req_size s =
     (let oflags = filp_flags (filps s f);
          cum_io = fp_cum_io_partial (fprocs s (fp s));
          r = pipe_check E f rw oflags req_size s
      in case r of
           SUSPEND \<Rightarrow> Returned (pipe_suspend E f buf req_size (vcall (PipeSuspend f buf req_size) s), SUSPEND)
         | Err e \<Rightarrow> Returned (s, Err e)
         | Ret size0 \<Rightarrow>
             if size0 = 0 then Returned (s, Ret 0)
             else let partial_pipe = (size0 < req_size);
                      size1 = (if rw = READING \<and> int size0 > v_size (vnodes s vp) then nat (v_size (vnodes s vp)) else size0);
                      fs = v_mapfs_e (vnodes s vp); ino = v_mapinode_nr (vnodes s vp)
                  in if fs = 0 then Aborted ''unmapped pipe''
                     else let (r, new_pos, incr) = req_readwrite E fs ino 0 rw usr_e buf size1 s;
                              s1 = vcall (ReqReadWrite fs ino 0 rw usr_e buf size1) s
                          in if r \<noteq> OK then Returned (s1, r)
                             else let s2 = upd_vnode vp (v_size_update (\<lambda>_. new_pos)) s1
                                  in if partial_pipe \<and> O_NONBLOCK \<notin> oflags then
                                       let s3 = upd_fproc (fp s2) (fp_cum_io_partial_update (\<lambda>_. cum_io + incr)) s2;
                                           s4 = vcall (PipeSuspend f (buf + incr) (req_size - incr)) s3
                                       in Returned (pipe_suspend E f (buf + incr) (req_size - incr) s4, SUSPEND)
                                     else Returned (upd_fproc (fp s2) (fp_cum_io_partial_update (\<lambda>_. 0)) s2, Ret (cum_io + incr)))"

text \<open>
  The four kinds of files in \<open>read_write\<close>: the state, the result, the position and the
  bytes transferred; an early return has no position.
\<close>

type_synonym transferred = "vfs \<times> ret \<times> (int \<times> nat) option"

definition rw_fifo :: "vfs_env \<Rightarrow> nat \<Rightarrow> rw_flag \<Rightarrow> nat \<Rightarrow> nat \<Rightarrow> nat \<Rightarrow> nat \<Rightarrow> endpoint \<Rightarrow> vfs \<Rightarrow> transferred outcome" where
  "rw_fifo E rfp rw f vp buf size0 for_e s =
     (if fp_cum_io_partial (fprocs s rfp) \<noteq> 0 then Aborted ''fp_cum_io_partial not clear''
      else if rw = PEEKING then Returned (s, Err EINVAL, None)
      else bind_outcome (rw_pipe E rw for_e f vp buf size0 s) (\<lambda>(s1, r). Returned (s1, r, Some (filp_pos (filps s f), 0))))"

definition rw_char :: "vfs_env \<Rightarrow> rw_flag \<Rightarrow> nat \<Rightarrow> nat \<Rightarrow> nat \<Rightarrow> nat \<Rightarrow> endpoint \<Rightarrow> vfs \<Rightarrow> transferred outcome" where
  "rw_char E rw f vp buf size0 for_e s =
     (let position = filp_pos (filps s f); dev = v_sdev (vnodes s vp); op = (if rw = READING then READING else WRITING)
      in if rw = PEEKING then Returned (s, Err EINVAL, None)
         else if dev = NO_DEV then Aborted ''read_write tries to access char dev NO_DEV''
         else let r = cdev_io E op dev for_e buf position size0 (filp_flags (filps s f)) s;
                  s1 = vcall (CdevIo op dev for_e buf position size0) s
              in case r of
                   Ret n \<Rightarrow> Returned (s1, OK, Some (position + int n, n))
                 | SUSPEND \<Rightarrow> Returned (s1, SUSPEND, Some (position + int size0, 0))
                 | Err e \<Rightarrow> Returned (s1, Err e, Some (position, 0)))"

definition rw_block :: "vfs_env \<Rightarrow> rw_flag \<Rightarrow> nat \<Rightarrow> nat \<Rightarrow> nat \<Rightarrow> nat \<Rightarrow> endpoint \<Rightarrow> vfs \<Rightarrow> transferred outcome" where
  "rw_block E rw f vp buf size0 for_e s =
     (let position = filp_pos (filps s f); dev = v_sdev (vnodes s vp); bfs = v_bfs_e (vnodes s vp)
      in if dev = NO_DEV then Aborted ''read_write tries to access block dev NO_DEV''
         else bind_outcome (lock_bsf E s) (\<lambda>s1.
           let (s2, r, pos, cum_io) =
             (if rw = PEEKING then (vcall (ReqBPeek bfs dev position size0) s1, req_bpeek E bfs dev position size0 s1, position, 0)
              else let (r, res_pos, res_cum_io) = req_breadwrite E bfs dev position rw for_e buf size0 s1
                   in (vcall (ReqBReadWrite bfs dev position rw for_e buf size0) s1, r,
                       if r = OK then res_pos else position, if r = OK then res_cum_io else 0))
           in bind_outcome (unlock_bsf E s2) (\<lambda>s3. Returned (s3, r, Some (pos, cum_io)))))"

definition rw_regular :: "vfs_env \<Rightarrow> rw_flag \<Rightarrow> nat \<Rightarrow> nat \<Rightarrow> nat \<Rightarrow> nat \<Rightarrow> endpoint \<Rightarrow> vfs \<Rightarrow> transferred outcome" where
  "rw_regular E rw f vp buf size0 for_e s =
     (let position = (if rw = WRITING \<and> O_APPEND \<in> filp_flags (filps s f) then v_size (vnodes s vp) else filp_pos (filps s f));
          fs = v_fs_e (vnodes s vp); ino = v_inode_nr (vnodes s vp)
      in if rw = PEEKING then
           Returned (vcall (ReqPeek fs ino position size0) s, req_peek E fs ino position size0 s, Some (position, 0))
         else let (r, new_pos, incr) = req_readwrite E fs ino position rw for_e buf size0 s;
                  s1 = vcall (ReqReadWrite fs ino position rw for_e buf size0) s
              in Returned (s1, r, Some (if ret_nonneg r then (new_pos, incr) else (position, 0))))"

text \<open>The end of \<open>read_write\<close>: sizes, positions, the messages of the assignment, signals.\<close>

definition rw_done :: "vfs_env \<Rightarrow> nat \<Rightarrow> rw_flag \<Rightarrow> nat \<Rightarrow> nat \<Rightarrow> nat \<Rightarrow> ret \<Rightarrow> int \<Rightarrow> nat \<Rightarrow> vfs \<Rightarrow> (vfs \<times> ret) outcome" where
  "rw_done E rfp rw f vp size0 r position cum_io s =
     (let s1 = (if rw = WRITING \<and> (S_ISREG (v_mode (vnodes s vp)) \<or> S_ISDIR (v_mode (vnodes s vp))) \<and> position > v_size (vnodes s vp)
                then upd_vnode vp (v_size_update (\<lambda>_. position)) s else s);
          s2 = upd_filp f (filp_pos_update (\<lambda>_. position)) s1
      in case find_vmnt E (v_fs_e (vnodes s2 vp)) s2 of
           None \<Rightarrow> Aborted ''find_vmnt''
         | Some vmp \<Rightarrow>
             let home = (m_mount_path (vmnts s2 vmp) = ''/home'');
                 ino = v_inode_nr (vnodes s2 vp);
                 s3 = (if rw = WRITING \<and> home then vcall (Printed ''File Write'' ino (Some (size0, position))) s2 else s2);
                 s4 = (if rw = READING \<and> home then vcall (Printed ''File Read'' ino (Some (size0, position))) s3 else s3);
                 s5 = (if r = Err EPIPE \<and> rw = WRITING \<and> O_NOSIGPIPE \<notin> filp_flags (filps s4 f)
                       then vcall (SysKill (fp_endpoint (fprocs s4 rfp))) s4 else s4)
             in Returned (s5, if r = OK then Ret cum_io else r))"

definition read_write :: "vfs_env \<Rightarrow> nat \<Rightarrow> rw_flag \<Rightarrow> nat \<Rightarrow> nat \<Rightarrow> nat \<Rightarrow> endpoint \<Rightarrow> vfs \<Rightarrow> (vfs \<times> ret) outcome" where
  "read_write E rfp rw f buf size0 for_e s =
     (case filp_vno (filps s f) of
        None \<Rightarrow> Aborted ''filp_vno''
      | Some vp \<Rightarrow>
          if size0 > SSIZE_MAX E then Returned (s, Err EINVAL)
          else let m = v_mode (vnodes s vp)
          in bind_outcome
               (if S_ISFIFO m then rw_fifo E rfp rw f vp buf size0 for_e s
                else if S_ISCHR m then rw_char E rw f vp buf size0 for_e s
                else if S_ISBLK m then rw_block E rw f vp buf size0 for_e s
                else rw_regular E rw f vp buf size0 for_e s)
               (\<lambda>(s1, r, res). case res of
                  None \<Rightarrow> Returned (s1, r)
                | Some (position, cum_io) \<Rightarrow> rw_done E rfp rw f vp size0 r position cum_io s1))"

definition set_scratch :: "nat \<Rightarrow> nat \<Rightarrow> nat \<Rightarrow> nat \<Rightarrow> vfs \<Rightarrow> vfs" where
  "set_scratch rfp fd buf nbytes s =
     upd_fproc rfp (\<lambda>p. p\<lparr>sc_fd_nr := fd, sc_io_buffer := buf, sc_io_nbytes := nbytes\<rparr>) s"

definition actual_read_write_peek :: "vfs_env \<Rightarrow> nat \<Rightarrow> rw_flag \<Rightarrow> nat \<Rightarrow> nat \<Rightarrow> nat \<Rightarrow> vfs \<Rightarrow> (vfs \<times> ret) outcome" where
  "actual_read_write_peek E rfp rw io_fd io_buf io_nbytes s =
     (case lock_filp E rfp io_fd (if rw = WRITING then VNODE_WRITE else VNODE_READ) (set_scratch rfp io_fd io_buf io_nbytes s) of
        (s1, Inl e) \<Rightarrow> Returned (s1, Err e)
      | (s1, Inr f) \<Rightarrow>
          if filp_count (filps s1 f) = 0 then Aborted ''assert filp_count''
          else if (if rw = WRITING then W_BIT else R_BIT) \<notin> filp_mode (filps s1 f) then Returned (unlock_filp f s1, Err EBADF)
          else if io_nbytes = 0 then Returned (unlock_filp f s1, Ret 0)
          else bind_outcome (read_write E rfp rw f io_buf io_nbytes (who_e s1) s1) (\<lambda>(s2, r). Returned (unlock_filp f s2, r)))"

definition do_read_write_peek :: "vfs_env \<Rightarrow> rw_flag \<Rightarrow> nat \<Rightarrow> nat \<Rightarrow> nat \<Rightarrow> vfs \<Rightarrow> (vfs \<times> ret) outcome" where
  "do_read_write_peek E rw io_fd io_buf io_nbytes s = actual_read_write_peek E (fp s) rw io_fd io_buf io_nbytes s"

definition do_read :: "vfs_env \<Rightarrow> nat \<Rightarrow> nat \<Rightarrow> nat \<Rightarrow> vfs \<Rightarrow> (vfs \<times> ret) outcome" where
  "do_read E fd buf len s = do_read_write_peek E READING fd buf len s"

definition do_getdents :: "vfs_env \<Rightarrow> nat \<Rightarrow> nat \<Rightarrow> nat \<Rightarrow> vfs \<Rightarrow> (vfs \<times> ret) outcome" where
  "do_getdents E fd buf len s =
     (case lock_filp E (fp s) fd VNODE_READ (set_scratch (fp s) fd buf len s) of
        (s1, Inl e) \<Rightarrow> Returned (s1, Err e)
      | (s1, Inr f) \<Rightarrow>
          if R_BIT \<notin> filp_mode (filps s1 f) then Returned (unlock_filp f s1, Err EBADF)
          else
          (case filp_vno (filps s1 f) of
             None \<Rightarrow> Aborted ''filp_vno''
           | Some vp \<Rightarrow>
               if \<not> S_ISDIR (v_mode (vnodes s1 vp)) then Returned (unlock_filp f s1, Err EBADF)
               else let fs = v_fs_e (vnodes s1 vp); ino = v_inode_nr (vnodes s1 vp); pos = filp_pos (filps s1 f);
                        (r, new_pos) = req_getdents E fs ino pos buf len s1;
                        s2 = vcall (ReqGetdents fs ino pos buf len) s1;
                        s3 = (if ret_pos r then upd_filp f (filp_pos_update (\<lambda>_. new_pos)) s2 else s2)
                    in Returned (unlock_filp f s3, r)))"

subsection \<open>\<open>link.c\<close>\<close>

definition lookup_init :: "string \<Rightarrow> bool \<Rightarrow> vmnt_lock \<Rightarrow> vnode_lock \<Rightarrow> lookup_t" where
  "lookup_init path symlink ml vl = \<lparr>l_path = path, l_ret_symlink = symlink, l_vmnt_lock = ml, l_vnode_lock = vl\<rparr>"

text \<open>The end of a call that has worked on one vnode: vnode and mount are unlocked and the vnode is given back.\<close>

definition finish_node :: "vfs_env \<Rightarrow> nat \<Rightarrow> nat option \<Rightarrow> ret \<Rightarrow> vfs \<Rightarrow> (vfs \<times> ret) outcome" where
  "finish_node E vp vmp r s =
     bind_outcome (unlock_vmnt_ptr vmp (vcall (UnlockVnode vp) s)) (\<lambda>s1. Returned (release_vnode E vp s1, r))"

text \<open>
  A call on one name: the name is fetched, looked up by \<open>look\<close>, and \<open>act\<close> works on what has
  been found.
\<close>

definition with_node ::
  "vfs_env \<Rightarrow> (vfs \<Rightarrow> looked) \<Rightarrow> (found \<Rightarrow> vfs \<Rightarrow> vfs \<times> ret) \<Rightarrow> vfs \<Rightarrow> (vfs \<times> ret) outcome" where
  "with_node E look act s =
     (case looked_up (look s) of
        (s1, Inl e) \<Rightarrow> Returned (s1, Err e)
      | (s1, Inr l) \<Rightarrow> (case act l s1 of (s2, r) \<Rightarrow> finish_node E (lr_vnode l) (lr_vmnt l) r s2))"

definition with_name :: "vfs_env \<Rightarrow> nat \<Rightarrow> nat \<Rightarrow> (string \<Rightarrow> vfs \<Rightarrow> (vfs \<times> ret) outcome) \<Rightarrow> vfs \<Rightarrow> (vfs \<times> ret) outcome" where
  "with_name E vname len k s =
     (case fetch_name E vname len s of Inl e \<Rightarrow> Returned (s\<lparr>vfs_err := e\<rparr>, Err e) | Inr path \<Rightarrow> k path s)"

definition with_path :: "vfs_env \<Rightarrow> (string \<Rightarrow> vfs \<Rightarrow> (vfs \<times> ret) outcome) \<Rightarrow> vfs \<Rightarrow> (vfs \<times> ret) outcome" where
  "with_path E k s =
     (case copy_path E s of Inl e \<Rightarrow> Returned (s\<lparr>vfs_err := e\<rparr>, Err e) | Inr path \<Rightarrow> k path s)"

definition truncate_vnode :: "vfs_env \<Rightarrow> nat \<Rightarrow> int \<Rightarrow> vfs \<Rightarrow> vfs \<times> ret" where
  "truncate_vnode E vp newsize s =
     (let m = v_mode (vnodes s vp)
      in if \<not> S_ISFIFO m \<and> \<not> (S_ISREG m \<or> S_ISIMM m) then (s, Err EINVAL)
         else let r = req_ftrunc E (v_fs_e (vnodes s vp)) (v_inode_nr (vnodes s vp)) newsize s;
                  s1 = vcall (ReqFtrunc (v_fs_e (vnodes s vp)) (v_inode_nr (vnodes s vp)) newsize) s
              in (if r = OK then upd_vnode vp (v_size_update (\<lambda>_. newsize)) s1 else s1, r))"

definition do_link :: "vfs_env \<Rightarrow> nat \<Rightarrow> nat \<Rightarrow> nat \<Rightarrow> nat \<Rightarrow> vfs \<Rightarrow> (vfs \<times> ret) outcome" where
  "do_link E vname1 len1 vname2 len2 s =
     with_name E vname1 len1 (\<lambda>path s.
       case looked_up (eat_path E (lookup_init path False VMNT_WRITE VNODE_READ) (fp s) s) of
         (s1, Inl e) \<Rightarrow> Returned (s1, Err e)
       | (s1, Inr l1) \<Rightarrow>
           let vp = lr_vnode l1;
               (s2, found2) =
                 (case fetch_name E vname2 len2 s1 of
                    Inl e \<Rightarrow> (s1\<lparr>vfs_err := e\<rparr>, Inl e)
                  | Inr path2 \<Rightarrow> looked_up (last_dir E (lookup_init path2 False VMNT_READ VNODE_WRITE) (fp s1) s1))
           in case found2 of
                Inl e \<Rightarrow> finish_node E vp (lr_vmnt l1) (Err e) s2
              | Inr l2 \<Rightarrow>
                  let dirp = lr_vnode l2;
                      r0 = (if v_fs_e (vnodes s2 vp) \<noteq> v_fs_e (vnodes s2 dirp) then Err EXDEV
                            else forbidden E (fp s2) dirp {W_BIT, X_BIT} s2);
                      fs = v_fs_e (vnodes s2 vp); dino = v_inode_nr (vnodes s2 dirp); ino = v_inode_nr (vnodes s2 vp);
                      (s3, r) = (if r0 = OK then (vcall (ReqLink fs dino (lr_path l2) ino) s2, req_link E fs dino (lr_path l2) ino s2)
                                 else (s2, r0));
                      s4 = vcall (UnlockVnode dirp) (vcall (UnlockVnode vp) s3);
                      s5 = (case lr_vmnt l2 of None \<Rightarrow> s4 | Some m \<Rightarrow> vcall (UnlockVmnt m) s4)
                  in bind_outcome (unlock_vmnt_ptr (lr_vmnt l1) s5) (\<lambda>s6.
                       Returned (release_vnode E dirp (release_vnode E vp s6), r))) s"

text \<open>
  Directories with the sticky bit: only the owner of the file and the superuser may unlink
  or rename it. The file is looked up in the directory and released again.
\<close>

definition sticky_check :: "vfs_env \<Rightarrow> nat \<Rightarrow> string \<Rightarrow> vfs \<Rightarrow> (vfs \<times> ret) outcome" where
  "sticky_check E dirp path s =
     (if v_mode (vnodes s dirp) AND S_ISVTX \<noteq> S_ISVTX then Returned (s, OK)
      else case looked_up (advance E dirp (lookup_init path True VMNT_READ VNODE_READ) (fp s) s) of
             (s1, Inl e) \<Rightarrow> Returned (s1, Err e)
           | (s1, Inr l) \<Rightarrow>
               if lr_vmnt l \<noteq> None then Aborted ''assert vmp2''
               else let vp = lr_vnode l; uid = fp_effuid (fprocs s1 (fp s1));
                        r = (if v_uid (vnodes s1 vp) \<noteq> uid \<and> uid \<noteq> SU_UID E then Err EPERM else OK)
                    in Returned (release_vnode E vp (vcall (UnlockVnode vp) s1), r))"

definition do_unlink :: "vfs_env \<Rightarrow> bool \<Rightarrow> vfs \<Rightarrow> (vfs \<times> ret) outcome" where
  "do_unlink E unlink s =
     with_path E (\<lambda>path s.
       case looked_up (last_dir E (lookup_init path True VMNT_WRITE VNODE_WRITE) (fp s) s) of
         (s1, Inl e) \<Rightarrow> Returned (s1, Err e)
       | (s1, Inr l) \<Rightarrow>
           let dirp = lr_vnode l; vmp = lr_vmnt l
           in if \<not> S_ISDIR (v_mode (vnodes s1 dirp)) then finish_node E dirp vmp (Err ENOTDIR) s1
              else let r = forbidden E (fp s1) dirp {X_BIT, W_BIT} s1
              in if r \<noteq> OK then finish_node E dirp vmp r s1
                 else bind_outcome (sticky_check E dirp (lr_path l) s1) (\<lambda>(s2, r).
                   if r \<noteq> OK then finish_node E dirp vmp r s2
                   else case vmp of
                          None \<Rightarrow> Aborted ''upgrade_vmnt_lock''
                        | Some m \<Rightarrow>
                            let s3 = vcall (UpgradeVmnt m) s2; fs = v_fs_e (vnodes s3 dirp); ino = v_inode_nr (vnodes s3 dirp)
                            in if unlink then finish_node E dirp vmp (req_unlink E fs ino (lr_path l) s3) (vcall (ReqUnlink fs ino (lr_path l)) s3)
                               else finish_node E dirp vmp (req_rmdir E fs ino (lr_path l) s3) (vcall (ReqRmdir fs ino (lr_path l)) s3))) s"

definition do_rename :: "vfs_env \<Rightarrow> nat \<Rightarrow> nat \<Rightarrow> nat \<Rightarrow> nat \<Rightarrow> vfs \<Rightarrow> (vfs \<times> ret) outcome" where
  "do_rename E vname1 len1 vname2 len2 s =
     with_name E vname1 len1 (\<lambda>path s.
       case looked_up (last_dir E (lookup_init path True VMNT_WRITE VNODE_WRITE) (fp s) s) of
         (s1, Inl e) \<Rightarrow> Returned (s1, Err e)
       | (s1, Inr l1) \<Rightarrow>
           let old_dirp = lr_vnode l1; oldvmp = lr_vmnt l1; old_name = lr_path l1
           in bind_outcome (sticky_check E old_dirp old_name s1) (\<lambda>(s2, r).
             if r \<noteq> OK then finish_node E old_dirp oldvmp r s2
             else if length old_name \<ge> PATH_MAX E then finish_node E old_dirp oldvmp (Err ENAMETOOLONG) s2
             else let (s3, found2) =
                 (case fetch_name E vname2 len2 s2 of
                    Inl e \<Rightarrow> (s2\<lparr>vfs_err := e\<rparr>, Inl e)
                  | Inr path2 \<Rightarrow> looked_up (last_dir E (lookup_init path2 True VMNT_READ VNODE_WRITE) (fp s2) s2))
             in case found2 of
                  Inl e \<Rightarrow> finish_node E old_dirp oldvmp (Err e) s3
                | Inr l2 \<Rightarrow>
                    let new_dirp = lr_vnode l2
                    in if new_dirp = old_dirp \<and> lr_locked l2 then Aborted ''assert new_dirp_l''
                       else let r1 = forbidden E (fp s3) old_dirp {W_BIT, X_BIT} s3; r2 = forbidden E (fp s3) new_dirp {W_BIT, X_BIT} s3;
                                r0 = (if r1 \<noteq> OK then r1 else if r2 \<noteq> OK then r2
                                      else if v_fs_e (vnodes s3 old_dirp) \<noteq> v_fs_e (vnodes s3 new_dirp) then Err EXDEV else OK);
                                fs = v_fs_e (vnodes s3 old_dirp); oino = v_inode_nr (vnodes s3 old_dirp); nino = v_inode_nr (vnodes s3 new_dirp)
                            in bind_outcome
                                 (if r0 \<noteq> OK then Returned (s3, r0)
                                  else case oldvmp of
                                         None \<Rightarrow> Aborted ''upgrade_vmnt_lock''
                                       | Some m \<Rightarrow>
                                           let s4 = vcall (UpgradeVmnt m) s3
                                           in Returned (vcall (ReqRename fs oino old_name nino (lr_path l2)) s4,
                                                        req_rename E fs oino old_name nino (lr_path l2) s4))
                                 (\<lambda>(s5, r). bind_outcome (unlock_vmnt_ptr oldvmp (vcall (UnlockVnode old_dirp) s5)) (\<lambda>s6.
                                    let s7 = (if lr_locked l2 then vcall (UnlockVnode new_dirp) s6 else s6);
                                        s8 = (case lr_vmnt l2 of None \<Rightarrow> s7 | Some m \<Rightarrow> vcall (UnlockVmnt m) s7)
                                    in Returned (release_vnode E new_dirp (release_vnode E old_dirp s8), r))))) s"

definition do_truncate :: "vfs_env \<Rightarrow> nat \<Rightarrow> nat \<Rightarrow> int \<Rightarrow> vfs \<Rightarrow> (vfs \<times> ret) outcome" where
  "do_truncate E vname len new_length s =
     (if new_length < 0 then Returned (s, Err EINVAL)
      else with_name E vname len (\<lambda>path s.
        with_node E (\<lambda>s. eat_path E (lookup_init path False VMNT_READ VNODE_WRITE) (fp s) s) (\<lambda>l s.
          let vp = lr_vnode l; r = forbidden E (fp s) vp {W_BIT} s
          in if r \<noteq> OK then (s, r)
             else if S_ISREG (v_mode (vnodes s vp)) \<and> v_size (vnodes s vp) = new_length then (s, OK)
             else truncate_vnode E vp new_length s) s) s)"

definition do_ftruncate :: "vfs_env \<Rightarrow> nat \<Rightarrow> int \<Rightarrow> vfs \<Rightarrow> (vfs \<times> ret) outcome" where
  "do_ftruncate E fd new_length s =
     (let s0 = upd_fproc (fp s) (sc_fd_nr_update (\<lambda>_. fd)) s
      in if new_length < 0 then Returned (s0, Err EINVAL)
         else case lock_filp E (fp s0) fd VNODE_WRITE s0 of
                (s1, Inl e) \<Rightarrow> Returned (s1, Err e)
              | (s1, Inr f) \<Rightarrow>
                  if W_BIT \<notin> filp_mode (filps s1 f) then Returned (unlock_filp f s1, Err EBADF)
                  else (case filp_vno (filps s1 f) of
                     None \<Rightarrow> Aborted ''filp_vno''
                   | Some vp \<Rightarrow>
                       if S_ISREG (v_mode (vnodes s1 vp)) \<and> v_size (vnodes s1 vp) = new_length then Returned (unlock_filp f s1, OK)
                       else (case truncate_vnode E vp new_length s1 of (s2, r) \<Rightarrow> Returned (unlock_filp f s2, r))))"

definition do_slink :: "vfs_env \<Rightarrow> nat \<Rightarrow> nat \<Rightarrow> nat \<Rightarrow> nat \<Rightarrow> vfs \<Rightarrow> (vfs \<times> ret) outcome" where
  "do_slink E vname1 len1 vname2 len2 s =
     (if len1 \<le> 1 then Returned (s, Err ENOENT)
      else if len1 \<ge> POSIX_SYMLINK_MAX E then Returned (s, Err ENAMETOOLONG)
      else with_name E vname2 len2 (\<lambda>path s.
        with_node E (\<lambda>s. last_dir E (lookup_init path False VMNT_WRITE VNODE_WRITE) (fp s) s) (\<lambda>l s.
          let vp = lr_vnode l; r = forbidden E (fp s) vp {W_BIT, X_BIT} s;
              fs = v_fs_e (vnodes s vp); ino = v_inode_nr (vnodes s vp); p = fprocs s (fp s)
          in if r \<noteq> OK then (s, r)
             else (vcall (ReqSlink fs ino (lr_path l) (who_e s) vname1 (len1 - 1)) s,
                   req_slink E fs ino (lr_path l) (who_e s) vname1 (len1 - 1) (fp_effuid p) (fp_effgid p) s)) s) s)"

text \<open>The link's content, when there is one, is returned with the result.\<close>

definition read_link :: "vfs_env \<Rightarrow> endpoint \<Rightarrow> nat \<Rightarrow> nat \<Rightarrow> found \<Rightarrow> vfs \<Rightarrow> vfs \<times> ret" where
  "read_link E who buf buf_size l s =
     (let vp = lr_vnode l; fs = v_fs_e (vnodes s vp); ino = v_inode_nr (vnodes s vp)
      in if \<not> S_ISLNK (v_mode (vnodes s vp)) then (s, Err EINVAL)
         else (vcall (ReqRdlink fs ino who buf_size) s, fst (req_rdlink E fs ino who buf buf_size s)))"

definition rdlink_direct :: "vfs_env \<Rightarrow> string \<Rightarrow> nat \<Rightarrow> vfs \<Rightarrow> (vfs \<times> ret) outcome" where
  "rdlink_direct E orig_path rfp s =
     with_node E (eat_path E (lookup_init (take (PATH_MAX E - 1) orig_path) True VMNT_READ VNODE_READ) rfp)
       (read_link E (NO_ENDPOINT E) 0 (PATH_MAX E - 1)) s"

definition do_rdlink :: "vfs_env \<Rightarrow> nat \<Rightarrow> nat \<Rightarrow> nat \<Rightarrow> nat \<Rightarrow> vfs \<Rightarrow> (vfs \<times> ret) outcome" where
  "do_rdlink E vname len buf buf_size s =
     (if buf_size > SSIZE_MAX E then Returned (s, Err EINVAL)
      else with_name E vname len (\<lambda>path s.
        with_node E (eat_path E (lookup_init path True VMNT_READ VNODE_READ) (fp s)) (read_link E (who_e s) buf buf_size) s) s)"

subsection \<open>\<open>open.c\<close>\<close>

definition mode_map :: "nat \<Rightarrow> access set" where
  "mode_map acc = (if acc = 0 then {R_BIT} else if acc = 1 then {W_BIT} else if acc = 2 then {R_BIT, W_BIT} else {})"

definition pipe_open :: "vfs_env \<Rightarrow> nat \<Rightarrow> access set \<Rightarrow> oflag set \<Rightarrow> vfs \<Rightarrow> vfs \<times> ret" where
  "pipe_open E vp bits oflags s =
     (if {R_BIT, W_BIT} \<subseteq> bits then (s, Err ENXIO)
      else if find_filp E vp (if W_BIT \<in> bits then R_BIT else W_BIT) s = None then
        if O_NONBLOCK \<in> oflags then if W_BIT \<in> bits then (s, Err ENXIO) else (s, OK)
        else (suspend_popen E (vcall SuspendPopen s), SUSPEND)
      else if susp_count s > 0 then (release_pipe E vp (vcall (ReleasePipe vp) s), OK)
      else (s, OK))"

text \<open>
  Creating a node: the vnode of the new or of the existing file, and the error code the
  caller looks at. Links that dangle make it start again with their content as the path;
  the number of times it may do so is bounded by the first argument.
\<close>

definition store_result :: "nat \<Rightarrow> nat \<Rightarrow> node_details \<Rightarrow> vfs \<Rightarrow> vfs" where
  "store_result vp dirp res s =
     (let m = v_vmnt (vnodes s dirp)
      in upd_vnode vp (\<lambda>v. v\<lparr>v_fs_e := res_fs_e res, v_inode_nr := res_inode_nr res, v_mode := res_fmode res, v_size := res_fsize res,
           v_uid := res_uid res, v_gid := res_gid res, v_sdev := res_dev res, v_vmnt := m, v_dev := m_dev (vmnts s m),
           v_fs_count := 1, v_ref_count := 1\<rparr>) s)"

definition new_node_end :: "vfs_env \<Rightarrow> nat \<Rightarrow> nat option \<Rightarrow> nat option \<Rightarrow> ret \<Rightarrow> vfs \<Rightarrow> (vfs \<times> nat option \<times> ret) outcome" where
  "new_node_end E dirp dir_vmp vp r s =
     (let s1 = (if vp \<noteq> Some dirp then vcall (UnlockVnode dirp) s else s)
      in bind_outcome (unlock_vmnt_ptr dir_vmp s1) (\<lambda>s2. Returned (release_vnode E dirp s2, vp, r)))"

text \<open>The link that is in the way of a new node: its content, or the error that ends the call.\<close>

definition follow_link ::
  "vfs_env \<Rightarrow> nat \<Rightarrow> nat option \<Rightarrow> string \<Rightarrow> vfs \<Rightarrow> (vfs \<times> (ret + string)) outcome" where
  "follow_link E dirp dir_vmp path s =
     (let x = advance E dirp (lookup_init path True VMNT_WRITE VNODE_READ) (fp s) s
      in case looked_up x of
           (s1, Inl e) \<Rightarrow> Returned (s1, Inr (left_path x))
         | (s1, Inr sl) \<Rightarrow>
             let slp = lr_vnode sl; fs = v_fs_e (vnodes s1 slp); ino = v_inode_nr (vnodes s1 slp)
             in if \<not> S_ISLNK (v_mode (vnodes s1 slp)) then
                  Returned (release_vnode E slp (vcall (UnlockVnode slp) s1), Inr (lr_path sl))
                else let (r, content) = req_rdlink E fs ino (VFS_ENDPOINT E) 0 (PATH_MAX E - 1) s1;
                         s2 = vcall (UnlockVnode slp) (vcall (ReqRdlink fs ino (VFS_ENDPOINT E) (PATH_MAX E - 1)) s1)
                     in if ret_nonneg r then Returned (release_vnode E slp s2, Inr content)
                        else bind_outcome (unlock_vmnt_ptr dir_vmp (vcall (UnlockVnode dirp) s2)) (\<lambda>s3.
                               Returned (release_vnode E dirp (release_vnode E slp s3), Inl r)))"

text \<open>Asking the file server for the new node.\<close>

definition create_request :: "vfs_env \<Rightarrow> nat \<Rightarrow> u16 \<Rightarrow> string \<Rightarrow> vfs \<Rightarrow> vfs \<times> (ret + node_details)" where
  "create_request E dirp bits path s =
     (let p = fprocs s (fp s); fs = v_fs_e (vnodes s dirp); ino = v_inode_nr (vnodes s dirp); r0 = forbidden E (fp s) dirp {W_BIT, X_BIT} s
      in if r0 \<noteq> OK then (s, Inl r0)
         else let (r, res) = req_create E fs ino bits (fp_effuid p) (fp_effgid p) path s
              in (vcall (ReqCreate fs ino bits (fp_effuid p) (fp_effgid p) path) s, if r = OK then Inr res else Inl r))"

fun new_node :: "nat \<Rightarrow> vfs_env \<Rightarrow> string \<Rightarrow> oflag set \<Rightarrow> u16 \<Rightarrow> vfs \<Rightarrow> (vfs \<times> nat option \<times> ret) outcome" where
  "new_node 0 E path oflags bits s = Aborted ''recursion''"
| "new_node (Suc n) E path oflags bits s =
     (case looked_up (last_dir E (lookup_init path (O_EXCL \<in> oflags) VMNT_WRITE VNODE_WRITE) (fp s) s) of
        (s1, Inl e) \<Rightarrow> Returned (s1, None, Err e)
      | (s1, Inr d) \<Rightarrow>
          let dirp = lr_vnode d; dir_vmp = lr_vmnt d;
              x = advance E dirp (lookup_init (lr_path d) (O_EXCL \<in> oflags) VMNT_WRITE (if O_TRUNC \<in> oflags then VNODE_WRITE else VNODE_OPCL)) (fp s1) s1;
              (s2, found2) = looked_up x; path2 = left_path x
          in if (case found2 of Inl _ \<Rightarrow> False | Inr l \<Rightarrow> lr_vmnt l \<noteq> None) then Aborted ''assert vp_vmp''
             else if take 1 path2 = ''/'' then
               bind_outcome (unlock_vmnt_ptr dir_vmp (vcall (UnlockVnode dirp) s2)) (\<lambda>s3.
                 let s4 = release_vnode E dirp s3
                 in new_node n E path2 oflags bits
                      (case found2 of Inl _ \<Rightarrow> s4 | Inr l \<Rightarrow> release_vnode E (lr_vnode l) (vcall (UnlockVnode (lr_vnode l)) s4)))
             else if found2 \<noteq> Inl ENOENT then
               new_node_end E dirp dir_vmp (case found2 of Inl _ \<Rightarrow> None | Inr l \<Rightarrow> Some (lr_vnode l))
                 (case found2 of Inl e \<Rightarrow> Err e | Inr _ \<Rightarrow> Err EEXIST) s2
             else (case get_free_vnode E s2 of
                     (s3, Inl e) \<Rightarrow>
                       bind_outcome (unlock_vmnt_ptr dir_vmp (vcall (UnlockVnode dirp) (s3\<lparr>vfs_err := e\<rparr>))) (\<lambda>s4.
                         Returned (release_vnode E dirp s4, None, Err e))
                   | (s3, Inr vp) \<Rightarrow>
                       (case dir_vmp of
                          None \<Rightarrow> Aborted ''upgrade_vmnt_lock''
                        | Some m \<Rightarrow>
                            (case create_request E dirp bits path2 (vcall (UpgradeVmnt m) (vcall (LockVnode vp) s3)) of
                               (s4, Inr res) \<Rightarrow> new_node_end E dirp dir_vmp (Some vp) OK (store_result vp dirp res s4)
                             | (s4, Inl r) \<Rightarrow>
                                 let s5 = vcall (DowngradeVmnt m) s4
                                 in if r \<noteq> Err EEXIST then
                                      Returned (release_vnode E dirp (vcall (UnlockVnode vp) (vcall (UnlockVnode dirp) (vcall (UnlockVmnt m) s5))), None, r)
                                    else bind_outcome (follow_link E dirp dir_vmp path2 s5) (\<lambda>(s6, y).
                                      case y of
                                        Inl r' \<Rightarrow> Returned (s6, None, r')
                                      | Inr path3 \<Rightarrow>
                                          let s7 = vcall (UnlockVmnt m) (vcall (UnlockVnode vp) (vcall (UnlockVnode dirp) s6));
                                              old_wd = fp_wd (fprocs s7 (fp s7))
                                          in bind_outcome (new_node n E path3 oflags bits (upd_fproc (fp s7) (fp_wd_update (\<lambda>_. dirp)) s7)) (\<lambda>(s8, vp', r').
                                               let s9 = upd_fproc (fp s8) (fp_wd_update (\<lambda>_. old_wd)) s8
                                               in case vp' of
                                                    Some v \<Rightarrow> Returned (release_vnode E dirp s9, Some v, r')
                                                  | None \<Rightarrow> Aborted ''unlock_vnode(NULL)''))))))"

text \<open>Opening a file that exists, by its type: the state, the result, and the vnode, which a driver may replace.\<close>

definition open_regular :: "vfs_env \<Rightarrow> nat \<Rightarrow> oflag set \<Rightarrow> vfs \<Rightarrow> vfs \<times> ret" where
  "open_regular E vp oflags s =
     (if O_TRUNC \<notin> oflags then (s, OK)
      else let r = forbidden E (fp s) vp {W_BIT} s
           in if r \<noteq> OK then (s, r) else (fst (truncate_vnode E vp 0 (vcall (UpgradeVnode vp) s)), OK))"

text \<open>The file server that is responsible for a block device: the last mount of it in the table.\<close>

definition bsf_server :: "vfs_env \<Rightarrow> nat \<Rightarrow> vfs \<Rightarrow> endpoint" where
  "bsf_server E dev s =
     fold (\<lambda>i e. if m_dev (vmnts s i) = dev \<and> \<not> m_forcerootbsf (vmnts s i) then m_fs_e (vmnts s i) else e) [0..<NR_MNTS E] (ROOT_FS_E E)"

definition open_block :: "vfs_env \<Rightarrow> nat \<Rightarrow> access set \<Rightarrow> vfs \<Rightarrow> (vfs \<times> ret) outcome" where
  "open_block E vp bits s =
     bind_outcome (lock_bsf E s) (\<lambda>s1.
       let dev = v_sdev (vnodes s1 vp); r = bdev_open E dev bits s1; s2 = vcall (BdevOpen dev) s1
       in if r \<noteq> OK then bind_outcome (unlock_bsf E s2) (\<lambda>s3. Returned (s3, r))
          else if dmap_driver E dev s2 = NO_ENDPOINT E then bind_outcome (unlock_bsf E s2) (\<lambda>s3. Returned (s3, Err ENXIO))
          else let bfs = bsf_server E dev s2; s3 = upd_vnode vp (v_bfs_e_update (\<lambda>_. bfs)) s2
               in if bfs \<noteq> ROOT_FS_E E then bind_outcome (unlock_bsf E s3) (\<lambda>s4. Returned (s4, OK))
                  else let ok = (req_newdriver E bfs dev s3 = OK); s4 = vcall (ReqNewdriver bfs dev) s3;
                           s5 = (if ok then s4 else vcall (BdevClose dev) s4)
                       in bind_outcome (unlock_bsf E s5) (\<lambda>s6. Returned (s6, if ok then OK else Err ENXIO)))"

definition open_fifo :: "vfs_env \<Rightarrow> nat \<Rightarrow> nat \<Rightarrow> nat \<Rightarrow> access set \<Rightarrow> oflag set \<Rightarrow> vfs \<Rightarrow> vfs \<times> ret" where
  "open_fifo E fd f vp bits oflags s =
     (let (s1, r1) = map_vnode E vp (PFS_PROC_NR E) (vcall (MapVnode vp) (vcall (UpgradeVnode vp) s));
          (s2, r2) = (if r1 = OK then
                        let (sa, ra) = (if v_ref_count (vnodes s1 vp) = 1 \<and> v_size (vnodes s1 vp) \<noteq> 0 then truncate_vnode E vp 0 s1 else (s1, OK))
                        in (upd_filp f (filp_flags_update (\<lambda>_. insert O_APPEND oflags)) sa, ra)
                      else (s1, r1));
          oflags' = (if r1 = OK then insert O_APPEND oflags else oflags);
          (s3, r3) = (if r2 = OK then pipe_open E vp bits oflags' s2 else (s2, r2))
      in if r3 = Err ENXIO then (s3, r3)
         else let s4 = upd_filp f (filp_count_update (\<lambda>_. 0)) s3
              in case find_filp E vp (if R_BIT \<in> bits then R_BIT else W_BIT) s4 of
                   Some f2 \<Rightarrow>
                     let s5 = upd_fproc (fp s4) (\<lambda>p. p\<lparr>fp_filp := (fp_filp p)(fd := Some f2)\<rparr>) s4;
                         s6 = upd_filp f2 (\<lambda>x. x\<lparr>filp_count := filp_count x + 1, filp_vno := Some vp, filp_flags := oflags'\<rparr>) s5
                     in (release_vnode E vp (vcall (UnlockVnode vp) s6), r3)
                 | None \<Rightarrow> (upd_filp f (filp_count_update (\<lambda>_. 1)) s4, r3))"

definition open_by_type ::
  "vfs_env \<Rightarrow> nat \<Rightarrow> nat \<Rightarrow> nat \<Rightarrow> access set \<Rightarrow> oflag set \<Rightarrow> vfs \<Rightarrow> (vfs \<times> ret \<times> nat option) outcome" where
  "open_by_type E fd f vp bits oflags s =
     (let m = v_mode (vnodes s vp)
      in if S_ISREG m \<or> S_ISIMM m then (case open_regular E vp oflags s of (s1, r) \<Rightarrow> Returned (s1, r, Some vp))
         else if S_ISDIR m then Returned (s, if W_BIT \<in> bits then Err EISDIR else OK, Some vp)
         else if S_ISCHR m then
           (case cdev_open E (v_sdev (vnodes s vp)) bits (O_NOCTTY \<in> oflags) (vcall (CdevOpen (v_sdev (vnodes s vp))) s) of
              (s1, r) \<Rightarrow> Returned (s1, r, filp_vno (filps s1 f)))
         else if S_ISBLK m then bind_outcome (open_block E vp bits s) (\<lambda>(s1, r). Returned (s1, r, Some vp))
         else if S_ISFIFO m then (case open_fifo E fd f vp bits oflags s of (s1, r) \<Rightarrow> Returned (s1, r, Some vp))
         else Returned (s, OK, Some vp))"

text \<open>
  The node to open: made or found. The result is the vnode, whether the normal code for
  opening is to be done, and the error code so far; or the error that ends the call.
\<close>

definition open_node ::
  "nat \<Rightarrow> vfs_env \<Rightarrow> string \<Rightarrow> oflag set \<Rightarrow> u16 \<Rightarrow> nat \<Rightarrow> vfs \<Rightarrow> (vfs \<times> (ret + nat \<times> bool \<times> ret)) outcome" where
  "open_node fuel E path oflags omode f s =
     (if O_CREAT \<in> oflags then
        let bits = I_IMMEDIATE OR (omode AND ALL_MODES AND fp_umask (fprocs s (fp s)))
        in bind_outcome (new_node fuel E path oflags bits s) (\<lambda>(s1, vpo, r).
             if r = OK then
               (case vpo of
                  None \<Rightarrow> Aborted ''vp''
                | Some vp \<Rightarrow>
                    (case find_vmnt E (v_fs_e (vnodes s1 vp)) s1 of
                       None \<Rightarrow> Aborted ''find_vmnt''
                     | Some vmp \<Rightarrow>
                         Returned (if m_mount_path (vmnts s1 vmp) = ''/home''
                                   then vcall (Printed ''File Created'' (v_inode_nr (vnodes s1 vp)) None) s1 else s1,
                                   Inr (vp, False, OK))))
             else if r \<noteq> Err EEXIST then
               Returned (unlock_filp f (case vpo of None \<Rightarrow> s1 | Some vp \<Rightarrow> vcall (UnlockVnode vp) s1), Inl r)
             else case vpo of None \<Rightarrow> Aborted ''vp'' | Some vp \<Rightarrow> Returned (s1, Inr (vp, O_EXCL \<notin> oflags, Err EEXIST)))
      else case looked_up (eat_path E (lookup_init path False VMNT_READ VNODE_OPCL) (fp s) s) of
             (s1, Inl e) \<Rightarrow> Returned (unlock_filp f s1, Inl (Err e))
           | (s1, Inr l) \<Rightarrow>
               Returned (case lr_vmnt l of None \<Rightarrow> s1 | Some m \<Rightarrow> vcall (UnlockVmnt m) s1, Inr (lr_vnode l, True, OK)))"

definition claim_fd :: "nat \<Rightarrow> nat \<Rightarrow> nat \<Rightarrow> oflag set \<Rightarrow> vfs \<Rightarrow> vfs" where
  "claim_fd fd f vp oflags s =
     (let s1 = upd_fproc (fp s) (\<lambda>p. p\<lparr>fp_filp := (fp_filp p)(fd := Some f)\<rparr>) s;
          s2 = upd_filp f (\<lambda>x. x\<lparr>filp_count := 1, filp_vno := Some vp, filp_flags := oflags\<rparr>) s1
      in if O_CLOEXEC \<in> oflags then upd_fproc (fp s2) (fp_cloexec_set_update (insert fd)) s2 else s2)"

definition open_end :: "vfs_env \<Rightarrow> nat \<Rightarrow> nat \<Rightarrow> nat option \<Rightarrow> ret \<Rightarrow> vfs \<Rightarrow> vfs \<times> ret" where
  "open_end E fd f vp r s =
     (let s1 = unlock_filp f s
      in if r = OK then (s1, Ret fd)
         else if r = SUSPEND then (s1, r)
         else let s2 = upd_filp f (\<lambda>x. x\<lparr>filp_count := 0, filp_vno := None\<rparr>)
                         (upd_fproc (fp s1) (\<lambda>p. p\<lparr>fp_filp := (fp_filp p)(fd := None)\<rparr>) s1)
              in (case vp of None \<Rightarrow> s2 | Some v \<Rightarrow> release_vnode E v s2, r))"

definition common_open :: "nat \<Rightarrow> vfs_env \<Rightarrow> string \<Rightarrow> nat \<Rightarrow> oflag set \<Rightarrow> u16 \<Rightarrow> vfs \<Rightarrow> (vfs \<times> ret) outcome" where
  "common_open fuel E path acc oflags omode s =
     (let bits = mode_map acc
      in if bits = {} then Returned (s, Err EINVAL)
         else case get_fd E (fp s) bits s of
                (s1, Inl e) \<Rightarrow> Returned (s1, Err e)
              | (s1, Inr (fd, f)) \<Rightarrow>
                  bind_outcome
                    (open_node fuel E path oflags omode f (vcall (LockFilp f None) (upd_fproc (fp s1) (sc_fd_nr_update (\<lambda>_. fd)) s1)))
                    (\<lambda>(s2, x).
                      case x of
                        Inl r \<Rightarrow> Returned (s2, r)
                      | Inr (vp, exist, r) \<Rightarrow>
                          let s3 = claim_fd fd f vp oflags s2
                          in if \<not> exist then Returned (open_end E fd f (Some vp) r s3)
                             else let r1 = forbidden E (fp s3) vp bits s3
                                  in if r1 \<noteq> OK then Returned (open_end E fd f (Some vp) r1 s3)
                                     else bind_outcome (open_by_type E fd f vp bits oflags s3) (\<lambda>(s4, r2, vp2).
                                       Returned (open_end E fd f vp2 r2 s4))))"

definition do_open :: "nat \<Rightarrow> vfs_env \<Rightarrow> nat \<Rightarrow> oflag set \<Rightarrow> vfs \<Rightarrow> (vfs \<times> ret) outcome" where
  "do_open fuel E acc oflags s =
     (if O_CREAT \<in> oflags then Returned (s, Err EINVAL)
      else with_path E (\<lambda>path s. common_open fuel E path acc oflags 0 s) s)"

definition do_creat :: "nat \<Rightarrow> vfs_env \<Rightarrow> nat \<Rightarrow> nat \<Rightarrow> nat \<Rightarrow> oflag set \<Rightarrow> u16 \<Rightarrow> vfs \<Rightarrow> (vfs \<times> ret) outcome" where
  "do_creat fuel E vname len acc oflags create_mode s =
     (if O_CREAT \<notin> oflags then Returned (s, Err EINVAL)
      else with_name E vname len (\<lambda>path s. common_open fuel E path acc oflags create_mode s) s)"

definition do_mknod :: "vfs_env \<Rightarrow> nat \<Rightarrow> nat \<Rightarrow> u16 \<Rightarrow> nat \<Rightarrow> vfs \<Rightarrow> (vfs \<times> ret) outcome" where
  "do_mknod E vname len mode_bits dev s =
     (if fp_effuid (fprocs s (fp s)) \<noteq> SU_UID E \<and> \<not> S_ISFIFO mode_bits \<and> \<not> S_ISSOCK mode_bits then Returned (s, Err EPERM)
      else with_name E vname len (\<lambda>path s.
        with_node E (\<lambda>s. last_dir E (lookup_init path False VMNT_WRITE VNODE_WRITE) (fp s) s) (\<lambda>l s.
          let vp = lr_vnode l; p = fprocs s (fp s); fs = v_fs_e (vnodes s vp); ino = v_inode_nr (vnodes s vp);
              bits = (mode_bits AND I_TYPE) OR (mode_bits AND 0x1FF AND fp_umask p);
              r = forbidden E (fp s) vp {W_BIT, X_BIT} s
          in if \<not> S_ISDIR (v_mode (vnodes s vp)) then (s, Err ENOTDIR)
             else if r \<noteq> OK then (s, r)
             else (vcall (ReqMknod fs ino (lr_path l) (fp_effuid p) (fp_effgid p) bits dev) s,
                   req_mknod E fs ino (lr_path l) (fp_effuid p) (fp_effgid p) bits dev s)) s) s)"

definition do_mkdir :: "vfs_env \<Rightarrow> u16 \<Rightarrow> vfs \<Rightarrow> (vfs \<times> ret) outcome" where
  "do_mkdir E dirmode s =
     with_path E (\<lambda>path s.
       with_node E (\<lambda>s. last_dir E (lookup_init path False VMNT_WRITE VNODE_WRITE) (fp s) s) (\<lambda>l s.
         let vp = lr_vnode l; p = fprocs s (fp s); fs = v_fs_e (vnodes s vp); ino = v_inode_nr (vnodes s vp);
             bits = I_DIRECTORY OR (dirmode AND 0x1FF AND fp_umask p);
             r = forbidden E (fp s) vp {W_BIT, X_BIT} s
         in if \<not> S_ISDIR (v_mode (vnodes s vp)) then (s, Err ENOTDIR)
            else if r \<noteq> OK then (s, r)
            else (vcall (ReqMkdir fs ino (lr_path l) (fp_effuid p) (fp_effgid p) bits) s,
                  req_mkdir E fs ino (lr_path l) (fp_effuid p) (fp_effgid p) bits s)) s) s"

text \<open>Positions are 64-bit signed numbers; their sum wraps around.\<close>

datatype whence = SEEK_SET | SEEK_CUR | SEEK_END | SEEK_OTHER

definition wrap64 :: "int \<Rightarrow> int" where
  "wrap64 x = sint (word_of_int x :: 64 word)"

definition actual_lseek :: "vfs_env \<Rightarrow> nat \<Rightarrow> nat \<Rightarrow> whence \<Rightarrow> int \<Rightarrow> vfs \<Rightarrow> (vfs \<times> ret \<times> int option) outcome" where
  "actual_lseek E rfp seekfd seekwhence off s =
     (case lock_filp E rfp seekfd VNODE_READ s of
        (s1, Inl e) \<Rightarrow> Returned (s1, Err e, None)
      | (s1, Inr f) \<Rightarrow>
          (case filp_vno (filps s1 f) of
             None \<Rightarrow> Aborted ''filp_vno''
           | Some vp \<Rightarrow>
               if S_ISFIFO (v_mode (vnodes s1 vp)) then Returned (unlock_filp f s1, Err ESPIPE, None)
               else if seekwhence = SEEK_OTHER then Returned (unlock_filp f s1, Err EINVAL, None)
               else let pos = (case seekwhence of SEEK_SET \<Rightarrow> 0 | SEEK_CUR \<Rightarrow> filp_pos (filps s1 f) | _ \<Rightarrow> v_size (vnodes s1 vp));
                        newpos = wrap64 (pos + off)
                    in if off > 0 \<and> newpos \<le> pos then Returned (unlock_filp f s1, Err EOVERFLOW, None)
                       else if off < 0 \<and> newpos \<ge> pos then Returned (unlock_filp f s1, Err EOVERFLOW, None)
                       else if newpos \<noteq> filp_pos (filps s1 f) then
                         let fs = v_fs_e (vnodes s1 vp); ino = v_inode_nr (vnodes s1 vp);
                             s2 = upd_filp f (filp_pos_update (\<lambda>_. newpos)) s1;
                             s3 = vcall (ReqInhibread fs ino) s2
                         in Returned (unlock_filp f s3, req_inhibread E fs ino s2, Some newpos)
                       else Returned (unlock_filp f s1, OK, Some newpos)))"

text \<open>The offset of the reply.\<close>

definition do_lseek :: "vfs_env \<Rightarrow> nat \<Rightarrow> whence \<Rightarrow> int \<Rightarrow> vfs \<Rightarrow> (vfs \<times> ret \<times> int option) outcome" where
  "do_lseek E fd wh off s =
     bind_outcome (actual_lseek E (fp s) fd wh off s) (\<lambda>(s1, r, newpos).
       if r \<noteq> OK then Returned (s1, r, None) else Returned (s1, OK, newpos))"

text \<open>Closing a descriptor releases the locks its process holds on the file.\<close>

definition release_locks :: "nat \<Rightarrow> int \<Rightarrow> file_lock_t list \<Rightarrow> int \<Rightarrow> file_lock_t list \<times> int" where
  "release_locks vp pid lks n =
     foldr (\<lambda>l (ls, n). if lock_type l \<noteq> 0 \<and> lock_vnode l = vp \<and> lock_pid l = pid then (l\<lparr>lock_type := 0\<rparr> # ls, n - 1) else (l # ls, n)) lks ([], n)"

definition close_fd :: "vfs_env \<Rightarrow> nat \<Rightarrow> nat \<Rightarrow> vfs \<Rightarrow> (vfs \<times> ret) outcome" where
  "close_fd E rfp fd s =
     (case lock_filp E rfp fd VNODE_OPCL s of
        (s1, Inl e) \<Rightarrow> Returned (s1, Err e)
      | (s1, Inr f) \<Rightarrow>
          let vp = filp_vno (filps s1 f);
              s2 = upd_fproc rfp (\<lambda>p. p\<lparr>fp_filp := (fp_filp p)(fd := None)\<rparr>) s1;
              s3 = close_filp E f (vcall (CloseFilp f vp) s2);
              s4 = upd_fproc rfp (fp_cloexec_set_update (\<lambda>c. c - {fd})) s3
          in if nr_locks s4 > 0 then
               let lock_count = nr_locks s4;
                   (ls, n) = (case vp of None \<Rightarrow> (file_locks s4, lock_count)
                              | Some v \<Rightarrow> release_locks v (fp_pid (fprocs s4 rfp)) (file_locks s4) lock_count);
                   s5 = s4\<lparr>file_locks := ls, nr_locks := n\<rparr>
               in Returned (if n < lock_count then lock_revive E (vcall LockRevive s5) else s5, OK)
             else Returned (s4, OK))"

definition do_close :: "vfs_env \<Rightarrow> nat \<Rightarrow> vfs \<Rightarrow> (vfs \<times> ret) outcome" where
  "do_close E fd s = close_fd E (fp s) fd s"

end
