(* ===== verification/Vfs_Correct.thy ===== *)
theory Vfs_Correct
  imports Vfs
begin

unbundle bit_operations_syntax

text \<open>
  What the virtual file system server guarantees: its system calls give back every lock they
  take, requests reach a file server only with the permissions they need, positions do not
  overflow, and what happens to files opened for appending and to immediate files.
\<close>

subsection \<open>Locks\<close>

datatype lk = LkFilp nat | LkVnode nat | LkVmnt nat | LkBsf

definition vnode_lk :: "nat option \<Rightarrow> lk \<Rightarrow> int" where
  "vnode_lk v k = (case v of None \<Rightarrow> 0 | Some i \<Rightarrow> of_bool (k = LkVnode i))"

text \<open>What a call adds to the number of times a lock is held.\<close>

fun lk_delta :: "lk \<Rightarrow> vfs_call \<Rightarrow> int" where
  "lk_delta k (LockFilp f v) = of_bool (k = LkFilp f) + vnode_lk v k"
| "lk_delta k (UnlockFilp f v) = - (of_bool (k = LkFilp f) + vnode_lk v k)"
| "lk_delta k (CloseFilp f v) = - (of_bool (k = LkFilp f) + vnode_lk v k)"
| "lk_delta k (LockVnode v) = of_bool (k = LkVnode v)"
| "lk_delta k (UnlockVnode v) = - of_bool (k = LkVnode v)"
| "lk_delta k (LockVmnt m) = of_bool (k = LkVmnt m)"
| "lk_delta k (UnlockVmnt m) = - of_bool (k = LkVmnt m)"
| "lk_delta k LockBsf = of_bool (k = LkBsf)"
| "lk_delta k UnlockBsf = - of_bool (k = LkBsf)"
| "lk_delta k _ = 0"

definition held :: "vfs \<Rightarrow> lk \<Rightarrow> int" where
  "held s k = sum_list (map (lk_delta k) (calls s))"

lemma held_append [simp]: "held (s\<lparr>calls := calls s @ cs\<rparr>) k = held s k + sum_list (map (lk_delta k) cs)"
  by (simp add: held_def)

lemma held_append_upd [simp]:
  "held (s\<lparr>vfs_err := e, calls := calls s @ cs\<rparr>) k = held s k + sum_list (map (lk_delta k) cs)"
  "held (s\<lparr>fprocs := p, calls := calls s @ cs\<rparr>) k = held s k + sum_list (map (lk_delta k) cs)"
  by (simp_all add: held_def)

lemma held_cong: "calls s' = calls s \<Longrightarrow> held s' = held s"
  by (simp add: held_def fun_eq_iff)

lemma held_upd [simp]:
  "held (s\<lparr>vnodes := a\<rparr>) = held s" "held (s\<lparr>filps := b\<rparr>) = held s" "held (s\<lparr>fprocs := c\<rparr>) = held s"
  "held (s\<lparr>vfs_err := e\<rparr>) = held s" "held (s\<lparr>file_locks := l\<rparr>) = held s" "held (s\<lparr>nr_locks := n\<rparr>) = held s"
  by (simp_all add: held_def fun_eq_iff)

text \<open>
  What the code relies on. The calls to other files neither take nor give back locks of
  their own accord, and leave alone the entries of open files. A lookup locks the vnode it
  returns unless this is locked already, and locks a mount when none is locked. A descriptor
  is that of an open file, and a descriptor that is handed out names a filp that is not in use.
\<close>

definition quiet :: "(vfs \<Rightarrow> vfs) \<Rightarrow> bool" where
  "quiet f \<longleftrightarrow> (\<forall>s. calls (f s) = calls s \<and> filps (f s) = filps s \<and> fp (f s) = fp s)"

definition lookup_ok :: "bool \<Rightarrow> (vfs \<Rightarrow> looked) \<Rightarrow> bool" where
  "lookup_ok mounts g \<longleftrightarrow> (\<forall>s s' x. g s = (s', x) \<longrightarrow> calls s' = calls s \<and> filps s' = filps s \<and> fp s' = fp s \<and>
     (\<forall>l. x = Inr l \<longrightarrow> (lr_locked l \<longleftrightarrow> held s (LkVnode (lr_vnode l)) = 0) \<and>
        (if mounts then (\<forall>m. held s (LkVmnt m) = 0) \<longrightarrow> lr_vmnt l \<noteq> None else lr_vmnt l = None)))"

definition vfs_env_ok :: "vfs_env \<Rightarrow> bool" where
  "vfs_env_ok E \<longleftrightarrow>
     (\<forall>v. quiet (put_vnode E v)) \<and> (\<forall>f b n. quiet (pipe_suspend E f b n)) \<and> quiet (suspend_popen E) \<and>
     (\<forall>v. quiet (release_pipe E v)) \<and> (\<forall>s. calls (lock_revive E s) = calls s) \<and> (\<forall>f s. calls (close_filp E f s) = calls s) \<and>
     (\<forall>v e. quiet (\<lambda>s. fst (map_vnode E v e s))) \<and> (\<forall>d b n. quiet (\<lambda>s. fst (cdev_open E d b n s))) \<and>
     quiet (\<lambda>s. fst (get_free_vnode E s)) \<and>
     (\<forall>l p. lookup_ok True (eat_path E l p)) \<and> (\<forall>l p. lookup_ok True (last_dir E l p)) \<and> (\<forall>d l p. lookup_ok False (advance E d l p)) \<and>
     (\<forall>p fd k s. calls (fst (get_filp2 E p fd k s)) = calls s) \<and>
     (\<forall>p fd k s s' f. get_filp2 E p fd k s = (s', Inr f) \<longrightarrow> 0 < filp_count (filps s' f) \<and> filp_vno (filps s' f) \<noteq> None) \<and>
     (\<forall>p b s. calls (fst (get_fd E p b s)) = calls s) \<and>
     (\<forall>p b s s' fd f. get_fd E p b s = (s', Inr (fd, f)) \<longrightarrow> filp_count (filps s' f) = 0)"

lemma quietD: "quiet f \<Longrightarrow> calls (f s) = calls s" "quiet f \<Longrightarrow> filps (f s) = filps s" "quiet f \<Longrightarrow> fp (f s) = fp s"
  by (simp_all add: quiet_def)

lemma env_quiet:
  assumes "vfs_env_ok E"
  shows "calls (put_vnode E v s) = calls s" "filps (put_vnode E v s) = filps s" "fp (put_vnode E v s) = fp s"
    "calls (pipe_suspend E f b n s) = calls s" "filps (pipe_suspend E f b n s) = filps s"
    "calls (suspend_popen E s) = calls s" "filps (suspend_popen E s) = filps s"
    "calls (release_pipe E v s) = calls s" "filps (release_pipe E v s) = filps s"
    "calls (lock_revive E s) = calls s" "calls (close_filp E f s) = calls s"
    "map_vnode E v e s = (s1, r) \<Longrightarrow> calls s1 = calls s" "map_vnode E v e s = (s1, r) \<Longrightarrow> filps s1 = filps s"
    "cdev_open E d bits no s = (s1, r) \<Longrightarrow> calls s1 = calls s" "cdev_open E d bits no s = (s1, r) \<Longrightarrow> filps s1 = filps s"
    "get_free_vnode E s = (s1, x) \<Longrightarrow> calls s1 = calls s" "get_free_vnode E s = (s1, x) \<Longrightarrow> filps s1 = filps s"
  using assms unfolding vfs_env_ok_def quiet_def by (simp_all, (metis fst_conv)+)

lemma held_quiet:
  assumes "vfs_env_ok E"
  shows "held (put_vnode E v s) = held s" "held (pipe_suspend E f b n s) = held s" "held (suspend_popen E s) = held s"
    "held (release_pipe E v s) = held s" "held (lock_revive E s) = held s" "held (close_filp E f s) = held s"
  by (rule held_cong, simp add: env_quiet [OF assms])+

text \<open>A stretch of code that gives back what it takes, and leaves the open files what they are.\<close>

definition keeps :: "vfs \<Rightarrow> vfs \<Rightarrow> bool" where
  "keeps s s' \<longleftrightarrow> held s' = held s \<and> (\<forall>f. filp_count (filps s' f) = filp_count (filps s f) \<and> filp_vno (filps s' f) = filp_vno (filps s f))"

lemma keeps_refl [simp]: "keeps s s"
  by (simp add: keeps_def)

lemma keeps_trans: "keeps s t \<Longrightarrow> keeps t u \<Longrightarrow> keeps s u"
  by (simp add: keeps_def)

lemma keeps_vcall: "(\<And>k. lk_delta k c = 0) \<Longrightarrow> keeps s (vcall c s)"
  by (auto simp: keeps_def fun_eq_iff)

lemma held_unlock_filp:
  "held (unlock_filp f s) k = held s k - (of_bool (k = LkFilp f) + vnode_lk (if filp_count (filps s f) = 0 then None else filp_vno (filps s f)) k)"
  by (simp add: unlock_filp_def)

lemma lock_filp_Inl: "vfs_env_ok E \<Longrightarrow> lock_filp E rfp fd lk s = (s1, Inl e) \<Longrightarrow> held s1 = held s"
  by (auto simp: lock_filp_def vfs_env_ok_def split: prod.splits sum.splits intro!: held_cong) (metis fst_conv)

lemma lock_filp_Inr:
  assumes "vfs_env_ok E" and "lock_filp E rfp fd lk s = (s1, Inr f)"
  shows "0 < filp_count (filps s1 f)" and "\<exists>vp. filp_vno (filps s1 f) = Some vp"
    and "held s1 k = held s k + of_bool (k = LkFilp f) + vnode_lk (filp_vno (filps s1 f)) k"
proof -
  obtain s0 where g: "get_filp2 E rfp fd lk s = (s0, Inr f)" "s1 = vcall (LockFilp f (filp_vno (filps s0 f))) s0"
    using assms(2) by (auto simp: lock_filp_def split: prod.splits sum.splits)
  have "calls s0 = calls s" using assms(1) g(1) unfolding vfs_env_ok_def by (metis fst_conv)
  then have "held s0 = held s" by (rule held_cong)
  moreover have "0 < filp_count (filps s0 f)" "filp_vno (filps s0 f) \<noteq> None" using assms(1) g(1) unfolding vfs_env_ok_def by blast+
  ultimately show "0 < filp_count (filps s1 f)" "\<exists>vp. filp_vno (filps s1 f) = Some vp"
    "held s1 k = held s k + of_bool (k = LkFilp f) + vnode_lk (filp_vno (filps s1 f)) k"
    by (auto simp: g(2))
qed

text \<open>Work on an open file between locking and unlocking it.\<close>

lemma filp_section:
  assumes "vfs_env_ok E" and "lock_filp E rfp fd lk s = (s1, Inr f)" and "keeps s1 s2"
  shows "held (unlock_filp f s2) = held s"
  using lock_filp_Inr [OF assms(1, 2)] assms(3) by (auto simp: fun_eq_iff held_unlock_filp keeps_def)

lemma closesI: "keeps s1 s2 \<Longrightarrow> \<exists>t. keeps s1 t \<and> unlock_filp f s2 = unlock_filp f t"
  by blast

lemma looked_up_Inl: "lookup_ok m g \<Longrightarrow> looked_up (g s) = (s1, Inl e) \<Longrightarrow> held s1 = held s \<and> filps s1 = filps s \<and> fp s1 = fp s"
proof -
  assume a: "lookup_ok m g" "looked_up (g s) = (s1, Inl e)"
  then obtain s0 p where g: "g s = (s0, Inl (e, p))" "s1 = s0\<lparr>vfs_err := e\<rparr>" by (auto simp: looked_up_def Let_def split: prod.splits sum.splits option.splits if_splits)
  then have "calls s0 = calls s" "filps s0 = filps s" "fp s0 = fp s" using a(1) unfolding lookup_ok_def by blast+
  then show ?thesis using g(2) held_cong [of s0 s] by simp
qed

lemma looked_up_Inr:
  assumes "lookup_ok m g" and "looked_up (g s) = (s1, Inr l)"
  shows "held s1 k = held s k + (case lr_vmnt l of None \<Rightarrow> 0 | Some i \<Rightarrow> of_bool (k = LkVmnt i)) + (if lr_locked l then of_bool (k = LkVnode (lr_vnode l)) else 0)"
    and "filps s1 = filps s" and "fp s1 = fp s" and "lr_locked l \<longleftrightarrow> held s (LkVnode (lr_vnode l)) = 0"
    and "m \<Longrightarrow> \<forall>i. held s (LkVmnt i) = 0 \<Longrightarrow> lr_vmnt l \<noteq> None" and "\<not> m \<Longrightarrow> lr_vmnt l = None"
proof -
  obtain s0 where g: "g s = (s0, Inr l)" "s1 = (let t = (case lr_vmnt l of None \<Rightarrow> s0 | Some m \<Rightarrow> vcall (LockVmnt m) s0) in if lr_locked l then vcall (LockVnode (lr_vnode l)) t else t)"
    using assms(2) by (auto simp: looked_up_def Let_def split: prod.splits sum.splits)
  have f: "calls s0 = calls s" "filps s0 = filps s" "fp s0 = fp s" "lr_locked l \<longleftrightarrow> held s (LkVnode (lr_vnode l)) = 0"
    "m \<Longrightarrow> \<forall>i. held s (LkVmnt i) = 0 \<Longrightarrow> lr_vmnt l \<noteq> None" "\<not> m \<Longrightarrow> lr_vmnt l = None"
    using assms(1) g(1) unfolding lookup_ok_def by (auto split: if_splits)
  have h: "held s0 = held s" using f(1) by (rule held_cong)
  show "held s1 k = held s k + (case lr_vmnt l of None \<Rightarrow> 0 | Some i \<Rightarrow> of_bool (k = LkVmnt i)) + (if lr_locked l then of_bool (k = LkVnode (lr_vnode l)) else 0)"
    by (auto simp: g(2) h Let_def split: option.splits)
  show "filps s1 = filps s" "fp s1 = fp s" using f(2, 3) by (auto simp: g(2) Let_def split: option.splits)
  show "lr_locked l \<longleftrightarrow> held s (LkVnode (lr_vnode l)) = 0" "m \<Longrightarrow> \<forall>i. held s (LkVmnt i) = 0 \<Longrightarrow> lr_vmnt l \<noteq> None" "\<not> m \<Longrightarrow> lr_vmnt l = None"
    using f by auto
qed

lemma env_lookups: "vfs_env_ok E \<Longrightarrow> lookup_ok True (eat_path E l p)" "vfs_env_ok E \<Longrightarrow> lookup_ok True (last_dir E l p)"
  "vfs_env_ok E \<Longrightarrow> lookup_ok False (advance E d l p)"
  by (simp_all add: vfs_env_ok_def)

subsection \<open>\<open>read.c\<close>\<close>

lemma keeps_upd [simp]:
  "keeps s (s\<lparr>vnodes := a\<rparr>)" "keeps s (s\<lparr>fprocs := b\<rparr>)" "keeps s (upd_filp f (filp_pos_update g) s)" "keeps s (upd_filp f (filp_flags_update h) s)"
  by (auto simp: keeps_def)

lemma keeps_pipe_suspend: "vfs_env_ok E \<Longrightarrow> keeps s (pipe_suspend E f b n s)"
  by (simp add: keeps_def held_quiet env_quiet)

lemmas keeps_unfold = keeps_def held_def fun_eq_iff

lemma rw_pipe_keeps: "vfs_env_ok E \<Longrightarrow> rw_pipe E rw e f vp buf n s = Returned (s', r) \<Longrightarrow> keeps s s'"
  by (auto simp: rw_pipe_def Let_def keeps_unfold env_quiet split: ret.splits if_splits prod.splits)

lemma rw_fifo_keeps: "vfs_env_ok E \<Longrightarrow> rw_fifo E rfp rw f vp buf n e s = Returned (s', r, x) \<Longrightarrow> keeps s s'"
  by (auto simp: rw_fifo_def intro: rw_pipe_keeps split: if_splits)

lemma rw_char_keeps: "rw_char E rw f vp buf n e s = Returned (s', r, x) \<Longrightarrow> keeps s s'"
  by (auto simp: rw_char_def Let_def keeps_unfold split: ret.splits if_splits)

lemma rw_regular_keeps: "rw_regular E rw f vp buf n e s = Returned (s', r, x) \<Longrightarrow> keeps s s'"
  by (auto simp: rw_regular_def Let_def keeps_unfold split: if_splits prod.splits)

lemma lock_bsf_state: "lock_bsf E s = Returned s1 \<Longrightarrow> s1 = vcall LockBsf s"
  by (simp add: lock_bsf_def split: if_splits)

lemma unlock_bsf_state: "unlock_bsf E s = Returned s1 \<Longrightarrow> s1 = vcall UnlockBsf s"
  by (simp add: unlock_bsf_def split: if_splits)

lemma rw_block_keeps: "rw_block E rw f vp buf n e s = Returned (s', r, x) \<Longrightarrow> keeps s s'"
  by (auto simp: rw_block_def Let_def keeps_unfold dest!: lock_bsf_state unlock_bsf_state split: if_splits prod.splits)

text \<open>The end of \<open>read_write\<close> as a list of updates.\<close>

lemma rw_done_state:
  assumes "rw_done E rfp rw f vp n r pos c s = Returned (s', r')"
  obtains vs cs where "s' = s\<lparr>vnodes := vs, filps := (filps s)(f := (filps s f)\<lparr>filp_pos := pos\<rparr>), calls := calls s @ cs\<rparr>"
    and "\<And>k. sum_list (map (lk_delta k) cs) = 0"
    and "vs = (if rw = WRITING \<and> (S_ISREG (v_mode (vnodes s vp)) \<or> S_ISDIR (v_mode (vnodes s vp))) \<and> pos > v_size (vnodes s vp)
                then (vnodes s)(vp := (vnodes s vp)\<lparr>v_size := pos\<rparr>) else vnodes s)"
    and "r' = (if r = OK then Ret c else r)"
proof -
  define s2 where "s2 = upd_filp f (filp_pos_update (\<lambda>_. pos))
     (if rw = WRITING \<and> (S_ISREG (v_mode (vnodes s vp)) \<or> S_ISDIR (v_mode (vnodes s vp))) \<and> pos > v_size (vnodes s vp)
      then upd_vnode vp (v_size_update (\<lambda>_. pos)) s else s)"
  obtain vmp where v: "find_vmnt E (v_fs_e (vnodes s2 vp)) s2 = Some vmp"
    using assms unfolding rw_done_def Let_def s2_def by (cases "find_vmnt E (v_fs_e (vnodes s2 vp)) s2") (auto simp: s2_def)
  define home where "home = (m_mount_path (vmnts s2 vmp) = ''/home'')"
  define cs where "cs = (if rw = WRITING \<and> home then [Printed ''File Write'' (v_inode_nr (vnodes s2 vp)) (Some (n, pos))] else []) @
     (if rw = READING \<and> home then [Printed ''File Read'' (v_inode_nr (vnodes s2 vp)) (Some (n, pos))] else []) @
     (if r = Err EPIPE \<and> rw = WRITING \<and> O_NOSIGPIPE \<notin> filp_flags (filps s2 f) then [SysKill (fp_endpoint (fprocs s2 rfp))] else [])"
  have "s' = s2\<lparr>calls := calls s2 @ cs\<rparr> \<and> r' = (if r = OK then Ret c else r)"
    using assms v unfolding rw_done_def Let_def s2_def [symmetric] home_def [symmetric]
    by (cases home; cases rw; cases "r = Err EPIPE") (auto simp: cs_def home_def)
  then show thesis by (intro that [of cs]) (auto simp: s2_def cs_def)
qed

lemma rw_done_keeps: "rw_done E rfp rw f vp n r pos c s = Returned (s', r') \<Longrightarrow> keeps s s'"
  by (erule rw_done_state) (simp add: keeps_unfold)

text \<open>The transfer itself, then the end.\<close>

lemma read_write_parts:
  assumes "read_write E rfp rw f buf n e s = Returned (s', r)"
  obtains (too_long) vp where "filp_vno (filps s f) = Some vp" "n > SSIZE_MAX E" "s' = s" "r = Err EINVAL"
  | (kind) vp t r0 x where "filp_vno (filps s f) = Some vp" "n \<le> SSIZE_MAX E"
      "(if S_ISFIFO (v_mode (vnodes s vp)) then rw_fifo E rfp rw f vp buf n e s
        else if S_ISCHR (v_mode (vnodes s vp)) then rw_char E rw f vp buf n e s
        else if S_ISBLK (v_mode (vnodes s vp)) then rw_block E rw f vp buf n e s else rw_regular E rw f vp buf n e s) = Returned (t, r0, x)"
      "case x of None \<Rightarrow> s' = t \<and> r = r0 | Some (pos, c) \<Rightarrow> rw_done E rfp rw f vp n r0 pos c t = Returned (s', r)"
proof (cases "filp_vno (filps s f)")
  case None
  then show thesis using assms by (simp add: read_write_def)
next
  case (Some vp)
  show thesis
  proof (cases "n > SSIZE_MAX E")
    case True
    then have "s' = s" "r = Err EINVAL" using assms Some by (auto simp: read_write_def)
    with Some True show thesis by (rule too_long)
  next
    case False
    let ?k = "if S_ISFIFO (v_mode (vnodes s vp)) then rw_fifo E rfp rw f vp buf n e s
        else if S_ISCHR (v_mode (vnodes s vp)) then rw_char E rw f vp buf n e s
        else if S_ISBLK (v_mode (vnodes s vp)) then rw_block E rw f vp buf n e s else rw_regular E rw f vp buf n e s"
    define k where "k = ?k"
    have "bind_outcome k (\<lambda>(s1, r, res). case res of None \<Rightarrow> Returned (s1, r)
        | Some (position, cum_io) \<Rightarrow> rw_done E rfp rw f vp n r position cum_io s1) = Returned (s', r)"
      using assms by (simp only: read_write_def Let_def Some option.case False if_False k_def)
    then obtain t r0 x where "k = Returned (t, r0, x)"
      "case x of None \<Rightarrow> s' = t \<and> r = r0 | Some (pos, c) \<Rightarrow> rw_done E rfp rw f vp n r0 pos c t = Returned (s', r)"
      by (auto split: option.splits)
    then show thesis using Some False kind [of vp t r0 x] unfolding k_def by auto
  qed
qed

lemma rw_kinds_keep:
  assumes "vfs_env_ok E" and "(if a then rw_fifo E rfp rw f vp buf n e s else if b then rw_char E rw f vp buf n e s
    else if c then rw_block E rw f vp buf n e s else rw_regular E rw f vp buf n e s) = Returned (t, r, x)"
  shows "keeps s t"
  using assms(2) rw_fifo_keeps [OF assms(1)] rw_char_keeps rw_block_keeps rw_regular_keeps by (cases a; cases b; cases c) (simp; blast)+

lemma read_write_keeps:
  assumes "vfs_env_ok E" and "read_write E rfp rw f buf n e s = Returned (s', r)"
  shows "keeps s s'"
  using assms(2)
proof (cases rule: read_write_parts)
  case (kind vp t r0 x)
  have "keeps s t" using kind(3) by (rule rw_kinds_keep [OF assms(1)])
  moreover have "keeps t s'" using kind(4) rw_done_keeps by (cases x) auto
  ultimately show ?thesis by (rule keeps_trans)
qed simp

lemma keeps_set_scratch [simp]: "held (set_scratch rfp fd b n s) = held s"
  by (simp add: set_scratch_def)

lemma actual_read_write_held:
  assumes "vfs_env_ok E" and "actual_read_write_peek E rfp rw fd buf n s = Returned (s', r)"
  shows "held s' = held s"
proof -
  let ?s = "set_scratch rfp fd buf n s"
  obtain s1 x where l: "lock_filp E rfp fd (if rw = WRITING then VNODE_WRITE else VNODE_READ) ?s = (s1, x)" by fastforce
  show ?thesis
  proof (cases x)
    case (Inl e)
    then show ?thesis using assms l lock_filp_Inl [OF assms(1), of rfp fd _ ?s] by (auto simp: actual_read_write_peek_def split: if_splits)
  next
    case (Inr f)
    then have "\<exists>s2. keeps s1 s2 \<and> s' = unlock_filp f s2"
      using assms l read_write_keeps [OF assms(1)]
      by (auto simp: actual_read_write_peek_def split: if_splits) (blast intro: keeps_refl)+
    then show ?thesis using filp_section [OF assms(1) l [unfolded Inr]] by auto
  qed
qed

lemma truncate_vnode_keeps: "truncate_vnode E vp n s = (s', r) \<Longrightarrow> keeps s s'"
  by (auto simp: truncate_vnode_def Let_def keeps_unfold split: if_splits)

text \<open>The calls on a descriptor: what happens between locking and unlocking the filp.\<close>

lemma do_getdents_held:
  assumes "vfs_env_ok E" and "do_getdents E fd buf len s = Returned (s', r)"
  shows "held s' = held s"
proof -
  let ?s = "set_scratch (fp s) fd buf len s"
  obtain s1 x where l: "lock_filp E (fp s) fd VNODE_READ ?s = (s1, x)" by fastforce
  show ?thesis
  proof (cases x)
    case (Inl e)
    then show ?thesis using assms l lock_filp_Inl [OF assms(1), of "fp s" fd _ ?s] by (auto simp: do_getdents_def)
  next
    case (Inr f)
    then have "\<exists>s2. keeps s1 s2 \<and> s' = unlock_filp f s2"
      using assms l by (auto simp: do_getdents_def Let_def split: if_splits option.splits prod.splits intro!: closesI) (auto simp: keeps_unfold)
    then show ?thesis using filp_section [OF assms(1) l [unfolded Inr]] by auto
  qed
qed

lemma do_ftruncate_held:
  assumes "vfs_env_ok E" and "do_ftruncate E fd n s = Returned (s', r)"
  shows "held s' = held s"
proof -
  let ?s = "upd_fproc (fp s) (sc_fd_nr_update (\<lambda>_. fd)) s"
  obtain s1 x where l: "lock_filp E (fp s) fd VNODE_WRITE ?s = (s1, x)" by fastforce
  show ?thesis
  proof (cases x)
    case (Inl e)
    then show ?thesis using assms l lock_filp_Inl [OF assms(1), of "fp s" fd _ ?s]
      by (auto simp: do_ftruncate_def Let_def split: if_splits)
  next
    case (Inr f)
    show ?thesis
    proof (cases "n < 0")
      case True
      then show ?thesis using assms by (auto simp: do_ftruncate_def Let_def)
    next
      case False
      then have "\<exists>s2. keeps s1 s2 \<and> s' = unlock_filp f s2"
        using assms l Inr truncate_vnode_keeps [of E _ n s1]
        by (auto simp: do_ftruncate_def Let_def split: if_splits option.splits prod.splits intro!: closesI)
      then show ?thesis using filp_section [OF assms(1) l [unfolded Inr]] by auto
    qed
  qed
qed

lemma actual_lseek_held:
  assumes "vfs_env_ok E" and "actual_lseek E rfp fd wh off s = Returned (s', r, p)"
  shows "held s' = held s"
proof -
  obtain s1 x where l: "lock_filp E rfp fd VNODE_READ s = (s1, x)" by fastforce
  show ?thesis
  proof (cases x)
    case (Inl e)
    then show ?thesis using assms l lock_filp_Inl [OF assms(1)] by (auto simp: actual_lseek_def)
  next
    case (Inr f)
    have "\<exists>s2. keeps s1 s2 \<and> s' = unlock_filp f s2"
      using assms l Inr unfolding actual_lseek_def Let_def
      by (auto split: if_splits option.splits intro!: closesI) (auto simp: keeps_unfold)
    then show ?thesis using filp_section [OF assms(1) l [unfolded Inr]] by auto
  qed
qed

lemma close_fd_held:
  assumes "vfs_env_ok E" and "close_fd E rfp fd s = Returned (s', r)"
  shows "held s' = held s"
proof -
  obtain s1 x where l: "lock_filp E rfp fd VNODE_OPCL s = (s1, x)" by fastforce
  show ?thesis
  proof (cases x)
    case (Inl e)
    then show ?thesis using assms l lock_filp_Inl [OF assms(1)] by (auto simp: close_fd_def)
  next
    case (Inr f)
    have "held s' = held (vcall (CloseFilp f (filp_vno (filps s1 f))) s1)"
      using assms l Inr by (auto simp: close_fd_def Let_def held_def fun_eq_iff env_quiet split: if_splits option.splits prod.splits)
    then show ?thesis using lock_filp_Inr(3) [OF assms(1) l [unfolded Inr]] by (auto simp: fun_eq_iff)
  qed
qed

subsection \<open>Calls on names\<close>

text \<open>Nothing is locked while the server waits for a request.\<close>

definition no_locks :: "vfs \<Rightarrow> bool" where
  "no_locks s \<longleftrightarrow> (\<forall>k. held s k = 0)"

lemma held_release: "vfs_env_ok E \<Longrightarrow> held (release_vnode E v s) = held s"
  by (auto simp: release_vnode_def held_quiet fun_eq_iff)

lemma finish_node_held:
  assumes "vfs_env_ok E"
  shows "\<exists>s'. finish_node E vp (Some m) r s = Returned (s', r) \<and> (\<forall>k. held s' k = held s k - of_bool (k = LkVnode vp) - of_bool (k = LkVmnt m))"
  by (auto simp: finish_node_def unlock_vmnt_ptr_def held_release [OF assms])

text \<open>The first lookup of a call locks both the vnode and its mount.\<close>

lemma first_lookup:
  assumes "lookup_ok True g" and "no_locks s" and "looked_up (g s) = (s1, Inr l)"
  obtains m where "lr_vmnt l = Some m" and "\<And>k. held s1 k = of_bool (k = LkVnode (lr_vnode l)) + of_bool (k = LkVmnt m)"
proof -
  note x = looked_up_Inr [OF assms(1, 3)]
  obtain m where "lr_vmnt l = Some m" using x(5) assms(2) by (auto simp: no_locks_def)
  moreover have "lr_locked l" using x(4) assms(2) by (simp add: no_locks_def)
  ultimately show thesis using that [of m] x(1) assms(2) by (simp add: no_locks_def)
qed

lemma with_node_held:
  assumes "vfs_env_ok E" and "lookup_ok True look" and "no_locks s"
    and act: "\<And>l s s' r. act l s = (s', r) \<Longrightarrow> held s' = held s"
  shows "\<exists>s' r. with_node E look act s = Returned (s', r) \<and> no_locks s'"
proof -
  obtain s1 x where l: "looked_up (look s) = (s1, x)" by fastforce
  show ?thesis
  proof (cases x)
    case (Inl e)
    then show ?thesis using looked_up_Inl [OF assms(2) l [unfolded Inl]] assms(3) l by (auto simp: with_node_def no_locks_def)
  next
    case (Inr f)
    obtain m where m: "lr_vmnt f = Some m" "\<And>k. held s1 k = of_bool (k = LkVnode (lr_vnode f)) + of_bool (k = LkVmnt m)"
      using first_lookup [OF assms(2, 3) l [unfolded Inr]] by blast
    obtain s2 r where a: "act f s1 = (s2, r)" by fastforce
    obtain s' where "finish_node E (lr_vnode f) (Some m) r s2 = Returned (s', r)"
      "\<forall>k. held s' k = held s2 k - of_bool (k = LkVnode (lr_vnode f)) - of_bool (k = LkVmnt m)"
      using finish_node_held [OF assms(1)] by blast
    then show ?thesis using l Inr a m act [OF a] by (simp add: with_node_def no_locks_def)
  qed
qed

lemma with_name_held:
  assumes "no_locks s" and "\<And>path s. no_locks s \<Longrightarrow> \<exists>s' r. k path s = Returned (s', r) \<and> no_locks s'"
  shows "\<exists>s' r. with_name E vname len k s = Returned (s', r) \<and> no_locks s'"
  using assms by (auto simp: with_name_def no_locks_def split: sum.splits)

lemma with_path_held:
  assumes "no_locks s" and "\<And>path s. no_locks s \<Longrightarrow> \<exists>s' r. k path s = Returned (s', r) \<and> no_locks s'"
  shows "\<exists>s' r. with_path E k s = Returned (s', r) \<and> no_locks s'"
  using assms by (auto simp: with_path_def no_locks_def split: sum.splits)

lemma lookup_ok_fp: "(\<And>p. lookup_ok m (g p)) \<Longrightarrow> lookup_ok m (\<lambda>s. g (fp s) s)"
  unfolding lookup_ok_def by blast

text \<open>
  What else the calls with two lookups rely on: a name looked up inside a directory is never
  a vnode that the call has locked (the directory itself, under the name \<open>.\<close>), and the vnode
  that is handed out for a new file is not locked.
\<close>

definition fresh_nodes :: "vfs_env \<Rightarrow> bool" where
  "fresh_nodes E \<longleftrightarrow>
     (\<forall>d l p s s' x. advance E d l p s = (s', Inr x) \<longrightarrow> held s (LkVnode (lr_vnode x)) = 0) \<and>
     (\<forall>s s' v. get_free_vnode E s = (s', Inr v) \<longrightarrow> held s (LkVnode v) = 0)"

lemma looked_up_found: "looked_up x = (s1, Inr l) \<Longrightarrow> \<exists>s0. x = (s0, Inr l)"
  by (auto simp: looked_up_def Let_def split: prod.splits sum.splits)

text \<open>A directory and its mount locked, and possibly a vnode besides.\<close>

definition dir_locked :: "vfs \<Rightarrow> nat \<Rightarrow> nat \<Rightarrow> nat option \<Rightarrow> vfs \<Rightarrow> bool" where
  "dir_locked s0 d m v s \<longleftrightarrow> filps s = filps s0 \<and> fp s = fp s0 \<and>
     (\<forall>k. held s k = held s0 k + of_bool (k = LkVnode d) + of_bool (k = LkVmnt m) + vnode_lk v k)"

definition gives :: "vfs \<Rightarrow> nat option \<Rightarrow> vfs \<Rightarrow> bool" where
  "gives s0 v s \<longleftrightarrow> filps s = filps s0 \<and> fp s = fp s0 \<and> (\<forall>k. held s k = held s0 k + vnode_lk v k)"

definition names_free :: "vfs \<Rightarrow> bool" where
  "names_free s \<longleftrightarrow> (\<forall>v. held s (LkVnode v) = 0) \<and> (\<forall>m. held s (LkVmnt m) = 0)"

lemma no_locks_names_free: "no_locks s \<Longrightarrow> names_free s"
  by (simp add: no_locks_def names_free_def)

lemma vnode_lk_simps [simp]: "vnode_lk None k = 0" "vnode_lk (Some v) k = of_bool (k = LkVnode v)"
  by (simp_all add: vnode_lk_def)

lemma first_dir:
  assumes "lookup_ok True g" and "names_free s" and "looked_up (g s) = (s1, Inr l)"
  obtains m where "lr_vmnt l = Some m" and "dir_locked s (lr_vnode l) m None s1"
proof -
  note x = looked_up_Inr [OF assms(1, 3)]
  obtain m where "lr_vmnt l = Some m" using x(5) assms(2) by (auto simp: names_free_def)
  moreover have "lr_locked l" using x(4) assms(2) by (simp add: names_free_def)
  ultimately show thesis using that [of m] x(1-3) by (simp add: dir_locked_def)
qed

lemma inner_Inl:
  assumes "vfs_env_ok E" and "dir_locked s0 d m v s" and "looked_up (advance E d' l p s) = (s1, Inl e)"
  shows "dir_locked s0 d m v s1"
  using looked_up_Inl [OF env_lookups(3) [OF assms(1)] assms(3)] assms(2) by (simp add: dir_locked_def)

lemma inner_Inr:
  assumes "vfs_env_ok E" and "fresh_nodes E" and "dir_locked s0 d m v s" and "looked_up (advance E d' l p s) = (s1, Inr x)"
  shows "lr_vmnt x = None" and "held s (LkVnode (lr_vnode x)) = 0" and "filps s1 = filps s" and "fp s1 = fp s"
    and "held s1 k = held s k + of_bool (k = LkVnode (lr_vnode x))"
proof -
  note y = looked_up_Inr [OF env_lookups(3) [OF assms(1)] assms(4)]
  show z: "held s (LkVnode (lr_vnode x)) = 0" using looked_up_found [OF assms(4)] assms(2) unfolding fresh_nodes_def by blast
  show "lr_vmnt x = None" "filps s1 = filps s" "fp s1 = fp s" "held s1 k = held s k + of_bool (k = LkVnode (lr_vnode x))"
    using y z by simp_all
qed

lemma release_frame [simp]: "vfs_env_ok E \<Longrightarrow> filps (release_vnode E v s) = filps s" "vfs_env_ok E \<Longrightarrow> fp (release_vnode E v s) = fp s"
  by (simp_all add: release_vnode_def env_quiet)

lemma sticky_check_locked:
  assumes "vfs_env_ok E" and "fresh_nodes E" and "dir_locked s0 d m None s"
  shows "\<exists>s' r. sticky_check E d path s = Returned (s', r) \<and> dir_locked s0 d m None s'"
proof (cases "v_mode (vnodes s d) AND S_ISVTX \<noteq> S_ISVTX")
  case True
  then show ?thesis using assms(3) by (simp add: sticky_check_def)
next
  case False
  obtain s1 x where l: "looked_up (advance E d (lookup_init path True VMNT_READ VNODE_READ) (fp s) s) = (s1, x)" by fastforce
  show ?thesis
  proof (cases x)
    case (Inl e)
    then show ?thesis using inner_Inl [OF assms(1, 3) l [unfolded Inl]] l False by (simp add: sticky_check_def)
  next
    case (Inr f)
    note i = inner_Inr [OF assms l [unfolded Inr]]
    show ?thesis using l Inr False i(1) assms(3)
      by (auto simp: sticky_check_def Let_def dir_locked_def held_release [OF assms(1)] release_frame [OF assms(1)] i(3-5))
  qed
qed

lemma finish_dir:
  assumes "vfs_env_ok E" and "no_locks s0" and "dir_locked s0 d m None s"
  shows "\<exists>s' r'. finish_node E d (Some m) r s = Returned (s', r') \<and> no_locks s'"
  using finish_node_held [OF assms(1), of d m r s] assms(2, 3) by (auto simp: dir_locked_def no_locks_def)

lemma dir_locked_vcall: "dir_locked s0 d m v s \<Longrightarrow> (\<And>k. lk_delta k c = 0) \<Longrightarrow> dir_locked s0 d m v (vcall c s)"
  by (simp add: dir_locked_def)

lemma do_unlink_held:
  assumes "vfs_env_ok E" and "fresh_nodes E" and "no_locks s"
  shows "\<exists>s' r. do_unlink E unlink s = Returned (s', r) \<and> no_locks s'"
  unfolding do_unlink_def
proof (rule with_path_held [OF assms(3)], goal_cases)
  case (1 path s)
  note z = 1
  let ?l = "last_dir E (lookup_init path True VMNT_WRITE VNODE_WRITE) (fp s)"
  have lk: "lookup_ok True ?l" using env_lookups(2) [OF assms(1)] .
  obtain s1 x where l: "looked_up (?l s) = (s1, x)" by fastforce
  show ?case
  proof (cases x)
    case (Inl e)
    then show ?thesis using looked_up_Inl [OF lk l [unfolded Inl]] z l by (auto simp: no_locks_def)
  next
    case (Inr f)
    obtain m where m: "lr_vmnt f = Some m" "dir_locked s (lr_vnode f) m None s1"
      using first_dir [OF lk no_locks_names_free [OF z] l [unfolded Inr]] by blast
    obtain s2 r2 where t: "sticky_check E (lr_vnode f) (lr_path f) s1 = Returned (s2, r2)" "dir_locked s (lr_vnode f) m None s2"
      using sticky_check_locked [OF assms(1, 2) m(2)] by blast
    note fin = finish_dir [OF assms(1) z]
    show ?thesis unfolding l Inr prod.case sum.case Let_def m(1) t(1) bind_outcome.simps option.case
      using fin [OF m(2)] fin [OF t(2)] fin [OF dir_locked_vcall [OF dir_locked_vcall [OF t(2)]]] by (auto simp del: append_assoc)
  qed
qed

text \<open>Two directories, as in \<open>rename\<close>: the second lookup may meet the directory that is locked already.\<close>

lemma second_dir:
  assumes "vfs_env_ok E" and "no_locks s0" and "dir_locked s0 d m None s" and "looked_up (last_dir E l p s) = (s1, Inr x)"
  shows "filps s1 = filps s0" and "lr_locked x \<longleftrightarrow> lr_vnode x \<noteq> d"
    and "held s1 k = of_bool (k = LkVnode d) + of_bool (k = LkVmnt m) + (case lr_vmnt x of None \<Rightarrow> 0 | Some i \<Rightarrow> of_bool (k = LkVmnt i)) +
      (if lr_locked x then of_bool (k = LkVnode (lr_vnode x)) else 0)"
  using looked_up_Inr [OF env_lookups(2) [OF assms(1)] assms(4)] assms(2, 3) by (simp_all add: dir_locked_def no_locks_def)

lemma do_rename_held:
  assumes "vfs_env_ok E" and "fresh_nodes E" and "no_locks s"
  shows "\<exists>s' r. do_rename E vname1 len1 vname2 len2 s = Returned (s', r) \<and> no_locks s'"
  unfolding do_rename_def
proof (rule with_name_held [OF assms(3)], goal_cases)
  case (1 path s)
  note z = 1
  let ?l = "last_dir E (lookup_init path True VMNT_WRITE VNODE_WRITE) (fp s)"
  have lk: "lookup_ok True ?l" using env_lookups(2) [OF assms(1)] .
  obtain s1 x where l: "looked_up (?l s) = (s1, x)" by fastforce
  show ?case
  proof (cases x)
    case (Inl e)
    then show ?thesis using looked_up_Inl [OF lk l [unfolded Inl]] z l by (auto simp: no_locks_def)
  next
    case (Inr f)
    obtain m where m: "lr_vmnt f = Some m" "dir_locked s (lr_vnode f) m None s1"
      using first_dir [OF lk no_locks_names_free [OF z] l [unfolded Inr]] by blast
    obtain s2 r2 where t: "sticky_check E (lr_vnode f) (lr_path f) s1 = Returned (s2, r2)" "dir_locked s (lr_vnode f) m None s2"
      using sticky_check_locked [OF assms(1, 2) m(2)] by blast
    note fin = finish_dir [OF assms(1) z]
    define found2 where "found2 = (case fetch_name E vname2 len2 s2 of Inl e \<Rightarrow> (s2\<lparr>vfs_err := e\<rparr>, Inl e)
       | Inr path2 \<Rightarrow> looked_up (last_dir E (lookup_init path2 True VMNT_READ VNODE_WRITE) (fp s2) s2))"
    obtain s3 y where g: "found2 = (s3, y)" by fastforce
    have tail: "dir_locked s (lr_vnode f) m None s3" if "y = Inl e" for e
      using g that t(2) looked_up_Inl [OF env_lookups(2) [OF assms(1)]]
      by (fastforce simp: found2_def dir_locked_def split: sum.splits)
    show ?thesis
    proof (cases "r2 \<noteq> OK \<or> length (lr_path f) \<ge> PATH_MAX E \<or> (\<exists>e. y = Inl e)")
      case True
      then show ?thesis unfolding l Inr prod.case sum.case Let_def m(1) t(1) bind_outcome.simps option.case found2_def [symmetric] g
        using fin [OF t(2)] fin [OF tail] by (auto split: sum.splits)
    next
      case False
      then obtain d2 where y: "y = Inr d2" by (cases y) auto
      obtain path2 where "looked_up (last_dir E (lookup_init path2 True VMNT_READ VNODE_WRITE) (fp s2) s2) = (s3, Inr d2)"
        using g y by (auto simp: found2_def split: sum.splits)
      note h = second_dir [OF assms(1) z t(2) this]
      show ?thesis unfolding l Inr prod.case sum.case Let_def m(1) t(1) bind_outcome.simps option.case found2_def [symmetric] g y
        using False h(2) by (cases "lr_vmnt d2") (auto simp: unlock_vmnt_ptr_def no_locks_def held_release [OF assms(1)] h(3))
    qed
  qed
qed

end
