(* ===== verification/Vfs_Open.thy ===== *)
theory Vfs_Open
  imports Vfs_Correct
begin

unbundle bit_operations_syntax

text \<open>
  The locks of \<open>open\<close> and \<open>creat\<close>, and the guarantee that covers all the system calls of the
  virtual file system server: a call that returns holds no lock.
\<close>

subsection \<open>New nodes\<close>

text \<open>A link that is in the way of a new file can be read.\<close>

definition links_readable :: "vfs_env \<Rightarrow> bool" where
  "links_readable E \<longleftrightarrow> (\<forall>fs ino e b n s. ret_nonneg (fst (req_rdlink E fs ino e b n s)))"

lemma gives_names_free: "gives s0 None s \<Longrightarrow> names_free s0 \<Longrightarrow> names_free s"
  by (simp add: gives_def names_free_def)

lemma gives_trans: "gives s0 None s1 \<Longrightarrow> gives s1 v s2 \<Longrightarrow> gives s0 v s2"
  by (simp add: gives_def)

lemma dir_locked_upd:
  "dir_locked s0 d m v s \<Longrightarrow> filps s' = filps s \<Longrightarrow> fp s' = fp s \<Longrightarrow> held s' = held s \<Longrightarrow> dir_locked s0 d m v s'"
  by (simp add: dir_locked_def)

lemma new_node_end_gives:
  assumes "vfs_env_ok E" and "dir_locked s0 d m vo s" and "vo \<noteq> Some d"
    and "new_node_end E d (Some m) vo r s = Returned (s', v, r')"
  shows "gives s0 v s'"
  using assms(2-4) by (auto simp: new_node_end_def unlock_vmnt_ptr_def gives_def dir_locked_def held_release [OF assms(1)] release_frame [OF assms(1)])

lemma follow_link_locked:
  assumes "vfs_env_ok E" and "fresh_nodes E" and "links_readable E" and "dir_locked s0 d m v s"
    and "follow_link E d (Some m) path s = Returned (s', y)"
  shows "\<exists>p. y = Inr p \<and> dir_locked s0 d m v s'"
proof -
  obtain s1 x where l: "looked_up (advance E d (lookup_init path True VMNT_WRITE VNODE_READ) (fp s) s) = (s1, x)" by fastforce
  show ?thesis
  proof (cases x)
    case (Inl e)
    then show ?thesis using inner_Inl [OF assms(1, 4) l [unfolded Inl]] l assms(5) by (auto simp: follow_link_def Let_def)
  next
    case (Inr f)
    note i = inner_Inr [OF assms(1, 2, 4) l [unfolded Inr]]
    have rd: "ret_nonneg r" if "req_rdlink E fs ino e b n s = (r, c)" for fs ino e b n s r c
      using assms(3) that unfolding links_readable_def by (metis fst_conv)
    have "\<exists>p s2. y = Inr p \<and> s' = release_vnode E (lr_vnode f) s2 \<and> filps s2 = filps s1 \<and> fp s2 = fp s1 \<and>
        (\<forall>k. held s2 k = held s1 k - of_bool (k = LkVnode (lr_vnode f)))"
      using l Inr assms(5) rd by (auto simp: follow_link_def Let_def split: if_splits prod.splits)
    then obtain p s2 where "y = Inr p" "s' = release_vnode E (lr_vnode f) s2" "filps s2 = filps s1" "fp s2 = fp s1"
      "\<And>k. held s2 k = held s1 k - of_bool (k = LkVnode (lr_vnode f))"
      by blast
    then show ?thesis using i(3-5) assms(4) by (simp add: dir_locked_def held_release [OF assms(1)] release_frame [OF assms(1)])
  qed
qed

lemma create_request_locked:
  assumes "dir_locked s0 d m v s" and "create_request E d' bits path s = (s', y)"
  shows "dir_locked s0 d m v s'"
  using assms by (auto simp: create_request_def Let_def dir_locked_def split: if_splits prod.splits)

text \<open>The lookup inside the directory of the new node.\<close>

lemma inner_lookup:
  assumes "vfs_env_ok E" and "fresh_nodes E" and "names_free s0" and "dir_locked s0 d m None s" and "looked_up (advance E d l p s) = (s1, x)"
  shows "dir_locked s0 d m (case x of Inl _ \<Rightarrow> None | Inr l \<Rightarrow> Some (lr_vnode l)) s1"
    and "x = Inr f \<Longrightarrow> lr_vmnt f = None" and "x = Inr f \<Longrightarrow> lr_vnode f \<noteq> d"
proof -
  have d: "held s (LkVnode d) = 1" using assms(3, 4) by (simp add: dir_locked_def names_free_def)
  show "dir_locked s0 d m (case x of Inl _ \<Rightarrow> None | Inr l \<Rightarrow> Some (lr_vnode l)) s1"
  proof (cases x)
    case (Inl e)
    then show ?thesis using inner_Inl [OF assms(1, 4)] assms(5) by simp
  next
    case (Inr g)
    then show ?thesis using inner_Inr [OF assms(1, 2, 4)] assms(4, 5) by (auto simp: dir_locked_def)
  qed
  assume "x = Inr f"
  note i = inner_Inr [OF assms(1, 2, 4) assms(5) [unfolded this]]
  show "lr_vmnt f = None" by (rule i(1))
  show "lr_vnode f \<noteq> d" using i(2) d by auto
qed

lemma free_vnode_frame:
  assumes "vfs_env_ok E" and "get_free_vnode E s = (s1, x)"
  shows "filps s1 = filps s" and "fp s1 = fp s" and "held s1 = held s"
proof -
  have q: "quiet (\<lambda>s. fst (get_free_vnode E s))" using assms(1) by (simp add: vfs_env_ok_def)
  show "filps s1 = filps s" "fp s1 = fp s" "held s1 = held s"
    using quietD [OF q, of s] assms(2) held_cong [of s1 s] by simp_all
qed

text \<open>Creating a node gives back everything but the lock of the vnode that it returns.\<close>

lemma new_node_gives:
  assumes "vfs_env_ok E" and "fresh_nodes E" and "links_readable E"
  shows "names_free s \<Longrightarrow> new_node n E path oflags bits s = Returned (s', v, r) \<Longrightarrow> gives s v s'"
proof (induction n arbitrary: path s s' v r)
  case 0
  then show ?case by simp
next
  case (Suc n)
  note rel = held_release [OF assms(1)] release_frame [OF assms(1)]
  let ?l = "last_dir E (lookup_init path (O_EXCL \<in> oflags) VMNT_WRITE VNODE_WRITE) (fp s)"
  obtain s1 x where l: "looked_up (?l s) = (s1, x)" by fastforce
  show ?case
  proof (cases x)
    case (Inl e)
    then show ?thesis using looked_up_Inl [OF env_lookups(2) [OF assms(1)] l [unfolded Inl]] Suc.prems(2) l by (auto simp: gives_def)
  next
    case (Inr d)
    obtain m where m: "lr_vmnt d = Some m" "dir_locked s (lr_vnode d) m None s1"
      using first_dir [OF env_lookups(2) [OF assms(1)] Suc.prems(1) l [unfolded Inr]] by blast
    define y where "y = advance E (lr_vnode d) (lookup_init (lr_path d) (O_EXCL \<in> oflags) VMNT_WRITE (if O_TRUNC \<in> oflags then VNODE_WRITE else VNODE_OPCL)) (fp s1) s1"
    obtain s2 found2 where y2: "looked_up y = (s2, found2)" by fastforce
    note inner = inner_lookup [OF assms(1, 2) Suc.prems(1) m(2) y2 [unfolded y_def]]
    note dl = inner(1)
    have novm: "(case found2 of Inl _ \<Rightarrow> False | Inr l \<Rightarrow> lr_vmnt l \<noteq> None) = False" using inner(2) by (cases found2) auto
    note body = Suc.prems(2) [unfolded new_node.simps l Inr prod.case sum.case Let_def y_def [symmetric] y2 novm if_False m(1)]
    consider (absolute) "take 1 (left_path y) = ''/''" | (found) "take 1 (left_path y) \<noteq> ''/''" "found2 \<noteq> Inl ENOENT"
      | (absent) "take 1 (left_path y) \<noteq> ''/''" "found2 = Inl ENOENT" by blast
    then show ?thesis
    proof cases
      case absolute
      define s5 where "s5 = (let s4 = release_vnode E (lr_vnode d) (vcall (UnlockVmnt m) (vcall (UnlockVnode (lr_vnode d)) s2))
        in case found2 of Inl _ \<Rightarrow> s4 | Inr l \<Rightarrow> release_vnode E (lr_vnode l) (vcall (UnlockVnode (lr_vnode l)) s4))"
      have g: "gives s None s5" using dl by (cases found2) (auto simp: s5_def Let_def gives_def dir_locked_def rel)
      have "new_node n E (left_path y) oflags bits s5 = Returned (s', v, r)"
        using body absolute by (simp add: unlock_vmnt_ptr_def s5_def Let_def)
      then show ?thesis using Suc.IH gives_names_free [OF g Suc.prems(1)] gives_trans [OF g] by blast
    next
      case found
      then show ?thesis using body new_node_end_gives [OF assms(1) dl] inner(3) by (auto split: sum.splits)
    next
      case absent
      note dn = dl [unfolded absent(2), simplified]
      obtain s3 z where g: "get_free_vnode E s2 = (s3, z)" by fastforce
      have d3: "dir_locked s (lr_vnode d) m None s3"
        using dn dir_locked_upd [OF dn, of s3] free_vnode_frame [OF assms(1) g] by simp
      show ?thesis
      proof (cases z)
        case (Inl e)
        then show ?thesis using body absent g d3 by (auto simp: unlock_vmnt_ptr_def gives_def dir_locked_def rel)
      next
        case (Inr vp)
        have "held s2 (LkVnode vp) = 0" using assms(2) g Inr unfolding fresh_nodes_def by blast
        then have vp: "vp \<noteq> lr_vnode d" using dn Suc.prems(1) by (auto simp: dir_locked_def names_free_def)
        define t where "t = vcall (UpgradeVmnt m) (vcall (LockVnode vp) s3)"
        obtain s4 w where c: "create_request E (lr_vnode d) bits (left_path y) t = (s4, w)" by fastforce
        have "dir_locked s (lr_vnode d) m (Some vp) t" using d3 by (simp add: t_def dir_locked_def)
        then have d4: "dir_locked s (lr_vnode d) m (Some vp) s4" using c by (rule create_request_locked)
        note body = body [unfolded if_not_P [OF absent(1)] absent(2) simp_thms if_False g Inr prod.case sum.case option.case t_def [symmetric] c]
        show ?thesis
        proof (cases w)
          case (Inr res)
          have "dir_locked s (lr_vnode d) m (Some vp) (store_result vp (lr_vnode d) res s4)"
            using d4 by (rule dir_locked_upd) (simp_all add: store_result_def Let_def)
          then show ?thesis using body Inr absent vp new_node_end_gives [OF assms(1)] by (simp del: bind_outcome_Returned)
        next
          case (Inl r0)
          define s5 where "s5 = vcall (DowngradeVmnt m) s4"
          have d5: "dir_locked s (lr_vnode d) m (Some vp) s5" using d4 by (simp add: s5_def dir_locked_def)
          show ?thesis
          proof (cases "r0 = Err EEXIST")
            case False
            then show ?thesis using body Inl absent d4 by (auto simp: gives_def dir_locked_def rel)
          next
            case True
            obtain s6 y' where f: "follow_link E (lr_vnode d) (Some m) (left_path y) s5 = Returned (s6, y')"
              using body Inl absent True by (auto simp: s5_def)
            obtain p where p: "y' = Inr p" and d6: "dir_locked s (lr_vnode d) m (Some vp) s6"
              using follow_link_locked [OF assms d5 f] by blast
            define s7 where "s7 = vcall (UnlockVmnt m) (vcall (UnlockVnode vp) (vcall (UnlockVnode (lr_vnode d)) s6))"
            define u where "u = upd_fproc (fp s7) (fp_wd_update (\<lambda>_. lr_vnode d)) s7"
            have g7: "gives s None u" using d6 by (simp add: u_def s7_def gives_def dir_locked_def)
            obtain s8 v' r' where n: "new_node n E p oflags bits u = Returned (s8, v', r')"
              and e: "v = v'" "s' = release_vnode E (lr_vnode d) (upd_fproc (fp s8) (fp_wd_update (\<lambda>_. fp_wd (fprocs s7 (fp s7)))) s8)"
              using body [unfolded Inl True sum.case simp_thms if_False s5_def [symmetric] f p bind_outcome.simps prod.case s7_def [symmetric] u_def [symmetric]]
              by (auto split: option.splits)
            have "gives s v s8" using Suc.IH [OF gives_names_free [OF g7 Suc.prems(1)] n] gives_trans [OF g7] e(1) by blast
            then show ?thesis by (simp add: e(2) gives_def rel)
          qed
        qed
      qed
    qed
  qed
qed

subsection \<open>Opening\<close>

text \<open>A search among the open files finds one that is in use.\<close>

definition finds_open :: "vfs_env \<Rightarrow> bool" where
  "finds_open E \<longleftrightarrow> (\<forall>v b s f. find_filp E v b s = Some f \<longrightarrow> 0 < filp_count (filps s f))"

text \<open>The locks in \<open>common_open\<close>: those that \<open>unlock_filp\<close> will give back.\<close>

definition opened :: "nat \<Rightarrow> vfs \<Rightarrow> bool" where
  "opened f s \<longleftrightarrow> (\<forall>k. held s k = of_bool (k = LkFilp f) + vnode_lk (if filp_count (filps s f) = 0 then None else filp_vno (filps s f)) k)"

lemma opened_keeps: "opened f s \<Longrightarrow> keeps s s' \<Longrightarrow> opened f s'"
  by (simp add: opened_def keeps_def)

lemma opened_unlock: "opened f s \<Longrightarrow> no_locks (unlock_filp f s)"
  by (simp add: opened_def no_locks_def held_unlock_filp)

lemma open_end_held:
  assumes "vfs_env_ok E" and "opened f s"
  shows "no_locks (fst (open_end E fd f vp r s))"
  using opened_unlock [OF assms(2)]
  by (auto simp: open_end_def Let_def no_locks_def held_release [OF assms(1)] split: option.splits)

lemma open_node_held:
  assumes "vfs_env_ok E" and "fresh_nodes E" and "links_readable E" and "names_free s"
    and "open_node n E path oflags omode f s = Returned (s', x)"
  shows "case x of Inl r \<Rightarrow> \<exists>t. filps t = filps s \<and> held t = held s \<and> s' = unlock_filp f t | Inr (vp, e, r) \<Rightarrow> gives s (Some vp) s'"
proof (cases "O_CREAT \<in> oflags")
  case True
  obtain s1 vo r where n: "new_node n E path oflags (I_IMMEDIATE OR (omode AND ALL_MODES AND fp_umask (fprocs s (fp s)))) s = Returned (s1, vo, r)"
    using assms(5) True by (auto simp: open_node_def Let_def)
  have g: "gives s vo s1" by (rule new_node_gives [OF assms(1-4) n])
  show ?thesis
  proof (cases vo)
    case None
    then show ?thesis using assms(5) True n g
      by (auto simp: open_node_def Let_def gives_def ext split: if_splits intro!: exI [of _ s1])
  next
    case (Some vp)
    then show ?thesis using assms(5) True n g
      by (auto simp: open_node_def Let_def gives_def ext split: if_splits option.splits intro!: exI [of _ "vcall (UnlockVnode vp) s1"])
  qed
next
  case False
  let ?l = "eat_path E (lookup_init path False VMNT_READ VNODE_OPCL) (fp s)"
  note lk = env_lookups(1) [OF assms(1)]
  obtain s1 y where l: "looked_up (?l s) = (s1, y)" by fastforce
  show ?thesis
  proof (cases y)
    case (Inl e)
    then show ?thesis using looked_up_Inl [OF lk l [unfolded Inl]] assms(5) l False by (auto simp: open_node_def)
  next
    case (Inr d)
    obtain m where "lr_vmnt d = Some m" "dir_locked s (lr_vnode d) m None s1"
      using first_dir [OF lk assms(4) l [unfolded Inr]] by blast
    then show ?thesis using assms(5) l Inr False by (auto simp: open_node_def gives_def dir_locked_def)
  qed
qed

lemma pipe_open_keeps: "vfs_env_ok E \<Longrightarrow> pipe_open E vp bits oflags s = (s', r) \<Longrightarrow> keeps s s'"
  by (auto simp: pipe_open_def keeps_unfold env_quiet split: if_splits)

lemma open_regular_keeps: "open_regular E vp oflags s = (s', r) \<Longrightarrow> keeps s s'"
proof -
  assume a: "open_regular E vp oflags s = (s', r)"
  have k: "keeps s (vcall (UpgradeVnode vp) s)" by (simp add: keeps_def fun_eq_iff)
  show ?thesis
    using a truncate_vnode_keeps [of E vp 0 "vcall (UpgradeVnode vp) s"] keeps_trans [OF k]
    by (cases "truncate_vnode E vp 0 (vcall (UpgradeVnode vp) s)") (auto simp: open_regular_def Let_def split: if_splits)
qed

lemma open_block_keeps: "open_block E vp bits s = Returned (s', r) \<Longrightarrow> keeps s s'"
  by (auto simp: open_block_def Let_def keeps_unfold dest!: lock_bsf_state unlock_bsf_state split: if_splits)

lemma open_fifo_opened:
  assumes "vfs_env_ok E" and "finds_open E" and "opened f s" and "filp_count (filps s f) = 1" and "filp_vno (filps s f) = Some vp"
    and "open_fifo E fd f vp bits oflags s = (s', r)"
  shows "opened f s'"
proof -
  obtain s1 r1 where m: "map_vnode E vp (PFS_PROC_NR E) (vcall (MapVnode vp) (vcall (UpgradeVnode vp) s)) = (s1, r1)" by fastforce
  have k1: "keeps s s1"
    using env_quiet(12, 13) [OF assms(1) m] by (simp add: keeps_unfold)
  obtain sa ra where t: "(if v_ref_count (vnodes s1 vp) = 1 \<and> v_size (vnodes s1 vp) \<noteq> 0 then truncate_vnode E vp 0 s1 else (s1, OK)) = (sa, ra)" by fastforce
  have ka: "keeps s1 sa" using t truncate_vnode_keeps by (auto split: if_splits)
  define s2 where "s2 = (if r1 = OK then upd_filp f (filp_flags_update (\<lambda>_. insert O_APPEND oflags)) sa else s1)"
  define r2 where "r2 = (if r1 = OK then ra else r1)"
  define o2 where "o2 = (if r1 = OK then insert O_APPEND oflags else oflags)"
  have k2: "keeps s s2" using keeps_trans [OF keeps_trans [OF k1 ka] keeps_upd(4)] k1 by (simp add: s2_def)
  obtain s3 r3 where p: "(if r2 = OK then pipe_open E vp bits o2 s2 else (s2, r2)) = (s3, r3)" by fastforce
  have k3: "keeps s s3" using keeps_trans [OF k2] pipe_open_keeps [OF assms(1)] k2 p by (auto split: if_splits)
  have o: "opened f s3" using opened_keeps [OF assms(3) k3] .
  have c3: "filp_count (filps s3 f) = 1" "filp_vno (filps s3 f) = Some vp" using k3 assms(4, 5) by (simp_all add: keeps_def)
  define s4 where "s4 = upd_filp f (filp_count_update (\<lambda>_. 0)) s3"
  have h: "(if r1 = OK then case (if v_ref_count (vnodes s1 vp) = 1 \<and> v_size (vnodes s1 vp) \<noteq> 0 then truncate_vnode E vp 0 s1 else (s1, OK)) of
        (sa, ra) \<Rightarrow> (upd_filp f (filp_flags_update (\<lambda>_. insert O_APPEND oflags)) sa, ra) else (s1, r1)) = (s2, r2)"
    unfolding t by (simp add: s2_def r2_def)
  note e = assms(6) [unfolded open_fifo_def Let_def m prod.case, unfolded h o2_def [symmetric] prod.case,
    unfolded p prod.case s4_def [symmetric]]
  show ?thesis
  proof (cases "r3 = Err ENXIO")
    case True
    then show ?thesis using e o by simp
  next
    case False
    show ?thesis
    proof (cases "find_filp E vp (if R_BIT \<in> bits then R_BIT else W_BIT) s4")
      case None
      then show ?thesis using e False o c3 by (auto simp: opened_def s4_def held_def)
    next
      case (Some f2)
      then have "0 < filp_count (filps s4 f2)" using assms(2) unfolding finds_open_def by blast
      then have "f2 \<noteq> f" by (auto simp: s4_def)
      then show ?thesis using e False Some o c3
        by (auto simp: opened_def s4_def held_release [OF assms(1)] release_frame [OF assms(1)]) (auto simp: held_def)
    qed
  qed
qed

lemma open_by_type_opened:
  assumes "vfs_env_ok E" and "finds_open E" and "opened f s" and "filp_count (filps s f) = 1" and "filp_vno (filps s f) = Some vp"
    and "open_by_type E fd f vp bits oflags s = Returned (s', r, v)"
  shows "opened f s'"
proof -
  have cdev: "opened f t" if "cdev_open E d bits no (vcall (CdevOpen d) s) = (t, r)" for d no t r
    using assms(3) env_quiet(14, 15) [OF assms(1) that] by (auto simp: opened_def held_def)
  show ?thesis
    using assms(3, 6) open_fifo_opened [OF assms(1-5)] open_regular_keeps [of E vp oflags s] open_block_keeps [of E vp bits s]
      opened_keeps [OF assms(3)] cdev
    by (auto simp: open_by_type_def Let_def split: if_splits prod.splits)
qed

lemma claim_fd_opened:
  assumes "\<And>k. held s k = of_bool (k = LkFilp f) + of_bool (k = LkVnode vp)"
  shows "opened f (claim_fd fd f vp oflags s)" and "filp_count (filps (claim_fd fd f vp oflags s) f) = 1"
    and "filp_vno (filps (claim_fd fd f vp oflags s) f) = Some vp"
  using assms by (auto simp: claim_fd_def Let_def opened_def)

lemma common_open_held:
  assumes "vfs_env_ok E" and "fresh_nodes E" and "links_readable E" and "finds_open E" and "no_locks s"
    and "common_open n E path acc oflags omode s = Returned (s', r)"
  shows "no_locks s'"
proof (cases "mode_map acc = {}")
  case True
  then show ?thesis using assms(5, 6) by (simp add: common_open_def)
next
  case False
  let ?bits = "mode_map acc"
  obtain s1 x where g: "get_fd E (fp s) ?bits s = (s1, x)" by fastforce
  have "calls s1 = calls s" using assms(1) g unfolding vfs_env_ok_def by (metis fst_conv)
  then have h1: "held s1 = held s" by (rule held_cong)
  show ?thesis
  proof (cases x)
    case (Inl e)
    then show ?thesis using assms(5, 6) False g h1 by (simp add: common_open_def no_locks_def)
  next
    case (Inr y)
    obtain fd f where y: "y = (fd, f)" by fastforce
    have c: "filp_count (filps s1 f) = 0" using assms(1) g Inr y unfolding vfs_env_ok_def by blast
    define t where "t = vcall (LockFilp f None) (upd_fproc (fp s1) (sc_fd_nr_update (\<lambda>_. fd)) s1)"
    have ht: "held t k = of_bool (k = LkFilp f)" for k
      using h1 assms(5) by (simp add: t_def no_locks_def)
    have ct: "filp_count (filps t f) = 0" using c by (simp add: t_def)
    note body = assms(6) [unfolded common_open_def Let_def g Inr y prod.case sum.case t_def [symmetric] if_not_P [OF False]]
    obtain s2 z where o: "open_node n E path oflags omode f t = Returned (s2, z)" using body by auto
    have nf: "names_free t" by (simp add: names_free_def ht)
    note on = open_node_held [OF assms(1-3) nf o]
    show ?thesis
    proof (cases z)
      case (Inl e)
      then show ?thesis using body on o ht ct by (auto simp: no_locks_def held_unlock_filp)
    next
      case (Inr w)
      obtain vp e r0 where w: "w = (vp, e, r0)" by (cases w) auto
      define s3 where "s3 = claim_fd fd f vp oflags s2"
      have "held s2 k = of_bool (k = LkFilp f) + of_bool (k = LkVnode vp)" for k
        using on Inr w ht by (simp add: gives_def)
      note cl = claim_fd_opened [where fd = fd and oflags = oflags, OF this, folded s3_def]
      note body = body [unfolded o bind_outcome.simps prod.case Inr w sum.case s3_def [symmetric]]
      note fin = open_end_held [OF assms(1), where fd = fd]
      have e: "no_locks s'" if "Returned (open_end E fd f v q u) = Returned (s', r)" "opened f u" for v q u
        using fin [OF that(2), of v q] that(1) by simp
      show ?thesis
      proof (cases "e \<and> forbidden E (fp s3) vp ?bits s3 = OK")
        case False
        then show ?thesis using body e cl(1) by (auto split: if_splits)
      next
        case True
        then obtain s4 r2 vp2 where b: "open_by_type E fd f vp ?bits oflags s3 = Returned (s4, r2, vp2)"
          "Returned (open_end E fd f vp2 r2 s4) = Returned (s', r)"
          using body by auto
        then show ?thesis using e [OF b(2)] open_by_type_opened [OF assms(1, 4) cl b(1)] by blast
      qed
    qed
  qed
qed

subsection \<open>The server\<close>

text \<open>The system calls of the three files, \<open>link\<close> apart, with the arguments of their messages.\<close>

datatype vfs_request =
    ReadWritePeek rw_flag nat nat nat
  | Getdents nat nat nat
  | Unlink bool
  | Rename nat nat nat nat
  | Truncate nat nat int
  | Ftruncate nat int
  | Slink nat nat nat nat
  | Rdlink nat nat nat nat
  | Open nat "oflag set"
  | Creat nat nat nat "oflag set" u16
  | Mknod nat nat u16 nat
  | Mkdir u16
  | Lseek nat whence int
  | Close nat

fun vfs_serve :: "nat \<Rightarrow> vfs_env \<Rightarrow> vfs_request \<Rightarrow> vfs \<Rightarrow> (vfs \<times> ret) outcome" where
  "vfs_serve n E (ReadWritePeek rw fd buf len) s = do_read_write_peek E rw fd buf len s"
| "vfs_serve n E (Getdents fd buf len) s = do_getdents E fd buf len s"
| "vfs_serve n E (Unlink u) s = do_unlink E u s"
| "vfs_serve n E (Rename a b c d) s = do_rename E a b c d s"
| "vfs_serve n E (Truncate a b len) s = do_truncate E a b len s"
| "vfs_serve n E (Ftruncate fd len) s = do_ftruncate E fd len s"
| "vfs_serve n E (Slink a b c d) s = do_slink E a b c d s"
| "vfs_serve n E (Rdlink a b c d) s = do_rdlink E a b c d s"
| "vfs_serve n E (Open acc fl) s = do_open n E acc fl s"
| "vfs_serve n E (Creat a b acc fl m) s = do_creat n E a b acc fl m s"
| "vfs_serve n E (Mknod a b m dev) s = do_mknod E a b m dev s"
| "vfs_serve n E (Mkdir m) s = do_mkdir E m s"
| "vfs_serve n E (Lseek fd wh off) s = bind_outcome (do_lseek E fd wh off s) (\<lambda>(s1, r, _). Returned (s1, r))"
| "vfs_serve n E (Close fd) s = do_close E fd s"

text \<open>One request for the process \<open>p\<close>. A server that has panicked serves nothing.\<close>

definition vfs_step :: "nat \<Rightarrow> vfs_env \<Rightarrow> vfs outcome \<Rightarrow> nat \<times> vfs_request \<Rightarrow> vfs outcome" where
  "vfs_step n E m req =
     bind_outcome m (\<lambda>s. bind_outcome (vfs_serve n E (snd req) (s\<lparr>fp := fst req, who_e := fp_endpoint (fprocs s (fst req))\<rparr>)) (\<lambda>(s1, r). Returned s1))"

definition world_ok :: "vfs_env \<Rightarrow> bool" where
  "world_ok E \<longleftrightarrow> vfs_env_ok E \<and> fresh_nodes E \<and> links_readable E \<and> finds_open E"

fun vfs_inv :: "vfs_env \<Rightarrow> vfs outcome \<Rightarrow> bool" where
  "vfs_inv E (Returned s) = (world_ok E \<longrightarrow> no_locks s)"
| "vfs_inv E (Aborted w) = True"

lemma names_held:
  assumes "vfs_env_ok E" and "no_locks s"
  shows "\<exists>s' r. do_truncate E a b len s = Returned (s', r) \<and> no_locks s'"
    and "\<exists>s' r. do_slink E a b c d s = Returned (s', r) \<and> no_locks s'"
    and "\<exists>s' r. do_rdlink E a b c d s = Returned (s', r) \<and> no_locks s'"
    and "\<exists>s' r. do_mknod E a b m dev s = Returned (s', r) \<and> no_locks s'"
    and "\<exists>s' r. do_mkdir E m s = Returned (s', r) \<and> no_locks s'"
proof -
  note looks = lookup_ok_fp [OF env_lookups(1) [OF assms(1)]] lookup_ok_fp [OF env_lookups(2) [OF assms(1)]] env_lookups(1) [OF assms(1)]
  have trunc: "truncate_vnode E vp len t = (t', r) \<Longrightarrow> held t' = held t" for vp t t' r
    using truncate_vnode_keeps by (auto simp: keeps_def)
  note rules = with_name_held with_path_held with_node_held [OF assms(1)] looks assms(2)
  show "\<exists>s' r. do_truncate E a b len s = Returned (s', r) \<and> no_locks s'"
  proof (cases "len < 0")
    case False
    show ?thesis unfolding do_truncate_def if_not_P [OF False] Let_def
      by (intro rules) (auto split: if_splits dest: trunc)
  qed (simp add: do_truncate_def assms(2))
  show "\<exists>s' r. do_slink E a b c d s = Returned (s', r) \<and> no_locks s'"
  proof (cases "b \<le> 1 \<or> POSIX_SYMLINK_MAX E \<le> b")
    case False
    then have "\<not> b \<le> 1" "\<not> POSIX_SYMLINK_MAX E \<le> b" by auto
    then show ?thesis unfolding do_slink_def Let_def by (simp only: if_False, intro rules) (auto simp: fun_eq_iff split: if_splits)
  qed (use assms(2) in \<open>auto simp: do_slink_def\<close>)
  show "\<exists>s' r. do_rdlink E a b c d s = Returned (s', r) \<and> no_locks s'"
  proof (cases "SSIZE_MAX E < d")
    case False
    show ?thesis unfolding do_rdlink_def if_not_P [OF False]
      by (intro rules) (auto simp: read_link_def Let_def fun_eq_iff split: if_splits)
  qed (simp add: do_rdlink_def assms(2))
  show "\<exists>s' r. do_mknod E a b m dev s = Returned (s', r) \<and> no_locks s'"
  proof (cases "fp_effuid (fprocs s (fp s)) \<noteq> SU_UID E \<and> \<not> S_ISFIFO m \<and> \<not> S_ISSOCK m")
    case False
    show ?thesis unfolding do_mknod_def if_not_P [OF False] Let_def
      by (intro rules) (auto simp: fun_eq_iff split: if_splits)
  qed (simp add: do_mknod_def assms(2))
  show "\<exists>s' r. do_mkdir E m s = Returned (s', r) \<and> no_locks s'"
    unfolding do_mkdir_def Let_def by (intro rules) (auto simp: fun_eq_iff split: if_splits)
qed

lemma do_open_held:
  assumes "world_ok E" and "no_locks s"
  shows "do_open n E acc fl s = Returned (s', r) \<Longrightarrow> no_locks s'"
    and "do_creat n E a b acc fl m s = Returned (s', r) \<Longrightarrow> no_locks s'"
  using assms common_open_held unfolding world_ok_def
  by (auto simp: do_open_def do_creat_def with_path_def with_name_def no_locks_def [of "_\<lparr>vfs_err := _\<rparr>"] split: if_splits sum.splits)
    (auto simp: no_locks_def)

lemma vfs_serve_held:
  assumes "world_ok E" and "no_locks s" and "vfs_serve n E req s = Returned (s', r)"
  shows "no_locks s'"
proof -
  note w = assms(1) [unfolded world_ok_def]
  have h: "held t = held s \<Longrightarrow> no_locks t" for t using assms(2) by (simp add: no_locks_def)
  show ?thesis
  proof (cases req)
    case ReadWritePeek
    then show ?thesis using assms(3) w actual_read_write_held by (auto simp: do_read_write_peek_def intro!: h)
  next
    case (Lseek fd wh off)
    then show ?thesis using assms(3) w actual_lseek_held by (auto simp: do_lseek_def intro!: h split: if_splits)
  next
    case Close
    then show ?thesis using assms(3) w close_fd_held by (auto simp: do_close_def intro!: h)
  next
    case Getdents
    then show ?thesis using assms(3) w do_getdents_held by (auto intro!: h)
  next
    case Ftruncate
    then show ?thesis using assms(3) w do_ftruncate_held by (auto intro!: h)
  next
    case (Unlink u)
    then show ?thesis using assms(3) w do_unlink_held [OF _ _ assms(2), of E u] by auto
  next
    case (Rename a b c d)
    then show ?thesis using assms(3) w do_rename_held [OF _ _ assms(2), of E a b c d] by auto
  next
    case (Truncate a b len)
    then show ?thesis using assms(3) w names_held(1) [OF _ assms(2), of E a b len] by auto
  next
    case (Slink a b c d)
    then show ?thesis using assms(3) w names_held(2) [OF _ assms(2), of E a b c d] by auto
  next
    case (Rdlink a b c d)
    then show ?thesis using assms(3) w names_held(3) [OF _ assms(2), of E a b c d] by auto
  next
    case (Mknod a b m dev)
    then show ?thesis using assms(3) w names_held(4) [OF _ assms(2), of E a b m dev] by auto
  next
    case (Mkdir m)
    then show ?thesis using assms(3) w names_held(5) [OF _ assms(2), of E m] by auto
  next
    case (Open acc fl)
    then show ?thesis using assms(3) do_open_held(1) [OF assms(1, 2)] by simp
  next
    case (Creat a b acc fl m)
    then show ?thesis using assms(3) do_open_held(2) [OF assms(1, 2)] by simp
  qed
qed

lemma vfs_step_inv: "vfs_inv E m \<Longrightarrow> vfs_inv E (vfs_step n E m req)"
proof (cases m)
  case (Returned s)
  assume i: "vfs_inv E m"
  let ?s = "s\<lparr>fp := fst req, who_e := fp_endpoint (fprocs s (fst req))\<rparr>"
  have "no_locks ?s" if "world_ok E" using i Returned that by (simp add: no_locks_def held_def)
  then show ?thesis using vfs_serve_held [of E ?s n "snd req"] Returned
    by (cases "vfs_serve n E (snd req) ?s") (auto simp: vfs_step_def)
qed (simp add: vfs_step_def)

interpretation vfs_srv: server "vfs_step n E" "vfs_inv E" for n E
  by unfold_locales (rule vfs_step_inv)


subsection \<open>An environment for examples\<close>

text \<open>
  One mount (0) with a directory (vnode 1), a file in it (vnode 2) and a free vnode (3); file
  servers that grant every request. Lookups lock what they find, unless it is locked already.
\<close>

definition demo_env :: vfs_env where
  "demo_env = \<lparr>SSIZE_MAX = 1000, PATH_MAX = 20, POSIX_SYMLINK_MAX = 20, SU_UID = 0, ROOT_FS_E = 7, PFS_PROC_NR = 9,
     NO_ENDPOINT = 99, VFS_ENDPOINT = 1, NR_MNTS = 1,
     get_filp2 = (\<lambda>p fd lk s. (s, case fp_filp (fprocs s p) fd of None \<Rightarrow> Inl EBADF
                    | Some f \<Rightarrow> if 0 < filp_count (filps s f) \<and> filp_vno (filps s f) \<noteq> None then Inr f else Inl EBADF)),
     find_vmnt = (\<lambda>e s. Some 0), mutex_trylock = (\<lambda>s. 0), mutex_lock = (\<lambda>s. 0), mutex_unlock = (\<lambda>s. 0), EBUSY_code = 16,
     req_readwrite = (\<lambda>e i pos rw u b n s. (OK, pos + int n, n)), req_peek = (\<lambda>e i pos n s. OK),
     req_breadwrite = (\<lambda>e i pos rw u b n s. (OK, pos + int n, n)), req_bpeek = (\<lambda>e i pos n s. OK),
     cdev_io = (\<lambda>rw d e b pos n fl s. Ret n), pipe_check = (\<lambda>f rw fl n s. Ret n), pipe_suspend = (\<lambda>f b n s. s),
     req_getdents = (\<lambda>e i pos b n s. (OK, pos)), fetch_name = (\<lambda>a b s. Inr ''name''), copy_path = (\<lambda>s. Inr ''name''),
     eat_path = (\<lambda>l p s. (s, Inr \<lparr>lr_vnode = 2, lr_locked = (held s (LkVnode 2) = 0), lr_vmnt = Some 0, lr_path = []\<rparr>)),
     last_dir = (\<lambda>l p s. (s, Inr \<lparr>lr_vnode = 1, lr_locked = (held s (LkVnode 1) = 0), lr_vmnt = Some 0, lr_path = ''name''\<rparr>)),
     advance = (\<lambda>d l p s. (s, if held s (LkVnode 2) = 0 \<and> d = 5 then Inr \<lparr>lr_vnode = 2, lr_locked = True, lr_vmnt = None, lr_path = []\<rparr> else Inl (ENOENT, l_path l))),
     forbidden = (\<lambda>p v a s. OK), put_vnode = (\<lambda>v s. s), req_ftrunc = (\<lambda>e i n s. OK), req_link = (\<lambda>e d n i s. OK),
     req_unlink = (\<lambda>e i n s. OK), req_rmdir = (\<lambda>e i n s. OK), req_rename = (\<lambda>e i n j m s. OK),
     req_slink = (\<lambda>e i n w b l u g s. OK), req_rdlink = (\<lambda>e i w b n s. (OK, ''name'')),
     req_create = (\<lambda>e i m u g n s. (OK, \<lparr>res_fs_e = e, res_inode_nr = 30, res_fmode = m, res_fsize = 0, res_uid = u, res_gid = g, res_dev = 0\<rparr>)),
     req_mknod = (\<lambda>e i n u g m d s. OK), req_mkdir = (\<lambda>e i n u g m s. OK), req_inhibread = (\<lambda>e i s. OK),
     get_fd = (\<lambda>p b s. (s, if filp_count (filps s 0) = 0 then Inr (0, 0) else Inl EMFILE)),
     get_free_vnode = (\<lambda>s. (s, if held s (LkVnode 3) = 0 then Inr 3 else Inl ENFILE)),
     cdev_open = (\<lambda>d b n s. (s, OK)), bdev_open = (\<lambda>d b s. OK), dmap_driver = (\<lambda>d s. 5), req_newdriver = (\<lambda>e d s. OK),
     map_vnode = (\<lambda>v e s. (s, OK)), find_filp = (\<lambda>v b s. None), suspend_popen = (\<lambda>s. s), release_pipe = (\<lambda>v s. s),
     close_filp = (\<lambda>f s. upd_filp f (filp_count_update (\<lambda>n. n - 1)) s), lock_revive = (\<lambda>s. s)\<rparr>"

definition demo_vfs :: vfs where
  "demo_vfs = \<lparr>
     vnodes = (\<lambda>v. \<lparr>v_fs_e = 7, v_inode_nr = v, v_mode = (if v = 1 then I_DIRECTORY else I_IMMEDIATE), v_size = 0, v_uid = 0, v_gid = 0, v_sdev = 0,
       v_vmnt = 0, v_dev = 0, v_bfs_e = 0, v_mapfs_e = 0, v_mapinode_nr = 0, v_ref_count = 1, v_fs_count = 1\<rparr>),
     filps = (\<lambda>f. \<lparr>filp_mode = {R_BIT, W_BIT}, filp_flags = {}, filp_count = 0, filp_vno = None, filp_pos = 0\<rparr>),
     fprocs = (\<lambda>p. \<lparr>fp_endpoint = int p, fp_pid = int p, fp_filp = (\<lambda>_. None), fp_cloexec_set = {}, fp_umask = 0, fp_effuid = 0, fp_effgid = 0,
       fp_wd = 1, fp_cum_io_partial = 0, sc_fd_nr = 0, sc_io_buffer = 0, sc_io_nbytes = 0\<rparr>),
     vmnts = (\<lambda>m. \<lparr>m_fs_e = 7, m_dev = 0, m_forcerootbsf = False, m_mount_path = ''/home''\<rparr>),
     file_locks = [], nr_locks = 0, susp_count = 0, vfs_err = EINVAL, fp = 0, who_e = 0, calls = []\<rparr>"

lemma demo_env_sel:
  "SSIZE_MAX demo_env = 1000"
  "PATH_MAX demo_env = 20"
  "POSIX_SYMLINK_MAX demo_env = 20"
  "SU_UID demo_env = 0"
  "ROOT_FS_E demo_env = 7"
  "PFS_PROC_NR demo_env = 9"
  "NO_ENDPOINT demo_env = 99"
  "VFS_ENDPOINT demo_env = 1"
  "NR_MNTS demo_env = 1"
  "get_filp2 demo_env = (\<lambda>p fd lk s. (s, case fp_filp (fprocs s p) fd of None \<Rightarrow> Inl EBADF
                    | Some f \<Rightarrow> if 0 < filp_count (filps s f) \<and> filp_vno (filps s f) \<noteq> None then Inr f else Inl EBADF))"
  "find_vmnt demo_env = (\<lambda>e s. Some 0)"
  "mutex_trylock demo_env = (\<lambda>s. 0)"
  "mutex_lock demo_env = (\<lambda>s. 0)"
  "mutex_unlock demo_env = (\<lambda>s. 0)"
  "EBUSY_code demo_env = 16"
  "req_readwrite demo_env = (\<lambda>e i pos rw u b n s. (OK, pos + int n, n))"
  "req_peek demo_env = (\<lambda>e i pos n s. OK)"
  "req_breadwrite demo_env = (\<lambda>e i pos rw u b n s. (OK, pos + int n, n))"
  "req_bpeek demo_env = (\<lambda>e i pos n s. OK)"
  "cdev_io demo_env = (\<lambda>rw d e b pos n fl s. Ret n)"
  "pipe_check demo_env = (\<lambda>f rw fl n s. Ret n)"
  "pipe_suspend demo_env = (\<lambda>f b n s. s)"
  "req_getdents demo_env = (\<lambda>e i pos b n s. (OK, pos))"
  "fetch_name demo_env = (\<lambda>a b s. Inr ''name'')"
  "copy_path demo_env = (\<lambda>s. Inr ''name'')"
  "eat_path demo_env = (\<lambda>l p s. (s, Inr \<lparr>lr_vnode = 2, lr_locked = (held s (LkVnode 2) = 0), lr_vmnt = Some 0, lr_path = []\<rparr>))"
  "last_dir demo_env = (\<lambda>l p s. (s, Inr \<lparr>lr_vnode = 1, lr_locked = (held s (LkVnode 1) = 0), lr_vmnt = Some 0, lr_path = ''name''\<rparr>))"
  "advance demo_env = (\<lambda>d l p s. (s, if held s (LkVnode 2) = 0 \<and> d = 5 then Inr \<lparr>lr_vnode = 2, lr_locked = True, lr_vmnt = None, lr_path = []\<rparr> else Inl (ENOENT, l_path l)))"
  "forbidden demo_env = (\<lambda>p v a s. OK)"
  "put_vnode demo_env = (\<lambda>v s. s)"
  "req_ftrunc demo_env = (\<lambda>e i n s. OK)"
  "req_link demo_env = (\<lambda>e d n i s. OK)"
  "req_unlink demo_env = (\<lambda>e i n s. OK)"
  "req_rmdir demo_env = (\<lambda>e i n s. OK)"
  "req_rename demo_env = (\<lambda>e i n j m s. OK)"
  "req_slink demo_env = (\<lambda>e i n w b l u g s. OK)"
  "req_rdlink demo_env = (\<lambda>e i w b n s. (OK, ''name''))"
  "req_create demo_env = (\<lambda>e i m u g n s. (OK, \<lparr>res_fs_e = e, res_inode_nr = 30, res_fmode = m, res_fsize = 0, res_uid = u, res_gid = g, res_dev = 0\<rparr>))"
  "req_mknod demo_env = (\<lambda>e i n u g m d s. OK)"
  "req_mkdir demo_env = (\<lambda>e i n u g m s. OK)"
  "req_inhibread demo_env = (\<lambda>e i s. OK)"
  "get_fd demo_env = (\<lambda>p b s. (s, if filp_count (filps s 0) = 0 then Inr (0, 0) else Inl EMFILE))"
  "get_free_vnode demo_env = (\<lambda>s. (s, if held s (LkVnode 3) = 0 then Inr 3 else Inl ENFILE))"
  "cdev_open demo_env = (\<lambda>d b n s. (s, OK))"
  "bdev_open demo_env = (\<lambda>d b s. OK)"
  "dmap_driver demo_env = (\<lambda>d s. 5)"
  "req_newdriver demo_env = (\<lambda>e d s. OK)"
  "map_vnode demo_env = (\<lambda>v e s. (s, OK))"
  "find_filp demo_env = (\<lambda>v b s. None)"
  "suspend_popen demo_env = (\<lambda>s. s)"
  "release_pipe demo_env = (\<lambda>v s. s)"
  "close_filp demo_env = (\<lambda>f s. upd_filp f (filp_count_update (\<lambda>n. n - 1)) s)"
  "lock_revive demo_env = (\<lambda>s. s)"
  by (simp_all add: demo_env_def)
lemma demo_vfs_sel:
  "vnodes demo_vfs v = \<lparr>v_fs_e = 7, v_inode_nr = v, v_mode = (if v = 1 then I_DIRECTORY else I_IMMEDIATE), v_size = 0, v_uid = 0, v_gid = 0, v_sdev = 0,
       v_vmnt = 0, v_dev = 0, v_bfs_e = 0, v_mapfs_e = 0, v_mapinode_nr = 0, v_ref_count = 1, v_fs_count = 1\<rparr>"
  "filps demo_vfs f = \<lparr>filp_mode = {R_BIT, W_BIT}, filp_flags = {}, filp_count = 0, filp_vno = None, filp_pos = 0\<rparr>"
  "fprocs demo_vfs p = \<lparr>fp_endpoint = int p, fp_pid = int p, fp_filp = (\<lambda>_. None), fp_cloexec_set = {}, fp_umask = 0, fp_effuid = 0, fp_effgid = 0,
       fp_wd = 1, fp_cum_io_partial = 0, sc_fd_nr = 0, sc_io_buffer = 0, sc_io_nbytes = 0\<rparr>"
  "vmnts demo_vfs m = \<lparr>m_fs_e = 7, m_dev = 0, m_forcerootbsf = False, m_mount_path = ''/home''\<rparr>"
  "fp demo_vfs = 0" "calls demo_vfs = []" "nr_locks demo_vfs = 0"
  by (simp_all add: demo_vfs_def)

text \<open>What evaluates a run.\<close>

lemmas run_defs = vfs_step_def do_creat_def do_unlink_def do_rename_def do_close_def close_fd_def do_read_write_peek_def actual_read_write_peek_def
  set_scratch_def lock_filp_def unlock_filp_def read_write_def rw_regular_def rw_done_def with_name_def with_path_def looked_up_def
  common_open_def open_node_def mode_map_def finish_node_def unlock_vmnt_ptr_def release_vnode_def lookup_init_def left_path_def
  create_request_def new_node_end_def store_result_def claim_fd_def open_end_def sticky_check_def I_TYPE_def I_DIRECTORY_def I_IMMEDIATE_def
  I_NAMED_PIPE_def I_CHAR_SPECIAL_def I_BLOCK_SPECIAL_def I_REGULAR_def S_ISVTX_def ALL_MODES_def

lemma demo_world_ok: "world_ok demo_env"
  unfolding world_ok_def vfs_env_ok_def fresh_nodes_def links_readable_def finds_open_def quiet_def lookup_ok_def
  by (simp add: demo_env_def split: option.splits)

lemma demo_no_locks: "no_locks demo_vfs"
  by (simp add: no_locks_def held_def demo_vfs_def)


end
