(* ===== verification/Vfs_Calls.thy ===== *)
theory Vfs_Calls
  imports Vfs_Open
begin

unbundle bit_operations_syntax

text \<open>
  What the system calls of the virtual file system server do: seeking, appending, closing,
  removing and renaming, creating.
\<close>

subsection \<open>Seeking\<close>

abbreviation int64 :: "int \<Rightarrow> bool" where
  "int64 x \<equiv> - (2 ^ 63) \<le> x \<and> x < 2 ^ 63"

lemma wrap64_eq: "wrap64 x = (x + 2 ^ 63) mod 2 ^ 64 - 2 ^ 63"
  by (simp add: wrap64_def sint_sbintrunc' signed_take_bit_eq_take_bit_shift take_bit_eq_mod)

lemma wrap64_shift: "0 \<le> x + 2 ^ 63 - k * 2 ^ 64 \<Longrightarrow> x + 2 ^ 63 - k * 2 ^ 64 < 2 ^ 64 \<Longrightarrow> wrap64 x = x - k * 2 ^ 64"
  using mod_pos_pos_trivial [of "x + 2 ^ 63 - k * 2 ^ 64" "2 ^ 64"] mod_diff_left_eq [of "x + 2 ^ 63" "2 ^ 64" "k * 2 ^ 64"]
    mod_mult_self3 [of "- k" "2 ^ 64" "x + 2 ^ 63"]
  unfolding wrap64_eq by (simp add: algebra_simps)

lemma wrap64_id: "int64 x \<Longrightarrow> wrap64 x = x"
  using wrap64_shift [of x 0] by simp

lemma wrap64_high: "2 ^ 63 \<le> x \<Longrightarrow> x < 3 * 2 ^ 63 \<Longrightarrow> wrap64 x = x - 2 ^ 64"
  using wrap64_shift [of x 1] by simp

lemma wrap64_low: "- (3 * 2 ^ 63) \<le> x \<Longrightarrow> x < - (2 ^ 63) \<Longrightarrow> wrap64 x = x + 2 ^ 64"
  using wrap64_shift [of x "- 1"] by simp

text \<open>The position an offset counts from.\<close>

definition seek_base :: "whence \<Rightarrow> nat \<Rightarrow> nat \<Rightarrow> vfs \<Rightarrow> int" where
  "seek_base wh f vp s = (case wh of SEEK_SET \<Rightarrow> 0 | SEEK_CUR \<Rightarrow> filp_pos (filps s f) | _ \<Rightarrow> v_size (vnodes s vp))"

lemma seek_overflow_test:
  assumes "int64 pos" and "int64 off"
  shows "(off > 0 \<and> wrap64 (pos + off) \<le> pos) \<or> (off < 0 \<and> wrap64 (pos + off) \<ge> pos) \<longleftrightarrow> \<not> int64 (pos + off)"
proof (cases "int64 (pos + off)")
  case True
  then show ?thesis using wrap64_id [of "pos + off"] by auto
next
  case False
  then consider "2 ^ 63 \<le> pos + off" "pos + off < 3 * 2 ^ 63" | "- (3 * 2 ^ 63) \<le> pos + off" "pos + off < - (2 ^ 63)"
    using assms by force
  then show ?thesis
  proof cases
    case 1
    then show ?thesis using wrap64_high [OF 1] assms by auto
  next
    case 2
    then show ?thesis using wrap64_low [OF 2] assms by auto
  qed
qed

text \<open>
  C39: \<open>lseek\<close> on a file that is no pipe answers \<open>EOVERFLOW\<close>, and leaves the position as it
  was, exactly when the sum of the base and the offset is no 64-bit signed number; the test
  the code makes on the wrapped sum is right. Otherwise the new position is the exact sum,
  negative ones included, and the file server is told when the position has changed.
\<close>

theorem lseek_exact_or_overflow:
  assumes "lock_filp E (fp s) fd VNODE_READ s = (s1, Inr f)" and "filp_vno (filps s1 f) = Some vp"
    and "\<not> S_ISFIFO (v_mode (vnodes s1 vp))" and "wh \<noteq> SEEK_OTHER"
    and "int64 (seek_base wh f vp s1)" and "int64 off"
    and "do_lseek E fd wh off s = Returned (s', r, reply)"
  defines "new \<equiv> seek_base wh f vp s1 + off"
  shows "if int64 new then filp_pos (filps s' f) = new \<and> (r = OK \<longrightarrow> reply = Some new) \<and>
             (new \<noteq> filp_pos (filps s1 f) \<longleftrightarrow> ReqInhibread (v_fs_e (vnodes s1 vp)) (v_inode_nr (vnodes s1 vp)) \<in> set (drop (length (calls s1)) (calls s')))
         else r = Err EOVERFLOW \<and> reply = None \<and> filps s' = filps s1"
proof -
  define pos where "pos = seek_base wh f vp s1"
  note ov = seek_overflow_test [OF assms(5, 6), folded pos_def]
  have b: "(case wh of SEEK_SET \<Rightarrow> 0 | SEEK_CUR \<Rightarrow> filp_pos (filps s1 f) | _ \<Rightarrow> v_size (vnodes s1 vp)) = pos"
    by (simp add: pos_def seek_base_def)
  obtain p where l: "actual_lseek E (fp s) fd wh off s = Returned (s', r, p)" "reply = (if r = OK then p else None)"
    using assms(7) by (auto simp: do_lseek_def split: if_splits)
  note body = l(1) [unfolded actual_lseek_def assms(1) prod.case sum.case assms(2) option.case if_not_P [OF assms(3)] if_not_P [OF assms(4)] Let_def b]
  show ?thesis
  proof (cases "int64 new")
    case True
    then have w: "wrap64 (pos + off) = new" using wrap64_id by (simp add: new_def pos_def)
    have t: "\<not> (off > 0 \<and> wrap64 (pos + off) \<le> pos)" "\<not> (off < 0 \<and> wrap64 (pos + off) \<ge> pos)"
      using ov True unfolding new_def pos_def [symmetric] by blast+
    show ?thesis using True body [unfolded if_not_P [OF t(1)] if_not_P [OF t(2)], unfolded w] l(2)
      by (auto simp: unlock_filp_def split: if_splits)
  next
    case False
    then have "s' = unlock_filp f s1 \<and> r = Err EOVERFLOW" using body ov by (auto simp: new_def pos_def split: if_splits)
    then show ?thesis using l(2) False by (auto simp: unlock_filp_def)
  qed
qed

lemma lseek_demo:
  "lock_filp demo_env (fp s) 0 VNODE_READ s = (s1, Inr 0)"
  if "s = demo_vfs\<lparr>filps := (\<lambda>f. \<lparr>filp_mode = {R_BIT}, filp_flags = {}, filp_count = 1, filp_vno = Some 2, filp_pos = 5\<rparr>),
      fprocs := (\<lambda>p. (fprocs demo_vfs p)\<lparr>fp_filp := [0 \<mapsto> 0]\<rparr>)\<rparr>" "s1 = vcall (LockFilp 0 (Some 2)) s"
  using that by (simp add: lock_filp_def demo_env_sel demo_vfs_sel)

theorem lseek_exact_or_overflow_witness:
  "\<exists>s s' s'' p. do_lseek demo_env 0 SEEK_CUR 7 s = Returned (s', OK, Some 12) \<and> filp_pos (filps s' 0) = 12 \<and>
     do_lseek demo_env 0 SEEK_CUR (2 ^ 63 - 2) s = Returned (s'', Err EOVERFLOW, p) \<and> filp_pos (filps s'' 0) = 5"
proof -
  define s where "s = demo_vfs\<lparr>filps := (\<lambda>f. \<lparr>filp_mode = {R_BIT}, filp_flags = {}, filp_count = 1, filp_vno = Some 2, filp_pos = 5\<rparr>),
      fprocs := (\<lambda>p. (fprocs demo_vfs p)\<lparr>fp_filp := [0 \<mapsto> 0]\<rparr>)\<rparr>"
  define s1 where "s1 = vcall (LockFilp 0 (Some 2)) s"
  note l = lseek_demo [OF s_def s1_def]
  have v: "filp_vno (filps s1 0) = Some 2" "\<not> S_ISFIFO (v_mode (vnodes s1 2))" "filps s1 0 = filps s 0" "filp_pos (filps s 0) = 5"
    by (simp_all add: s1_def s_def demo_vfs_sel I_TYPE_def I_NAMED_PIPE_def I_IMMEDIATE_def)
  have b: "seek_base SEEK_CUR 0 2 s1 = 5" using v by (simp add: seek_base_def)
  obtain s' where r1: "do_lseek demo_env 0 SEEK_CUR 7 s = Returned (s', OK, Some 12)"
    using l v by (auto simp: do_lseek_def actual_lseek_def Let_def wrap64_id demo_env_sel)
  obtain s'' p where r2: "do_lseek demo_env 0 SEEK_CUR (2 ^ 63 - 2) s = Returned (s'', Err EOVERFLOW, p)"
    using l v by (auto simp: do_lseek_def actual_lseek_def Let_def wrap64_high)
  show ?thesis
    using lseek_exact_or_overflow [OF l v(1, 2) _ _ _ r1] lseek_exact_or_overflow [OF l v(1, 2) _ _ _ r2] b v r1 r2
    by (intro exI [of _ s] exI [of _ s'] exI [of _ s''] exI [of _ p]) simp
qed

subsection \<open>Appending\<close>

lemma rw_regular_state:
  assumes "rw_regular E WRITING f vp buf n e s = Returned (t, r, x)"
  defines "p \<equiv> if O_APPEND \<in> filp_flags (filps s f) then v_size (vnodes s vp) else filp_pos (filps s f)"
  shows "t = vcall (ReqReadWrite (v_fs_e (vnodes s vp)) (v_inode_nr (vnodes s vp)) p WRITING e buf n) s" and "x \<noteq> None"
  using assms(1) by (auto simp: rw_regular_def Let_def p_def split: prod.splits if_splits)

lemma immediate_not:
  "S_ISIMM m \<Longrightarrow> \<not> S_ISREG m" "S_ISIMM m \<Longrightarrow> \<not> S_ISDIR m" "S_ISIMM m \<Longrightarrow> \<not> S_ISFIFO m" "S_ISIMM m \<Longrightarrow> \<not> S_ISCHR m" "S_ISIMM m \<Longrightarrow> \<not> S_ISBLK m"
  by (simp_all add: I_TYPE_def I_IMMEDIATE_def I_REGULAR_def I_DIRECTORY_def I_NAMED_PIPE_def I_CHAR_SPECIAL_def I_BLOCK_SPECIAL_def)

text \<open>A write to a regular or an immediate file: the request, and what becomes of the size.\<close>

lemma write_state:
  assumes "filp_vno (filps s f) = Some vp" and "n \<le> SSIZE_MAX E" and "read_write E rfp WRITING f buf n e s = Returned (s', r)"
    and "S_ISREG (v_mode (vnodes s vp)) \<or> S_ISIMM (v_mode (vnodes s vp))"
  defines "p \<equiv> if O_APPEND \<in> filp_flags (filps s f) then v_size (vnodes s vp) else filp_pos (filps s f)"
  obtains cs pos where "calls s' = calls s @ ReqReadWrite (v_fs_e (vnodes s vp)) (v_inode_nr (vnodes s vp)) p WRITING e buf n # cs"
    and "vnodes s' = (if S_ISREG (v_mode (vnodes s vp)) \<and> pos > v_size (vnodes s vp) then (vnodes s)(vp := (vnodes s vp)\<lparr>v_size := pos\<rparr>) else vnodes s)"
    and "filps s' = (filps s)(f := (filps s f)\<lparr>filp_pos := pos\<rparr>)"
  using assms(3)
proof (cases rule: read_write_parts)
  case (too_long vp')
  then show thesis using assms(2) by simp
next
  case (kind vp' t r0 x)
  have vp: "vp' = vp" using assms(1) kind(1) by simp
  have "\<not> S_ISFIFO (v_mode (vnodes s vp))" "\<not> S_ISCHR (v_mode (vnodes s vp))" "\<not> S_ISBLK (v_mode (vnodes s vp))"
    using assms(4) immediate_not by (auto simp: I_REGULAR_def I_NAMED_PIPE_def I_CHAR_SPECIAL_def I_BLOCK_SPECIAL_def)
  then have reg: "rw_regular E WRITING f vp buf n e s = Returned (t, r0, x)" using kind(3) vp by simp
  note t = rw_regular_state [OF reg, folded p_def]
  obtain pos c where x: "x = Some (pos, c)" using t(2) by (cases x) auto
  have d: "rw_done E rfp WRITING f vp n r0 pos c t = Returned (s', r)" using kind(4) x vp by simp
  obtain vs cs where s': "s' = t\<lparr>vnodes := vs, filps := (filps t)(f := (filps t f)\<lparr>filp_pos := pos\<rparr>), calls := calls t @ cs\<rparr>"
    and vs: "vs = (if WRITING = WRITING \<and> (S_ISREG (v_mode (vnodes t vp)) \<or> S_ISDIR (v_mode (vnodes t vp))) \<and> pos > v_size (vnodes t vp)
                then (vnodes t)(vp := (vnodes t vp)\<lparr>v_size := pos\<rparr>) else vnodes t)"
    by (rule rw_done_state [OF d])
  have dir: "\<not> S_ISDIR (v_mode (vnodes s vp))" using assms(4) immediate_not by (auto simp: I_REGULAR_def I_DIRECTORY_def)
  show thesis
  proof (rule that [of cs pos])
    show "calls s' = calls s @ ReqReadWrite (v_fs_e (vnodes s vp)) (v_inode_nr (vnodes s vp)) p WRITING e buf n # cs"
      by (simp add: s' t(1))
    show "vnodes s' = (if S_ISREG (v_mode (vnodes s vp)) \<and> pos > v_size (vnodes s vp) then (vnodes s)(vp := (vnodes s vp)\<lparr>v_size := pos\<rparr>) else vnodes s)"
      using dir by (simp add: s' vs t(1))
    show "filps s' = (filps s)(f := (filps s f)\<lparr>filp_pos := pos\<rparr>)" by (simp add: s' t(1))
  qed
qed

text \<open>
  Appending to an immediate file overwrites. The size that the server keeps of a file is
  brought up to date after a write only for regular files and directories, so on an immediate
  file opened with \<open>O_APPEND\<close> two writes in a row ask the file server to write at the same
  position, whatever the first one has written.
\<close>

theorem append_immediate_overwrites:
  assumes "filp_vno (filps s f) = Some vp" and "S_ISIMM (v_mode (vnodes s vp))" and "O_APPEND \<in> filp_flags (filps s f)"
    and "n \<le> SSIZE_MAX E" and "n' \<le> SSIZE_MAX E"
    and "read_write E rfp WRITING f buf n e s = Returned (s1, r1)"
    and "read_write E rfp WRITING f buf' n' e s1 = Returned (s2, r2)"
  shows "\<exists>cs cs'. calls s2 = calls s @ [ReqReadWrite (v_fs_e (vnodes s vp)) (v_inode_nr (vnodes s vp)) (v_size (vnodes s vp)) WRITING e buf n]
    @ cs @ [ReqReadWrite (v_fs_e (vnodes s vp)) (v_inode_nr (vnodes s vp)) (v_size (vnodes s vp)) WRITING e buf' n'] @ cs'"
proof -
  note ni = immediate_not(1) [OF assms(2)]
  obtain cs pos where "calls s1 = calls s @ ReqReadWrite (v_fs_e (vnodes s vp)) (v_inode_nr (vnodes s vp))
      (if O_APPEND \<in> filp_flags (filps s f) then v_size (vnodes s vp) else filp_pos (filps s f)) WRITING e buf n # cs"
    and "vnodes s1 = (if S_ISREG (v_mode (vnodes s vp)) \<and> pos > v_size (vnodes s vp) then (vnodes s)(vp := (vnodes s vp)\<lparr>v_size := pos\<rparr>) else vnodes s)"
    and "filps s1 = (filps s)(f := (filps s f)\<lparr>filp_pos := pos\<rparr>)"
    by (rule write_state [OF assms(1, 4, 6) disjI2 [OF assms(2)]])
  then have a: "calls s1 = calls s @ ReqReadWrite (v_fs_e (vnodes s vp)) (v_inode_nr (vnodes s vp)) (v_size (vnodes s vp)) WRITING e buf n # cs"
    "vnodes s1 = vnodes s" "filps s1 = (filps s)(f := (filps s f)\<lparr>filp_pos := pos\<rparr>)"
    using ni assms(3) by simp_all
  have b: "filp_vno (filps s1 f) = Some vp" "S_ISREG (v_mode (vnodes s1 vp)) \<or> S_ISIMM (v_mode (vnodes s1 vp))"
    using assms(1, 2) a by simp_all
  obtain cs' where "calls s2 = calls s1 @ ReqReadWrite (v_fs_e (vnodes s1 vp)) (v_inode_nr (vnodes s1 vp))
      (if O_APPEND \<in> filp_flags (filps s1 f) then v_size (vnodes s1 vp) else filp_pos (filps s1 f)) WRITING e buf' n' # cs'"
    by (rule write_state [OF b(1) assms(5, 7) b(2)])
  then have "calls s2 = calls s1 @ ReqReadWrite (v_fs_e (vnodes s vp)) (v_inode_nr (vnodes s vp)) (v_size (vnodes s vp)) WRITING e buf' n' # cs'"
    using assms(3) a(2, 3) by simp
  then show ?thesis using a by (intro exI [of _ cs] exI [of _ cs']) simp
qed

text \<open>The demonstration's file (vnode 2), open in slot 0 for appending.\<close>

definition demo_append :: vfs where
  "demo_append = demo_vfs\<lparr>filps := (\<lambda>f. \<lparr>filp_mode = {W_BIT}, filp_flags = {O_APPEND}, filp_count = 1, filp_vno = Some 2, filp_pos = 0\<rparr>)\<rparr>"

theorem append_immediate_overwrites_witness:
  "\<exists>s1 s2. read_write demo_env 4 WRITING 0 50 6 4 demo_append = Returned (s1, Ret 6) \<and> read_write demo_env 4 WRITING 0 70 2 4 s1 = Returned (s2, Ret 2) \<and>
     (\<exists>cs cs'. calls s2 = [ReqReadWrite 7 2 0 WRITING 4 50 6] @ cs @ [ReqReadWrite 7 2 0 WRITING 4 70 2] @ cs')"
proof -
  note ev = demo_env_sel demo_vfs_sel demo_append_def Let_def read_write_def rw_regular_def rw_done_def I_TYPE_def I_IMMEDIATE_def
    I_NAMED_PIPE_def I_CHAR_SPECIAL_def I_BLOCK_SPECIAL_def I_REGULAR_def I_DIRECTORY_def
  have "\<exists>s1 s2. read_write demo_env 4 WRITING 0 50 6 4 demo_append = Returned (s1, Ret 6) \<and> read_write demo_env 4 WRITING 0 70 2 4 s1 = Returned (s2, Ret 2)"
    by (simp add: ev)
  then obtain s1 s2 where r: "read_write demo_env 4 WRITING 0 50 6 4 demo_append = Returned (s1, Ret 6)"
    "read_write demo_env 4 WRITING 0 70 2 4 s1 = Returned (s2, Ret 2)" by blast
  have h: "filp_vno (filps demo_append 0) = Some 2" "S_ISIMM (v_mode (vnodes demo_append 2))" "O_APPEND \<in> filp_flags (filps demo_append 0)"
    "6 \<le> SSIZE_MAX demo_env" "2 \<le> SSIZE_MAX demo_env" "v_fs_e (vnodes demo_append 2) = 7" "v_inode_nr (vnodes demo_append 2) = 2"
    "v_size (vnodes demo_append 2) = 0" "calls demo_append = []"
    by (simp_all add: ev)
  show ?thesis using r append_immediate_overwrites [OF h(1-5) r] h(6-9) by auto
qed

subsection \<open>Closing\<close>

abbreviation lock_owned :: "nat \<Rightarrow> int \<Rightarrow> file_lock_t \<Rightarrow> bool" where
  "lock_owned vp pid l \<equiv> lock_type l \<noteq> 0 \<and> lock_vnode l = vp \<and> lock_pid l = pid"

lemma release_locks_eq:
  "release_locks vp pid lks n =
     (map (\<lambda>l. if lock_owned vp pid l then l\<lparr>lock_type := 0\<rparr> else l) lks, n - int (length (filter (lock_owned vp pid) lks)))"
  unfolding release_locks_def by (induction lks) auto

lemma filter_after_release:
  "length (filter (\<lambda>l. lock_type l \<noteq> 0) (map (\<lambda>l. if lock_owned vp pid l then l\<lparr>lock_type := 0\<rparr> else l) lks)) + length (filter (lock_owned vp pid) lks)
     = length (filter (\<lambda>l. lock_type l \<noteq> 0) lks)"
  by (induction lks) auto

text \<open>The functions that release a filp and wake up waiting processes leave the table of locks and the processes alone.\<close>

definition locks_local :: "vfs_env \<Rightarrow> bool" where
  "locks_local E \<longleftrightarrow> (\<forall>f s. file_locks (close_filp E f s) = file_locks s \<and> nr_locks (close_filp E f s) = nr_locks s \<and>
       fprocs (close_filp E f s) = fprocs s \<and> calls (close_filp E f s) = calls s) \<and>
     (\<forall>s. file_locks (lock_revive E s) = file_locks s \<and> nr_locks (lock_revive E s) = nr_locks s \<and> fprocs (lock_revive E s) = fprocs s \<and> calls (lock_revive E s) = calls s)"

text \<open>
  Closing a descriptor frees it, and releases exactly the file locks that its process
  holds on the file: those of other processes and on other files stay, the number of locks
  stays the number of entries in use, and waiting processes are revived when, and only when,
  some lock has been released.
\<close>

theorem close_releases_locks:
  assumes "locks_local E" and "lock_filp E rfp fd VNODE_OPCL s = (s1, Inr f)" and "filp_vno (filps s1 f) = Some vp"
    and "nr_locks s1 = int (length (filter (\<lambda>l. lock_type l \<noteq> 0) (file_locks s1)))"
  defines "own \<equiv> lock_owned vp (fp_pid (fprocs s1 rfp))"
  shows "\<exists>s'. close_fd E rfp fd s = Returned (s', OK) \<and> fp_filp (fprocs s' rfp) fd = None \<and> fd \<notin> fp_cloexec_set (fprocs s' rfp) \<and>
     file_locks s' = map (\<lambda>l. if own l then l\<lparr>lock_type := 0\<rparr> else l) (file_locks s1) \<and>
     nr_locks s' = int (length (filter (\<lambda>l. lock_type l \<noteq> 0) (file_locks s'))) \<and>
     (LockRevive \<in> set (drop (length (calls s1)) (calls s')) \<longleftrightarrow> (\<exists>l\<in>set (file_locks s1). own l))"
proof -
  define s2 where "s2 = vcall (CloseFilp f (Some vp)) (upd_fproc rfp (\<lambda>p. p\<lparr>fp_filp := (fp_filp p)(fd := None)\<rparr>) s1)"
  define s4 where "s4 = upd_fproc rfp (fp_cloexec_set_update (\<lambda>c. c - {fd})) (close_filp E f s2)"
  have l: "file_locks (close_filp E f t) = file_locks t" "nr_locks (close_filp E f t) = nr_locks t" "fprocs (close_filp E f t) = fprocs t" "calls (close_filp E f t) = calls t"
    "file_locks (lock_revive E t) = file_locks t" "nr_locks (lock_revive E t) = nr_locks t" "fprocs (lock_revive E t) = fprocs t" "calls (lock_revive E t) = calls t" for t
    using assms(1) by (simp_all add: locks_local_def)
  have f4: "file_locks s4 = file_locks s1" "nr_locks s4 = nr_locks s1" "fp_filp (fprocs s4 rfp) fd = None" "fd \<notin> fp_cloexec_set (fprocs s4 rfp)"
    "fp_pid (fprocs s4 rfp) = fp_pid (fprocs s1 rfp)" "calls s4 = calls s1 @ [CloseFilp f (Some vp)]"
    by (simp_all add: s4_def s2_def l)
  note body = close_fd_def [of E rfp fd s, unfolded assms(2) prod.case sum.case Let_def assms(3) option.case, folded s2_def, folded s4_def]
  define lks where "lks = map (\<lambda>l. if own l then l\<lparr>lock_type := 0\<rparr> else l) (file_locks s1)"
  define k where "k = length (filter own (file_locks s1))"
  have cnt: "length (filter (\<lambda>l. lock_type l \<noteq> 0) lks) + k = length (filter (\<lambda>l. lock_type l \<noteq> 0) (file_locks s1))"
    unfolding lks_def k_def own_def by (rule filter_after_release)
  have k0: "k = 0 \<longleftrightarrow> \<not> (\<exists>l\<in>set (file_locks s1). own l)" by (auto simp: k_def filter_empty_conv)
  show ?thesis
  proof (cases "nr_locks s1 > 0")
    case False
    then have n: "\<forall>l\<in>set (file_locks s1). \<not> own l" using assms(4) by (auto simp: own_def filter_empty_conv)
    then have "lks = file_locks s1" by (simp add: lks_def map_idI)
    then show ?thesis using body False f4 n assms(4) unfolding lks_def by simp
  next
    case True
    define s5 where "s5 = s4\<lparr>file_locks := lks, nr_locks := nr_locks s1 - int k\<rparr>"
    have "close_fd E rfp fd s = Returned (if nr_locks s1 - int k < nr_locks s1 then lock_revive E (vcall LockRevive s5) else s5, OK)"
      using body True f4 by (simp add: release_locks_eq s5_def lks_def k_def own_def del: set_filter)
    moreover have "nr_locks s1 - int k = int (length (filter (\<lambda>l. lock_type l \<noteq> 0) lks))" using cnt assms(4) by simp
    ultimately show ?thesis using f4 k0 by (cases "k = 0") (auto simp: s5_def l lks_def)
  qed
qed

lemma demo_locks_local: "locks_local demo_env"
  by (simp add: locks_local_def demo_env_sel)

theorem close_releases_locks_witness:
  "\<exists>s s'. close_fd demo_env 4 0 s = Returned (s', OK) \<and> nr_locks s = 2 \<and> nr_locks s' = 1 \<and> map lock_type (file_locks s') = [0, 0, 2]"
proof -
  define s where "s = demo_append\<lparr>fprocs := (\<lambda>p. (fprocs demo_vfs p)\<lparr>fp_filp := [0 \<mapsto> 0]\<rparr>), nr_locks := 2,
    file_locks := [\<lparr>lock_type = 1, lock_vnode = 2, lock_pid = 4\<rparr>, \<lparr>lock_type = 0, lock_vnode = 0, lock_pid = 0\<rparr>, \<lparr>lock_type = 2, lock_vnode = 2, lock_pid = 5\<rparr>]\<rparr>"
  have l: "lock_filp demo_env 4 0 VNODE_OPCL s = (vcall (LockFilp 0 (Some 2)) s, Inr 0)"
    by (simp add: lock_filp_def demo_env_sel demo_vfs_sel s_def demo_append_def)
  have s: "nr_locks s = 2" "filp_vno (filps s 0) = Some 2" "fp_pid (fprocs s 4) = 4"
    "file_locks s = [\<lparr>lock_type = 1, lock_vnode = 2, lock_pid = 4\<rparr>, \<lparr>lock_type = 0, lock_vnode = 0, lock_pid = 0\<rparr>, \<lparr>lock_type = 2, lock_vnode = 2, lock_pid = 5\<rparr>]"
    by (simp_all add: s_def demo_append_def demo_vfs_sel)
  obtain s' where "close_fd demo_env 4 0 s = Returned (s', OK)" "nr_locks s' = 1" "map lock_type (file_locks s') = [0, 0, 2]"
    using close_releases_locks [OF demo_locks_local l, of 2] s by auto
  then show ?thesis using s(1) by (intro exI [of _ s] exI [of _ s'] conjI)
qed

subsection \<open>Creating\<close>

text \<open>The modes of the files that the file servers have been asked to create.\<close>

fun create_mode :: "vfs_call \<Rightarrow> u16 set" where
  "create_mode (ReqCreate fs i b u g nm) = {b}"
| "create_mode _ = {}"

lemma create_mode_iff: "b \<in> create_mode c \<longleftrightarrow> (\<exists>fs i u g nm. c = ReqCreate fs i b u g nm)"
  by (cases c) auto

definition made :: "vfs \<Rightarrow> u16 set" where
  "made s = (\<Union>c\<in>set (calls s). create_mode c)"

lemma made_calls: "calls s = calls t \<Longrightarrow> made s = made t"
  by (simp add: made_def)

lemma env_lookup_calls:
  assumes "vfs_env_ok E"
  shows "calls (fst (eat_path E l p s)) = calls s" "calls (fst (last_dir E l p s)) = calls s" "calls (fst (advance E d l p s)) = calls s"
  using assms unfolding vfs_env_ok_def lookup_ok_def by (metis prod.collapse)+

lemma made_looked_up: "looked_up x = (s1, y) \<Longrightarrow> made s1 = made (fst x)"
  by (auto simp: made_def looked_up_def Let_def split: prod.splits sum.splits option.splits if_splits)

lemma made_release [simp]: "vfs_env_ok E \<Longrightarrow> made (release_vnode E v s) = made s"
  by (simp add: made_def release_vnode_def env_quiet)

lemma made_follow_link:
  assumes "vfs_env_ok E" and "follow_link E d m path s = Returned (s1, y)"
  shows "made s1 = made s"
proof -
  obtain t z where l: "looked_up (advance E d (lookup_init path True VMNT_WRITE VNODE_READ) (fp s) s) = (t, z)" by fastforce
  have t: "made t = made s" using made_looked_up [OF l] made_calls [OF env_lookup_calls(3) [OF assms(1)]] by simp
  show ?thesis
  proof (cases z)
    case (Inl e)
    then show ?thesis using assms(2) l t by (auto simp: follow_link_def Let_def)
  next
    case (Inr f)
    have "made s1 = made t" using assms l Inr
      by (cases m) (auto simp: follow_link_def Let_def unlock_vmnt_ptr_def release_vnode_def env_quiet made_def split: if_splits prod.splits)
    then show ?thesis using t by simp
  qed
qed

lemma made_create_request: "create_request E d bits path s = (s1, y) \<Longrightarrow> made s1 \<subseteq> insert bits (made s)"
  by (auto simp: made_def create_request_def Let_def split: if_splits prod.splits)

lemma made_new_node_end: "vfs_env_ok E \<Longrightarrow> new_node_end E d m vp r s = Returned (s1, v, r1) \<Longrightarrow> made s1 = made s"
  by (cases m) (auto simp: made_def new_node_end_def unlock_vmnt_ptr_def release_vnode_def env_quiet split: if_splits)

lemma made_store_result [simp]: "made (store_result vp d res s) = made s"
  by (simp add: made_def store_result_def Let_def)

lemma made_new_node:
  assumes "vfs_env_ok E"
  shows "new_node n E path oflags bits s = Returned (s', v, r) \<Longrightarrow> made s' \<subseteq> insert bits (made s)"
proof (induction n arbitrary: path s s' v r)
  case (Suc n)
  let ?l = "last_dir E (lookup_init path (O_EXCL \<in> oflags) VMNT_WRITE VNODE_WRITE) (fp s) s"
  obtain s1 x where l: "looked_up ?l = (s1, x)" by fastforce
  have m1: "made s1 = made s" using made_looked_up [OF l] made_calls [OF env_lookup_calls(2) [OF assms]] by simp
  show ?case
  proof (cases x)
    case (Inl e)
    then show ?thesis using Suc.prems l m1 by auto
  next
    case (Inr d)
    define y where "y = advance E (lr_vnode d) (lookup_init (lr_path d) (O_EXCL \<in> oflags) VMNT_WRITE (if O_TRUNC \<in> oflags then VNODE_WRITE else VNODE_OPCL)) (fp s1) s1"
    obtain s2 found2 where y2: "looked_up y = (s2, found2)" by fastforce
    have m2: "made s2 = made s" using made_looked_up [OF y2] made_calls [OF env_lookup_calls(3) [OF assms]] m1 by (simp add: y_def)
    obtain s3 z where g: "get_free_vnode E s2 = (s3, z)" by fastforce
    have m3: "made s3 = made s" using made_calls [OF env_quiet(16) [OF assms g]] m2 by simp
    note body = Suc.prems [unfolded new_node.simps l Inr prod.case sum.case Let_def y_def [symmetric] y2 g]
    define vm where "vm = (case found2 of Inl _ \<Rightarrow> False | Inr l \<Rightarrow> lr_vmnt l \<noteq> None)"
    have vm: "vm = False" using body unfolding vm_def [symmetric] by (cases vm) auto
    note body = body [folded vm_def, unfolded vm if_False]
    consider (absolute) "take 1 (left_path y) = ''/''" | (found) "take 1 (left_path y) \<noteq> ''/''" "found2 \<noteq> Inl ENOENT"
      | (absent) "take 1 (left_path y) \<noteq> ''/''" "found2 = Inl ENOENT" by blast
    then show ?thesis
    proof cases
      case absolute
      obtain m where m: "lr_vmnt d = Some m" using body absolute by (cases "lr_vmnt d") (auto simp: unlock_vmnt_ptr_def)
      define s4 where "s4 = release_vnode E (lr_vnode d) (vcall (UnlockVmnt m) (vcall (UnlockVnode (lr_vnode d)) s2))"
      define s5 where "s5 = (case found2 of Inl _ \<Rightarrow> s4 | Inr l \<Rightarrow> release_vnode E (lr_vnode l) (vcall (UnlockVnode (lr_vnode l)) s4))"
      have "new_node n E (left_path y) oflags bits s5 = Returned (s', v, r)"
        using body absolute m unfolding s5_def s4_def by (cases found2) (simp_all add: unlock_vmnt_ptr_def)
      moreover have "made s5 = made s" using m2 assms
        by (cases found2) (auto simp: s5_def s4_def release_vnode_def env_quiet made_def)
      ultimately show ?thesis using Suc.IH by metis
    next
      case found
      then show ?thesis using body made_new_node_end [OF assms] m2 by (auto split: sum.splits)
    next
      case absent
      show ?thesis
      proof (cases z)
        case (Inl e)
        then have "made s' = made s3" using body absent assms
          by (cases "lr_vmnt d") (auto simp: unlock_vmnt_ptr_def release_vnode_def env_quiet made_def)
        then show ?thesis using m3 by auto
      next
        case (Inr vp)
        note body = body [unfolded if_not_P [OF absent(1)] absent(2) simp_thms if_False g Inr sum.case]
        obtain m where m: "lr_vmnt d = Some m" using body by (cases "lr_vmnt d") auto
        obtain s4 w where c: "create_request E (lr_vnode d) bits (left_path y) (vcall (UpgradeVmnt m) (vcall (LockVnode vp) s3)) = (s4, w)" by fastforce
        have m4: "made s4 \<subseteq> insert bits (made s)" using made_create_request [OF c] m3 by (simp add: made_def)
        note body = body [unfolded m option.case c prod.case]
        show ?thesis
        proof (cases w)
          case (Inr res)
          then show ?thesis using body made_new_node_end [OF assms, of "lr_vnode d" "Some m"] m4 by (auto simp del: bind_outcome_Returned)
        next
          case (Inl r0)
          define s5 where "s5 = vcall (DowngradeVmnt m) s4"
          have m5: "made s5 \<subseteq> insert bits (made s)" using m4 by (simp add: s5_def made_def)
          note body = body [unfolded Inl sum.case s5_def [symmetric]]
          show ?thesis
          proof (cases "r0 = Err EEXIST")
            case False
            then have "made s' = made s5" using body assms by (auto simp: release_vnode_def env_quiet made_def)
            then show ?thesis using m5 by simp
          next
            case True
            note body = body [unfolded True simp_thms if_False]
            obtain s6 y' where f: "follow_link E (lr_vnode d) (Some m) (left_path y) s5 = Returned (s6, y')" using body by auto
            have m6: "made s6 \<subseteq> insert bits (made s)" using made_follow_link [OF assms f] m5 by simp
            note body = body [unfolded f bind_outcome.simps prod.case]
            show ?thesis
            proof (cases y')
              case (Inl r')
              then show ?thesis using body m6 by auto
            next
              case (Inr p)
              define u where "u = upd_fproc (fp s6) (fp_wd_update (\<lambda>_. lr_vnode d)) (vcall (UnlockVmnt m) (vcall (UnlockVnode vp) (vcall (UnlockVnode (lr_vnode d)) s6)))"
              obtain s8 v' r' where n: "new_node n E p oflags bits u = Returned (s8, v', r')"
                and e: "made s' = made s8"
                using body Inr by (auto simp: u_def release_vnode_def env_quiet [OF assms] made_def split: option.splits)
              have "made u = made s6" by (simp add: u_def made_def)
              then have m8: "made s8 \<subseteq> insert bits (made s)" using Suc.IH [OF n] m6 by auto
              then show ?thesis using e by simp
            qed
          qed
        qed
      qed
    qed
  qed
qed simp

lemma made_open_node:
  assumes "vfs_env_ok E" and "open_node n E path oflags omode f s = Returned (s', x)"
  shows "made s' \<subseteq> insert (I_IMMEDIATE OR (omode AND ALL_MODES AND fp_umask (fprocs s (fp s)))) (made s)"
proof (cases "O_CREAT \<in> oflags")
  case True
  let ?b = "I_IMMEDIATE OR (omode AND ALL_MODES AND fp_umask (fprocs s (fp s)))"
  obtain s1 vo r where n: "new_node n E path oflags ?b s = Returned (s1, vo, r)"
    using assms(2) True by (auto simp: open_node_def Let_def)
  have "made s' = made s1" using assms(2) True n
    by (auto simp: open_node_def Let_def unlock_filp_def made_def split: if_splits option.splits)
  then show ?thesis using made_new_node [OF assms(1) n] by simp
next
  case False
  let ?l = "eat_path E (lookup_init path False VMNT_READ VNODE_OPCL) (fp s) s"
  obtain s1 y where l: "looked_up ?l = (s1, y)" by fastforce
  have m: "made s1 = made s" using made_looked_up [OF l] made_calls [OF env_lookup_calls(1) [OF assms(1)]] by simp
  have "made s' = made s1" using assms(2) False l
    by (auto simp: open_node_def unlock_filp_def made_def split: sum.splits option.splits)
  then show ?thesis using m by auto
qed

lemma made_truncate: "truncate_vnode E vp n s = (s', r) \<Longrightarrow> made s' = made s"
  by (auto simp: truncate_vnode_def Let_def made_def split: if_splits)

lemma made_open_fifo:
  assumes "vfs_env_ok E" and "open_fifo E fd f vp bits oflags s = (s', r)"
  shows "made s' = made s"
proof -
  obtain s1 r1 where m: "map_vnode E vp (PFS_PROC_NR E) (vcall (MapVnode vp) (vcall (UpgradeVnode vp) s)) = (s1, r1)" by fastforce
  have k1: "made s1 = made s" using made_calls [OF env_quiet(12) [OF assms(1) m]] by (simp add: made_def)
  obtain sa ra where t: "(if v_ref_count (vnodes s1 vp) = 1 \<and> v_size (vnodes s1 vp) \<noteq> 0 then truncate_vnode E vp 0 s1 else (s1, OK)) = (sa, ra)" by fastforce
  have ka: "made sa = made s" using t made_truncate k1 by (auto split: if_splits)
  define s2 where "s2 = (if r1 = OK then upd_filp f (filp_flags_update (\<lambda>_. insert O_APPEND oflags)) sa else s1)"
  define r2 where "r2 = (if r1 = OK then ra else r1)"
  define o2 where "o2 = (if r1 = OK then insert O_APPEND oflags else oflags)"
  have k2: "made s2 = made s" using ka k1 by (simp add: s2_def made_def)
  obtain s3 r3 where p: "(if r2 = OK then pipe_open E vp bits o2 s2 else (s2, r2)) = (s3, r3)" by fastforce
  have k3: "made s3 = made s2" using p assms(1) by (auto simp: pipe_open_def env_quiet made_def split: if_splits)
  have h: "(if r1 = OK then case (if v_ref_count (vnodes s1 vp) = 1 \<and> v_size (vnodes s1 vp) \<noteq> 0 then truncate_vnode E vp 0 s1 else (s1, OK)) of
        (sa, ra) \<Rightarrow> (upd_filp f (filp_flags_update (\<lambda>_. insert O_APPEND oflags)) sa, ra) else (s1, r1)) = (s2, r2)"
    unfolding t by (simp add: s2_def r2_def)
  have "made s' = made s3"
    using assms(2) [unfolded open_fifo_def Let_def m prod.case, unfolded h o2_def [symmetric] prod.case, unfolded p prod.case] assms(1)
    by (auto simp: made_def release_vnode_def env_quiet split: if_splits option.splits)
  then show ?thesis using k3 k2 by simp
qed

lemma made_open_by_type:
  assumes "vfs_env_ok E" and "open_by_type E fd f vp bits oflags s = Returned (s', r, v)"
  shows "made s' = made s"
proof -
  have cdev: "made t = made s" if "cdev_open E d b no (vcall (CdevOpen d) s) = (t, r)" for d b no t r
    using env_quiet(14) [OF assms(1) that] by (simp add: made_def)
  have reg: "made t = made s" if "open_regular E vp oflags s = (t, r)" for t r
  proof -
    obtain u q where u: "truncate_vnode E vp 0 (vcall (UpgradeVnode vp) s) = (u, q)" by fastforce
    have "made u = made s" using made_truncate [OF u] by (simp add: made_def)
    then show ?thesis using that u by (auto simp: open_regular_def Let_def split: if_splits)
  qed
  have blk: "made t = made s" if "open_block E vp bits s = Returned (t, r)" for t r
    using that by (auto simp: open_block_def Let_def made_def dest!: lock_bsf_state unlock_bsf_state split: if_splits)
  show ?thesis using assms(2) cdev reg blk made_open_fifo [OF assms(1)]
    by (auto simp: open_by_type_def Let_def split: if_splits prod.splits)
qed

lemma immediate_type: "(I_IMMEDIATE OR (m AND ALL_MODES AND u)) AND I_TYPE = I_IMMEDIATE"
proof -
  have "ALL_MODES AND I_TYPE = 0" "I_IMMEDIATE AND I_TYPE = I_IMMEDIATE" by (simp_all add: ALL_MODES_def I_TYPE_def I_IMMEDIATE_def)
  moreover have "(m AND ALL_MODES AND u) AND I_TYPE = (m AND u) AND (ALL_MODES AND I_TYPE)" by (simp only: ac_simps)
  ultimately show ?thesis by (simp add: bit.conj_disj_distrib2)
qed

lemma made_common_open:
  assumes "vfs_env_ok E" and "common_open n E path acc oflags omode s = Returned (s', r)" and "b \<in> made s'" and "b \<notin> made s"
  shows "b AND I_TYPE = I_IMMEDIATE"
proof (cases "mode_map acc = {}")
  case True
  then show ?thesis using assms by (simp add: common_open_def)
next
  case False
  obtain s1 x where g: "get_fd E (fp s) (mode_map acc) s = (s1, x)" by fastforce
  have "calls s1 = calls s" using assms(1) g unfolding vfs_env_ok_def by (metis fst_conv)
  then have m1: "made s1 = made s" by (rule made_calls)
  show ?thesis
  proof (cases x)
    case (Inl e)
    then show ?thesis using assms(2-4) False g m1 by (simp add: common_open_def)
  next
    case (Inr y)
    obtain fd f where y: "y = (fd, f)" by fastforce
    define t where "t = vcall (LockFilp f None) (upd_fproc (fp s1) (sc_fd_nr_update (\<lambda>_. fd)) s1)"
    have mt: "made t = made s" using m1 by (simp add: t_def made_def)
    note body = assms(2) [unfolded common_open_def Let_def g Inr y prod.case sum.case t_def [symmetric] if_not_P [OF False]]
    obtain s2 z where o: "open_node n E path oflags omode f t = Returned (s2, z)" using body by auto
    have fin: "made (fst (open_end E fd f v q u)) = made u" for v q u
      using assms(1) by (auto simp: open_end_def Let_def unlock_filp_def release_vnode_def env_quiet made_def split: option.splits)
    have "made s' = made s2"
    proof (cases z)
      case (Inl e)
      then show ?thesis using body o by simp
    next
      case (Inr w)
      obtain vp e r0 where w: "w = (vp, e, r0)" by (cases w) auto
      have c: "made (claim_fd fd f vp oflags s2) = made s2" by (simp add: claim_fd_def Let_def made_def)
      note body = body [unfolded o bind_outcome.simps prod.case Inr w sum.case]
      have e: "made s' = made u" if "Returned (open_end E fd f v q u) = Returned (s', r)" for v q u
        using fin [of v q u] that by simp
      show ?thesis
        using body c e made_open_by_type [OF assms(1)] by (auto split: if_splits)
    qed
    then show ?thesis using made_open_node [OF assms(1) o] assms(3, 4) mt immediate_type by auto
  qed
qed



subsection \<open>Links and names\<close>

text \<open>
  \<open>link\<close> gives back its locks when the file and the directory of the new name are
  different vnodes. When they are the same (\<open>link\<close> of a directory to a name inside it) the
  second lookup locks nothing, and the vnode is unlocked twice.
\<close>

theorem link_lock_balance:
  assumes "vfs_env_ok E" and "no_locks s" and "fetch_name E vname1 len1 s = Inr path1"
    and "looked_up (eat_path E (lookup_init path1 False VMNT_WRITE VNODE_READ) (fp s) s) = (s1, Inr l1)"
    and "fetch_name E vname2 len2 s1 = Inr path2"
    and "looked_up (last_dir E (lookup_init path2 False VMNT_READ VNODE_WRITE) (fp s1) s1) = (s2, Inr l2)"
  shows "\<exists>s' r. do_link E vname1 len1 vname2 len2 s = Returned (s', r) \<and>
    (\<forall>k. held s' k = (if lr_vnode l2 = lr_vnode l1 \<and> k = LkVnode (lr_vnode l1) then - 1 else 0))"
proof -
  obtain m where m: "lr_vmnt l1 = Some m" "dir_locked s (lr_vnode l1) m None s1"
    using first_dir [OF env_lookups(1) [OF assms(1)] no_locks_names_free [OF assms(2)] assms(4)] by blast
  note h = second_dir(2,3) [OF assms(1, 2) m(2) assms(6)]
  show ?thesis
    unfolding do_link_def with_name_def assms(3) sum.case assms(4) prod.case assms(5) assms(6) Let_def m(1)
    using h(1) by (cases "lr_vmnt l2") (auto simp: unlock_vmnt_ptr_def held_release [OF assms(1)] h(2) split: if_splits)
qed

theorem link_lock_balance_witness:
  "\<exists>E s s' r. do_link E 0 5 0 5 s = Returned (s', r) \<and> held s' (LkVnode 1) = - 1"
proof -
  define E where "E = demo_env\<lparr>eat_path := last_dir demo_env\<rparr>"
  define l where "l = \<lparr>lr_vnode = 1, lr_locked = True, lr_vmnt = Some 0, lr_path = ''name''\<rparr>"
  define s1 where "s1 = vcall (LockVnode 1) (vcall (LockVmnt 0) demo_vfs)"
  have e: "vfs_env_ok E"
    using demo_world_ok unfolding world_ok_def vfs_env_ok_def by (simp add: E_def)
  have f: "fetch_name E 0 5 demo_vfs = Inr ''name''" "fetch_name E 0 5 s1 = Inr ''name''" by (simp_all add: E_def demo_env_sel)
  have l1: "looked_up (eat_path E (lookup_init ''name'' False VMNT_WRITE VNODE_READ) (fp demo_vfs) demo_vfs) = (s1, Inr l)"
    by (simp add: E_def demo_env_sel demo_vfs_sel looked_up_def held_def Let_def l_def s1_def)
  have l2: "looked_up (last_dir E (lookup_init ''name'' False VMNT_READ VNODE_WRITE) (fp s1) s1) = (vcall (LockVmnt 0) s1, Inr (l\<lparr>lr_locked := False\<rparr>))"
    by (simp add: E_def demo_env_sel demo_vfs_sel looked_up_def held_def Let_def l_def s1_def)
  obtain s' r where "do_link E 0 5 0 5 demo_vfs = Returned (s', r)" "held s' (LkVnode (lr_vnode l)) = - 1"
    using link_lock_balance [OF e demo_no_locks f(1) l1 f(2) l2] by auto
  then show ?thesis by (auto simp: l_def)
qed

text \<open>Who may remove a name: the permissions on the directory, and the sticky bit.\<close>

definition may_remove :: "vfs_env \<Rightarrow> nat \<Rightarrow> string \<Rightarrow> vfs \<Rightarrow> bool" where
  "may_remove E d name s \<longleftrightarrow> S_ISDIR (v_mode (vnodes s d)) \<and> forbidden E (fp s) d {X_BIT, W_BIT} s = OK \<and>
     (v_mode (vnodes s d) AND S_ISVTX = S_ISVTX \<longrightarrow>
        (case looked_up (advance E d (lookup_init name True VMNT_READ VNODE_READ) (fp s) s) of
           (s1, Inl e) \<Rightarrow> False
         | (s1, Inr l) \<Rightarrow> fp_effuid (fprocs s1 (fp s1)) \<in> {v_uid (vnodes s1 (lr_vnode l)), SU_UID E}))"

definition removals :: "vfs_call list \<Rightarrow> vfs_call list" where
  "removals cs = filter (\<lambda>c. case c of ReqUnlink _ _ _ \<Rightarrow> True | ReqRmdir _ _ _ \<Rightarrow> True | _ \<Rightarrow> False) cs"

lemma finish_node_calls:
  assumes "vfs_env_ok E" and "finish_node E d (Some m) r s = Returned (s', r')"
  shows "r' = r" and "calls s' = calls s @ [UnlockVnode d, UnlockVmnt m, PutVnode d]"
  using assms by (auto simp: finish_node_def unlock_vmnt_ptr_def release_vnode_def env_quiet)

lemma sticky_check_calls:
  assumes "vfs_env_ok E" and "sticky_check E d name s = Returned (s', r)"
  shows "\<exists>cs. calls s' = calls s @ cs \<and> removals cs = []"
    and "S_ISDIR (v_mode (vnodes s d)) \<Longrightarrow> forbidden E (fp s) d {X_BIT, W_BIT} s = OK \<Longrightarrow> r = OK \<longleftrightarrow> may_remove E d name s"
proof -
  obtain t x where l: "looked_up (advance E d (lookup_init name True VMNT_READ VNODE_READ) (fp s) s) = (t, x)" by fastforce
  have "\<exists>cs. calls t = calls s @ cs \<and> removals cs = []"
    using l env_lookup_calls(3) [OF assms(1), of d "lookup_init name True VMNT_READ VNODE_READ" "fp s" s]
    by (auto simp: removals_def looked_up_def Let_def split: prod.splits sum.splits option.splits if_splits)
  then show "\<exists>cs. calls s' = calls s @ cs \<and> removals cs = []"
    using assms l by (cases x) (auto simp: removals_def sticky_check_def Let_def release_vnode_def env_quiet split: if_splits)
  show "S_ISDIR (v_mode (vnodes s d)) \<Longrightarrow> forbidden E (fp s) d {X_BIT, W_BIT} s = OK \<Longrightarrow> r = OK \<longleftrightarrow> may_remove E d name s"
    using assms(2) l by (cases x) (auto simp: sticky_check_def may_remove_def Let_def split: if_splits)
qed

text \<open>A vnode that is locked is not given to another file.\<close>

definition stays :: "vfs_env \<Rightarrow> nat \<Rightarrow> bool" where
  "stays E d \<longleftrightarrow> (\<forall>l p s. vnodes (fst (advance E d l p s)) d = vnodes s d) \<and> (\<forall>v s. vnodes (put_vnode E v s) d = vnodes s d)"

lemma sticky_check_stays:
  assumes "stays E d" and "sticky_check E d name s = Returned (s', r)"
  shows "vnodes s' d = vnodes s d"
proof -
  obtain t x where l: "looked_up (advance E d (lookup_init name True VMNT_READ VNODE_READ) (fp s) s) = (t, x)" by fastforce
  have p: "vnodes (put_vnode E v u) d = vnodes u d" for v u using assms(1) by (simp add: stays_def)
  have "vnodes t d = vnodes (fst (advance E d (lookup_init name True VMNT_READ VNODE_READ) (fp s) s)) d"
    using l by (auto simp: looked_up_def Let_def split: prod.splits sum.splits option.splits if_splits)
  also have "\<dots> = vnodes s d" using assms(1) by (simp add: stays_def)
  finally show ?thesis using assms(2) l p
    by (cases x) (auto simp: sticky_check_def Let_def release_vnode_def split: if_splits)
qed


lemma demo_stays: "stays demo_env d"
  by (simp add: stays_def demo_env_sel)


end
