(* ===== verification/Vfs_Versions.thy ===== *)
theory Vfs_Versions
  imports Vfs_Calls
begin

unbundle bit_operations_syntax

text \<open>
  The virtual file system server of \<open>Assignment 09\<close> and the original it starts from
  (\<open>Assignment 09/originals\<close>): the functions that differ from those of \<open>Assignment 10\<close>, and how
  the versions relate. Assignment 09 adds messages for files under \<open>/home\<close>, and a lookup in
  \<open>do_unlink\<close> for the number it prints; Assignment 10 has messages too and knows immediate files.
\<close>

subsection \<open>Reading and writing\<close>

definition rw_done_orig :: "nat \<Rightarrow> rw_flag \<Rightarrow> nat \<Rightarrow> nat \<Rightarrow> ret \<Rightarrow> int \<Rightarrow> nat \<Rightarrow> vfs \<Rightarrow> (vfs \<times> ret) outcome" where
  "rw_done_orig rfp rw f vp r position cum_io s =
     (let s1 = (if rw = WRITING \<and> (S_ISREG (v_mode (vnodes s vp)) \<or> S_ISDIR (v_mode (vnodes s vp))) \<and> position > v_size (vnodes s vp)
                then upd_vnode vp (v_size_update (\<lambda>_. position)) s else s);
          s2 = upd_filp f (filp_pos_update (\<lambda>_. position)) s1;
          s3 = (if r = Err EPIPE \<and> rw = WRITING \<and> O_NOSIGPIPE \<notin> filp_flags (filps s2 f)
                then vcall (SysKill (fp_endpoint (fprocs s2 rfp))) s2 else s2)
      in Returned (s3, if r = OK then Ret cum_io else r))"

definition rw_done_a09 :: "vfs_env \<Rightarrow> nat \<Rightarrow> rw_flag \<Rightarrow> nat \<Rightarrow> nat \<Rightarrow> nat \<Rightarrow> ret \<Rightarrow> int \<Rightarrow> nat \<Rightarrow> vfs \<Rightarrow> (vfs \<times> ret) outcome" where
  "rw_done_a09 E rfp rw f vp size0 r position cum_io s =
     (let s1 = (if rw = WRITING \<and> (S_ISREG (v_mode (vnodes s vp)) \<or> S_ISDIR (v_mode (vnodes s vp))) \<and> position > v_size (vnodes s vp)
                then upd_vnode vp (v_size_update (\<lambda>_. position)) s else s);
          s2 = upd_filp f (filp_pos_update (\<lambda>_. position)) s1
      in case find_vmnt E (v_fs_e (vnodes s2 vp)) s2 of
           None \<Rightarrow> Aborted ''find_vmnt''
         | Some vpath \<Rightarrow>
             let ino = v_inode_nr (vnodes s2 vp); offset = filp_pos (filps s2 f);
                 s3 = (if m_mount_path (vmnts s2 vpath) = ''/home'' then
                         let sr = (if rw = READING then vcall (Printed ''file read'' ino (Some (size0, offset))) s2 else s2)
                         in if rw = WRITING then vcall (Printed ''file write'' ino (Some (size0, offset))) sr else sr
                       else s2);
                 s4 = (if r = Err EPIPE \<and> rw = WRITING \<and> O_NOSIGPIPE \<notin> filp_flags (filps s3 f)
                       then vcall (SysKill (fp_endpoint (fprocs s3 rfp))) s3 else s3)
             in Returned (s4, if r = OK then Ret cum_io else r))"

definition read_write_orig :: "vfs_env \<Rightarrow> nat \<Rightarrow> rw_flag \<Rightarrow> nat \<Rightarrow> nat \<Rightarrow> nat \<Rightarrow> endpoint \<Rightarrow> vfs \<Rightarrow> (vfs \<times> ret) outcome" where
  "read_write_orig E rfp rw f buf size0 for_e s =
     (case filp_vno (filps s f) of
        None \<Rightarrow> Aborted ''filp_vno''
      | Some vp \<Rightarrow>
          if size0 > SSIZE_MAX E then Returned (s, Err EINVAL)
          else let m = v_mode (vnodes s vp)
          in bind_outcome
               (if S_ISFIFO m then rw_fifo E rfp rw f vp buf size0 for_e s
                else if S_ISCHR m then rw_char E rw f vp buf size0 for_e s
                else if S_ISBLK m then rw_block E rw f vp buf size0 for_e s
                else rw_regular E rw f vp buf size0 for_e s)
               (\<lambda>(s1, r, res). case res of
                  None \<Rightarrow> Returned (s1, r)
                | Some (position, cum_io) \<Rightarrow> rw_done_orig rfp rw f vp r position cum_io s1))"

definition read_write_a09 :: "vfs_env \<Rightarrow> nat \<Rightarrow> rw_flag \<Rightarrow> nat \<Rightarrow> nat \<Rightarrow> nat \<Rightarrow> endpoint \<Rightarrow> vfs \<Rightarrow> (vfs \<times> ret) outcome" where
  "read_write_a09 E rfp rw f buf size0 for_e s =
     (case filp_vno (filps s f) of
        None \<Rightarrow> Aborted ''filp_vno''
      | Some vp \<Rightarrow>
          if size0 > SSIZE_MAX E then Returned (s, Err EINVAL)
          else let m = v_mode (vnodes s vp)
          in bind_outcome
               (if S_ISFIFO m then rw_fifo E rfp rw f vp buf size0 for_e s
                else if S_ISCHR m then rw_char E rw f vp buf size0 for_e s
                else if S_ISBLK m then rw_block E rw f vp buf size0 for_e s
                else rw_regular E rw f vp buf size0 for_e s)
               (\<lambda>(s1, r, res). case res of
                  None \<Rightarrow> Returned (s1, r)
                | Some (position, cum_io) \<Rightarrow> rw_done_a09 E rfp rw f vp size0 r position cum_io s1))"

text \<open>What can be seen of an outcome when nobody reads the messages.\<close>

definition unprinted :: "vfs \<Rightarrow> vfs" where
  "unprinted s = s\<lparr>calls := filter (\<lambda>c. case c of Printed _ _ _ \<Rightarrow> False | _ \<Rightarrow> True) (calls s)\<rparr>"

fun observed :: "(vfs \<times> ret) outcome \<Rightarrow> (vfs \<times> ret) outcome" where
  "observed (Returned (s, r)) = Returned (unprinted s, r)"
| "observed (Aborted w) = Aborted w"

lemma rw_done_observed:
  assumes "\<And>e s. find_vmnt E e s \<noteq> None"
  shows "observed (rw_done E rfp rw f vp n r pos c s) = observed (rw_done_orig rfp rw f vp r pos c s)"
    and "observed (rw_done_a09 E rfp rw f vp n r pos c s) = observed (rw_done_orig rfp rw f vp r pos c s)"
proof -
  define s2 where "s2 = upd_filp f (filp_pos_update (\<lambda>_. pos))
     (if rw = WRITING \<and> (S_ISREG (v_mode (vnodes s vp)) \<or> S_ISDIR (v_mode (vnodes s vp))) \<and> pos > v_size (vnodes s vp)
      then upd_vnode vp (v_size_update (\<lambda>_. pos)) s else s)"
  obtain m where m: "find_vmnt E (v_fs_e (vnodes s2 vp)) s2 = Some m" using assms by blast
  show "observed (rw_done E rfp rw f vp n r pos c s) = observed (rw_done_orig rfp rw f vp r pos c s)"
    unfolding rw_done_def rw_done_orig_def Let_def s2_def [symmetric] m option.case
    by (cases rw; cases "m_mount_path (vmnts s2 m) = ''/home''"; cases "r = Err EPIPE") (simp_all add: unprinted_def)
  show "observed (rw_done_a09 E rfp rw f vp n r pos c s) = observed (rw_done_orig rfp rw f vp r pos c s)"
    unfolding rw_done_a09_def rw_done_orig_def Let_def s2_def [symmetric] m option.case
    by (cases rw; cases "m_mount_path (vmnts s2 m) = ''/home''"; cases "r = Err EPIPE") (simp_all add: unprinted_def)
qed

lemma observed_bind:
  "(\<And>x. observed (g x) = observed (h x)) \<Longrightarrow> observed (bind_outcome k g) = observed (bind_outcome k h)"
  by (cases k) auto



subsection \<open>Removing names in Assignment 09\<close>

definition do_unlink_a09 :: "vfs_env \<Rightarrow> bool \<Rightarrow> vfs \<Rightarrow> (vfs \<times> ret) outcome" where
  "do_unlink_a09 E unlink s =
     with_path E (\<lambda>path s.
       case looked_up (last_dir E (lookup_init path True VMNT_WRITE VNODE_WRITE) (fp s) s) of
         (s1, Inl e) \<Rightarrow> Returned (s1, Err e)
       | (s1, Inr l) \<Rightarrow>
           let dirp = lr_vnode l; vmp = lr_vmnt l
           in if \<not> S_ISDIR (v_mode (vnodes s1 dirp)) then finish_node E dirp vmp (Err ENOTDIR) s1
              else let r = forbidden E (fp s1) dirp {X_BIT, W_BIT} s1
              in if r \<noteq> OK then finish_node E dirp vmp r s1
                 else bind_outcome (sticky_check E dirp (lr_path l) s1) (\<lambda>(s2, r).
                   if r \<noteq> OK then finish_node E dirp vmp r s2
                   else case vmp of
                          None \<Rightarrow> Aborted ''upgrade_vmnt_lock''
                        | Some m \<Rightarrow>
                            let s3 = vcall (UpgradeVmnt m) s2;
                                (s4, file) = looked_up (advance E dirp (lookup_init (lr_path l) True VMNT_READ VNODE_READ) (fp s3) s3);
                                home = (m_mount_path (vmnts s4 m) = ''/home'')
                            in case file of
                                 Inl e \<Rightarrow>
                                   if home then Aborted ''vp->v_inode_nr''
                                   else let fs = v_fs_e (vnodes s4 dirp); ino = v_inode_nr (vnodes s4 dirp)
                                     in if unlink then finish_node E dirp vmp (req_unlink E fs ino (lr_path l) s4) (vcall (ReqUnlink fs ino (lr_path l)) s4)
                                        else finish_node E dirp vmp (req_rmdir E fs ino (lr_path l) s4) (vcall (ReqRmdir fs ino (lr_path l)) s4)
                               | Inr f \<Rightarrow>
                                   let vp = lr_vnode f;
                                       s5 = (if home then vcall (Printed ''file deleted'' (v_inode_nr (vnodes s4 vp)) None) s4 else s4);
                                       s6 = release_vnode E vp (vcall (UnlockVnode vp) s5);
                                       fs = v_fs_e (vnodes s6 dirp); ino = v_inode_nr (vnodes s6 dirp)
                                   in if unlink then finish_node E dirp vmp (req_unlink E fs ino (lr_path l) s6) (vcall (ReqUnlink fs ino (lr_path l)) s6)
                                      else finish_node E dirp vmp (req_rmdir E fs ino (lr_path l) s6) (vcall (ReqRmdir fs ino (lr_path l)) s6))) s"

lemma advance_calls:
  assumes "vfs_env_ok E" and "looked_up (advance E d l p s) = (t, x)"
  shows "\<exists>cs. calls t = calls s @ cs \<and> removals cs = []" and "stays E d \<Longrightarrow> vnodes t d = vnodes s d"
proof -
  show "\<exists>cs. calls t = calls s @ cs \<and> removals cs = []"
    using assms(2) env_lookup_calls(3) [OF assms(1), of d l p s]
    by (auto simp: removals_def looked_up_def Let_def split: prod.splits sum.splits option.splits if_splits)
  have "vnodes t d = vnodes (fst (advance E d l p s)) d"
    using assms(2) by (auto simp: looked_up_def Let_def split: prod.splits sum.splits option.splits if_splits)
  then show "stays E d \<Longrightarrow> vnodes t d = vnodes s d" by (simp add: stays_def)
qed

text \<open>
  In Assignment 09 removing a name that does not exist brings the server down. The lookup
  that was added for the message is used without a test: when the caller may remove names
  from the directory, the file system is mounted on \<open>/home\<close> and the name is not there, the
  null pointer is followed, where the original passes the request on and returns the answer
  of the file server. With a name that exists, or on another mount, the request is passed on
  and all locks are given back.
\<close>

theorem unlink_a09_missing_file_crashes:
  fixes unlink :: bool
  assumes "vfs_env_ok E" and "fresh_nodes E" and "no_locks s" and "copy_path E s = Inr path"
    and "looked_up (last_dir E (lookup_init path True VMNT_WRITE VNODE_WRITE) (fp s) s) = (s1, Inr l)" and "lr_vmnt l = Some m"
    and "may_remove E (lr_vnode l) (lr_path l) s1" and "v_mode (vnodes s1 (lr_vnode l)) AND S_ISVTX \<noteq> S_ISVTX" and "stays E (lr_vnode l)"
    and "looked_up (advance E (lr_vnode l) (lookup_init (lr_path l) True VMNT_READ VNODE_READ) (fp s1) (vcall (UpgradeVmnt m) s1)) = (s4, res)"
  defines "req \<equiv> (if unlink then ReqUnlink else ReqRmdir) (v_fs_e (vnodes s1 (lr_vnode l))) (v_inode_nr (vnodes s1 (lr_vnode l))) (lr_path l)"
  shows "(\<exists>s' r. do_unlink E unlink s = Returned (s', r)) \<and>
    (if (\<exists>e. res = Inl e) \<and> m_mount_path (vmnts s4 m) = ''/home'' then do_unlink_a09 E unlink s = Aborted ''vp->v_inode_nr''
     else \<exists>s' r. do_unlink_a09 E unlink s = Returned (s', r) \<and> no_locks s' \<and> removals (drop (length (calls s1)) (calls s')) = [req])"
proof (rule conjI)
  show "\<exists>s' r. do_unlink E unlink s = Returned (s', r)" using do_unlink_held [OF assms(1-3)] by blast
next
  let ?d = "lr_vnode l"
  have c: "\<not> \<not> S_ISDIR (v_mode (vnodes s1 ?d))" "\<not> forbidden E (fp s1) ?d {X_BIT, W_BIT} s1 \<noteq> OK" "\<not> OK \<noteq> OK"
    using assms(7) by (simp_all add: may_remove_def)
  have t: "sticky_check E ?d (lr_path l) s1 = Returned (s1, OK)" using assms(8) by (simp add: sticky_check_def)
  note body = do_unlink_a09_def [of E unlink s, unfolded with_path_def assms(4) sum.case assms(5) prod.case Let_def assms(6)
    if_not_P [OF c(1)] if_not_P [OF c(2)] t bind_outcome.simps option.case if_not_P [OF c(3)] select_convs]
  have f: "fp (vcall (UpgradeVmnt m) s1) = fp s1" by simp
  note body = body [unfolded f assms(10) prod.case]
  have d1: "dir_locked s ?d m None s1"
    using first_dir [OF env_lookups(2) [OF assms(1)] no_locks_names_free [OF assms(3)] assms(5)] assms(6) by auto
  have d3: "dir_locked s ?d m None (vcall (UpgradeVmnt m) s1)" using d1 by (rule dir_locked_vcall) simp
  obtain cs where cs: "calls s4 = calls s1 @ UpgradeVmnt m # cs" "removals cs = []"
    using advance_calls(1) [OF assms(1, 10)] by auto
  have v: "vnodes s4 ?d = vnodes s1 ?d" using advance_calls(2) [OF assms(1, 10) assms(9)] by simp
  note fin = finish_dir [OF assms(1, 3)]
  note fc = finish_node_calls(2) [OF assms(1)]
  show "if (\<exists>e. res = Inl e) \<and> m_mount_path (vmnts s4 m) = ''/home'' then do_unlink_a09 E unlink s = Aborted ''vp->v_inode_nr''
     else \<exists>s' r. do_unlink_a09 E unlink s = Returned (s', r) \<and> no_locks s' \<and> removals (drop (length (calls s1)) (calls s')) = [req]"
  proof (cases res)
    case (Inl e)
    have d4: "dir_locked s ?d m None s4" using inner_Inl [OF assms(1) d3 assms(10) [unfolded Inl]] .
    show ?thesis
    proof (cases "m_mount_path (vmnts s4 m) = ''/home''")
      case True
      then show ?thesis using body Inl by simp
    next
      case False
      have "dir_locked s ?d m None (vcall req s4)" using d4 by (rule dir_locked_vcall) (simp add: req_def)
      then obtain s' r where s': "finish_node E ?d (Some m) (if unlink then req_unlink E (v_fs_e (vnodes s4 ?d)) (v_inode_nr (vnodes s4 ?d)) (lr_path l) s4
          else req_rmdir E (v_fs_e (vnodes s4 ?d)) (v_inode_nr (vnodes s4 ?d)) (lr_path l) s4) (vcall req s4) = Returned (s', r)" "no_locks s'"
        using fin by blast
      moreover have "removals (drop (length (calls s1)) (calls s')) = [req]"
        using fc [OF s'(1)] cs by (cases unlink) (simp_all add: removals_def req_def)
      ultimately show ?thesis using body Inl False v by (cases unlink) (auto simp: req_def)
    qed
  next
    case (Inr g)
    note i = inner_Inr [OF assms(1, 2) d3 assms(10) [unfolded Inr]]
    define home where "home = (m_mount_path (vmnts s4 m) = ''/home'')"
    define s5 where "s5 = (if home then vcall (Printed ''file deleted'' (v_inode_nr (vnodes s4 (lr_vnode g))) None) s4 else s4)"
    define s6 where "s6 = release_vnode E (lr_vnode g) (vcall (UnlockVnode (lr_vnode g)) s5)"
    have v6: "vnodes s6 ?d = vnodes s1 ?d" using v assms(9) by (simp add: s6_def s5_def release_vnode_def stays_def)
    have d6: "dir_locked s ?d m None s6"
      using d1 i(3-5) by (auto simp: dir_locked_def s6_def s5_def held_release [OF assms(1)] release_frame [OF assms(1)])
    have c6: "\<exists>ds. calls s6 = calls s1 @ ds \<and> removals ds = []"
      using cs assms(1) by (auto simp: s6_def s5_def release_vnode_def env_quiet removals_def)
    have "dir_locked s ?d m None (vcall req s6)" using d6 by (rule dir_locked_vcall) (simp add: req_def)
    then obtain s' r where s': "finish_node E ?d (Some m) (if unlink then req_unlink E (v_fs_e (vnodes s6 ?d)) (v_inode_nr (vnodes s6 ?d)) (lr_path l) s6
          else req_rmdir E (v_fs_e (vnodes s6 ?d)) (v_inode_nr (vnodes s6 ?d)) (lr_path l) s6) (vcall req s6) = Returned (s', r)" "no_locks s'"
      using fin by blast
    moreover have "removals (drop (length (calls s1)) (calls s')) = [req]"
      using fc [OF s'(1)] c6 by (cases unlink) (auto simp: removals_def req_def)
    ultimately show ?thesis
      using body [unfolded Inr sum.case home_def [symmetric], folded s5_def, folded s6_def] Inr v6 by (cases unlink) (auto simp: req_def)
  qed
qed

theorem unlink_a09_missing_file_crashes_witness:
  "do_unlink_a09 demo_env True demo_vfs = Aborted ''vp->v_inode_nr'' \<and> (\<exists>s' r. do_unlink demo_env True demo_vfs = Returned (s', r))"
proof -
  define l where "l = \<lparr>lr_vnode = 1, lr_locked = True, lr_vmnt = Some 0, lr_path = ''name''\<rparr>"
  define s1 where "s1 = vcall (LockVnode 1) (vcall (LockVmnt 0) demo_vfs)"
  define s3 where "s3 = vcall (UpgradeVmnt 0) s1"
  have e: "vfs_env_ok demo_env" "fresh_nodes demo_env" using demo_world_ok by (simp_all add: world_ok_def)
  have c: "copy_path demo_env demo_vfs = Inr ''name''" by (simp add: demo_env_sel)
  have g: "looked_up (last_dir demo_env (lookup_init ''name'' True VMNT_WRITE VNODE_WRITE) (fp demo_vfs) demo_vfs) = (s1, Inr l)"
    by (simp add: demo_env_sel demo_vfs_sel looked_up_def held_def Let_def l_def s1_def)
  have r: "may_remove demo_env (lr_vnode l) (lr_path l) s1" "v_mode (vnodes s1 (lr_vnode l)) AND S_ISVTX \<noteq> S_ISVTX" "lr_vmnt l = Some 0"
    by (simp_all add: may_remove_def l_def s1_def demo_env_sel demo_vfs_sel I_TYPE_def I_DIRECTORY_def S_ISVTX_def)
  have a: "looked_up (advance demo_env (lr_vnode l) (lookup_init (lr_path l) True VMNT_READ VNODE_READ) (fp s1) (vcall (UpgradeVmnt 0) s1)) =
      (s3\<lparr>vfs_err := ENOENT\<rparr>, Inl ENOENT)"
    by (simp add: demo_env_sel looked_up_def l_def s1_def s3_def lookup_init_def)
  have h: "m_mount_path (vmnts (s3\<lparr>vfs_err := ENOENT\<rparr>) 0) = ''/home''" by (simp add: s3_def s1_def demo_vfs_sel)
  show ?thesis using unlink_a09_missing_file_crashes [OF e demo_no_locks c g r(3, 1, 2) demo_stays a, of True] h by simp
qed

subsection \<open>Truncating and creating\<close>

definition truncate_vnode_a09 :: "vfs_env \<Rightarrow> nat \<Rightarrow> int \<Rightarrow> vfs \<Rightarrow> vfs \<times> ret" where
  "truncate_vnode_a09 E vp newsize s =
     (let m = v_mode (vnodes s vp)
      in if \<not> S_ISREG m \<and> \<not> S_ISFIFO m then (s, Err EINVAL)
         else let r = req_ftrunc E (v_fs_e (vnodes s vp)) (v_inode_nr (vnodes s vp)) newsize s;
                  s1 = vcall (ReqFtrunc (v_fs_e (vnodes s vp)) (v_inode_nr (vnodes s vp)) newsize) s
              in (if r = OK then upd_vnode vp (v_size_update (\<lambda>_. newsize)) s1 else s1, r))"

lemma truncate_versions:
  "truncate_vnode_a09 E vp n s = (if S_ISIMM (v_mode (vnodes s vp)) then (s, Err EINVAL) else truncate_vnode E vp n s)"
  using immediate_not [of "v_mode (vnodes s vp)"] by (auto simp: truncate_vnode_a09_def truncate_vnode_def Let_def)

definition open_node_orig ::
  "nat \<Rightarrow> vfs_env \<Rightarrow> string \<Rightarrow> oflag set \<Rightarrow> u16 \<Rightarrow> nat \<Rightarrow> vfs \<Rightarrow> (vfs \<times> (ret + nat \<times> bool \<times> ret)) outcome" where
  "open_node_orig fuel E path oflags omode f s =
     (if O_CREAT \<in> oflags then
        let bits = I_REGULAR OR (omode AND ALL_MODES AND fp_umask (fprocs s (fp s)))
        in bind_outcome (new_node fuel E path oflags bits s) (\<lambda>(s1, vpo, r).
             if r = OK then (case vpo of None \<Rightarrow> Aborted ''vp'' | Some vp \<Rightarrow> Returned (s1, Inr (vp, False, OK)))
             else if r \<noteq> Err EEXIST then
               Returned (unlock_filp f (case vpo of None \<Rightarrow> s1 | Some vp \<Rightarrow> vcall (UnlockVnode vp) s1), Inl r)
             else case vpo of None \<Rightarrow> Aborted ''vp'' | Some vp \<Rightarrow> Returned (s1, Inr (vp, O_EXCL \<notin> oflags, Err EEXIST)))
      else case looked_up (eat_path E (lookup_init path False VMNT_READ VNODE_OPCL) (fp s) s) of
             (s1, Inl e) \<Rightarrow> Returned (unlock_filp f s1, Inl (Err e))
           | (s1, Inr l) \<Rightarrow>
               Returned (case lr_vmnt l of None \<Rightarrow> s1 | Some m \<Rightarrow> vcall (UnlockVmnt m) s1, Inr (lr_vnode l, True, OK)))"

definition open_node_a09 ::
  "nat \<Rightarrow> vfs_env \<Rightarrow> string \<Rightarrow> oflag set \<Rightarrow> u16 \<Rightarrow> nat \<Rightarrow> vfs \<Rightarrow> (vfs \<times> (ret + nat \<times> bool \<times> ret)) outcome" where
  "open_node_a09 fuel E path oflags omode f s =
     (if O_CREAT \<in> oflags then
        let bits = I_REGULAR OR (omode AND ALL_MODES AND fp_umask (fprocs s (fp s)))
        in bind_outcome (new_node fuel E path oflags bits s) (\<lambda>(s1, vpo, r).
             if r = OK then
               (case vpo of
                  None \<Rightarrow> Aborted ''vp''
                | Some vp \<Rightarrow>
                    (case find_vmnt E (v_fs_e (vnodes s1 vp)) s1 of
                       None \<Rightarrow> Aborted ''find_vmnt''
                     | Some vpath \<Rightarrow>
                         Returned (if m_mount_path (vmnts s1 vpath) = ''/home''
                                   then vcall (Printed ''file created'' (v_inode_nr (vnodes s1 vp)) None) s1 else s1,
                                   Inr (vp, False, OK))))
             else if r \<noteq> Err EEXIST then
               Returned (unlock_filp f (case vpo of None \<Rightarrow> s1 | Some vp \<Rightarrow> vcall (UnlockVnode vp) s1), Inl r)
             else case vpo of None \<Rightarrow> Aborted ''vp'' | Some vp \<Rightarrow> Returned (s1, Inr (vp, O_EXCL \<notin> oflags, Err EEXIST)))
      else case looked_up (eat_path E (lookup_init path False VMNT_READ VNODE_OPCL) (fp s) s) of
             (s1, Inl e) \<Rightarrow> Returned (unlock_filp f s1, Inl (Err e))
           | (s1, Inr l) \<Rightarrow>
               Returned (case lr_vmnt l of None \<Rightarrow> s1 | Some m \<Rightarrow> vcall (UnlockVmnt m) s1, Inr (lr_vnode l, True, OK)))"

text \<open>Creating differs from the original by a message, and in Assignment 10 by the type of the file.\<close>

lemma open_node_versions_agree:
  assumes "\<And>e s. find_vmnt E e s \<noteq> None"
  shows "open_node_orig n E path oflags omode f s = Returned (s', x) \<Longrightarrow>
    \<exists>t. open_node_a09 n E path oflags omode f s = Returned (t, x) \<and> unprinted t = unprinted s'"
proof -
  assume a: "open_node_orig n E path oflags omode f s = Returned (s', x)"
  show ?thesis
  proof (cases "O_CREAT \<in> oflags")
    case False
    then show ?thesis using a by (simp add: open_node_orig_def open_node_a09_def)
  next
    case True
    let ?b = "I_REGULAR OR (omode AND ALL_MODES AND fp_umask (fprocs s (fp s)))"
    obtain s1 vpo r where n: "new_node n E path oflags ?b s = Returned (s1, vpo, r)"
      using a True by (auto simp: open_node_orig_def Let_def)
    show ?thesis
    proof (cases "r = OK")
      case False
      then show ?thesis using a True n by (simp add: open_node_orig_def open_node_a09_def Let_def)
    next
      case ok: True
      then obtain vp where vp: "vpo = Some vp" "s' = s1" "x = Inr (vp, False, OK)"
        using a True n by (auto simp: open_node_orig_def Let_def split: option.splits)
      obtain m where "find_vmnt E (v_fs_e (vnodes s1 vp)) s1 = Some m" using assms by blast
      then show ?thesis using True n ok vp by (simp add: open_node_a09_def Let_def unprinted_def)
    qed
  qed
qed

end
