(* ===== verification/Rr.thy ===== *)
theory Rr
  imports Sjf
begin

text \<open>
  The round-robin simulator \<open>Assignment 04/rr-hash.c\<close>. It shares the burst lists, the log, the
  devices and the reading of the input with the shortest-job-first simulator; its queue of
  processes for the CPU is a circular linked list, modelled with an explicit heap: a node is
  at an address, \<open>malloc\<close> is a parameter that may fail and otherwise gives an address that is
  not in use, and to follow a null pointer or a pointer to a node that has been freed is an
  outcome of its own. A loop over the list has fuel.
\<close>

subsection \<open>The circular list\<close>

record cpuQueueNode =
  q_pid :: int
  q_left :: int
  q_next :: "nat option"

type_synonym qheap = "nat \<Rightarrow> cpuQueueNode option"

text \<open>The heap and \<open>cpuQueueHead\<close>.\<close>

type_synonym cqueue = "qheap \<times> nat option"

definition node_at :: "qheap \<Rightarrow> nat option \<Rightarrow> cpuQueueNode outcome" where
  "node_at h p = (case p of None \<Rightarrow> Aborted ''null pointer''
     | Some a \<Rightarrow> (case h a of None \<Rightarrow> Aborted ''use after free'' | Some nd \<Rightarrow> Returned nd))"

text \<open>\<open>while(tail->next != cpuQueueHead) tail = tail->next;\<close>\<close>

fun tail_from :: "nat \<Rightarrow> qheap \<Rightarrow> nat option \<Rightarrow> nat option \<Rightarrow> nat outcome" where
  "tail_from 0 h head p = Aborted ''fuel''"
| "tail_from (Suc n) h head p =
     bind_outcome (node_at h p) (\<lambda>nd. if q_next nd = head then Returned (the p) else tail_from n h head (q_next nd))"

definition rr_enqueue :: "nat \<Rightarrow> (qheap \<Rightarrow> nat option) \<Rightarrow> int \<Rightarrow> int \<Rightarrow> cqueue \<Rightarrow> cqueue outcome" where
  "rr_enqueue fuel malloc ipid ival = (\<lambda>(h, head).
     case malloc h of
       None \<Rightarrow> Aborted ''exit(4)''
     | Some a \<Rightarrow>
         let new = \<lparr>q_pid = ipid, q_left = ival, q_next = None\<rparr>; h1 = h(a \<mapsto> new)
         in case head of
              None \<Rightarrow> Returned (h1(a \<mapsto> new\<lparr>q_next := Some a\<rparr>), Some a)
            | Some p \<Rightarrow>
                bind_outcome (tail_from fuel h1 head head) (\<lambda>t.
                  let h2 = h1(t \<mapsto> (the (h1 t))\<lparr>q_next := Some a\<rparr>)
                  in Returned (h2(a \<mapsto> (the (h2 a))\<lparr>q_next := head\<rparr>), head)))"

text \<open>The last node is freed, and the head goes on pointing to it.\<close>

definition delete_begin :: "nat \<Rightarrow> cqueue \<Rightarrow> cqueue outcome" where
  "delete_begin fuel = (\<lambda>(h, head).
     case head of
       None \<Rightarrow> Returned (h, head)
     | Some del \<Rightarrow>
         bind_outcome (node_at h head) (\<lambda>nd.
           if q_next nd = head then Returned (h(del := None), head)
           else bind_outcome (tail_from fuel h head head) (\<lambda>t.
                  let hd1 = q_next nd; h1 = h(t \<mapsto> (the (h t))\<lparr>q_next := hd1\<rparr>)
                  in Returned (h1(del := None), hd1))))"

fun in_cQueue_from :: "nat \<Rightarrow> qheap \<Rightarrow> nat option \<Rightarrow> nat option \<Rightarrow> int \<Rightarrow> bool outcome" where
  "in_cQueue_from 0 h head p ipid = Aborted ''fuel''"
| "in_cQueue_from (Suc n) h head p ipid =
     bind_outcome (node_at h p) (\<lambda>nd.
       if q_pid nd = ipid then Returned True
       else if q_next nd = head then Returned False else in_cQueue_from n h head (q_next nd) ipid)"

definition in_cQueue :: "nat \<Rightarrow> int \<Rightarrow> cqueue \<Rightarrow> bool outcome" where
  "in_cQueue fuel ipid = (\<lambda>(h, head). if head = None then Returned False else in_cQueue_from fuel h head head ipid)"

subsection \<open>The list it stands for\<close>

text \<open>
  The queue holds the entries \<open>xs\<close> (process and time left), in this order from the head on, at
  the addresses \<open>as\<close>.
\<close>

definition circular :: "qheap \<Rightarrow> nat list \<Rightarrow> (int \<times> int) list \<Rightarrow> bool" where
  "circular h as xs \<longleftrightarrow> distinct as \<and> length as = length xs \<and>
     (\<forall>i < length as. h (as ! i) = Some \<lparr>q_pid = fst (xs ! i), q_left = snd (xs ! i), q_next = Some (as ! (Suc i mod length as))\<rparr>)"

definition cq_holds :: "cqueue \<Rightarrow> (int \<times> int) list \<Rightarrow> bool" where
  "cq_holds q xs \<longleftrightarrow> finite (dom (fst q)) \<and> (\<exists>as. circular (fst q) as xs \<and> snd q = (if as = [] then None else Some (hd as)))"

text \<open>Memory is not exhausted, and what \<open>malloc\<close> hands out is not in use.\<close>

definition good_malloc :: "(qheap \<Rightarrow> nat option) \<Rightarrow> bool" where
  "good_malloc malloc \<longleftrightarrow> (\<forall>h. finite (dom h) \<longrightarrow> (\<exists>a. malloc h = Some a \<and> h a = None))"

lemma circularD:
  "circular h as xs \<Longrightarrow> i < length as \<Longrightarrow>
     node_at h (Some (as ! i)) = Returned \<lparr>q_pid = fst (xs ! i), q_left = snd (xs ! i), q_next = Some (as ! (Suc i mod length as))\<rparr>"
  by (simp add: circular_def node_at_def)

lemma circular_facts:
  "circular h as xs \<Longrightarrow> length as = length xs" "circular h as xs \<Longrightarrow> distinct as" "circular h as xs \<Longrightarrow> as = [] \<longleftrightarrow> xs = []"
  by (auto simp: circular_def)

lemma circular_next:
  assumes "circular h as xs" and "i < length as"
  shows "as ! (Suc i mod length as) = hd as \<longleftrightarrow> Suc i = length as"
proof -
  have "as \<noteq> []" using assms(2) by auto
  then have h: "hd as = as ! 0" by (simp add: hd_conv_nth)
  show ?thesis
  proof (cases "Suc i = length as")
    case False
    then have "Suc i < length as" using assms(2) by simp
    moreover have "as ! Suc i \<noteq> as ! 0"
      using nth_eq_iff_index_eq [OF circular_facts(2) [OF assms(1)] \<open>Suc i < length as\<close>, of 0] \<open>as \<noteq> []\<close> by simp
    ultimately show ?thesis by (simp add: h)
  qed (simp add: h)
qed

lemma tail_from_circular:
  assumes "circular h as xs" and "i < length as" and "length as - i \<le> fuel"
  shows "tail_from fuel h (Some (hd as)) (Some (as ! i)) = Returned (last as)"
  using assms(2, 3)
proof (induction fuel arbitrary: i)
  case (Suc n)
  show ?case
  proof (cases "Suc i = length as")
    case True
    then have "as ! i = last as" by (metis diff_Suc_1 last_conv_nth length_0_conv nat.distinct(1))
    then show ?thesis using circularD [OF assms(1) Suc.prems(1)] circular_next [OF assms(1) Suc.prems(1)] True by simp
  next
    case False
    then have "Suc i < length as" using Suc.prems(1) by simp
    then show ?thesis
      using circularD [OF assms(1) Suc.prems(1)] circular_next [OF assms(1) Suc.prems(1)] False Suc.IH [of "Suc i"] Suc.prems(2) by simp
  qed
qed simp

lemma in_cQueue_from_circular:
  assumes "circular h as xs" and "i < length as" and "length as - i \<le> fuel"
  shows "in_cQueue_from fuel h (Some (hd as)) (Some (as ! i)) pid = Returned (pid \<in> fst ` set (drop i xs))"
  using assms(2, 3)
proof (induction fuel arbitrary: i)
  case (Suc n)
  have l: "length xs = length as" using assms(1) by (simp add: circular_def)
  have d: "drop i xs = xs ! i # drop (Suc i) xs" using Suc.prems(1) l by (simp add: Cons_nth_drop_Suc)
  show ?case
  proof (cases "Suc i = length as")
    case True
    then show ?thesis using circularD [OF assms(1) Suc.prems(1)] circular_next [OF assms(1) Suc.prems(1)] d l by simp
  next
    case False
    then have "Suc i < length as" using Suc.prems(1) by simp
    then show ?thesis
      using circularD [OF assms(1) Suc.prems(1)] circular_next [OF assms(1) Suc.prems(1)] False Suc.IH [of "Suc i"] Suc.prems(2) d by auto
  qed
qed simp

lemma circular_upd: "circular h as xs \<Longrightarrow> a \<notin> set as \<Longrightarrow> circular (h(a := v)) as xs"
  by (auto simp: circular_def in_set_conv_nth)

lemma circular_snoc:
  assumes "circular h as xs" and "as \<noteq> []" and "a \<notin> set as"
  shows "circular (h(last as := Some ((the (h (last as)))\<lparr>q_next := Some a\<rparr>), a := Some \<lparr>q_pid = p, q_left = v, q_next = Some (hd as)\<rparr>)) (as @ [a]) (xs @ [(p, v)])"
proof -
  let ?h = "h(last as := Some ((the (h (last as)))\<lparr>q_next := Some a\<rparr>), a := Some \<lparr>q_pid = p, q_left = v, q_next = Some (hd as)\<rparr>)"
  define n where "n = length as"
  have l: "length xs = n" "distinct as" "0 < n" using circular_facts [OF assms(1)] assms(2) by (simp_all add: n_def)
  have la: "last as = as ! (n - 1)" "hd as = as ! 0" using assms(2) by (simp_all add: n_def last_conv_nth hd_conv_nth)
  have e: "?h ((as @ [a]) ! i) = Some \<lparr>q_pid = fst ((xs @ [(p, v)]) ! i), q_left = snd ((xs @ [(p, v)]) ! i), q_next = Some ((as @ [a]) ! (Suc i mod Suc n))\<rparr>"
    if "i < Suc n" for i
  proof -
    consider "i = n" | "i = n - 1" | "i < n - 1" using \<open>i < Suc n\<close> by linarith
    then show ?thesis
    proof cases
      case 1
      then show ?thesis using l by (simp add: nth_append n_def la)
    next
      case 2
      then have i: "i < n" "Suc i = n" using l by auto
      then have "as ! i \<noteq> a" using assms(3) by (auto simp: n_def)
      then show ?thesis using assms(1) i l 2 by (simp add: nth_append la circular_def n_def)
    next
      case 3
      then have i: "i < n" "Suc i < n" by auto
      then have "as ! i \<noteq> a" "as ! i \<noteq> last as"
        using assms(3) l 3 nth_eq_iff_index_eq [of as i "n - 1"] by (auto simp: n_def la)
      then show ?thesis using assms(1) i l by (simp add: nth_append circular_def n_def)
    qed
  qed
  then show ?thesis using assms l by (simp add: circular_def n_def)
qed

lemma circular_tl:
  assumes "circular h (a # as) (x # xs)" and "as \<noteq> []"
  shows "circular (h(last as := Some ((the (h (last as)))\<lparr>q_next := Some (hd as)\<rparr>), a := None)) as xs"
proof -
  let ?h = "h(last as := Some ((the (h (last as)))\<lparr>q_next := Some (hd as)\<rparr>), a := None)"
  define n where "n = length as"
  have l: "length xs = n" "distinct (a # as)" "0 < n" using circular_facts [OF assms(1)] assms(2) by (auto simp: n_def)
  have la: "last as = as ! (n - 1)" "hd as = as ! 0" using assms(2) by (simp_all add: n_def last_conv_nth hd_conv_nth)
  have old: "h (as ! i) = Some \<lparr>q_pid = fst (xs ! i), q_left = snd (xs ! i), q_next = Some ((a # as) ! (Suc (Suc i) mod Suc n))\<rparr>" if "i < n" for i
    using assms(1) that unfolding circular_def by (auto dest!: spec [of _ "Suc i"] simp: n_def)
  have e: "?h (as ! i) = Some \<lparr>q_pid = fst (xs ! i), q_left = snd (xs ! i), q_next = Some (as ! (Suc i mod n))\<rparr>" if "i < n" for i
  proof -
    have "as ! i \<noteq> a" using l that by (auto simp: n_def)
    moreover have "as ! i = last as \<longleftrightarrow> i = n - 1" using l that by (simp add: la n_def nth_eq_iff_index_eq)
    ultimately show ?thesis using old [OF that] that l(3) by (cases "i = n - 1") (simp_all add: la)
  qed
  then show ?thesis using l assms by (simp add: circular_def n_def)
qed

lemma circular_tail:
  assumes "circular h as xs" and "as \<noteq> []" and "length xs \<le> fuel"
  shows "tail_from fuel h (Some (hd as)) (Some (hd as)) = Returned (last as)"
  using tail_from_circular [OF assms(1), of 0 fuel] assms by (simp add: hd_conv_nth circular_def)

lemma rr_enqueue_holds:
  assumes "good_malloc malloc" and "cq_holds q xs" and "length xs \<le> fuel"
  shows "\<exists>q'. rr_enqueue fuel malloc p v q = Returned q' \<and> cq_holds q' (xs @ [(p, v)])"
proof -
  obtain h head where q: "q = (h, head)" by fastforce
  obtain as where c: "circular h as xs" "head = (if as = [] then None else Some (hd as))" and fin: "finite (dom h)" using assms(2) q by (auto simp: cq_holds_def)
  obtain a where ma: "malloc h = Some a" "h a = None" using assms(1) fin by (auto simp: good_malloc_def)
  then have a: "a \<notin> set as" using c(1) by (auto simp: circular_def in_set_conv_nth)
  let ?h1 = "h(a \<mapsto> \<lparr>q_pid = p, q_left = v, q_next = None\<rparr>)"
  show ?thesis
  proof (cases "as = []")
    case True
    then show ?thesis using ma q c fin
      by (auto simp: rr_enqueue_def Let_def cq_holds_def circular_def intro!: exI [of _ "[a]"])
  next
    case False
    have c1: "circular ?h1 as xs" using c(1) a by (rule circular_upd)
    have t: "tail_from fuel ?h1 (Some (hd as)) (Some (hd as)) = Returned (last as)" by (rule circular_tail [OF c1 False assms(3)])
    have la: "last as \<noteq> a" using a False by auto
    define h2 where "h2 = h(last as := Some ((the (h (last as)))\<lparr>q_next := Some a\<rparr>), a := Some \<lparr>q_pid = p, q_left = v, q_next = Some (hd as)\<rparr>)"
    have "rr_enqueue fuel malloc p v q = Returned (h2, Some (hd as))"
      using ma q c(2) False t la by (simp add: rr_enqueue_def Let_def h2_def fun_upd_twist)
    moreover have "circular h2 (as @ [a]) (xs @ [(p, v)])" unfolding h2_def by (rule circular_snoc [OF c(1) False a])
    moreover have "finite (dom h2)" using fin by (simp add: h2_def)
    ultimately show ?thesis using False by (auto simp: cq_holds_def intro!: exI [of _ "as @ [a]"])
  qed
qed

lemma delete_begin_holds:
  assumes "cq_holds q (x # xs)" and "xs \<noteq> []" and "length xs < fuel"
  shows "\<exists>q'. delete_begin fuel q = Returned q' \<and> cq_holds q' xs"
proof -
  obtain h head where q: "q = (h, head)" by fastforce
  obtain as' where c: "circular h as' (x # xs)" "head = (if as' = [] then None else Some (hd as'))" and fin: "finite (dom h)"
    using assms(1) q by (auto simp: cq_holds_def)
  obtain a as where as1: "as' = a # as" using circular_facts(1) [OF c(1)] by (cases as') auto
  have as: "as' = a # as" "as \<noteq> []" using as1 circular_facts(1) [OF c(1)] assms(2) by auto
  have t: "tail_from fuel h (Some a) (Some a) = Returned (last as)" using circular_tail [OF c(1), of fuel] as assms(3) by simp
  have "hd as \<in> set as" "a \<notin> set as" using as circular_facts(2) [OF c(1)] by auto
  then have ne: "hd as \<noteq> a" by blast
  have n: "node_at h (Some a) = Returned \<lparr>q_pid = fst x, q_left = snd x, q_next = Some (hd as)\<rparr>"
    using circularD [OF c(1), of 0] as by (auto simp: hd_conv_nth)
  have "delete_begin fuel q = Returned (h(last as := Some ((the (h (last as)))\<lparr>q_next := Some (hd as)\<rparr>), a := None), Some (hd as))"
    using q c(2) as n ne t by (simp add: delete_begin_def Let_def)
  then show ?thesis using circular_tl [OF c(1) [unfolded as(1)] as(2)] as(2) fin
    by (auto simp: cq_holds_def intro: finite_subset [OF _ fin])
qed

lemma delete_begin_last:
  assumes "cq_holds q [x]"
  shows "\<exists>h a. delete_begin fuel q = Returned (h, Some a) \<and> h a = None"
proof -
  obtain h head where q: "q = (h, head)" by fastforce
  obtain as' where c: "circular h as' [x]" "head = (if as' = [] then None else Some (hd as'))" using assms(1) q by (auto simp: cq_holds_def)
  obtain a where "as' = [a]" using c(1) by (cases as') (auto simp: circular_def)
  then show ?thesis using q c by (auto simp: delete_begin_def circular_def node_at_def)
qed

lemma in_cQueue_holds:
  assumes "cq_holds q xs" and "length xs \<le> fuel"
  shows "in_cQueue fuel p q = Returned (p \<in> fst ` set xs)"
proof -
  obtain h head where q: "q = (h, head)" by fastforce
  obtain as where c: "circular h as xs" "head = (if as = [] then None else Some (hd as))" using assms(1) q by (auto simp: cq_holds_def)
  show ?thesis
  proof (cases "as = []")
    case True
    then show ?thesis using q c by (simp add: in_cQueue_def circular_def)
  next
    case False
    then show ?thesis using q c in_cQueue_from_circular [OF c(1), of 0 fuel p] circular_facts [OF c(1)] assms(2)
      by (simp add: in_cQueue_def hd_conv_nth)
  qed
qed

lemma circular_rotate:
  assumes "circular h as xs"
  shows "circular h (rotate1 as) (rotate1 xs)"
proof -
  have "h (rotate1 as ! i) = Some \<lparr>q_pid = fst (rotate1 xs ! i), q_left = snd (rotate1 xs ! i), q_next = Some (rotate1 as ! (Suc i mod length as))\<rparr>"
    if "i < length as" for i
  proof -
    have i: "Suc i mod length as < length as" using that by (metis length_greater_0_conv list.size(3) mod_less_divisor not_less_zero)
    then show ?thesis using assms that by (simp add: nth_rotate1 circular_def)
  qed
  then show ?thesis using circular_facts [OF assms] by (simp add: circular_def)
qed

lemma advance_head:
  assumes "cq_holds (h, head) xs" and "xs \<noteq> []"
  shows "\<exists>nd. node_at h head = Returned nd \<and> q_pid nd = fst (hd xs) \<and> q_left nd = snd (hd xs) \<and> cq_holds (h, q_next nd) (rotate1 xs)"
proof -
  obtain as where c: "circular h as xs" "head = (if as = [] then None else Some (hd as))" and fin: "finite (dom h)"
    using assms(1) by (auto simp: cq_holds_def)
  have ne: "as \<noteq> []" using circular_facts(3) [OF c(1)] assms(2) by simp
  have n: "node_at h head = Returned \<lparr>q_pid = fst (hd xs), q_left = snd (hd xs), q_next = Some (as ! (Suc 0 mod length as))\<rparr>"
    using circularD [OF c(1), of 0] ne c(2) assms(2) by (simp add: hd_conv_nth)
  have "rotate1 as \<noteq> []" using ne by simp
  then have "hd (rotate1 as) = as ! (Suc 0 mod length as)" using ne by (simp add: hd_conv_nth nth_rotate1)
  then show ?thesis using n circular_rotate [OF c(1)] ne fin by (auto simp: cq_holds_def intro!: exI [of _ "rotate1 as"])
qed

text \<open>The head's time left.\<close>

lemma set_head_left:
  assumes "cq_holds (h, Some a) ((p, l) # xs)"
  shows "\<exists>nd. h a = Some nd \<and> cq_holds (h(a \<mapsto> nd\<lparr>q_left := l'\<rparr>), Some a) ((p, l') # xs)"
proof -
  obtain as' where c: "circular h as' ((p, l) # xs)" "Some a = (if as' = [] then None else Some (hd as'))" and fin: "finite (dom h)"
    using assms by (auto simp: cq_holds_def)
  obtain as where as: "as' = a # as" using c by (cases as') auto
  obtain nd where nd: "h a = Some nd" "nd = \<lparr>q_pid = p, q_left = l, q_next = Some (as' ! (Suc 0 mod length as'))\<rparr>"
    using circularD [OF c(1), of 0] as by (auto simp: node_at_def split: option.splits)
  have d: "distinct as'" using c(1) by (rule circular_facts(2))
  have "circular (h(a \<mapsto> nd\<lparr>q_left := l'\<rparr>)) as' ((p, l') # xs)"
    unfolding circular_def
  proof (intro conjI allI impI)
    fix i assume i: "i < length as'"
    show "(h(a \<mapsto> nd\<lparr>q_left := l'\<rparr>)) (as' ! i) = Some \<lparr>q_pid = fst (((p, l') # xs) ! i), q_left = snd (((p, l') # xs) ! i), q_next = Some (as' ! (Suc i mod length as'))\<rparr>"
    proof (cases i)
      case 0
      then show ?thesis using nd as by simp
    next
      case (Suc j)
      have "as' ! i \<noteq> a" using d as Suc i by auto
      then show ?thesis using c(1) i Suc unfolding circular_def by simp
    qed
  qed (use c(1) in \<open>simp_all add: circular_def\<close>)
  then show ?thesis using nd(1) as fin by (auto simp: cq_holds_def intro!: exI [of _ as'])
qed

subsection \<open>What the simulator needs of its queue\<close>

locale process_queue =
  fixes holds :: "'q \<Rightarrow> (int \<times> int) list \<Rightarrow> bool" and enq :: "int \<Rightarrow> int \<Rightarrow> 'q \<Rightarrow> 'q outcome"
    and has :: "int \<Rightarrow> 'q \<Rightarrow> bool outcome" and bound :: nat
  assumes enq_holds: "holds q xs \<Longrightarrow> length xs < bound \<Longrightarrow> \<exists>q'. enq p v q = Returned q' \<and> holds q' (xs @ [(p, v)])"
    and has_holds: "holds q xs \<Longrightarrow> length xs < bound \<Longrightarrow> has p q = Returned (p \<in> fst ` set xs)"
begin

lemma has_or_enq:
  "holds q xs \<Longrightarrow> length xs < bound \<Longrightarrow>
     \<exists>q'. bind_outcome (has p q) (\<lambda>b. if b then Returned q else enq p v q) = Returned q' \<and>
          holds q' (if p \<in> fst ` set xs then xs else xs @ [(p, v)])"
  using enq_holds [of q xs p v] has_holds [of q xs p] by auto

lemma distinct_kept:
  "distinct (map fst xs) \<Longrightarrow> distinct (map fst (if p \<in> fst ` set xs then xs else xs @ [(p, v)]))"
  by auto

end

interpretation rrq: process_queue "\<lambda>q xs. good_malloc malloc \<and> cq_holds q xs" "rr_enqueue fuel malloc" "in_cQueue fuel" fuel for malloc fuel
  by unfold_locales (simp_all add: rr_enqueue_holds in_cQueue_holds del: split_paired_Ex)

subsection \<open>The simulator\<close>

record rrsim =
  base :: sjf
  cq :: cqueue

definition time_quantum :: int where "time_quantum = 2"

definition find_min :: "int \<Rightarrow> int \<Rightarrow> int" where
  "find_min a b = (if a < b then a else b)"

abbreviation on_base :: "(sjf \<Rightarrow> sjf) \<Rightarrow> rrsim \<Rightarrow> rrsim" where
  "on_base f s \<equiv> s\<lparr>base := f (base s)\<rparr>"

text \<open>Processes that are ready for the CPU enter the queue, those that wait for I/O grow older.\<close>

definition rr_fill_one :: "nat \<Rightarrow> (qheap \<Rightarrow> nat option) \<Rightarrow> nat \<Rightarrow> rrsim \<Rightarrow> rrsim outcome" where
  "rr_fill_one fuel malloc k s =
     (case proc (base s) k of
        [] \<Rightarrow> Returned s
      | nd # rest \<Rightarrow>
          if btype nd = CpuBurst then
            bind_outcome
              (bind_outcome (in_cQueue fuel (int k) (cq s)) (\<lambda>b. if b then Returned (cq s) else rr_enqueue fuel malloc (int k) (val nd) (cq s)))
              (\<lambda>q. Returned (s\<lparr>cq := q\<rparr>))
          else bind_outcome (in_cQueue fuel (int k) (cq s)) (\<lambda>b.
                 Returned (if b then s else on_base (\<lambda>t. t\<lparr>proc := (proc t)(k := nd\<lparr>age := age nd + 1\<rparr> # rest)\<rparr>) s)))"

definition rr_fill :: "nat \<Rightarrow> (qheap \<Rightarrow> nat option) \<Rightarrow> rrsim \<Rightarrow> rrsim outcome" where
  "rr_fill fuel malloc s = foldl (\<lambda>m k. bind_outcome m (rr_fill_one fuel malloc k)) (Returned s) [0..<nprocs (base s)]"

fun rr_update :: "nat \<Rightarrow> nat list \<Rightarrow> rrsim \<Rightarrow> rrsim outcome" where
  "rr_update fuel [] s = Returned s"
| "rr_update fuel (r # rs) s =
     (if arrival_time (processLog (base s) r) > clock (base s) then Returned s
      else bind_outcome (in_cQueue fuel (int r) (cq s)) (\<lambda>b.
        rr_update fuel rs (if b \<and> int r \<noteq> curr_pid (cpu (base s)) then on_base (upd_log r (waiting_time_update (\<lambda>w. w + 1))) s else s)))"

text \<open>The end of a slice: when the head has no time left it leaves the queue, and its burst is over.\<close>

definition rr_burst_end :: "nat \<Rightarrow> rrsim \<Rightarrow> rrsim outcome" where
  "rr_burst_end fuel s =
     bind_outcome (node_at (fst (cq s)) (snd (cq s))) (\<lambda>nd.
       if q_left nd = 0 then
         bind_outcome (delete_begin fuel (cq s)) (\<lambda>q.
           let p = nat (curr_pid (cpu (base s)))
           in case proc (base s) p of
                [] \<Rightarrow> Aborted ''null pointer''
              | _ # rest \<Rightarrow> Returned (s\<lparr>cq := q, base := (base s)\<lparr>proc := (proc (base s))(p := rest)\<rparr>\<rparr>))
       else Returned s)"

definition rr_dispatch :: "nat \<Rightarrow> rrsim \<Rightarrow> rrsim outcome" where
  "rr_dispatch fuel s =
     bind_outcome (node_at (fst (cq s)) (snd (cq s))) (\<lambda>nd.
       let pid_next = q_pid nd; slice = find_min time_quantum (q_left nd); p = nat pid_next;
           s1 = s\<lparr>cq := ((fst (cq s))(the (snd (cq s)) \<mapsto> nd\<lparr>q_left := q_left nd - slice\<rparr>), snd (cq s)),
                  base := (base s)\<lparr>cpu := \<lparr>idle = False, curr_pid = pid_next, time_left = slice\<rparr>\<rparr>\<rparr>
       in case proc (base s1) p of
            [] \<Rightarrow> Aborted ''null pointer''
          | b # rest \<Rightarrow>
              let s2 = on_base (\<lambda>t. t\<lparr>proc := (proc t)(p := b\<lparr>val := val b - slice\<rparr> # rest)\<rparr>) s1;
                  s3 = on_base (upd_log p (status_update (\<lambda>_. 2))) s2;
                  s4 = (if first_time (processLog (base s3) p) = - 1
                        then on_base (upd_log p (first_time_update (\<lambda>_. clock (base s3)))) s3 else s3);
                  s5 = on_base (\<lambda>t. t\<lparr>cpu := (cpu t)\<lparr>time_left := time_left (cpu t) - 1\<rparr>\<rparr>) s4
              in if time_left (cpu (base s5)) = 0 then
                   rr_burst_end fuel (on_base (\<lambda>t. upd_log p (status_update (\<lambda>_. 1)) (t\<lparr>cpu := (cpu t)\<lparr>idle := True\<rparr>\<rparr>)) s5)
                 else Returned s5)"

definition rr_cpu_phase :: "nat \<Rightarrow> rrsim \<Rightarrow> rrsim outcome" where
  "rr_cpu_phase fuel s =
     (if idle (cpu (base s)) then
        (if snd (cq s) = None then Returned s else rr_dispatch fuel s)
      else bind_outcome (rr_update fuel [0..<nprocs (base s)] s) (\<lambda>s1.
        let s2 = on_base (\<lambda>t. t\<lparr>cpu := (cpu t)\<lparr>time_left := time_left (cpu t) - 1\<rparr>\<rparr>) s1
        in if time_left (cpu (base s2)) = 0 then
             bind_outcome
               (rr_burst_end fuel (on_base (\<lambda>t. upd_log (nat (curr_pid (cpu t))) (status_update (\<lambda>_. 1)) (t\<lparr>cpu := (cpu t)\<lparr>idle := True\<rparr>\<rparr>)) s2))
               (\<lambda>s3. bind_outcome (node_at (fst (cq s3)) (snd (cq s3))) (\<lambda>nd. Returned (s3\<lparr>cq := (fst (cq s3), q_next nd)\<rparr>)))
           else Returned s2))"

text \<open>The youngest process waiting for I/O; the burst list of a process that has none left is followed all the same.\<close>

fun rr_find_io :: "sjf \<Rightarrow> nat list \<Rightarrow> int \<Rightarrow> int \<Rightarrow> int outcome" where
  "rr_find_io s [] min_age pid_next = Returned pid_next"
| "rr_find_io s (k # ks) min_age pid_next =
     (if int k = curr_pid (cpu s) then rr_find_io s ks min_age pid_next
      else case proc s k of
             [] \<Rightarrow> Aborted ''null pointer''
           | nd # _ \<Rightarrow> if btype nd = IoBurst \<and> age nd < min_age then rr_find_io s ks (age nd) (int k)
                      else rr_find_io s ks min_age pid_next)"

definition rr_io_phase :: "rrsim \<Rightarrow> rrsim outcome" where
  "rr_io_phase s =
     (if idle (ioDevice (base s)) then
        bind_outcome (rr_find_io (base s) [0..<nprocs (base s)] INT_MAX (- 1)) (\<lambda>pid_next.
          if pid_next = - 1 then Returned s
          else let p = nat pid_next; left = val (hd (proc (base s) p)) - 1
               in Returned (on_base (\<lambda>t. upd_log p (status_update (\<lambda>_. 3))
                    (t\<lparr>ioDevice := \<lparr>idle = (left = 0), curr_pid = pid_next, time_left = left\<rparr>\<rparr>)) s))
      else let s1 = on_base (\<lambda>t. t\<lparr>ioDevice := (ioDevice t)\<lparr>time_left := time_left (ioDevice t) - 1\<rparr>\<rparr>) s
           in Returned (if time_left (ioDevice (base s1)) = 0
                then on_base (\<lambda>t. upd_log (nat (curr_pid (ioDevice t))) (status_update (\<lambda>_. 1)) (t\<lparr>ioDevice := (ioDevice t)\<lparr>idle := True\<rparr>\<rparr>)) s1
                else s1))"

text \<open>The report of a round walks through the queue; what it prints is not modelled.\<close>

definition printstuff :: "nat \<Rightarrow> rrsim \<Rightarrow> rrsim outcome" where
  "printstuff fuel s =
     (if snd (cq s) = None then Returned s
      else bind_outcome (tail_from fuel (fst (cq s)) (snd (cq s)) (snd (cq s))) (\<lambda>t. Returned s))"

definition rr_round :: "nat \<Rightarrow> (qheap \<Rightarrow> nat option) \<Rightarrow> rrsim \<Rightarrow> rrsim outcome" where
  "rr_round fuel malloc s =
     bind_outcome (rr_fill fuel malloc s) (\<lambda>s1.
     bind_outcome (rr_cpu_phase fuel s1) (\<lambda>s2.
     bind_outcome (rr_io_phase s2) (\<lambda>s3.
     bind_outcome (printstuff fuel s3) (\<lambda>s4.
       Returned (on_base (\<lambda>t. t\<lparr>clock := clock t + 1\<rparr>) s4)))))"

text \<open>\<open>while(!done)\<close>: one unit of fuel (the first argument) per round. No statement of the loop sets \<open>done\<close>.\<close>

fun rr_loop :: "nat \<Rightarrow> nat \<Rightarrow> (qheap \<Rightarrow> nat option) \<Rightarrow> bool \<Rightarrow> rrsim \<Rightarrow> rrsim outcome option" where
  "rr_loop 0 fuel malloc dn s = None"
| "rr_loop (Suc n) fuel malloc dn s =
     (if dn then Some (Returned s)
      else case rr_round fuel malloc s of Aborted w \<Rightarrow> Some (Aborted w) | Returned s' \<Rightarrow> rr_loop n fuel malloc dn s')"

definition rr_main ::
  "nat \<Rightarrow> nat \<Rightarrow> (qheap \<Rightarrow> nat option) \<Rightarrow> (nat \<Rightarrow> nat \<Rightarrow> bool) \<Rightarrow> string list \<Rightarrow> int list \<Rightarrow> rrsim outcome option" where
  "rr_main rounds fuel malloc mem argv input =
     (if length argv > 2 then Some (Aborted ''exit(1)'')
      else if length argv < 2 then Some (Aborted ''exit(2)'')
      else case read_procs mem input sjf_init of
             Aborted w \<Rightarrow> Some (Aborted w)
           | Returned t \<Rightarrow>
               map_option (\<lambda>m. bind_outcome m (\<lambda>s. Returned (on_base sjf_finish s)))
                 (rr_loop rounds fuel malloc False \<lparr>base = sjf_start t, cq = (\<lambda>_. None, None)\<rparr>))"

subsection \<open>What it does\<close>

text \<open>
  C14: the circular linked list is a queue: under the loops of the code, \<open>enqueue\<close> appends to
  the list it stands for, \<open>in_cQueue\<close> tests membership, \<open>delete_begin\<close> drops the first entry
  and moving the head to the next node rotates the list, as long as the fuel of a loop is at
  least the length of the list. Only the last entry is not deleted properly: the head is left
  pointing to the node that has been freed.
\<close>

theorem cqueue_refines_list:
  assumes "good_malloc malloc" and "cq_holds q xs" and "length xs < fuel"
  shows "(\<exists>q'. rr_enqueue fuel malloc p v q = Returned q' \<and> cq_holds q' (xs @ [(p, v)])) \<and>
    in_cQueue fuel p q = Returned (p \<in> fst ` set xs) \<and>
    (length xs \<ge> 2 \<longrightarrow> (\<exists>q'. delete_begin fuel q = Returned q' \<and> cq_holds q' (tl xs))) \<and>
    (xs \<noteq> [] \<longrightarrow> (\<exists>nd. node_at (fst q) (snd q) = Returned nd \<and> cq_holds (fst q, q_next nd) (rotate1 xs))) \<and>
    (length xs = 1 \<longrightarrow> (\<exists>h a. delete_begin fuel q = Returned (h, Some a) \<and> h a = None))"
proof (intro conjI impI)
  show "\<exists>q'. rr_enqueue fuel malloc p v q = Returned q' \<and> cq_holds q' (xs @ [(p, v)])"
    using rr_enqueue_holds [OF assms(1, 2)] assms(3) by simp
  show "in_cQueue fuel p q = Returned (p \<in> fst ` set xs)" using in_cQueue_holds [OF assms(2)] assms(3) by simp
  show "\<exists>q'. delete_begin fuel q = Returned q' \<and> cq_holds q' (tl xs)" if "length xs \<ge> 2"
  proof -
    from that have "xs \<noteq> []" by auto
    then obtain x ys where xs: "xs = x # ys" by (auto simp: neq_Nil_conv)
    with that have "ys \<noteq> []" by auto
    then show ?thesis using delete_begin_holds [of q x ys fuel] assms(2, 3) xs by simp
  qed
  show "\<exists>nd. node_at (fst q) (snd q) = Returned nd \<and> cq_holds (fst q, q_next nd) (rotate1 xs)" if "xs \<noteq> []"
    using advance_head [of "fst q" "snd q" xs] assms(2) that by auto
  show "\<exists>h a. delete_begin fuel q = Returned (h, Some a) \<and> h a = None" if "length xs = 1"
  proof -
    from that obtain x where "xs = [x]" by (auto simp: length_Suc_conv)
    then show ?thesis using delete_begin_last [of q x fuel] assms(2) by simp
  qed
qed

text \<open>An allocator for examples: the first address that is free.\<close>

definition first_free :: "qheap \<Rightarrow> nat option" where
  "first_free h = (if finite (dom h) then Some (LEAST a. h a = None) else None)"

lemma first_free_good: "good_malloc first_free"
proof -
  have "\<exists>a. h a = None" if "finite (dom h)" for h :: qheap
    using ex_new_if_finite [OF infinite_UNIV_nat that] by (auto simp: dom_def)
  then show ?thesis by (auto simp: good_malloc_def first_free_def intro: LeastI_ex)
qed

lemma cq_holds_empty: "cq_holds (\<lambda>_. None, None) []"
  by (simp add: cq_holds_def circular_def)

theorem cqueue_refines_list_witness:
  "\<exists>q1 q2. rr_enqueue 5 first_free 7 3 (\<lambda>_. None, None) = Returned q1 \<and> rr_enqueue 5 first_free 8 4 q1 = Returned q2 \<and> cq_holds q2 [(7, 3), (8, 4)] \<and>
     in_cQueue 5 8 q2 = Returned True"
proof -
  obtain q1 where 1: "rr_enqueue 5 first_free 7 3 (\<lambda>_. None, None) = Returned q1" "cq_holds q1 [(7, 3)]"
    using cqueue_refines_list [OF first_free_good cq_holds_empty, of 5 7 3] by auto
  obtain q2 where 2: "rr_enqueue 5 first_free 8 4 q1 = Returned q2" "cq_holds q2 [(7, 3), (8, 4)]"
    using cqueue_refines_list [OF first_free_good 1(2), of 5 8 4] by auto
  then have "in_cQueue 5 8 q2 = Returned True" using cqueue_refines_list [OF first_free_good 2(2), of 5 8 0] by simp
  then show ?thesis using 1 2 by (intro exI [of _ q1] exI [of _ q2]) blast
qed

lemma rr_loop_never: "rr_loop n fuel malloc False s \<noteq> Some (Returned s')"
proof (induction n arbitrary: s)
  case (Suc n)
  then show ?case by (cases "rr_round fuel malloc s") simp_all
qed simp

text \<open>
  The round-robin simulator never ends. Whatever the input and for however many rounds it
  runs, it never reaches the end of \<open>main\<close>: it leaves the program for want of memory or
  arguments, or follows a bad pointer, or goes on.
\<close>

theorem rr_never_returns:
  "rr_main rounds fuel malloc mem argv input \<noteq> Some (Returned s)"
proof
  assume "rr_main rounds fuel malloc mem argv input = Some (Returned s)"
  then obtain t x where "rr_loop rounds fuel malloc False t = Some (Returned x)"
    by (auto simp: rr_main_def split: if_splits outcome.splits)
  then show False using rr_loop_never by metis
qed
lemma rr_update_queue:
  assumes "cq_holds (cq s) xs" and "length xs \<le> fuel"
  shows "\<exists>s'. rr_update fuel rs s = Returned s' \<and> cq s' = cq s \<and> cpu (base s') = cpu (base s) \<and> proc (base s') = proc (base s) \<and>
    nprocs (base s') = nprocs (base s) \<and> ioDevice (base s') = ioDevice (base s)"
  using assms
proof (induction rs arbitrary: s)
  case (Cons r rs)
  let ?s = "if (int r \<in> fst ` set xs) \<and> int r \<noteq> curr_pid (cpu (base s)) then on_base (upd_log r (waiting_time_update (\<lambda>w. w + 1))) s else s"
  have "cq_holds (cq ?s) xs" using Cons.prems(1) by simp
  from Cons.IH [OF this Cons.prems(2)] obtain s' where
    "rr_update fuel rs ?s = Returned s'" "cq s' = cq s" "cpu (base s') = cpu (base s)" "proc (base s') = proc (base s)"
    "nprocs (base s') = nprocs (base s)" "ioDevice (base s') = ioDevice (base s)" by (auto split: if_splits)
  then show ?case using in_cQueue_holds [OF Cons.prems] by auto
qed simp

text \<open>The last unit of a slice, up to the end of the burst.\<close>

lemma rr_slice_end_unfold:
  assumes "cq_holds (cq s) ((p, l) # xs)" and "length xs < fuel" and "\<not> idle (cpu (base s))" and "time_left (cpu (base s)) = 1"
  shows "\<exists>s1. rr_cpu_phase fuel s =
      bind_outcome (rr_burst_end fuel s1) (\<lambda>s3. bind_outcome (node_at (fst (cq s3)) (snd (cq s3))) (\<lambda>nd. Returned (s3\<lparr>cq := (fst (cq s3), q_next nd)\<rparr>))) \<and>
    cq s1 = cq s \<and> cpu (base s1) = (cpu (base s))\<lparr>idle := True, time_left := 0\<rparr> \<and> proc (base s1) = proc (base s) \<and>
    nprocs (base s1) = nprocs (base s) \<and> ioDevice (base s1) = ioDevice (base s)"
proof -
  have le: "length ((p, l) # xs) \<le> fuel" using assms(2) by simp
  obtain s' where s': "rr_update fuel [0..<nprocs (base s)] s = Returned s'" "cq s' = cq s" "cpu (base s') = cpu (base s)" "proc (base s') = proc (base s)"
    "nprocs (base s') = nprocs (base s)" "ioDevice (base s') = ioDevice (base s)"
    using rr_update_queue [OF assms(1) le] by blast
  show ?thesis
    by (rule exI [of _ "on_base (\<lambda>t. upd_log (nat (curr_pid (cpu t))) (status_update (\<lambda>_. 1)) (t\<lparr>cpu := (cpu t)\<lparr>idle := True\<rparr>\<rparr>))
          (on_base (\<lambda>t. t\<lparr>cpu := (cpu t)\<lparr>time_left := time_left (cpu t) - 1\<rparr>\<rparr>) s')"])
      (simp add: rr_cpu_phase_def assms(3, 4) s' Let_def)
qed

lemma head_node:
  assumes "cq_holds q ((p, l) # xs)"
  shows "\<exists>nd. node_at (fst q) (snd q) = Returned nd \<and> q_pid nd = p \<and> q_left nd = l \<and> cq_holds (fst q, q_next nd) (xs @ [(p, l)])"
  using advance_head [of "fst q" "snd q" "(p, l) # xs"] assms by auto

lemma slice_end_more:
  assumes "cq_holds (cq s) ((p, l) # xs)" and "length xs < fuel"
    and "\<not> idle (cpu (base s))" and "time_left (cpu (base s)) = 1" and "l \<noteq> 0"
  shows "\<exists>s'. rr_cpu_phase fuel s = Returned s' \<and> cq_holds (cq s') (xs @ [(p, l)]) \<and> idle (cpu (base s')) \<and>
    curr_pid (cpu (base s')) = curr_pid (cpu (base s)) \<and> proc (base s') = proc (base s) \<and>
    nprocs (base s') = nprocs (base s) \<and> ioDevice (base s') = ioDevice (base s)"
proof -
  obtain s1 where s1: "rr_cpu_phase fuel s =
      bind_outcome (rr_burst_end fuel s1) (\<lambda>s3. bind_outcome (node_at (fst (cq s3)) (snd (cq s3))) (\<lambda>nd. Returned (s3\<lparr>cq := (fst (cq s3), q_next nd)\<rparr>)))"
    "cq s1 = cq s" "cpu (base s1) = (cpu (base s))\<lparr>idle := True, time_left := 0\<rparr>" "proc (base s1) = proc (base s)"
    "nprocs (base s1) = nprocs (base s)" "ioDevice (base s1) = ioDevice (base s)"
    using rr_slice_end_unfold [OF assms(1-4)] by blast
  obtain nd where nd: "node_at (fst (cq s)) (snd (cq s)) = Returned nd" "q_left nd = l" "cq_holds (fst (cq s), q_next nd) (xs @ [(p, l)])"
    using head_node [OF assms(1)] by blast
  then have "rr_burst_end fuel s1 = Returned s1" using s1(2) assms(5) by (simp add: rr_burst_end_def)
  then show ?thesis using s1 nd by simp
qed

lemma slice_end_last:
  assumes "cq_holds (cq s) [(p, 0)]" and "0 < fuel"
    and "\<not> idle (cpu (base s))" and "time_left (cpu (base s)) = 1"
    and "curr_pid (cpu (base s)) = p" and "proc (base s) (nat p) \<noteq> []"
  shows "rr_cpu_phase fuel s = Aborted ''use after free''"
proof -
  have f: "length [] < fuel" using assms(2) by simp
  obtain s1 where s1: "rr_cpu_phase fuel s =
      bind_outcome (rr_burst_end fuel s1) (\<lambda>s3. bind_outcome (node_at (fst (cq s3)) (snd (cq s3))) (\<lambda>nd. Returned (s3\<lparr>cq := (fst (cq s3), q_next nd)\<rparr>)))"
    "cq s1 = cq s" "cpu (base s1) = (cpu (base s))\<lparr>idle := True, time_left := 0\<rparr>" "proc (base s1) = proc (base s)"
    using rr_slice_end_unfold [OF assms(1) f assms(3, 4)] by blast
  obtain nd where nd: "node_at (fst (cq s)) (snd (cq s)) = Returned nd" "q_left nd = 0" using head_node [OF assms(1)] by blast
  obtain b rest where pr: "proc (base s) (nat p) = b # rest" using assms(6) by (cases "proc (base s) (nat p)") auto
  obtain h a where "delete_begin fuel (cq s) = Returned (h, Some a)" "h a = None" using delete_begin_last assms(1) by blast
  then show ?thesis using s1 nd pr assms(5) by (simp add: rr_burst_end_def node_at_def)
qed

lemma slice_end_next:
  assumes "cq_holds (cq s) ((p, 0) # y # ys)" and "Suc (length ys) < fuel"
    and "\<not> idle (cpu (base s))" and "time_left (cpu (base s)) = 1"
    and "curr_pid (cpu (base s)) = p" and "proc (base s) (nat p) \<noteq> []"
  shows "\<exists>s'. rr_cpu_phase fuel s = Returned s' \<and> cq_holds (cq s') (ys @ [y]) \<and> idle (cpu (base s')) \<and>
    proc (base s') = (proc (base s))(nat p := tl (proc (base s) (nat p)))"
proof -
  have f: "length (y # ys) < fuel" using assms(2) by simp
  obtain s1 where s1: "rr_cpu_phase fuel s =
      bind_outcome (rr_burst_end fuel s1) (\<lambda>s3. bind_outcome (node_at (fst (cq s3)) (snd (cq s3))) (\<lambda>nd. Returned (s3\<lparr>cq := (fst (cq s3), q_next nd)\<rparr>)))"
    "cq s1 = cq s" "cpu (base s1) = (cpu (base s))\<lparr>idle := True, time_left := 0\<rparr>" "proc (base s1) = proc (base s)"
    using rr_slice_end_unfold [OF assms(1) f assms(3, 4)] by blast
  obtain nd where nd: "node_at (fst (cq s)) (snd (cq s)) = Returned nd" "q_left nd = 0" using head_node [OF assms(1)] by blast
  obtain b rest where pr: "proc (base s) (nat p) = b # rest" using assms(6) by (cases "proc (base s) (nat p)") auto
  obtain q where d: "delete_begin fuel (cq s) = Returned q" "cq_holds q (y # ys)"
    using delete_begin_holds [OF assms(1) _ f] by auto
  obtain n2 where "node_at (fst q) (snd q) = Returned n2" "cq_holds (fst q, q_next n2) (ys @ [y])"
    using head_node [of q "fst y" "snd y" ys] d(2) by auto
  then show ?thesis using s1 nd pr assms(5) d by (simp add: rr_burst_end_def)
qed

text \<open>
  The end of a slice of the round-robin simulator. A process that has time left goes from
  the head of the queue to its end. When the burst is finished its node leaves the queue and
  its burst leaves the list of the process, but then the queue is rotated once more: the
  process that was next loses its turn and goes to the end. When nobody else is in the queue,
  the node that has just been freed is read.
\<close>

theorem rr_slice_end:
  assumes "cq_holds (cq s) ((p, l) # xs)" and "length xs < fuel"
    and "\<not> idle (cpu (base s))" and "time_left (cpu (base s)) = 1"
    and "curr_pid (cpu (base s)) = p" and "proc (base s) (nat p) \<noteq> []"
  shows "if l \<noteq> 0 then
       \<exists>s'. rr_cpu_phase fuel s = Returned s' \<and> cq_holds (cq s') (xs @ [(p, l)]) \<and> idle (cpu (base s')) \<and> proc (base s') = proc (base s)
     else if xs \<noteq> [] then
       \<exists>s'. rr_cpu_phase fuel s = Returned s' \<and> cq_holds (cq s') (tl xs @ [hd xs]) \<and> idle (cpu (base s')) \<and>
         proc (base s') = (proc (base s))(nat p := tl (proc (base s) (nat p)))
     else rr_cpu_phase fuel s = Aborted ''use after free''"
proof (cases "l = 0")
  case False
  then show ?thesis using slice_end_more [OF assms(1-4)] by auto
next
  case True
  then show ?thesis
    using slice_end_last [of s p fuel] slice_end_next [of s p "hd xs" "tl xs" fuel] assms by (cases xs) auto
qed

theorem rr_slice_end_witness:
  "\<exists>s s'. cq_holds (cq s) [(0, 0), (1, 4), (2, 5)] \<and> rr_cpu_phase 5 s = Returned s' \<and> cq_holds (cq s') [(2, 5), (1, 4)] \<and> proc (base s') 0 = []"
proof -
  define s where "s = \<lparr>base = sjf_init\<lparr>cpu := \<lparr>idle = False, curr_pid = 0, time_left = 1\<rparr>,
      proc := (\<lambda>_. [\<lparr>val = 0, btype = CpuBurst, age = 0\<rparr>])\<rparr>,
    cq = ([0 \<mapsto> \<lparr>q_pid = 0, q_left = 0, q_next = Some (Suc 0)\<rparr>, Suc 0 \<mapsto> \<lparr>q_pid = 1, q_left = 4, q_next = Some 2\<rparr>,
           2 \<mapsto> \<lparr>q_pid = 2, q_left = 5, q_next = Some 0\<rparr>], Some (0::nat))\<rparr>"
  have "circular (fst (cq s)) [0, Suc 0, 2] [(0, 0), (1, 4), (2, 5)]"
    by (auto simp: circular_def s_def less_Suc_eq)
  then have c: "cq_holds (cq s) [(0, 0), (1, 4), (2, 5)]"
    unfolding cq_holds_def by (intro conjI exI [of _ "[0, Suc 0, 2]"]) (simp_all add: s_def)
  obtain s' where s': "rr_cpu_phase 5 s = Returned s'" "cq_holds (cq s') [(2, 5), (1, 4)]"
      "proc (base s') = (proc (base s))(0 := [])"
    using rr_slice_end [OF c, of 5] by (auto simp: s_def)
  have "proc (base s') 0 = []" using s'(3) by simp
  then show ?thesis using c s'(1, 2) by blast
qed

subsection \<open>One process\<close>

definition lone :: "int \<Rightarrow> rrsim \<Rightarrow> bool" where
  "lone b s \<longleftrightarrow> nprocs (base s) = 1 \<and> idle (ioDevice (base s)) \<and> (\<exists>nd. proc (base s) 0 = [nd] \<and> btype nd = CpuBurst) \<and>
     cq_holds (cq s) [(0, b)]"

lemma lone_fill: "lone b s \<Longrightarrow> 2 \<le> fuel \<Longrightarrow> rr_fill fuel malloc s = Returned s"
  using in_cQueue_holds [of "cq s" "[(0, b)]" fuel 0]
  by (auto simp: lone_def rr_fill_def rr_fill_one_def)

lemma lone_print: "lone b s \<Longrightarrow> 2 \<le> fuel \<Longrightarrow> printstuff fuel s = Returned s"
proof -
  assume l: "lone b s" "2 \<le> fuel"
  obtain h head where q: "cq s = (h, head)" by fastforce
  obtain as where c: "circular h as [(0, b)]" "head = (if as = [] then None else Some (hd as))" using l q by (auto simp: lone_def cq_holds_def)
  have "as \<noteq> []" using c by (auto simp: circular_def)
  then show ?thesis using circular_tail [OF c(1), of fuel] l(2) c(2) q by (simp add: printstuff_def)
qed

lemma lone_io: "lone b s \<Longrightarrow> rr_io_phase s = Returned s"
  by (auto simp: lone_def rr_io_phase_def)

text \<open>The two rounds of a slice of two units.\<close>

lemma lone_dispatch:
  assumes "lone b s" and "idle (cpu (base s))" and "2 \<le> b" and "2 \<le> fuel"
  shows "\<exists>s'. rr_round fuel malloc s = Returned s' \<and> lone (b - 2) s' \<and> \<not> idle (cpu (base s')) \<and> time_left (cpu (base s')) = 1 \<and> curr_pid (cpu (base s')) = 0"
proof -
  obtain h head where q: "cq s = (h, head)" by fastforce
  obtain n2 where nd: "node_at h head = Returned n2" "q_pid n2 = 0" "q_left n2 = b"
    using head_node [of "cq s" 0 b "[]"] assms(1) q by (auto simp: lone_def)
  obtain a where a: "head = Some a" using nd(1) by (cases head) (auto simp: node_at_def)
  have cqa: "cq_holds (h, Some a) [(0, b)]" using assms(1) q a by (simp add: lone_def)
  obtain n3 where n3: "h a = Some n3" "cq_holds (h(a \<mapsto> n3\<lparr>q_left := b - 2\<rparr>), Some a) [(0, b - 2)]"
    using set_head_left [OF cqa, of "b - 2"] by blast
  have n23: "n3 = n2" using nd(1) n3(1) a by (simp add: node_at_def)
  obtain pn where pn: "proc (base s) 0 = [pn]" "btype pn = CpuBurst" using assms(1) by (auto simp: lone_def)
  have "\<exists>s'. rr_cpu_phase fuel s = Returned s' \<and> lone (b - 2) s' \<and> \<not> idle (cpu (base s')) \<and> time_left (cpu (base s')) = 1 \<and> curr_pid (cpu (base s')) = 0"
    using assms nd n3 n23 a q pn
    by (cases "b = 2") (simp_all add: rr_cpu_phase_def rr_dispatch_def find_min_def time_quantum_def Let_def lone_def)
  then obtain s1 where s1: "rr_cpu_phase fuel s = Returned s1" "lone (b - 2) s1" "\<not> idle (cpu (base s1))" "time_left (cpu (base s1)) = 1" "curr_pid (cpu (base s1)) = 0" by blast
  then show ?thesis
    using lone_fill [OF assms(1, 4)] lone_io [OF s1(2)] lone_print [OF s1(2) assms(4)]
    by (auto simp: rr_round_def lone_def)
qed

lemma lone_slice_end:
  assumes "lone b s" and "\<not> idle (cpu (base s))" and "time_left (cpu (base s)) = 1" and "b \<noteq> 0" and "2 \<le> fuel"
  shows "\<exists>s'. rr_round fuel malloc s = Returned s' \<and> lone b s' \<and> idle (cpu (base s'))"
proof -
  have "cq_holds (cq s) [(0, b)]" "length [] < fuel" using assms(1, 5) by (simp_all add: lone_def)
  from slice_end_more [OF this assms(2-4)] obtain s1 where
    s1: "rr_cpu_phase fuel s = Returned s1" "lone b s1" "idle (cpu (base s1))" using assms(1) by (auto simp: lone_def)
  then show ?thesis
    using lone_fill [OF assms(1, 5)] lone_io [OF s1(2)] lone_print [OF s1(2) assms(5)]
    by (auto simp: rr_round_def lone_def)
qed

lemma lone_finish:
  assumes "lone 0 s" and "\<not> idle (cpu (base s))" and "time_left (cpu (base s)) = 1" and "curr_pid (cpu (base s)) = 0" and "2 \<le> fuel"
  shows "rr_round fuel malloc s = Aborted ''use after free''"
proof -
  have "cq_holds (cq s) [(0, 0)]" "0 < fuel" "proc (base s) (nat 0) \<noteq> []" using assms(1, 5) by (auto simp: lone_def)
  then have "rr_cpu_phase fuel s = Aborted ''use after free''" using slice_end_last assms(2-4) by blast
  then show ?thesis using lone_fill [OF assms(1, 5)] by (simp add: rr_round_def)
qed

text \<open>A burst of one unit is over in the round it begins; the report of that round follows the dangling head.\<close>

lemma lone_unit:
  assumes "lone 1 s" and "idle (cpu (base s))" and "2 \<le> fuel"
  shows "rr_round fuel malloc s = Aborted ''use after free''"
proof -
  obtain h head where q: "cq s = (h, head)" by fastforce
  obtain n2 where nd: "node_at h head = Returned n2" "q_pid n2 = 0" "q_left n2 = 1"
    using head_node [of "cq s" 0 1 "[]"] assms(1) q by (auto simp: lone_def)
  obtain a where a: "head = Some a" using nd(1) by (cases head) (auto simp: node_at_def)
  have cqa: "cq_holds (h, Some a) [(0, 1)]" using assms(1) q a by (simp add: lone_def)
  obtain n3 where n3: "h a = Some n3" "cq_holds (h(a \<mapsto> n3\<lparr>q_left := 0\<rparr>), Some a) [(0, 0)]"
    using set_head_left [OF cqa, of 0] by blast
  have n23: "n3 = n2" using nd(1) n3(1) a by (simp add: node_at_def)
  obtain h1 a1 where d: "delete_begin fuel (h(a \<mapsto> n2\<lparr>q_left := 0\<rparr>), Some a) = Returned (h1, Some a1)" "h1 a1 = None"
    using delete_begin_last n3(2) n23 by blast
  obtain pn where pn: "proc (base s) 0 = [pn]" "btype pn = CpuBurst" using assms(1) by (auto simp: lone_def)
  have n: "nprocs (base s) = 1" "idle (ioDevice (base s))" using assms(1) by (auto simp: lone_def)
  have "\<exists>s1. rr_cpu_phase fuel s = Returned s1 \<and> cq s1 = (h1, Some a1) \<and> nprocs (base s1) = 1 \<and>
      curr_pid (cpu (base s1)) = 0 \<and> idle (ioDevice (base s1))"
    using assms nd a q pn d n
    by (cases "first_time (processLog (base s) 0) = - 1") (simp_all add: rr_cpu_phase_def rr_dispatch_def rr_burst_end_def find_min_def time_quantum_def Let_def node_at_def)
  then obtain s1 where s1: "rr_cpu_phase fuel s = Returned s1" "cq s1 = (h1, Some a1)" "nprocs (base s1) = 1"
      "curr_pid (cpu (base s1)) = 0" "idle (ioDevice (base s1))" by blast
  have io: "rr_io_phase s1 = Returned s1" using s1 by (simp add: rr_io_phase_def)
  obtain f where f: "fuel = Suc f" using assms(3) by (cases fuel) auto
  have "printstuff fuel s1 = Aborted ''use after free''" using s1 d(2) f by (simp add: printstuff_def node_at_def)
  then show ?thesis using lone_fill [OF assms(1, 3)] s1(1) io by (simp add: rr_round_def)
qed

lemma lone_crash:
  "lone b s \<Longrightarrow> idle (cpu (base s)) \<Longrightarrow> 1 \<le> b \<Longrightarrow> 2 \<le> fuel \<Longrightarrow>
     \<exists>n. rr_loop n fuel malloc False s = Some (Aborted ''use after free'')"
proof (induction "nat b" arbitrary: b s rule: less_induct)
  case less
  show ?case
  proof (cases "b = 1")
    case True
    then show ?thesis using lone_unit [of s fuel] less.prems by (intro exI [of _ "Suc 0"]) simp
  next
    case False
    then have "2 \<le> b" using less.prems(3) by simp
    from lone_dispatch [OF less.prems(1, 2) this less.prems(4)] obtain s1 where
      s1: "rr_round fuel malloc s = Returned s1" "lone (b - 2) s1" "\<not> idle (cpu (base s1))" "time_left (cpu (base s1)) = 1" "curr_pid (cpu (base s1)) = 0" by blast
    show ?thesis
    proof (cases "b = 2")
      case True
      then have "rr_round fuel malloc s1 = Aborted ''use after free''" using lone_finish [OF _ s1(3-5) less.prems(4)] s1(2) by simp
      then show ?thesis using s1(1) by (intro exI [of _ "Suc (Suc 0)"]) simp
    next
      case F: False
      then obtain s2 where s2: "rr_round fuel malloc s1 = Returned s2" "lone (b - 2) s2" "idle (cpu (base s2))"
        using lone_slice_end [OF s1(2-4) _ less.prems(4)] by auto
      have "nat (b - 2) < nat b" "1 \<le> b - 2" using \<open>2 \<le> b\<close> F by auto
      from less.hyps [OF this(1) s2(2, 3) this(2) less.prems(4)] obtain n where
        "rr_loop n fuel malloc False s2 = Some (Aborted ''use after free'')" by blast
      then show ?thesis using s1(1) s2(1) by (intro exI [of _ "Suc (Suc n)"]) simp
    qed
  qed
qed

text \<open>
  The simplest input of all makes the round-robin simulator follow a pointer to memory it
  has freed: one process with a single CPU burst of \<open>b\<close> units. After the burst its node is
  freed, but \<open>cpuQueueHead\<close> still points to it.
\<close>

theorem rr_lone_process_crashes:
  assumes "good_malloc malloc" and "1 \<le> b" and "2 \<le> fuel"
  shows "\<exists>rounds. rr_main rounds fuel malloc (\<lambda>_ _. True) [prog, input_file] [arrival, b, - 1] = Some (Aborted ''use after free'')"
proof -
  have "workload_ok [(arrival, [b])]" using assms(2) by (simp add: workload_ok_def MAX_PROCESSES_def)
  from read_encode [OF this] obtain t where
    t: "read_procs (\<lambda>_ _. True) [arrival, b, - 1] sjf_init = Returned t" "loaded [(arrival, [b])] t"
    by (auto simp: encode_def)
  define s where "s = \<lparr>base = sjf_start t, cq = (\<lambda>_. None, None)\<rparr>"
  have p: "proc (base s) 0 = [\<lparr>val = b, btype = CpuBurst, age = 0\<rparr>]" "nprocs (base s) = 1" "idle (ioDevice (base s))" "idle (cpu (base s))"
    using t(2) by (simp_all add: s_def sjf_start_def loaded_def burst_nodes_def)
  obtain q where q: "rr_enqueue fuel malloc 0 b (cq s) = Returned q" "cq_holds q [(0, b)]"
    using rr_enqueue_holds [OF assms(1) cq_holds_empty, of fuel 0 b] by (auto simp: s_def)
  have fill: "rr_fill fuel malloc s = Returned (s\<lparr>cq := q\<rparr>)" "lone b (s\<lparr>cq := q\<rparr>)"
    using p q by (simp_all add: rr_fill_def rr_fill_one_def lone_def in_cQueue_def s_def)
  then have "rr_round fuel malloc s = rr_round fuel malloc (s\<lparr>cq := q\<rparr>)"
    using lone_fill [OF fill(2) assms(3), of malloc] by (simp add: rr_round_def)
  moreover obtain n where n: "rr_loop n fuel malloc False (s\<lparr>cq := q\<rparr>) = Some (Aborted ''use after free'')"
    using lone_crash [OF fill(2) _ assms(2, 3)] p(4) by auto
  ultimately have "rr_loop n fuel malloc False s = Some (Aborted ''use after free'')" by (cases n) simp_all
  then show ?thesis using t(1) by (intro exI [of _ n]) (simp add: rr_main_def s_def)
qed

theorem rr_lone_process_crashes_witness:
  "\<exists>rounds. rr_main rounds 2 first_free (\<lambda>_ _. True) [''rr'', ''input.txt''] [0, 5, - 1] = Some (Aborted ''use after free'')"
  using rr_lone_process_crashes [OF first_free_good, of 5 2 "''rr''" "''input.txt''" 0] by simp

end
