(* ===== verification/Paging.thy ===== *)
theory Paging
  imports Prelude
begin

text \<open>
  The page replacement programs of Assignment 08: \<open>fifo.cpp\<close>, \<open>lru.cpp\<close> and \<open>random.cpp\<close>.
  The page table is the vector of the code, the pages in memory are the queue of \<open>fifo.cpp\<close>
  and the vector of \<open>lru.cpp\<close>; \<open>random.cpp\<close> keeps the page table only. An access outside a
  vector, the front of an empty queue and a vector of negative length are outcomes of their
  own. The numbers of \<open>rand()\<close> are a parameter, and its search for a victim has fuel.
\<close>

subsection \<open>The programs\<close>

record paging =
  pageTable :: "int list"
  resident :: "int list"
  pageFaults :: int
  hit :: int

definition table_get :: "int list \<Rightarrow> int \<Rightarrow> int outcome" where
  "table_get t p = (if 0 \<le> p \<and> nat p < length t then Returned (t ! nat p) else Aborted ''out of bounds'')"

definition paging_init :: "int \<Rightarrow> paging outcome" where
  "paging_init pages =
     (if pages < 0 then Aborted ''length_error''
      else Returned \<lparr>pageTable = replicate (nat pages) (- 1), resident = [], pageFaults = 0, hit = 0\<rparr>)"

text \<open>\<open>q.size() == frames\<close> compares an unsigned number of 64 bits with an \<open>int\<close>.\<close>

definition size_is :: "int list \<Rightarrow> int \<Rightarrow> bool" where
  "size_is q frames \<longleftrightarrow> int (length q) = frames mod 2 ^ 64"

definition fifo_evict :: "int \<Rightarrow> paging \<Rightarrow> paging outcome" where
  "fifo_evict frames s =
     (if size_is (resident s) frames then
        (case resident s of
           [] \<Rightarrow> Aborted ''front of an empty queue''
         | victimPage # q \<Rightarrow> Returned (s\<lparr>pageTable := (pageTable s)[nat victimPage := - 1], resident := q\<rparr>))
      else Returned s)"

definition fifo_request :: "int \<Rightarrow> int \<Rightarrow> paging \<Rightarrow> paging outcome" where
  "fifo_request frames r s =
     (let page = r - 1
      in bind_outcome (table_get (pageTable s) page) (\<lambda>e.
        if e = - 1 then
          bind_outcome (fifo_evict frames (s\<lparr>pageFaults := pageFaults s + 1\<rparr>)) (\<lambda>s1.
            Returned (s1\<lparr>resident := resident s1 @ [page], pageTable := (pageTable s1)[nat page := 1]\<rparr>))
        else Returned (s\<lparr>hit := hit s + 1\<rparr>)))"

definition lru_evict :: "int \<Rightarrow> paging \<Rightarrow> paging outcome" where
  "lru_evict frames s =
     (if size_is (resident s) frames then
        (if resident s = [] then Aborted ''back of an empty vector''
         else Returned (s\<lparr>pageTable := (pageTable s)[nat (last (resident s)) := - 1], resident := butlast (resident s)\<rparr>))
      else Returned s)"

text \<open>\<open>erase(find(\<dots>))\<close> removes the first occurrence; at the end of the vector it is not defined.\<close>

definition lru_request :: "int \<Rightarrow> int \<Rightarrow> paging \<Rightarrow> paging outcome" where
  "lru_request frames r s =
     (let page = r - 1
      in bind_outcome (table_get (pageTable s) page) (\<lambda>e.
        if e = - 1 then
          bind_outcome (lru_evict frames (s\<lparr>pageFaults := pageFaults s + 1\<rparr>)) (\<lambda>s1.
            Returned (s1\<lparr>resident := page # resident s1, pageTable := (pageTable s1)[nat page := 1]\<rparr>))
        else if page \<in> set (resident s) then
          Returned (s\<lparr>hit := hit s + 1, resident := page # remove1 page (resident s)\<rparr>)
        else Aborted ''erase at the end''))"

text \<open>The state of \<open>random.cpp\<close>: no list, but the number of random numbers drawn.\<close>

record rpaging =
  rtable :: "int list"
  rfaults :: int
  rhits :: int
  drawn :: nat

fun victim_loop :: "nat \<Rightarrow> (nat \<Rightarrow> nat) \<Rightarrow> int \<Rightarrow> int list \<Rightarrow> int \<Rightarrow> nat \<Rightarrow> (int \<times> nat) outcome" where
  "victim_loop 0 rnd pages t victimPage n = Aborted ''fuel''"
| "victim_loop (Suc fuel) rnd pages t victimPage n =
     bind_outcome (table_get t victimPage) (\<lambda>e.
       if e \<noteq> 1 then victim_loop fuel rnd pages t (int (rnd n) mod pages) (n + 1) else Returned (victimPage, n))"

definition random_evict :: "nat \<Rightarrow> (nat \<Rightarrow> nat) \<Rightarrow> int \<Rightarrow> int \<Rightarrow> rpaging \<Rightarrow> rpaging outcome" where
  "random_evict fuel rnd pages frames s =
     (if int (count_list (rtable s) 1) = frames then
        bind_outcome (victim_loop fuel rnd pages (rtable s) (int (rnd (drawn s)) mod pages) (drawn s + 1)) (\<lambda>(v, n).
          Returned (s\<lparr>rtable := (rtable s)[nat v := - 1], drawn := n\<rparr>))
      else Returned s)"

definition random_request :: "nat \<Rightarrow> (nat \<Rightarrow> nat) \<Rightarrow> int \<Rightarrow> int \<Rightarrow> int \<Rightarrow> rpaging \<Rightarrow> rpaging outcome" where
  "random_request fuel rnd pages frames page s =
     bind_outcome (table_get (rtable s) page) (\<lambda>e.
       if e = - 1 then
         bind_outcome (random_evict fuel rnd pages frames (s\<lparr>rfaults := rfaults s + 1\<rparr>)) (\<lambda>s1.
           Returned (s1\<lparr>rtable := (rtable s1)[nat page := 1]\<rparr>))
       else Returned (s\<lparr>rhits := rhits s + 1\<rparr>))"

fun requests_loop :: "(int \<Rightarrow> 's \<Rightarrow> 's outcome) \<Rightarrow> int list \<Rightarrow> 's \<Rightarrow> 's outcome" where
  "requests_loop step [] s = Returned s"
| "requests_loop step (r # rs) s = bind_outcome (step r s) (requests_loop step rs)"

definition FIFO :: "int \<Rightarrow> int \<Rightarrow> int list \<Rightarrow> paging outcome" where
  "FIFO pages frames requests = bind_outcome (paging_init pages) (requests_loop (fifo_request frames) requests)"

definition LRU :: "int \<Rightarrow> int \<Rightarrow> int list \<Rightarrow> paging outcome" where
  "LRU pages frames requests = bind_outcome (paging_init pages) (requests_loop (lru_request frames) requests)"

definition Random :: "nat \<Rightarrow> (nat \<Rightarrow> nat) \<Rightarrow> int \<Rightarrow> int \<Rightarrow> int list \<Rightarrow> rpaging outcome" where
  "Random fuel rnd pages frames requests =
     (if pages < 0 then Aborted ''length_error''
      else requests_loop (random_request fuel rnd pages frames) requests
             \<lparr>rtable = replicate (nat pages) (- 1), rfaults = 0, rhits = 0, drawn = 0\<rparr>)"

text \<open>
  The three \<open>main\<close> functions: the number of arguments, the three numbers \<open>atoi\<close> finds in them
  and the requests in the file.
\<close>

definition paging_main :: "(int \<Rightarrow> int \<Rightarrow> int list \<Rightarrow> 's outcome) \<Rightarrow> int \<Rightarrow> int \<Rightarrow> int \<Rightarrow> int \<Rightarrow> int list \<Rightarrow> 's outcome" where
  "paging_main policy argc pages frames blocks requests =
     (if argc \<noteq> 5 then Aborted ''exit(2)''
      else if blocks < pages then Aborted ''exit(1)''
      else policy pages frames requests)"

definition fifo_main :: "int \<Rightarrow> int \<Rightarrow> int \<Rightarrow> int \<Rightarrow> int list \<Rightarrow> paging outcome" where
  "fifo_main = paging_main FIFO"

definition lru_main :: "int \<Rightarrow> int \<Rightarrow> int \<Rightarrow> int \<Rightarrow> int list \<Rightarrow> paging outcome" where
  "lru_main = paging_main LRU"

definition random_main :: "nat \<Rightarrow> (nat \<Rightarrow> nat) \<Rightarrow> int \<Rightarrow> int \<Rightarrow> int \<Rightarrow> int \<Rightarrow> int list \<Rightarrow> rpaging outcome" where
  "random_main fuel rnd = paging_main (Random fuel rnd)"

subsection \<open>What every policy does\<close>

text \<open>
  A policy keeps at most as many pages in memory as there are frames. A request for a page in
  memory is a hit, which changes nothing; any other is a fault, which brings in the page, no
  other page, and removes one only when the memory is full.
\<close>

locale replacement =
  fixes step :: "int \<Rightarrow> 's \<Rightarrow> 's outcome" and mem :: "'s \<Rightarrow> int set" and faults :: "'s \<Rightarrow> int" and hits :: "'s \<Rightarrow> int"
    and ok :: "'s \<Rightarrow> bool" and valid :: "int \<Rightarrow> bool" and frames :: nat
  assumes step_ok: "ok s \<Longrightarrow> valid r \<Longrightarrow> \<exists>s'. step r s = Returned s' \<and> ok s' \<and>
      (if r \<in> mem s then mem s' = mem s \<and> faults s' = faults s \<and> hits s' = hits s + 1
       else r \<in> mem s' \<and> mem s' \<subseteq> insert r (mem s) \<and> faults s' = faults s + 1 \<and> hits s' = hits s \<and>
         (card (mem s) < frames \<longrightarrow> mem s' = insert r (mem s)))"
    and mem_ok: "ok s \<Longrightarrow> finite (mem s) \<and> card (mem s) \<le> frames"
begin

lemma run_counts:
  assumes "ok s" and "\<forall>r \<in> set rs. valid r"
  shows "\<exists>s'. requests_loop step rs s = Returned s' \<and> ok s' \<and>
    faults s' + hits s' = faults s + hits s + int (length rs) \<and>
    faults s' \<ge> faults s + int (card (set rs - mem s)) \<and>
    (card (mem s \<union> set rs) \<le> frames \<longrightarrow> faults s' = faults s + int (card (set rs - mem s)))"
  using assms
proof (induction rs arbitrary: s)
  case (Cons r rs)
  obtain s1 where s1: "step r s = Returned s1" "ok s1"
    "if r \<in> mem s then mem s1 = mem s \<and> faults s1 = faults s \<and> hits s1 = hits s + 1
     else r \<in> mem s1 \<and> mem s1 \<subseteq> insert r (mem s) \<and> faults s1 = faults s + 1 \<and> hits s1 = hits s \<and>
       (card (mem s) < frames \<longrightarrow> mem s1 = insert r (mem s))"
    using step_ok [OF Cons.prems(1), of r] Cons.prems(2) by auto
  from Cons.IH [OF s1(2)] Cons.prems(2) obtain s2 where s2: "requests_loop step rs s1 = Returned s2" "ok s2"
    "faults s2 + hits s2 = faults s1 + hits s1 + int (length rs)"
    "faults s2 \<ge> faults s1 + int (card (set rs - mem s1))"
    "card (mem s1 \<union> set rs) \<le> frames \<longrightarrow> faults s2 = faults s1 + int (card (set rs - mem s1))" by auto
  have fin: "finite (mem s)" using mem_ok [OF Cons.prems(1)] by simp
  show ?case
  proof (cases "r \<in> mem s")
    case True
    then have m: "mem s1 = mem s" "set (r # rs) - mem s = set rs - mem s" "mem s \<union> set (r # rs) = mem s \<union> set rs" using s1(3) by auto
    show ?thesis using s1 s2 True unfolding m by simp
  next
    case False
    then have f: "r \<in> mem s1" "mem s1 \<subseteq> insert r (mem s)" "faults s1 = faults s + 1" "hits s1 = hits s"
      "card (mem s) < frames \<longrightarrow> mem s1 = insert r (mem s)" using s1(3) by auto
    have "set (r # rs) - mem s = insert r (set rs - insert r (mem s))" using False by auto
    then have c: "card (set (r # rs) - mem s) = Suc (card (set rs - insert r (mem s)))" by simp
    have "card (set rs - insert r (mem s)) \<le> card (set rs - mem s1)" using f(2) by (intro card_mono) auto
    then have low: "faults s2 \<ge> faults s + int (card (set (r # rs) - mem s))" using s2(4) f(3) c by simp
    have "faults s2 = faults s + int (card (set (r # rs) - mem s))" if "card (mem s \<union> set (r # rs)) \<le> frames"
    proof -
      have "mem s \<subset> mem s \<union> set (r # rs)" using False by auto
      then have "card (mem s) < card (mem s \<union> set (r # rs))" using fin by (intro psubset_card_mono) auto
      then have m: "mem s1 = insert r (mem s)" using that f(5) by simp
      have "mem s1 \<union> set rs = mem s \<union> set (r # rs)" using m by auto
      then show ?thesis using s2(5) that f(3) c m by simp
    qed
    then show ?thesis using s1(1) s2 low f(3, 4) by simp
  qed
qed simp

end

subsection \<open>The page table\<close>

text \<open>The table of \<open>pages\<close> entries says which pages are in memory.\<close>

definition tbl :: "int \<Rightarrow> int list \<Rightarrow> int set \<Rightarrow> bool" where
  "tbl pages t R \<longleftrightarrow> length t = nat pages \<and> (\<forall>i < length t. t ! i = (if int i \<in> R then 1 else - 1))"

lemma tbl_get: "tbl pages t R \<Longrightarrow> 0 \<le> p \<Longrightarrow> p < pages \<Longrightarrow> table_get t p = Returned (if p \<in> R then 1 else - 1)"
  by (simp add: tbl_def table_get_def nat_less_iff)

lemma upd_nth: "i < length t \<Longrightarrow> t[k := x] ! i = (if i = k then x else t ! i)"
  by (cases "i = k") simp_all

lemma tbl_add: "tbl pages t R \<Longrightarrow> 0 \<le> p \<Longrightarrow> tbl pages (t[nat p := 1]) (insert p R)"
  by (auto simp: tbl_def upd_nth)

lemma tbl_del: "tbl pages t R \<Longrightarrow> 0 \<le> v \<Longrightarrow> tbl pages (t[nat v := - 1]) (R - {v})"
  by (auto simp: tbl_def upd_nth)

lemma tbl_init: "0 \<le> pages \<Longrightarrow> tbl pages (replicate (nat pages) (- 1)) {}"
  by (simp add: tbl_def)

text \<open>What holds of the state of \<open>fifo.cpp\<close> and \<open>lru.cpp\<close> after every request.\<close>

definition paging_ok :: "int \<Rightarrow> int \<Rightarrow> paging \<Rightarrow> bool" where
  "paging_ok pages frames s \<longleftrightarrow> tbl pages (pageTable s) (set (resident s)) \<and> distinct (resident s) \<and>
     (\<forall>p \<in> set (resident s). 0 \<le> p \<and> p < pages) \<and> length (resident s) \<le> nat frames"

definition frames_ok :: "int \<Rightarrow> bool" where
  "frames_ok frames \<longleftrightarrow> 0 < frames \<and> frames < 2 ^ 31"

definition in_memory :: "paging \<Rightarrow> int set" where
  "in_memory s = (\<lambda>p. p + 1) ` set (resident s)"

lemma in_memory_iff: "r \<in> in_memory s \<longleftrightarrow> r - 1 \<in> set (resident s)"
  by (force simp: in_memory_def)

lemma in_memory_card: "paging_ok pages frames s \<Longrightarrow> card (in_memory s) = length (resident s)"
  by (simp add: paging_ok_def in_memory_def card_image distinct_card)

lemma size_is_frames: "frames_ok frames \<Longrightarrow> size_is q frames \<longleftrightarrow> length q = nat frames"
  by (auto simp: size_is_def frames_ok_def)

lemma paging_init_ok:
  "0 \<le> pages \<Longrightarrow> \<exists>s. paging_init pages = Returned s \<and> paging_ok pages frames s \<and> resident s = [] \<and> pageFaults s = 0 \<and> hit s = 0"
  by (simp add: paging_init_def paging_ok_def tbl_init)

text \<open>One request of \<open>fifo.cpp\<close> and what it does to the queue.\<close>

lemma fifo_request_ok:
  assumes "paging_ok pages frames s" and "frames_ok frames" and "1 \<le> r" and "r \<le> pages"
  shows "\<exists>s'. fifo_request frames r s = Returned s' \<and> paging_ok pages frames s' \<and>
    (if r - 1 \<in> set (resident s) then resident s' = resident s \<and> pageFaults s' = pageFaults s \<and> hit s' = hit s + 1
     else resident s' = (if length (resident s) = nat frames then tl (resident s) else resident s) @ [r - 1] \<and>
       pageFaults s' = pageFaults s + 1 \<and> hit s' = hit s)"
proof (cases "r - 1 \<in> set (resident s)")
  case True
  then show ?thesis using assms tbl_get [of pages "pageTable s" "set (resident s)" "r - 1"]
    by (simp add: fifo_request_def paging_ok_def Let_def)
next
  case False
  then have g: "table_get (pageTable s) (r - 1) = Returned (- 1)"
    using assms tbl_get [of pages "pageTable s" "set (resident s)" "r - 1"] by (simp add: paging_ok_def)
  show ?thesis
  proof (cases "length (resident s) = nat frames")
    case full: True
    then obtain v q where q: "resident s = v # q" using assms(2) by (cases "resident s") (auto simp: frames_ok_def)
    have "tbl pages ((pageTable s)[nat v := - 1]) (set (resident s) - {v})"
      using assms(1) q by (intro tbl_del) (auto simp: paging_ok_def)
    moreover have "set (resident s) - {v} = set q" using assms(1) q by (auto simp: paging_ok_def)
    ultimately have "tbl pages ((pageTable s)[nat v := - 1, nat (r - 1) := 1]) (insert (r - 1) (set q))"
      using tbl_add assms(3) by simp
    then show ?thesis using g False full q assms
      by (auto simp: fifo_request_def fifo_evict_def size_is_frames paging_ok_def Let_def)
  next
    case room: False
    have "tbl pages ((pageTable s)[nat (r - 1) := 1]) (insert (r - 1) (set (resident s)))"
      using assms(1, 3) by (intro tbl_add) (auto simp: paging_ok_def)
    then show ?thesis using g False room assms
      by (auto simp: fifo_request_def fifo_evict_def size_is_frames paging_ok_def Let_def)
  qed
qed

lemma lru_request_ok:
  assumes "paging_ok pages frames s" and "frames_ok frames" and "1 \<le> r" and "r \<le> pages"
  shows "\<exists>s'. lru_request frames r s = Returned s' \<and> paging_ok pages frames s' \<and>
    (if r - 1 \<in> set (resident s) then resident s' = (r - 1) # remove1 (r - 1) (resident s) \<and> pageFaults s' = pageFaults s \<and> hit s' = hit s + 1
     else resident s' = (r - 1) # (if length (resident s) = nat frames then butlast (resident s) else resident s) \<and>
       pageFaults s' = pageFaults s + 1 \<and> hit s' = hit s)"
proof (cases "r - 1 \<in> set (resident s)")
  case True
  have d: "distinct (resident s)" using assms(1) by (simp add: paging_ok_def)
  have "insert (r - 1) (set (remove1 (r - 1) (resident s))) = set (resident s)" using True d by auto
  moreover have "length (remove1 (r - 1) (resident s)) = length (resident s) - 1" "0 < length (resident s)"
    using True by (auto simp: length_remove1)
  ultimately show ?thesis using True d assms tbl_get [of pages "pageTable s" "set (resident s)" "r - 1"]
    by (auto simp: lru_request_def paging_ok_def Let_def)
next
  case False
  then have g: "table_get (pageTable s) (r - 1) = Returned (- 1)"
    using assms tbl_get [of pages "pageTable s" "set (resident s)" "r - 1"] by (simp add: paging_ok_def)
  show ?thesis
  proof (cases "length (resident s) = nat frames")
    case full: True
    then have ne: "resident s \<noteq> []" using assms(2) by (auto simp: frames_ok_def)
    then obtain q v where q: "resident s = q @ [v]" by (cases "resident s" rule: rev_cases) auto
    have "tbl pages ((pageTable s)[nat v := - 1]) (set (resident s) - {v})"
      using assms(1) q by (intro tbl_del) (auto simp: paging_ok_def)
    moreover have "set (resident s) - {v} = set q" using assms(1) q by (auto simp: paging_ok_def)
    ultimately have "tbl pages ((pageTable s)[nat v := - 1, nat (r - 1) := 1]) (insert (r - 1) (set q))"
      using tbl_add assms(3) by simp
    then show ?thesis using g False full q assms
      by (auto simp: lru_request_def lru_evict_def size_is_frames paging_ok_def Let_def)
  next
    case room: False
    have "tbl pages ((pageTable s)[nat (r - 1) := 1]) (insert (r - 1) (set (resident s)))"
      using assms(1, 3) by (intro tbl_add) (auto simp: paging_ok_def)
    then show ?thesis using g False room assms
      by (auto simp: lru_request_def lru_evict_def size_is_frames paging_ok_def Let_def)
  qed
qed

interpretation fifo: replacement "fifo_request frames" in_memory pageFaults hit
  "\<lambda>s. frames_ok frames \<and> paging_ok pages frames s" "\<lambda>r. 1 \<le> r \<and> r \<le> pages" "nat frames" for frames pages
proof unfold_locales
  fix s r assume a: "frames_ok frames \<and> paging_ok pages frames s" "1 \<le> r \<and> r \<le> pages"
  obtain s' where s': "fifo_request frames r s = Returned s'" "paging_ok pages frames s'"
    "if r - 1 \<in> set (resident s) then resident s' = resident s \<and> pageFaults s' = pageFaults s \<and> hit s' = hit s + 1
     else resident s' = (if length (resident s) = nat frames then tl (resident s) else resident s) @ [r - 1] \<and>
       pageFaults s' = pageFaults s + 1 \<and> hit s' = hit s"
    using fifo_request_ok [of pages frames s r] a by blast
  have "set (tl (resident s)) \<subseteq> set (resident s)" by (cases "resident s") auto
  then have "in_memory s' \<subseteq> insert r (in_memory s)" using s'(3) by (auto simp: in_memory_iff split: if_splits)
  then show "\<exists>s'. fifo_request frames r s = Returned s' \<and> (frames_ok frames \<and> paging_ok pages frames s') \<and>
      (if r \<in> in_memory s then in_memory s' = in_memory s \<and> pageFaults s' = pageFaults s \<and> hit s' = hit s + 1
       else r \<in> in_memory s' \<and> in_memory s' \<subseteq> insert r (in_memory s) \<and> pageFaults s' = pageFaults s + 1 \<and> hit s' = hit s \<and>
         (card (in_memory s) < nat frames \<longrightarrow> in_memory s' = insert r (in_memory s)))"
    using s' a by (intro exI [of _ s']) (auto simp: in_memory_iff in_memory_card [of pages frames])
next
  fix s assume "frames_ok frames \<and> paging_ok pages frames s"
  then show "finite (in_memory s) \<and> card (in_memory s) \<le> nat frames"
    by (simp add: in_memory_card [of pages frames]) (simp add: in_memory_def paging_ok_def)
qed

interpretation lru: replacement "lru_request frames" in_memory pageFaults hit
  "\<lambda>s. frames_ok frames \<and> paging_ok pages frames s" "\<lambda>r. 1 \<le> r \<and> r \<le> pages" "nat frames" for frames pages
proof unfold_locales
  fix s r assume a: "frames_ok frames \<and> paging_ok pages frames s" "1 \<le> r \<and> r \<le> pages"
  obtain s' where s': "lru_request frames r s = Returned s'" "paging_ok pages frames s'"
    "if r - 1 \<in> set (resident s) then resident s' = (r - 1) # remove1 (r - 1) (resident s) \<and> pageFaults s' = pageFaults s \<and> hit s' = hit s + 1
     else resident s' = (r - 1) # (if length (resident s) = nat frames then butlast (resident s) else resident s) \<and>
       pageFaults s' = pageFaults s + 1 \<and> hit s' = hit s"
    using lru_request_ok [of pages frames s r] a by blast
  have d: "distinct (resident s)" using a by (simp add: paging_ok_def)
  have "set (butlast (resident s)) \<subseteq> set (resident s)" by (auto dest: in_set_butlastD)
  then have "in_memory s' \<subseteq> insert r (in_memory s)" using s'(3) d by (auto simp: in_memory_iff split: if_splits)
  then show "\<exists>s'. lru_request frames r s = Returned s' \<and> (frames_ok frames \<and> paging_ok pages frames s') \<and>
      (if r \<in> in_memory s then in_memory s' = in_memory s \<and> pageFaults s' = pageFaults s \<and> hit s' = hit s + 1
       else r \<in> in_memory s' \<and> in_memory s' \<subseteq> insert r (in_memory s) \<and> pageFaults s' = pageFaults s + 1 \<and> hit s' = hit s \<and>
         (card (in_memory s) < nat frames \<longrightarrow> in_memory s' = insert r (in_memory s)))"
    using s' a d by (intro exI [of _ s']) (auto simp: in_memory_iff in_memory_card [of pages frames])
next
  fix s assume "frames_ok frames \<and> paging_ok pages frames s"
  then show "finite (in_memory s) \<and> card (in_memory s) \<le> nat frames"
    by (simp add: in_memory_card [of pages frames]) (simp add: in_memory_def paging_ok_def)
qed

subsection \<open>The order of use\<close>

text \<open>The pages asked for, the last one first, each once.\<close>

definition push_recent :: "int \<Rightarrow> int list \<Rightarrow> int list" where
  "push_recent p L = p # removeAll p L"

definition recently_used :: "int list \<Rightarrow> int list" where
  "recently_used rs = fold (\<lambda>r. push_recent (r - 1)) rs []"

lemma push_recent_distinct: "distinct L \<Longrightarrow> distinct (push_recent p L)"
  by (simp add: push_recent_def distinct_removeAll)

lemma take_removeAll: "p \<notin> set (take m L) \<Longrightarrow> take m (removeAll p L) = take m L"
proof (induction L arbitrary: m)
  case (Cons a L)
  then show ?case by (cases m) auto
qed simp

lemma remove1_take:
  "distinct L \<Longrightarrow> p \<in> set (take n L) \<Longrightarrow> remove1 p (take n L) = take (n - 1) (removeAll p L)"
proof (induction L arbitrary: n)
  case (Cons a L)
  obtain m where n: "n = Suc m" using Cons.prems(2) by (cases n) auto
  show ?case
  proof (cases "a = p")
    case True
    then have "removeAll p L = L" using Cons.prems(1) by (simp add: removeAll_id)
    then show ?thesis using True n by simp
  next
    case False
    then have p: "p \<in> set (take m L)" using Cons.prems(2) n by simp
    then obtain k where "m = Suc k" by (cases m) auto
    then show ?thesis using False n Cons.IH [of m] p Cons.prems(1) by simp
  qed
qed simp

text \<open>One request of \<open>lru.cpp\<close>, when the vector holds the first \<open>n\<close> of \<open>L\<close>.\<close>

lemma lru_take:
  assumes "distinct L" and "0 < n"
  shows "(if p \<in> set (take n L) then p # remove1 p (take n L)
      else p # (if length (take n L) = n then butlast (take n L) else take n L)) = take n (push_recent p L)"
proof -
  obtain m where n: "n = Suc m" using assms(2) by (cases n) auto
  show ?thesis
  proof (cases "p \<in> set (take n L)")
    case True
    then show ?thesis using remove1_take [OF assms(1) True] n by (simp add: push_recent_def)
  next
    case False
    then have "p \<notin> set (take m L)" using set_take_subset_set_take [of m n L] n by auto
    moreover have "butlast (take n L) = take m L" if "length (take n L) = n" using that n by (simp add: butlast_take)
    moreover have "take n L = take m L" if "length (take n L) \<noteq> n" using that n by simp
    ultimately show ?thesis using False n take_removeAll [of p m L] by (simp add: push_recent_def)
  qed
qed

text \<open>How often \<open>n\<close> frames miss when the pages in \<open>L\<close> have been used before.\<close>

fun recent_misses :: "nat \<Rightarrow> int list \<Rightarrow> int list \<Rightarrow> int" where
  "recent_misses n L [] = 0"
| "recent_misses n L (r # rs) = (if r - 1 \<in> set (take n L) then 0 else 1) + recent_misses n (push_recent (r - 1) L) rs"

lemma recent_misses_mono: "n \<le> n' \<Longrightarrow> recent_misses n' L rs \<le> recent_misses n L rs"
proof (induction rs arbitrary: L)
  case (Cons r rs)
  then show ?case using set_take_subset_set_take [of n n' L] by (auto simp: add_mono)
qed simp

lemma lru_run:
  assumes "paging_ok pages frames s" and "frames_ok frames" and "\<forall>r \<in> set rs. 1 \<le> r \<and> r \<le> pages"
    and "resident s = take (nat frames) L" and "distinct L"
  shows "\<exists>s'. requests_loop (lru_request frames) rs s = Returned s' \<and>
    resident s' = take (nat frames) (fold (\<lambda>r. push_recent (r - 1)) rs L) \<and>
    pageFaults s' = pageFaults s + recent_misses (nat frames) L rs"
  using assms(1, 3-5)
proof (induction rs arbitrary: s L)
  case (Cons r rs)
  obtain s1 where s1: "lru_request frames r s = Returned s1" "paging_ok pages frames s1"
    "if r - 1 \<in> set (resident s) then resident s1 = (r - 1) # remove1 (r - 1) (resident s) \<and> pageFaults s1 = pageFaults s \<and> hit s1 = hit s + 1
     else resident s1 = (r - 1) # (if length (resident s) = nat frames then butlast (resident s) else resident s) \<and>
       pageFaults s1 = pageFaults s + 1 \<and> hit s1 = hit s"
    using lru_request_ok [OF Cons.prems(1) assms(2), of r] Cons.prems(2) by auto
  have "resident s1 = take (nat frames) (push_recent (r - 1) L)"
    using s1(3) lru_take [OF Cons.prems(4), of "nat frames" "r - 1"] assms(2) Cons.prems(3)
    by (auto simp: frames_ok_def split: if_splits)
  moreover have "pageFaults s1 = pageFaults s + (if r - 1 \<in> set (take (nat frames) L) then 0 else 1)"
    using s1(3) Cons.prems(3) by (auto split: if_splits)
  ultimately show ?case
    using Cons.IH [OF s1(2) _ _ push_recent_distinct [OF Cons.prems(4)]] Cons.prems(2) s1(1) by fastforce
qed simp

text \<open>The pages \<open>n\<close> frames miss under first-in first-out, in order: a page is in memory while it is among the last \<open>n\<close> misses.\<close>

definition last_n :: "nat \<Rightarrow> 'a list \<Rightarrow> 'a list" where
  "last_n n xs = drop (length xs - n) xs"

definition log_miss :: "nat \<Rightarrow> int \<Rightarrow> int list \<Rightarrow> int list" where
  "log_miss n p F = (if p \<in> set (last_n n F) then F else F @ [p])"

lemma last_n_snoc:
  "0 < n \<Longrightarrow> last_n n (F @ [p]) = (if length (last_n n F) = n then tl (last_n n F) else last_n n F) @ [p]"
  by (cases "n \<le> length F") (simp_all add: last_n_def Suc_diff_le drop_Suc tl_drop)

lemma fifo_run:
  assumes "paging_ok pages frames s" and "frames_ok frames" and "\<forall>r \<in> set rs. 1 \<le> r \<and> r \<le> pages"
    and "resident s = last_n (nat frames) F"
  shows "\<exists>s'. requests_loop (fifo_request frames) rs s = Returned s' \<and>
    resident s' = last_n (nat frames) (fold (\<lambda>r. log_miss (nat frames) (r - 1)) rs F) \<and>
    pageFaults s' - pageFaults s = int (length (fold (\<lambda>r. log_miss (nat frames) (r - 1)) rs F)) - int (length F)"
  using assms(1, 3-4)
proof (induction rs arbitrary: s F)
  case (Cons r rs)
  obtain s1 where s1: "fifo_request frames r s = Returned s1" "paging_ok pages frames s1"
    "if r - 1 \<in> set (resident s) then resident s1 = resident s \<and> pageFaults s1 = pageFaults s \<and> hit s1 = hit s + 1
     else resident s1 = (if length (resident s) = nat frames then tl (resident s) else resident s) @ [r - 1] \<and>
       pageFaults s1 = pageFaults s + 1 \<and> hit s1 = hit s"
    using fifo_request_ok [OF Cons.prems(1) assms(2), of r] Cons.prems(2) by auto
  have "resident s1 = last_n (nat frames) (log_miss (nat frames) (r - 1) F)"
    using s1(3) Cons.prems(3) assms(2) last_n_snoc [of "nat frames" F "r - 1"]
    by (auto simp: log_miss_def frames_ok_def split: if_splits)
  moreover have "pageFaults s1 - pageFaults s = int (length (log_miss (nat frames) (r - 1) F)) - int (length F)"
    using s1(3) Cons.prems(3) by (auto simp: log_miss_def split: if_splits)
  ultimately show ?case
    using Cons.IH [OF s1(2), of "log_miss (nat frames) (r - 1) F"] Cons.prems(2) s1(1) by fastforce
qed simp

subsection \<open>A victim at random\<close>

text \<open>Among any \<open>fuel\<close> random numbers in a row, every page comes up.\<close>

definition fair :: "nat \<Rightarrow> (nat \<Rightarrow> nat) \<Rightarrow> int \<Rightarrow> bool" where
  "fair fuel rnd pages \<longleftrightarrow> (\<forall>n v. 0 \<le> v \<and> v < pages \<longrightarrow> (\<exists>k < fuel. int (rnd (n + k)) mod pages = v))"

lemma victim_loop_ends:
  assumes "tbl pages t R" and "0 < pages" and "k < fuel" and "int (rnd (n + k)) mod pages \<in> R"
  shows "\<exists>v m. victim_loop fuel rnd pages t (int (rnd n) mod pages) (n + 1) = Returned (v, m) \<and> v \<in> R \<and> 0 \<le> v \<and> v < pages"
  using assms(3, 4)
proof (induction fuel arbitrary: k n)
  case (Suc fuel)
  let ?v = "int (rnd n) mod pages"
  have v: "0 \<le> ?v" "?v < pages" using assms(2) by simp_all
  show ?case
  proof (cases "?v \<in> R")
    case True
    then show ?thesis using tbl_get [OF assms(1) v] v by simp
  next
    case False
    then obtain j where k: "k = Suc j" using Suc.prems(2) by (cases k) auto
    then show ?thesis using Suc.IH [of j "n + 1"] Suc.prems False tbl_get [OF assms(1) v] by simp
  qed
qed simp

definition rmem :: "rpaging \<Rightarrow> int set" where
  "rmem s = {p. 0 \<le> p \<and> nat p < length (rtable s) \<and> rtable s ! nat p = 1}"

definition random_ok :: "int \<Rightarrow> int \<Rightarrow> rpaging \<Rightarrow> bool" where
  "random_ok pages frames s \<longleftrightarrow> tbl pages (rtable s) (rmem s) \<and> card (rmem s) \<le> nat frames"

lemma rmem_image: "rmem s = int ` {i. i < length (rtable s) \<and> rtable s ! i = 1}"
proof (intro set_eqI iffI)
  fix p assume "p \<in> rmem s"
  then have "p = int (nat p)" "nat p \<in> {i. i < length (rtable s) \<and> rtable s ! i = 1}" by (auto simp: rmem_def)
  then show "p \<in> int ` {i. i < length (rtable s) \<and> rtable s ! i = 1}" by (rule image_eqI)
qed (auto simp: rmem_def)

lemma rmem_finite: "finite (rmem s)"
  by (simp add: rmem_image)

lemma rmem_count: "int (count_list (rtable s) 1) = int (card (rmem s))"
proof -
  have "(=) (1 :: int) = (\<lambda>x. x = 1)" by auto
  then have "count_list (rtable s) 1 = length (filter (\<lambda>x. x = 1) (rtable s))" by (simp add: count_list_eq_length_filter)
  then show ?thesis by (simp add: length_filter_conv_card rmem_image card_image)
qed

lemma tbl_rmem:
  assumes "tbl pages (rtable s) R" and "\<forall>p \<in> R. 0 \<le> p \<and> p < pages"
  shows "rmem s = R"
proof (intro set_eqI iffI)
  fix p assume p: "p \<in> rmem s"
  then have "nat p < length (rtable s)" by (simp add: rmem_def)
  then have "rtable s ! nat p = (if int (nat p) \<in> R then 1 else - 1)" using assms(1) unfolding tbl_def by blast
  moreover have "rtable s ! nat p = 1" "int (nat p) = p" using p by (simp_all add: rmem_def)
  ultimately show "p \<in> R" by (auto split: if_splits)
next
  fix p assume "p \<in> R"
  then show "p \<in> rmem s" using assms by (auto simp: tbl_def rmem_def nat_less_iff)
qed

lemma random_request_ok:
  assumes "random_ok pages frames s" and "fair fuel rnd pages" and "0 < frames" and "0 \<le> p" and "p < pages"
  shows "\<exists>s'. random_request fuel rnd pages frames p s = Returned s' \<and> random_ok pages frames s' \<and>
    (if p \<in> rmem s then rmem s' = rmem s \<and> rfaults s' = rfaults s \<and> rhits s' = rhits s + 1
     else p \<in> rmem s' \<and> rmem s' \<subseteq> insert p (rmem s) \<and> rfaults s' = rfaults s + 1 \<and> rhits s' = rhits s \<and>
       (card (rmem s) < nat frames \<longrightarrow> rmem s' = insert p (rmem s)))"
proof -
  have t: "tbl pages (rtable s) (rmem s)" using assms(1) by (simp add: random_ok_def)
  have bd: "\<forall>q \<in> rmem s. 0 \<le> q \<and> q < pages" using t by (auto simp: rmem_def tbl_def)
  have g: "table_get (rtable s) p = Returned (if p \<in> rmem s then 1 else - 1)" using tbl_get [OF t assms(4, 5)] .
  show ?thesis
  proof (cases "p \<in> rmem s")
    case True
    then show ?thesis using g assms(1) by (simp add: random_request_def random_ok_def rmem_def)
  next
    case False
    let ?s = "s\<lparr>rfaults := rfaults s + 1\<rparr>"
    have "\<exists>s1 R. random_evict fuel rnd pages frames ?s = Returned s1 \<and> tbl pages (rtable s1) R \<and> R \<subseteq> rmem s \<and> card R < nat frames \<and>
        rfaults s1 = rfaults s + 1 \<and> rhits s1 = rhits s \<and> (card (rmem s) < nat frames \<longrightarrow> R = rmem s)"
    proof (cases "card (rmem s) = nat frames")
      case full: True
      then have "rmem s \<noteq> {}" using assms(3) by auto
      then obtain v where v: "v \<in> rmem s" "0 \<le> v" "v < pages" using bd by blast
      then obtain k where k: "k < fuel" "int (rnd (drawn s + k)) mod pages = v" using assms(2) by (auto simp: fair_def)
      then obtain w m where w: "victim_loop fuel rnd pages (rtable s) (int (rnd (drawn s)) mod pages) (drawn s + 1) = Returned (w, m)" "w \<in> rmem s" "0 \<le> w"
        using victim_loop_ends [OF t _ k(1), of rnd "drawn s"] v assms(4, 5) by auto
      have "card (rmem s - {w}) < nat frames" using w(2) full rmem_finite card_Diff1_less by metis
      then show ?thesis using w full tbl_del [OF t w(3)] rmem_count [of s] assms(3)
        by (intro exI [of _ "?s\<lparr>rtable := (rtable s)[nat w := - 1], drawn := m\<rparr>"] exI [of _ "rmem s - {w}"]) (auto simp: random_evict_def)
    next
      case room: False
      then have "card (rmem s) < nat frames" using assms(1) by (simp add: random_ok_def)
      then show ?thesis using t room rmem_count [of s] assms(3)
        by (intro exI [of _ ?s] exI [of _ "rmem s"]) (auto simp: random_evict_def)
    qed
    then obtain s1 R where s1: "random_evict fuel rnd pages frames ?s = Returned s1" "tbl pages (rtable s1) R" "R \<subseteq> rmem s" "card R < nat frames"
        "rfaults s1 = rfaults s + 1" "rhits s1 = rhits s" "card (rmem s) < nat frames \<longrightarrow> R = rmem s" by blast
    define s2 where "s2 = s1\<lparr>rtable := (rtable s1)[nat p := 1]\<rparr>"
    have t2: "tbl pages (rtable s2) (insert p R)" using tbl_add [OF s1(2) assms(4)] by (simp add: s2_def)
    have m2: "rmem s2 = insert p R" using tbl_rmem [OF t2] s1(3) bd assms(4, 5) by auto
    have "card (insert p R) \<le> nat frames" using s1(4) card_insert_le_m1 [of "nat frames" R p] assms(3) by simp
    then show ?thesis using g False s1 t2 m2
      by (intro exI [of _ s2]) (auto simp: random_request_def random_ok_def s2_def)
  qed
qed

interpretation rnd: replacement "random_request fuel rnd pages frames" rmem rfaults rhits
  "\<lambda>s. 0 < frames \<and> fair fuel rnd pages \<and> random_ok pages frames s" "\<lambda>p. 0 \<le> p \<and> p < pages" "nat frames" for fuel rnd pages frames
proof unfold_locales
  fix s p assume "0 < frames \<and> fair fuel rnd pages \<and> random_ok pages frames s" "0 \<le> p \<and> p < pages"
  then show "\<exists>s'. random_request fuel rnd pages frames p s = Returned s' \<and> (0 < frames \<and> fair fuel rnd pages \<and> random_ok pages frames s') \<and>
    (if p \<in> rmem s then rmem s' = rmem s \<and> rfaults s' = rfaults s \<and> rhits s' = rhits s + 1
     else p \<in> rmem s' \<and> rmem s' \<subseteq> insert p (rmem s) \<and> rfaults s' = rfaults s + 1 \<and> rhits s' = rhits s \<and>
       (card (rmem s) < nat frames \<longrightarrow> rmem s' = insert p (rmem s)))"
    using random_request_ok [of pages frames s fuel rnd p] by blast
next
  fix s assume "0 < frames \<and> fair fuel rnd pages \<and> random_ok pages frames s"
  then show "finite (rmem s) \<and> card (rmem s) \<le> nat frames" by (simp add: random_ok_def rmem_finite)
qed

subsection \<open>What the programs compute\<close>

lemma requests_loop_append:
  "requests_loop step (rs @ rs') s = bind_outcome (requests_loop step rs s) (requests_loop step rs')"
proof (induction rs arbitrary: s)
  case (Cons r rs)
  then show ?case by (cases "step r s") simp_all
qed simp

text \<open>
  \<open>fifo.cpp\<close> and \<open>lru.cpp\<close> on requests for pages from 1 to \<open>pages\<close> end without an access
  outside the page table. Every request is a hit or a fault, there are at least as many faults
  as different pages are asked for, and exactly as many when these fit into the frames.
\<close>

theorem fifo_lru_misses:
  assumes "0 \<le> pages" and "frames_ok frames" and "\<forall>r \<in> set rs. 1 \<le> r \<and> r \<le> pages"
  shows "\<exists>f l. FIFO pages frames rs = Returned f \<and> LRU pages frames rs = Returned l \<and>
    pageFaults f + hit f = int (length rs) \<and> pageFaults l + hit l = int (length rs) \<and>
    pageFaults f \<ge> int (card (set rs)) \<and> pageFaults l \<ge> int (card (set rs)) \<and>
    (card (set rs) \<le> nat frames \<longrightarrow> pageFaults f = int (card (set rs)) \<and> pageFaults l = int (card (set rs)))"
proof -
  obtain s where s: "paging_init pages = Returned s" "paging_ok pages frames s" "resident s = []" "pageFaults s = 0" "hit s = 0"
    using paging_init_ok [OF assms(1)] by blast
  then have m: "in_memory s = {}" by (simp add: in_memory_def)
  have ok: "frames_ok frames \<and> paging_ok pages frames s" using s(2) assms(2) by simp
  from fifo.run_counts [OF ok assms(3)] lru.run_counts [OF ok assms(3)] show ?thesis
    unfolding FIFO_def LRU_def s(1) m by (auto simp: s)
qed

theorem fifo_lru_misses_witness:
  "\<exists>f l. FIFO 5 4 [1, 2, 3, 4, 1, 2] = Returned f \<and> LRU 5 4 [1, 2, 3, 4, 1, 2] = Returned l \<and> pageFaults f = 4 \<and> pageFaults l = 4 \<and> hit l = 2"
proof -
  have c: "card (set [1, 2, 3, 4, 1, 2 :: int]) = 4" by (simp add: card_insert_if)
  show ?thesis
    using fifo_lru_misses [of 5 4 "[1, 2, 3, 4, 1, 2]"] unfolding c by (auto simp: frames_ok_def)
qed

text \<open>
  C13: \<open>lru.cpp\<close> always holds the \<open>frames\<close> pages that have been used most recently, the last
  one first, and so more frames never mean more faults.
\<close>

theorem lru_keeps_most_recent:
  assumes "0 \<le> pages" and "frames_ok frames" and "frames_ok frames'" and "frames \<le> frames'" and "\<forall>r \<in> set rs. 1 \<le> r \<and> r \<le> pages"
  shows "\<exists>l l'. LRU pages frames rs = Returned l \<and> LRU pages frames' rs = Returned l' \<and>
    resident l = take (nat frames) (recently_used rs) \<and> resident l' = take (nat frames') (recently_used rs) \<and>
    pageFaults l' \<le> pageFaults l"
proof -
  obtain s where s: "paging_init pages = Returned s" "paging_ok pages frames s" "paging_ok pages frames' s" "resident s = []" "pageFaults s = 0"
    using paging_init_ok [OF assms(1), of frames] paging_init_ok [OF assms(1), of frames'] by auto
  show ?thesis
    using lru_run [OF s(2) assms(2, 5), of "[]"] lru_run [OF s(3) assms(3, 5), of "[]"] recent_misses_mono [of "nat frames" "nat frames'" "[]" rs] s assms(4)
    by (auto simp: LRU_def recently_used_def)
qed

theorem lru_keeps_most_recent_witness:
  "\<exists>l. LRU 5 3 [1, 2, 3, 4, 1, 2, 5] = Returned l \<and> resident l = [4, 1, 0]"
  using lru_keeps_most_recent [of 5 3 3 "[1, 2, 3, 4, 1, 2, 5]"]
  by (auto simp: frames_ok_def recently_used_def push_recent_def)

text \<open>
  C34: \<open>fifo.cpp\<close> holds the last \<open>frames\<close> pages it has missed, the oldest first, whatever has
  been used since. More frames can mean more faults: on the requests of \<open>req5.dat\<close> four frames
  miss ten times and three frames nine times.
\<close>

theorem fifo_keeps_last_misses:
  assumes "0 \<le> pages" and "frames_ok frames" and "\<forall>r \<in> set rs. 1 \<le> r \<and> r \<le> pages"
  shows "(\<exists>f. FIFO pages frames rs = Returned f \<and>
      resident f = last_n (nat frames) (fold (\<lambda>r. log_miss (nat frames) (r - 1)) rs []) \<and>
      pageFaults f = int (length (fold (\<lambda>r. log_miss (nat frames) (r - 1)) rs []))) \<and>
    (\<exists>f3 f4. FIFO 5 3 [1, 2, 3, 4, 1, 2, 5, 1, 2, 3, 4, 5] = Returned f3 \<and> FIFO 5 4 [1, 2, 3, 4, 1, 2, 5, 1, 2, 3, 4, 5] = Returned f4 \<and>
      pageFaults f3 = 9 \<and> pageFaults f4 = 10)"
proof
  obtain s where s: "paging_init pages = Returned s" "paging_ok pages frames s" "resident s = []" "pageFaults s = 0"
    using paging_init_ok [OF assms(1), of frames] by auto
  then show "\<exists>f. FIFO pages frames rs = Returned f \<and>
      resident f = last_n (nat frames) (fold (\<lambda>r. log_miss (nat frames) (r - 1)) rs []) \<and>
      pageFaults f = int (length (fold (\<lambda>r. log_miss (nat frames) (r - 1)) rs []))"
    using fifo_run [OF s(2) assms(2, 3), of "[]"] by (auto simp: FIFO_def last_n_def)
  show "\<exists>f3 f4. FIFO 5 3 [1, 2, 3, 4, 1, 2, 5, 1, 2, 3, 4, 5] = Returned f3 \<and> FIFO 5 4 [1, 2, 3, 4, 1, 2, 5, 1, 2, 3, 4, 5] = Returned f4 \<and>
      pageFaults f3 = 9 \<and> pageFaults f4 = 10"
    by (simp add: FIFO_def paging_init_def fifo_request_def fifo_evict_def size_is_def table_get_def eval_nat_numeral)
qed

theorem fifo_keeps_last_misses_witness:
  "\<exists>f. FIFO 5 3 [1, 2, 3, 4, 1, 5] = Returned f \<and> resident f = [3, 0, 4]"
  using fifo_keeps_last_misses [of 5 3 "[1, 2, 3, 4, 1, 5]"]
  by (auto simp: frames_ok_def log_miss_def last_n_def)

text \<open>
  \<open>random.cpp\<close> finds a victim whenever every page comes up among \<open>fuel\<close> random numbers in
  a row, and then obeys the same bounds; but it does not subtract 1 from the requests as the
  other two programs do, so the page numbered \<open>pages\<close>, the last one of the other programs, is an
  access outside the page table. Without frames it looks for a victim for ever.
\<close>

theorem random_misses:
  assumes "0 < pages" and "0 < frames" and "fair fuel rnd pages" and "\<forall>r \<in> set rs. 0 \<le> r \<and> r < pages"
  shows "(\<exists>s. Random fuel rnd pages frames rs = Returned s \<and> rfaults s + rhits s = int (length rs) \<and>
      rfaults s \<ge> int (card (set rs)) \<and> (card (set rs) \<le> nat frames \<longrightarrow> rfaults s = int (card (set rs)))) \<and>
    Random fuel rnd pages frames (rs @ [pages]) = Aborted ''out of bounds'' \<and>
    Random fuel' rnd pages 0 [0] = Aborted ''fuel''"
proof -
  define s where "s = \<lparr>rtable = replicate (nat pages) (- 1), rfaults = 0, rhits = 0, drawn = 0\<rparr>"
  have m: "rmem s = {}" by (auto simp: rmem_def s_def)
  have ok: "0 < frames \<and> fair fuel rnd pages \<and> random_ok pages frames s"
    using assms m tbl_init [of pages] by (simp add: random_ok_def) (simp add: s_def)
  obtain s' where s': "requests_loop (random_request fuel rnd pages frames) rs s = Returned s'" "random_ok pages frames s'"
    "rfaults s' + rhits s' = int (length rs)" "rfaults s' \<ge> int (card (set rs))" "card (set rs) \<le> nat frames \<longrightarrow> rfaults s' = int (card (set rs))"
    using rnd.run_counts [OF ok assms(4)] unfolding m by (auto simp: s_def)
  have r: "Random fuel rnd pages frames xs = requests_loop (random_request fuel rnd pages frames) xs s" for fuel rnd frames xs
    using assms(1) by (simp add: Random_def s_def)
  have "length (rtable s') = nat pages" using s'(2) by (simp add: random_ok_def tbl_def)
  then have "random_request fuel rnd pages frames pages s' = Aborted ''out of bounds''" using assms(1) by (simp add: random_request_def table_get_def)
  moreover have "victim_loop k rnd pages (replicate (nat pages) (- 1)) (int (rnd n) mod pages) m = Aborted ''fuel''" for k n m
    using assms(1) by (induction k arbitrary: n m) (simp_all add: table_get_def nat_less_iff)
  then have "random_request fuel' rnd pages 0 0 s = Aborted ''fuel''" using assms(1) by (simp add: random_request_def table_get_def random_evict_def s_def)
  ultimately show ?thesis using s' by (auto simp: r requests_loop_append)
qed

theorem random_misses_witness:
  "\<exists>s. Random 3 id 3 2 [0, 1, 0, 2] = Returned s \<and> rfaults s + rhits s = 4 \<and> rfaults s \<ge> 3"
proof -
  have "fair 3 id 3"
  proof -
    have "\<exists>k < 3. int (n + k) mod 3 = v" if "0 \<le> v" "v < 3" for n :: nat and v :: int
    proof (intro exI [of _ "nat ((v - int n) mod 3)"] conjI)
      show "int (n + nat ((v - int n) mod 3)) mod 3 = v" using that by (simp add: mod_add_right_eq)
    qed (simp add: nat_less_iff)
    then show ?thesis by (simp add: fair_def)
  qed
  moreover have c: "card (set [0, 1, 0, 2 :: int]) = 3" by (simp add: card_insert_if)
  ultimately show ?thesis using random_misses [of 3 2 3 id "[0, 1, 0, 2]" 0] unfolding c by auto
qed

end
