(* ===== verification/Buddy.thy ===== *)
theory Buddy
  imports Prelude
begin

text \<open>
  The buddy system allocator \<open>CS304 - PA/buddy.cpp\<close>. The tree of blocks is a heap of nodes
  with pointers to the children and the parent; \<open>malloc\<close> for tree nodes is a parameter that may
  fail and otherwise gives an address that is not in use. \<open>free_map\<close> gives for every block size
  the list of free blocks, \<open>running_rec\<close> the block of a process; the nodes of the free lists,
  which nothing but their list refers to, are modelled by the lists of blocks. A null pointer,
  a pointer to a freed node, an overflow of \<open>int\<close> and an exit are outcomes of their own, loops
  over the tree or over the sizes have fuel. Reading and parsing the input is not modelled: it
  is a list of test cases. What is printed is modelled for \<open>print_status\<close>.
\<close>

subsection \<open>Nodes, lists and the allocator's state\<close>

record BSTree =
  bt_left :: "nat option"
  bt_size :: int
  is_used :: int
  bt_pid :: int
  pname :: char
  bytes_occupied :: int
  bt_parent :: "nat option"
  bt_right :: "nat option"

type_synonym bheap = "nat \<Rightarrow> BSTree option"

record buddy =
  nodes :: bheap
  root :: "nat option"
  free_map :: "int \<Rightarrow> nat list"
  running_rec :: "char \<Rightarrow> nat option"
  pid_global :: int
  total_size :: int
  min_granularity :: int

definition INT_LIMIT :: int where "INT_LIMIT = 2147483647"

text \<open>\<open>i * 2\<close>\<close>

definition twice :: "int \<Rightarrow> int outcome" where
  "twice i = (if i * 2 > INT_LIMIT then Aborted ''overflow'' else Returned (i * 2))"

text \<open>\<open>(int)pow(2, U)\<close>: below 1 for negative exponents, not defined beyond \<open>int\<close>.\<close>

definition int_pow2 :: "int \<Rightarrow> int outcome" where
  "int_pow2 u = (if u > 30 then Aborted ''overflow'' else if u < 0 then Returned 0 else Returned (2 ^ nat u))"

definition bnode :: "buddy \<Rightarrow> nat option \<Rightarrow> BSTree outcome" where
  "bnode s p = (case p of None \<Rightarrow> Aborted ''null pointer''
     | Some a \<Rightarrow> (case nodes s a of None \<Rightarrow> Aborted ''use after free'' | Some n \<Rightarrow> Returned n))"

definition upd_node :: "nat \<Rightarrow> (BSTree \<Rightarrow> BSTree) \<Rightarrow> buddy \<Rightarrow> buddy" where
  "upd_node a f s = s\<lparr>nodes := (nodes s)(a := map_option f (nodes s a))\<rparr>"

definition free_node :: "nat option \<Rightarrow> buddy \<Rightarrow> buddy" where
  "free_node p s = (case p of None \<Rightarrow> s | Some a \<Rightarrow> s\<lparr>nodes := (nodes s)(a := None)\<rparr>)"

definition LL_insert :: "int \<Rightarrow> nat \<Rightarrow> buddy \<Rightarrow> buddy" where
  "LL_insert k a s = s\<lparr>free_map := (free_map s)(k := a # free_map s k)\<rparr>"

definition new_block_node :: "int \<Rightarrow> BSTree" where
  "new_block_node size_in = \<lparr>bt_left = None, bt_size = size_in, is_used = 0, bt_pid = - 1, pname = CHR ''_'',
     bytes_occupied = 0, bt_parent = None, bt_right = None\<rparr>"

definition create :: "(bheap \<Rightarrow> nat option) \<Rightarrow> int \<Rightarrow> buddy \<Rightarrow> (nat \<times> buddy) outcome" where
  "create malloc size_in s =
     (case malloc (nodes s) of
        None \<Rightarrow> Aborted ''null pointer''
      | Some a \<Rightarrow> Returned (a, s\<lparr>nodes := (nodes s)(a \<mapsto> new_block_node size_in)\<rparr>))"

subsection \<open>The operations on the tree\<close>

fun find_power_loop :: "nat \<Rightarrow> int \<Rightarrow> int \<Rightarrow> int outcome" where
  "find_power_loop 0 i pbytes = Aborted ''fuel''"
| "find_power_loop (Suc fuel) i pbytes =
     (if i < pbytes then bind_outcome (twice i) (\<lambda>i'. find_power_loop fuel i' pbytes) else Returned i)"

definition find_reqd_power_of_2 :: "nat \<Rightarrow> int \<Rightarrow> buddy \<Rightarrow> int outcome" where
  "find_reqd_power_of_2 fuel pbytes s =
     (if pbytes > total_size s then Aborted ''exit(3)'' else find_power_loop fuel (min_granularity s) pbytes)"

text \<open>The leaves, from left to right: the process, its bytes and the size of the block.\<close>

fun print_status :: "nat \<Rightarrow> buddy \<Rightarrow> nat option \<Rightarrow> (char \<times> int \<times> int) list outcome" where
  "print_status fuel s None = Returned []"
| "print_status 0 s (Some a) = Aborted ''fuel''"
| "print_status (Suc fuel) s (Some a) =
     bind_outcome (bnode s (Some a)) (\<lambda>n.
     bind_outcome (print_status fuel s (bt_left n)) (\<lambda>xs.
     bind_outcome (print_status fuel s (bt_right n)) (\<lambda>ys.
       Returned (xs @ ys @ (if bt_left n = None \<and> bt_right n = None then [(pname n, bytes_occupied n, bt_size n)] else [])))))"

fun clear :: "nat \<Rightarrow> nat option \<Rightarrow> buddy \<Rightarrow> buddy outcome" where
  "clear fuel None s = Returned s"
| "clear 0 (Some a) s = Aborted ''fuel''"
| "clear (Suc fuel) (Some a) s =
     bind_outcome (bnode s (Some a)) (\<lambda>n.
     bind_outcome (clear fuel (bt_left n) s) (\<lambda>s1.
     bind_outcome (bnode s1 (Some a)) (\<lambda>n1.
     bind_outcome (clear fuel (bt_right n1) s1) (\<lambda>s2.
       Returned (free_node (Some a) s2)))))"

definition split :: "(bheap \<Rightarrow> nat option) \<Rightarrow> nat \<Rightarrow> buddy \<Rightarrow> buddy outcome" where
  "split malloc a s =
     bind_outcome (bnode s (Some a)) (\<lambda>n.
       let curr_size = bt_size n
       in if curr_size div 2 < min_granularity s then Returned s
          else bind_outcome (create malloc (curr_size div 2) s) (\<lambda>(l, s1).
               bind_outcome (create malloc (curr_size div 2) s1) (\<lambda>(r, s2).
                 let s3 = upd_node a (bt_left_update (\<lambda>_. Some l) \<circ> bt_right_update (\<lambda>_. Some r)) s2;
                     s4 = upd_node r (bt_parent_update (\<lambda>_. Some a)) (upd_node l (bt_parent_update (\<lambda>_. Some a)) s3)
                 in Returned (LL_insert (curr_size div 2) r s4))))"

fun map_sizes :: "nat \<Rightarrow> int \<Rightarrow> int \<Rightarrow> (int \<Rightarrow> nat list) \<Rightarrow> (int \<Rightarrow> nat list) outcome" where
  "map_sizes 0 i tot fm = Aborted ''fuel''"
| "map_sizes (Suc fuel) i tot fm =
     (if i \<le> tot then bind_outcome (twice i) (\<lambda>i'. map_sizes fuel i' tot (fm(i := []))) else Returned fm)"

definition initialize_free_map :: "nat \<Rightarrow> buddy \<Rightarrow> buddy outcome" where
  "initialize_free_map fuel s =
     bind_outcome (map_sizes fuel (min_granularity s) (total_size s) (\<lambda>_. [])) (\<lambda>fm. Returned (s\<lparr>free_map := fm\<rparr>))"

text \<open>The search through a free list behind its first node drops both children.\<close>

fun drop_children :: "nat option \<Rightarrow> nat option \<Rightarrow> nat list \<Rightarrow> nat list" where
  "drop_children left_temp right_temp [] = []"
| "drop_children left_temp right_temp (t # ts) =
     (if Some t = left_temp then drop_children left_temp right_temp ts
      else if Some t = right_temp then drop_children left_temp right_temp ts
      else t # drop_children left_temp right_temp ts)"

definition coalesce :: "nat \<Rightarrow> buddy \<Rightarrow> buddy outcome" where
  "coalesce a s =
     bind_outcome (bnode s (Some a)) (\<lambda>n.
       let left_temp = bt_left n; right_temp = bt_right n;
           s1 = upd_node a (bt_left_update (\<lambda>_. None) \<circ> bt_right_update (\<lambda>_. None)) s
       in bind_outcome (bnode s1 left_temp) (\<lambda>l.
            let child_size = bt_size l
            in case free_map s1 child_size of
                 [] \<Rightarrow> Aborted ''null pointer''
               | t # ts \<Rightarrow>
                   let ts' = (if Some t = left_temp then ts
                              else if Some t = right_temp then ts
                              else t # drop_children left_temp right_temp ts)
                   in Returned (free_node right_temp (free_node left_temp
                        (s1\<lparr>free_map := (free_map s1)(child_size := ts')\<rparr>)))))"

subsection \<open>Requests\<close>

text \<open>\<open>while(temp != root)\<close>\<close>

fun climb :: "nat \<Rightarrow> nat \<Rightarrow> buddy \<Rightarrow> (nat \<times> buddy) outcome" where
  "climb 0 t s = Aborted ''fuel''"
| "climb (Suc fuel) t s =
     (if Some t = root s then Returned (t, s)
      else bind_outcome (bnode s (Some t)) (\<lambda>n. bind_outcome (bnode s (bt_parent n)) (\<lambda>p.
        if bt_left p = Some t then
          bind_outcome (bnode s (bt_right p)) (\<lambda>b.
            if is_used b = 0 then bind_outcome (coalesce (the (bt_parent n)) s) (climb fuel (the (bt_parent n)))
            else Returned (t, s))
        else if bt_right p = Some t then
          bind_outcome (bnode s (bt_left p)) (\<lambda>b.
            if is_used b = 0 then bind_outcome (coalesce (the (bt_parent n)) s) (climb fuel (the (bt_parent n)))
            else Returned (t, s))
        else climb fuel t s)))"

definition make_free :: "BSTree \<Rightarrow> BSTree" where
  "make_free n = n\<lparr>bytes_occupied := 0, is_used := 0, bt_pid := - 1, pname := CHR ''_''\<rparr>"

text \<open>When \<open>temp\<close> is the root, the function returns before \<open>LL_insert\<close>.\<close>

definition free_query :: "nat \<Rightarrow> char \<Rightarrow> buddy \<Rightarrow> buddy outcome" where
  "free_query fuel pname_in s =
     (let loc = running_rec s pname_in; s1 = s\<lparr>running_rec := (running_rec s)(pname_in := None)\<rparr>
      in bind_outcome (bnode s1 loc) (\<lambda>_.
           bind_outcome (climb fuel (the loc) (upd_node (the loc) (is_used_update (\<lambda>_. 0)) s1)) (\<lambda>(t, s2).
             if Some t = root s2 then Returned (upd_node t make_free s2)
             else bind_outcome (bnode s2 (Some t)) (\<lambda>n. Returned (LL_insert (bt_size n) t (upd_node t make_free s2))))))"

fun find_free :: "nat \<Rightarrow> int \<Rightarrow> buddy \<Rightarrow> int option outcome" where
  "find_free 0 can_get s = Aborted ''fuel''"
| "find_free (Suc fuel) can_get s =
     (if can_get \<le> total_size s then
        if free_map s can_get \<noteq> [] then Returned (Some can_get)
        else bind_outcome (twice can_get) (\<lambda>c. find_free fuel c s)
      else Returned None)"

text \<open>\<open>while(temp != want)\<close>\<close>

fun split_down :: "nat \<Rightarrow> (bheap \<Rightarrow> nat option) \<Rightarrow> int \<Rightarrow> int \<Rightarrow> nat \<Rightarrow> buddy \<Rightarrow> (nat \<times> buddy) outcome" where
  "split_down 0 malloc want temp cur s = Aborted ''fuel''"
| "split_down (Suc fuel) malloc want temp cur s =
     (if temp = want then Returned (cur, s)
      else bind_outcome (split malloc cur s) (\<lambda>s1.
           let s2 = upd_node cur (is_used_update (\<lambda>_. 1)) s1
           in bind_outcome (bnode s2 (Some cur)) (\<lambda>n. bind_outcome (bnode s2 (bt_left n)) (\<lambda>c.
                split_down fuel malloc want (bt_size c) (the (bt_left n)) s2))))"

definition allot :: "char \<Rightarrow> int \<Rightarrow> nat \<Rightarrow> buddy \<Rightarrow> buddy" where
  "allot pname_in pbytes cur s =
     (let s1 = s\<lparr>pid_global := pid_global s + 1\<rparr>;
          s2 = upd_node cur (\<lambda>n. n\<lparr>bytes_occupied := pbytes, is_used := 1, bt_pid := pid_global s1, pname := pname_in\<rparr>) s1
      in s2\<lparr>running_rec := (running_rec s2)(pname_in \<mapsto> cur)\<rparr>)"

definition alloc_query :: "nat \<Rightarrow> (bheap \<Rightarrow> nat option) \<Rightarrow> char \<Rightarrow> int \<Rightarrow> buddy \<Rightarrow> buddy outcome" where
  "alloc_query fuel malloc pname_in pbytes s =
     bind_outcome (find_reqd_power_of_2 fuel pbytes s) (\<lambda>want.
     bind_outcome (find_free fuel want s) (\<lambda>found.
       case found of
         None \<Rightarrow> Returned s
       | Some can_get \<Rightarrow>
           if want = can_get then
             let cur = hd (free_map s can_get)
             in Returned (allot pname_in pbytes cur (s\<lparr>free_map := (free_map s)(can_get := tl (free_map s can_get))\<rparr>))
           else bind_outcome (split_down fuel malloc want can_get (hd (free_map s can_get)) s) (\<lambda>(cur, s1).
                  Returned (allot pname_in pbytes cur (s1\<lparr>free_map := (free_map s1)(can_get := tl (free_map s1 can_get))\<rparr>)))))"

definition send_query :: "nat \<Rightarrow> (bheap \<Rightarrow> nat option) \<Rightarrow> char \<times> int \<Rightarrow> buddy \<Rightarrow> buddy outcome" where
  "send_query fuel malloc = (\<lambda>(pname_in, pbytes) s.
     if pbytes = 0 then free_query fuel pname_in s else alloc_query fuel malloc pname_in pbytes s)"

fun queries_loop :: "nat \<Rightarrow> (bheap \<Rightarrow> nat option) \<Rightarrow> (char \<times> int) list \<Rightarrow> buddy \<Rightarrow> buddy outcome" where
  "queries_loop fuel malloc [] s = Returned s"
| "queries_loop fuel malloc (q # qs) s = bind_outcome (send_query fuel malloc q s) (queries_loop fuel malloc qs)"

text \<open>The start of a test case: the old tree is freed, a root is made and put into its list.\<close>

definition start_case :: "nat \<Rightarrow> (bheap \<Rightarrow> nat option) \<Rightarrow> int \<Rightarrow> int \<Rightarrow> buddy \<Rightarrow> buddy outcome" where
  "start_case fuel malloc u l s =
     bind_outcome (clear fuel (root s) s) (\<lambda>s1.
     bind_outcome (int_pow2 u) (\<lambda>t. bind_outcome (int_pow2 l) (\<lambda>g.
     bind_outcome (create malloc t (s1\<lparr>total_size := t, min_granularity := g\<rparr>)) (\<lambda>(r, s2).
     bind_outcome (initialize_free_map fuel (s2\<lparr>root := Some r\<rparr>)) (\<lambda>s3.
       Returned (LL_insert t r (s3\<lparr>running_rec := (\<lambda>_. None)\<rparr>)))))))"

text \<open>A test case, with the report at its end; one with wrong bounds is passed over.\<close>

definition test_case ::
  "nat \<Rightarrow> (bheap \<Rightarrow> nat option) \<Rightarrow> int \<times> int \<times> (char \<times> int) list \<Rightarrow> buddy \<Rightarrow> ((char \<times> int \<times> int) list \<times> buddy) outcome" where
  "test_case fuel malloc = (\<lambda>(u, l, qs) s.
     if u \<le> l \<or> l = 0 then Returned ([], s)
     else bind_outcome (start_case fuel malloc u l s) (\<lambda>s1.
          bind_outcome (queries_loop fuel malloc qs s1) (\<lambda>s2.
          bind_outcome (print_status fuel s2 (root s2)) (\<lambda>report. Returned (report, s2)))))"

definition buddy_init :: buddy where
  "buddy_init = \<lparr>nodes = (\<lambda>_. None), root = None, free_map = (\<lambda>_. []), running_rec = (\<lambda>_. None), pid_global = - 1,
     total_size = 0, min_granularity = 0\<rparr>"

fun cases_loop ::
  "nat \<Rightarrow> (bheap \<Rightarrow> nat option) \<Rightarrow> (int \<times> int \<times> (char \<times> int) list) list \<Rightarrow> buddy \<Rightarrow> (char \<times> int \<times> int) list list outcome" where
  "cases_loop fuel malloc [] s = Returned []"
| "cases_loop fuel malloc (c # cs) s =
     bind_outcome (test_case fuel malloc c s) (\<lambda>(report, s1).
     bind_outcome (cases_loop fuel malloc cs s1) (\<lambda>reports. Returned (report # reports)))"

definition buddy_main ::
  "nat \<Rightarrow> (bheap \<Rightarrow> nat option) \<Rightarrow> string list \<Rightarrow> (int \<times> int \<times> (char \<times> int) list) list \<Rightarrow> (char \<times> int \<times> int) list list outcome" where
  "buddy_main fuel malloc argv cs =
     (if length argv > 2 then Aborted ''exit(1)''
      else if length argv < 2 then Aborted ''exit(2)''
      else cases_loop fuel malloc cs buddy_init)"

subsection \<open>What a good state is\<close>

definition leaf :: "BSTree \<Rightarrow> bool" where
  "leaf n \<longleftrightarrow> bt_left n = None \<and> bt_right n = None"

text \<open>
  The links of one node: the parent has it as a child, the children have it as their parent
  and half its size. Sizes grow towards the root, so these local conditions make a tree.
\<close>

definition links :: "bheap \<Rightarrow> nat \<Rightarrow> nat \<Rightarrow> BSTree \<Rightarrow> bool" where
  "links h rt a n \<longleftrightarrow>
     (bt_parent n = None \<longleftrightarrow> a = rt) \<and>
     (\<forall>p. bt_parent n = Some p \<longrightarrow> (\<exists>m. h p = Some m \<and> (bt_left m = Some a \<or> bt_right m = Some a))) \<and>
     (leaf n \<or> (\<exists>l r nl nr. bt_left n = Some l \<and> bt_right n = Some r \<and> l \<noteq> r \<and> h l = Some nl \<and> h r = Some nr \<and>
        bt_parent nl = Some a \<and> bt_parent nr = Some a \<and> bt_size n = 2 * bt_size nl \<and> bt_size nr = bt_size nl))"

definition tree_ok :: "bheap \<Rightarrow> nat \<Rightarrow> int \<Rightarrow> int \<Rightarrow> bool" where
  "tree_ok h rt tot gran \<longleftrightarrow> finite (dom h) \<and> 0 < gran \<and> (\<exists>n. h rt = Some n \<and> bt_size n = tot) \<and>
     (\<forall>a n. h a = Some n \<longrightarrow> links h rt a n \<and> (\<exists>k. bt_size n = gran * 2 ^ k))"

text \<open>
  The free lists hold the blocks that are not used, but for those in \<open>X\<close>, which an operation
  has in hand (or the allocator has lost); two buddies are not free at the same time.
\<close>

definition lists_ok :: "nat set \<Rightarrow> bheap \<Rightarrow> (int \<Rightarrow> nat list) \<Rightarrow> bool" where
  "lists_ok X h fm \<longleftrightarrow> (\<forall>k. distinct (fm k)) \<and>
     (\<forall>k a. a \<in> set (fm k) \<longleftrightarrow> a \<notin> X \<and> (\<exists>n. h a = Some n \<and> is_used n = 0 \<and> bt_size n = k)) \<and>
     (\<forall>a n. h a = Some n \<longrightarrow> (is_used n = 0 \<or> a \<in> X) \<longrightarrow> leaf n) \<and>
     (\<forall>a n l r nl nr. h a = Some n \<longrightarrow> bt_left n = Some l \<longrightarrow> bt_right n = Some r \<longrightarrow> h l = Some nl \<longrightarrow> h r = Some nr \<longrightarrow>
        is_used nl = 0 \<longrightarrow> is_used nr = 0 \<longrightarrow> l \<in> X \<or> r \<in> X)"

definition names_ok :: "nat set \<Rightarrow> bheap \<Rightarrow> (char \<Rightarrow> nat option) \<Rightarrow> bool" where
  "names_ok X h rr \<longleftrightarrow> (\<forall>c a. rr c = Some a \<longrightarrow> a \<notin> X \<and> (\<exists>n. h a = Some n \<and> leaf n \<and> is_used n \<noteq> 0 \<and> pname n = c))"

definition leaves :: "bheap \<Rightarrow> nat set" where
  "leaves h = {a. \<exists>n. h a = Some n \<and> leaf n}"

definition size_at :: "bheap \<Rightarrow> nat \<Rightarrow> int" where
  "size_at h a = bt_size (the (h a))"

definition buddy_ok :: "nat set \<Rightarrow> buddy \<Rightarrow> bool" where
  "buddy_ok X s \<longleftrightarrow> (\<exists>rt. root s = Some rt \<and> tree_ok (nodes s) rt (total_size s) (min_granularity s)) \<and>
     lists_ok X (nodes s) (free_map s) \<and> names_ok X (nodes s) (running_rec s) \<and>
     (\<Sum>a \<in> leaves (nodes s). size_at (nodes s) a) = total_size s \<and> 2 * total_size s \<le> INT_LIMIT"

text \<open>The blocks in use: the address, the process, the bytes it asked for and the size of the block.\<close>

definition blocks :: "nat set \<Rightarrow> bheap \<Rightarrow> (nat \<times> char \<times> int \<times> int) set" where
  "blocks X h = {(a, pname n, bytes_occupied n, bt_size n) | a n. h a = Some n \<and> leaf n \<and> is_used n \<noteq> 0 \<and> a \<notin> X}"

definition malloc_ok :: "(bheap \<Rightarrow> nat option) \<Rightarrow> bool" where
  "malloc_ok malloc \<longleftrightarrow> (\<forall>h. finite (dom h) \<longrightarrow> (\<exists>a. malloc h = Some a \<and> h a = None))"

lemma tree_okD:
  "tree_ok h rt tot gran \<Longrightarrow> h a = Some n \<Longrightarrow> links h rt a n"
  "tree_ok h rt tot gran \<Longrightarrow> h a = Some n \<Longrightarrow> \<exists>k. bt_size n = gran * 2 ^ k"
  "tree_ok h rt tot gran \<Longrightarrow> finite (dom h)"
  by (auto simp: tree_ok_def)

lemma tree_children:
  assumes "tree_ok h rt tot gran" and "h a = Some n" and "\<not> leaf n"
  shows "\<exists>l r nl nr. bt_left n = Some l \<and> bt_right n = Some r \<and> l \<noteq> r \<and> h l = Some nl \<and> h r = Some nr \<and>
        bt_parent nl = Some a \<and> bt_parent nr = Some a \<and> bt_size n = 2 * bt_size nl \<and> bt_size nr = bt_size nl"
  using tree_okD(1) [OF assms(1, 2)] assms(3) by (simp add: links_def)

lemma tree_parent:
  assumes "tree_ok h rt tot gran" and "h a = Some n" and "a \<noteq> rt"
  shows "\<exists>p m. bt_parent n = Some p \<and> h p = Some m \<and> (bt_left m = Some a \<or> bt_right m = Some a) \<and> bt_size m = 2 * bt_size n \<and> p \<noteq> a"
proof -
  obtain p where p: "bt_parent n = Some p" using tree_okD(1) [OF assms(1, 2)] assms(3) by (auto simp: links_def)
  then obtain m where m: "h p = Some m" "bt_left m = Some a \<or> bt_right m = Some a"
    using tree_okD(1) [OF assms(1, 2)] by (auto simp: links_def)
  then have "\<not> leaf m" by (auto simp: leaf_def)
  from tree_children [OF assms(1) m(1) this] obtain l r nl nr where
    c: "bt_left m = Some l" "bt_right m = Some r" "h l = Some nl" "h r = Some nr" "bt_size m = 2 * bt_size nl" "bt_size nr = bt_size nl" by blast
  have "l = a \<or> r = a" using m(2) c(1, 2) by auto
  then have "nl = n \<or> nr = n" using c(3, 4) assms(2) by auto
  then have s: "bt_size m = 2 * bt_size n" using c(5, 6) by auto
  obtain k where "bt_size n = gran * 2 ^ k" using tree_okD(2) [OF assms(1, 2)] by blast
  moreover have "0 < gran" using assms(1) unfolding tree_ok_def by blast
  ultimately have "0 < bt_size n" by simp
  then have "bt_size m \<noteq> bt_size n" using s by linarith
  then have "p \<noteq> a" using m(1) assms(2) by auto
  then show ?thesis using p m s by blast
qed

lemma tree_pos: "tree_ok h rt tot gran \<Longrightarrow> h a = Some n \<Longrightarrow> 0 < bt_size n"
  using tree_okD(2) by (fastforce simp: tree_ok_def)

text \<open>A root without children is the whole tree.\<close>

lemma lone_root:
  assumes "tree_ok h rt tot gran" and "h rt = Some n" and "leaf n"
  shows "dom h = {rt}"
proof (rule ccontr)
  assume "dom h \<noteq> {rt}"
  then have ne: "dom h - {rt} \<noteq> {}" using assms(2) by auto
  have fin: "finite (dom h - {rt})" using tree_okD(3) [OF assms(1)] by simp
  obtain a where a: "a \<in> dom h - {rt}" "\<And>b. b \<in> dom h - {rt} \<Longrightarrow> size_at h b \<le> size_at h a"
  proof -
    have "Max (size_at h ` (dom h - {rt})) \<in> size_at h ` (dom h - {rt})" using ne fin by (intro Max_in) auto
    then obtain a where a: "a \<in> dom h - {rt}" "Max (size_at h ` (dom h - {rt})) = size_at h a" by (rule imageE) blast
    have "size_at h b \<le> size_at h a" if "b \<in> dom h - {rt}" for b unfolding a(2) [symmetric] using fin that by simp
    then show thesis using that a(1) by blast
  qed
  obtain na where na: "h a = Some na" "a \<noteq> rt" using a(1) by auto
  obtain p m where p: "h p = Some m" "bt_left m = Some a \<or> bt_right m = Some a" "bt_size m = 2 * bt_size na"
    using tree_parent [OF assms(1) na] by blast
  have "p \<noteq> rt" using p(1, 2) assms(2, 3) by (auto simp: leaf_def)
  then have "size_at h p \<le> size_at h a" using a(2) [of p] p(1) by auto
  then show False using p(1, 3) na(1) tree_pos [OF assms(1) na(1)] by (simp add: size_at_def)
qed

lemma links_frame:
  assumes "links h rt a n"
    and "\<And>q m. h q = Some m \<Longrightarrow> bt_parent n = Some q \<or> bt_left n = Some q \<or> bt_right n = Some q \<Longrightarrow>
      \<exists>m'. h' q = Some m' \<and> bt_parent m' = bt_parent m \<and> bt_size m' = bt_size m \<and>
        (leaf m \<or> bt_parent n \<noteq> Some q \<or> bt_left m' = bt_left m \<and> bt_right m' = bt_right m)"
  shows "links h' rt a n"
  unfolding links_def
proof (intro conjI allI impI)
  show "bt_parent n = None \<longleftrightarrow> a = rt" using assms(1) by (simp add: links_def)
next
  fix p assume p: "bt_parent n = Some p"
  then obtain m where m: "h p = Some m" "bt_left m = Some a \<or> bt_right m = Some a" using assms(1) by (auto simp: links_def)
  then obtain m' where "h' p = Some m'" "leaf m \<or> bt_left m' = bt_left m \<and> bt_right m' = bt_right m" using assms(2) p by blast
  then show "\<exists>m. h' p = Some m \<and> (bt_left m = Some a \<or> bt_right m = Some a)" using m(2) by (auto simp: leaf_def)
next
  show "leaf n \<or> (\<exists>l r nl nr. bt_left n = Some l \<and> bt_right n = Some r \<and> l \<noteq> r \<and> h' l = Some nl \<and> h' r = Some nr \<and>
        bt_parent nl = Some a \<and> bt_parent nr = Some a \<and> bt_size n = 2 * bt_size nl \<and> bt_size nr = bt_size nl)"
  proof (cases "leaf n")
    case False
    then obtain l r nl nr where c: "bt_left n = Some l" "bt_right n = Some r" "l \<noteq> r" "h l = Some nl" "h r = Some nr"
        "bt_parent nl = Some a" "bt_parent nr = Some a" "bt_size n = 2 * bt_size nl" "bt_size nr = bt_size nl"
      using assms(1) by (auto simp: links_def)
    obtain nl' where l: "h' l = Some nl'" "bt_parent nl' = bt_parent nl" "bt_size nl' = bt_size nl" using assms(2) c(1, 4) by blast
    obtain nr' where r: "h' r = Some nr'" "bt_parent nr' = bt_parent nr" "bt_size nr' = bt_size nr" using assms(2) c(2, 5) by blast
    show ?thesis using c l r by auto
  qed simp
qed

text \<open>Nobody but its parent has a node as a child.\<close>

lemma only_parent:
  assumes "tree_ok h rt tot gran" and "h a = Some n" and "bt_left n = Some q \<or> bt_right n = Some q"
  shows "\<exists>m. h q = Some m \<and> bt_parent m = Some a"
proof -
  have "\<not> leaf n" using assms(3) by (auto simp: leaf_def)
  from tree_children [OF assms(1, 2) this] assms(3) show ?thesis by auto
qed

subsection \<open>Splitting a block\<close>

definition split_heap :: "bheap \<Rightarrow> nat \<Rightarrow> BSTree \<Rightarrow> nat \<Rightarrow> nat \<Rightarrow> int \<Rightarrow> bheap" where
  "split_heap h c n l r z = h(l \<mapsto> (new_block_node z)\<lparr>bt_parent := Some c\<rparr>, r \<mapsto> (new_block_node z)\<lparr>bt_parent := Some c\<rparr>,
     c \<mapsto> n\<lparr>bt_left := Some l, bt_right := Some r, is_used := 1\<rparr>)"

lemma split_heap_at:
  assumes "h c = Some n" and "h l = None" and "h r = None" and "l \<noteq> r"
  shows "split_heap h c n l r z a =
    (if a = c then Some (n\<lparr>bt_left := Some l, bt_right := Some r, is_used := 1\<rparr>)
     else if a = l \<or> a = r then Some ((new_block_node z)\<lparr>bt_parent := Some c\<rparr>) else h a)"
  using assms by (auto simp: split_heap_def)

lemma split_tree_ok:
  assumes "tree_ok h rt tot gran" and "h c = Some n" and "leaf n" and "h l = None" and "h r = None" and "l \<noteq> r"
    and "bt_size n = 2 * z" and "z = gran * 2 ^ k"
  shows "tree_ok (split_heap h c n l r z) rt tot gran"
proof -
  let ?h = "split_heap h c n l r z"
  note at = split_heap_at [OF assms(2, 4-6), of z]
  have keep: "\<exists>m'. ?h q = Some m' \<and> bt_parent m' = bt_parent m \<and> bt_size m' = bt_size m \<and>
      (leaf m \<or> bt_left m' = bt_left m \<and> bt_right m' = bt_right m)" if "h q = Some m" for q m
    using that assms(2-5) by (auto simp: at)
  have c: "links ?h rt c (n\<lparr>bt_left := Some l, bt_right := Some r, is_used := 1\<rparr>)"
  proof -
    have "links ?h rt c n" by (rule links_frame [OF tree_okD(1) [OF assms(1, 2)]]) (use keep in blast)
    moreover have "?h l = Some ((new_block_node z)\<lparr>bt_parent := Some c\<rparr>)" "?h r = Some ((new_block_node z)\<lparr>bt_parent := Some c\<rparr>)"
      using assms(2, 4, 5) by (auto simp: at)
    ultimately show ?thesis using assms(6, 7) by (simp add: links_def new_block_node_def)
  qed
  have lr: "links ?h rt a ((new_block_node z)\<lparr>bt_parent := Some c\<rparr>)" if "a = l \<or> a = r" for a
  proof -
    have "h rt \<noteq> None" using assms(1) by (auto simp: tree_ok_def)
    then have "a \<noteq> rt" using that assms(4, 5) by auto
    then show ?thesis using that by (auto simp: links_def at new_block_node_def leaf_def)
  qed
  have other: "links ?h rt a m" if "h a = Some m" for a m
    by (rule links_frame [OF tree_okD(1) [OF assms(1) that]]) (use keep in blast)
  have "links ?h rt a m \<and> (\<exists>k. bt_size m = gran * 2 ^ k)" if am: "?h a = Some m" for a m
  proof -
    have "a = c \<and> m = n\<lparr>bt_left := Some l, bt_right := Some r, is_used := 1\<rparr> \<or>
        (a = l \<or> a = r) \<and> m = (new_block_node z)\<lparr>bt_parent := Some c\<rparr> \<or> h a = Some m"
      using am unfolding at by (auto split: if_splits)
    then consider "a = c" "m = n\<lparr>bt_left := Some l, bt_right := Some r, is_used := 1\<rparr>"
      | "a = l \<or> a = r" "m = (new_block_node z)\<lparr>bt_parent := Some c\<rparr>" | "h a = Some m"
      by blast
    then show ?thesis
    proof cases
      case 1
      then show ?thesis using c tree_okD(2) [OF assms(1, 2)] by simp
    next
      case 2
      then show ?thesis using lr assms(8) by (auto simp: new_block_node_def)
    next
      case 3
      then show ?thesis using other tree_okD(2) [OF assms(1) 3] by blast
    qed
  qed
  moreover have "finite (dom ?h)" using tree_okD(3) [OF assms(1)] by (simp add: split_heap_def)
  moreover obtain m where "h rt = Some m" "bt_size m = tot" "0 < gran" using assms(1) by (auto simp: tree_ok_def)
  moreover then obtain m' where "?h rt = Some m'" "bt_size m' = tot" using keep by blast
  ultimately show ?thesis by (auto simp: tree_ok_def)
qed

lemma split_lists_ok:
  assumes "tree_ok h rt tot gran" and "lists_ok {c} h fm" and "h c = Some n" and "h l = None" and "h r = None" and "l \<noteq> r"
  shows "lists_ok {l} (split_heap h c n l r z) (fm(z := r # fm z))"
proof -
  let ?h = "split_heap h c n l r z"
  note at = split_heap_at [OF assms(3-6), of z]
  have mem: "a \<in> set (fm k) \<longleftrightarrow> a \<noteq> c \<and> (\<exists>n. h a = Some n \<and> is_used n = 0 \<and> bt_size n = k)" for a k
    using assms(2) by (simp add: lists_ok_def)
  have new: "l \<notin> set (fm k)" "r \<notin> set (fm k)" for k using assms(4, 5) by (simp_all add: mem)
  have lc: "l \<noteq> c" "r \<noteq> c" using assms(3-5) by auto
  have "distinct ((fm(z := r # fm z)) k)" for k using assms(2) new by (simp add: lists_ok_def)
  moreover have "a \<in> set ((fm(z := r # fm z)) k) \<longleftrightarrow> a \<notin> {l} \<and> (\<exists>n. ?h a = Some n \<and> is_used n = 0 \<and> bt_size n = k)" for k a
    using lc assms(4-6) by (auto simp: at mem new_block_node_def)
  moreover have "leaf m" if "?h a = Some m" "is_used m = 0 \<or> a \<in> {l}" for a m
    using that lc assms(2) by (auto simp: at new_block_node_def leaf_def lists_ok_def split: if_splits)
  moreover have "l' \<in> {l} \<or> r' \<in> {l}"
    if q: "?h a = Some m" "bt_left m = Some l'" "bt_right m = Some r'" "?h l' = Some nl" "?h r' = Some nr" "is_used nl = 0" "is_used nr = 0" for a m l' r' nl nr
  proof (cases "a = c")
    case True
    then show ?thesis using q(1, 2) by (auto simp: at)
  next
    case False
    have "\<not> leaf m" using q(2) by (simp add: leaf_def)
    then have a: "h a = Some m" using q(1) False by (auto simp: at new_block_node_def leaf_def split: if_splits)
    have "h l' \<noteq> None" "h r' \<noteq> None" using only_parent [OF assms(1) a] q(2, 3) by blast+
    then have ne: "l' \<noteq> l" "l' \<noteq> r" "r' \<noteq> l" "r' \<noteq> r" using assms(4, 5) by auto
    then have "l' \<noteq> c" "r' \<noteq> c" using q(4-7) by (auto simp: at)
    then have "h l' = Some nl" "h r' = Some nr" using q(4, 5) ne by (simp_all add: at)
    then have "l' \<in> {c} \<or> r' \<in> {c}" using assms(2) a q unfolding lists_ok_def by blast
    then show ?thesis using \<open>l' \<noteq> c\<close> \<open>r' \<noteq> c\<close> by simp
  qed
  ultimately show ?thesis unfolding lists_ok_def by blast
qed

lemma blocks_iff:
  "(a, x, y, w) \<in> blocks X h \<longleftrightarrow>
     (\<exists>n. h a = Some n \<and> leaf n \<and> is_used n \<noteq> 0 \<and> a \<notin> X \<and> x = pname n \<and> y = bytes_occupied n \<and> w = bt_size n)"
  by (auto simp: blocks_def)

lemma split_names_ok:
  assumes "names_ok {c} h rr" and "h c = Some n" and "h l = None" and "h r = None" and "l \<noteq> r"
  shows "names_ok {l} (split_heap h c n l r z) rr"
  using assms by (fastforce simp: names_ok_def split_heap_at)

lemma split_leaves:
  assumes "h c = Some n" and "h l = None" and "h r = None" and "l \<noteq> r"
  shows "leaves (split_heap h c n l r z) = insert l (insert r (leaves h - {c}))"
  using assms by (auto simp: leaves_def split_heap_at leaf_def new_block_node_def split: if_splits)

lemma finite_leaves: "finite (dom h) \<Longrightarrow> finite (leaves h)"
  by (rule finite_subset [of _ "dom h"]) (auto simp: leaves_def)

lemma split_sum:
  assumes "finite (dom h)" and "h c = Some n" and "leaf n" and "h l = None" and "h r = None" and "l \<noteq> r" and "bt_size n = 2 * z"
  shows "(\<Sum>a \<in> leaves (split_heap h c n l r z). size_at (split_heap h c n l r z) a) = (\<Sum>a \<in> leaves h. size_at h a)"
proof -
  let ?h = "split_heap h c n l r z"
  note at = split_heap_at [OF assms(2, 4-6), of z]
  have c: "c \<in> leaves h" using assms(2, 3) by (auto simp: leaves_def)
  have lr: "l \<notin> leaves h" "r \<notin> leaves h" "l \<noteq> c" "r \<noteq> c" using assms(2, 4, 5) by (auto simp: leaves_def)
  have f: "finite (leaves h)" using assms(1) by (rule finite_leaves)
  have "(\<Sum>a \<in> leaves ?h. size_at ?h a) = 2 * z + (\<Sum>a \<in> leaves h - {c}. size_at ?h a)"
    using f lr assms(6) by (simp add: split_leaves [OF assms(2, 4-6)]) (simp add: size_at_def at new_block_node_def)
  also have "(\<Sum>a \<in> leaves h - {c}. size_at ?h a) = (\<Sum>a \<in> leaves h - {c}. size_at h a)"
    using lr by (intro sum.cong) (auto simp: size_at_def at)
  also have "2 * z + \<dots> = (\<Sum>a \<in> leaves h. size_at h a)"
    using sum.remove [OF f c, of "size_at h"] assms(2, 7) by (simp add: size_at_def)
  finally show ?thesis .
qed

lemma split_blocks:
  assumes "h c = Some n" and "h l = None" and "h r = None" and "l \<noteq> r"
  shows "blocks {l} (split_heap h c n l r z) = blocks {c} h"
proof -
  have "(a, x, y, w) \<in> blocks {l} (split_heap h c n l r z) \<longleftrightarrow> (a, x, y, w) \<in> blocks {c} h" for a x y w
    by (cases "a = c"; cases "a = l"; cases "a = r") (use assms in \<open>auto simp: blocks_iff split_heap_at leaf_def new_block_node_def\<close>)
  then show ?thesis by auto
qed

subsection \<open>Changing the content of a block\<close>

definition same_links :: "BSTree \<Rightarrow> BSTree \<Rightarrow> bool" where
  "same_links n n' \<longleftrightarrow> bt_left n' = bt_left n \<and> bt_right n' = bt_right n \<and> bt_parent n' = bt_parent n \<and> bt_size n' = bt_size n"

lemma same_tree_ok:
  assumes "tree_ok h rt tot gran" and "h c = Some n" and "same_links n n'"
  shows "tree_ok (h(c \<mapsto> n')) rt tot gran"
proof -
  let ?h = "h(c \<mapsto> n')"
  have keep: "\<exists>m'. ?h q = Some m' \<and> bt_parent m' = bt_parent m \<and> bt_size m' = bt_size m \<and>
      (leaf m \<or> bt_left m' = bt_left m \<and> bt_right m' = bt_right m)" if "h q = Some m" for q m
    using that assms(2, 3) by (auto simp: same_links_def)
  have old: "links ?h rt a m" if "h a = Some m" for a m
    by (rule links_frame [OF tree_okD(1) [OF assms(1) that]]) (use keep in blast)
  have "links ?h rt a m \<and> (\<exists>k. bt_size m = gran * 2 ^ k)" if am: "?h a = Some m" for a m
  proof (cases "a = c")
    case True
    then have "m = n'" using am by simp
    then show ?thesis using old [OF assms(2)] tree_okD(2) [OF assms(1, 2)] True assms(3) by (simp add: links_def same_links_def leaf_def)
  next
    case False
    then have a: "h a = Some m" using am by simp
    then show ?thesis using old tree_okD(2) [OF assms(1) a] by blast
  qed
  moreover have "finite (dom ?h)" "0 < gran" using assms(1) by (simp_all add: tree_ok_def)
  moreover have "\<exists>m. ?h rt = Some m \<and> bt_size m = tot" using assms by (auto simp: tree_ok_def same_links_def)
  ultimately show ?thesis unfolding tree_ok_def by blast
qed

lemma same_leaves: "h c = Some n \<Longrightarrow> same_links n n' \<Longrightarrow> leaves (h(c \<mapsto> n')) = leaves h"
  by (auto simp: leaves_def leaf_def same_links_def)

lemma same_sum:
  assumes "h c = Some n" and "same_links n n'"
  shows "(\<Sum>a \<in> leaves (h(c \<mapsto> n')). size_at (h(c \<mapsto> n')) a) = (\<Sum>a \<in> leaves h. size_at h a)"
  using assms by (intro sum.cong same_leaves) (auto simp: size_at_def same_links_def)

lemma use_lists_ok:
  assumes "lists_ok {c} h fm" and "h c = Some n" and "same_links n n'" and "is_used n' \<noteq> 0"
  shows "lists_ok {} (h(c \<mapsto> n')) fm"
  unfolding lists_ok_def
proof (intro conjI allI impI)
  fix k show "distinct (fm k)" using assms(1) by (simp add: lists_ok_def)
  fix a show "a \<in> set (fm k) \<longleftrightarrow> a \<notin> {} \<and> (\<exists>n. (h(c \<mapsto> n')) a = Some n \<and> is_used n = 0 \<and> bt_size n = k)"
    using assms unfolding lists_ok_def by auto
next
  fix a m assume "(h(c \<mapsto> n')) a = Some m" "is_used m = 0 \<or> a \<in> {}"
  then show "leaf m" using assms unfolding lists_ok_def by (auto split: if_splits)
next
  fix a m l r nl nr
  assume q: "(h(c \<mapsto> n')) a = Some m" "bt_left m = Some l" "bt_right m = Some r" "(h(c \<mapsto> n')) l = Some nl" "(h(c \<mapsto> n')) r = Some nr"
    "is_used nl = 0" "is_used nr = 0"
  have ne: "l \<noteq> c" "r \<noteq> c" using q assms(4) by auto
  have "leaf n" using assms(1, 2) unfolding lists_ok_def by blast
  then have "a \<noteq> c" using q(1, 2) assms(3) by (auto simp: leaf_def same_links_def)
  then have "l \<in> {c} \<or> r \<in> {c}" using assms(1) q ne unfolding lists_ok_def by (metis fun_upd_other)
  then show "l \<in> {} \<or> r \<in> {}" using ne by simp
qed

lemma use_names_ok:
  assumes "names_ok {c} h rr" and "h c = Some n" and "leaf n" and "same_links n n'" and "is_used n' \<noteq> 0" and "pname n' = x"
  shows "names_ok {} (h(c \<mapsto> n')) (rr(x \<mapsto> c))"
  using assms unfolding names_ok_def same_links_def leaf_def by auto

lemma use_blocks:
  assumes "h c = Some n" and "leaf n" and "same_links n n'" and "is_used n' \<noteq> 0"
  shows "blocks {} (h(c \<mapsto> n')) = insert (c, pname n', bytes_occupied n', bt_size n) (blocks {c} h)"
  using assms by (auto simp: blocks_def same_links_def leaf_def split: if_splits)

subsection \<open>Joining two buddies\<close>

definition join_heap :: "bheap \<Rightarrow> nat \<Rightarrow> BSTree \<Rightarrow> nat \<Rightarrow> nat \<Rightarrow> bheap" where
  "join_heap h p n l r = h(p \<mapsto> n\<lparr>bt_left := None, bt_right := None\<rparr>, l := None, r := None)"

text \<open>\<open>p\<close> has the children \<open>l\<close> and \<open>r\<close>, which are leaves.\<close>

definition twins :: "bheap \<Rightarrow> nat \<Rightarrow> BSTree \<Rightarrow> nat \<Rightarrow> BSTree \<Rightarrow> nat \<Rightarrow> BSTree \<Rightarrow> bool" where
  "twins h p n l nl r nr \<longleftrightarrow> h p = Some n \<and> bt_left n = Some l \<and> bt_right n = Some r \<and> l \<noteq> r \<and> h l = Some nl \<and> h r = Some nr \<and>
     leaf nl \<and> leaf nr \<and> bt_parent nl = Some p \<and> bt_parent nr = Some p \<and> bt_size n = 2 * bt_size nl \<and> bt_size nr = bt_size nl \<and>
     p \<noteq> l \<and> p \<noteq> r \<and> \<not> leaf n"

lemma twinsI:
  assumes "tree_ok h rt tot gran" and "h p = Some n" and "bt_left n = Some l" and "bt_right n = Some r"
    and "\<And>m. h l = Some m \<Longrightarrow> leaf m" and "\<And>m. h r = Some m \<Longrightarrow> leaf m"
  shows "\<exists>nl nr. twins h p n l nl r nr"
proof -
  have nl: "\<not> leaf n" using assms(3) by (simp add: leaf_def)
  from tree_children [OF assms(1, 2) this] obtain nl nr where c: "l \<noteq> r" "h l = Some nl" "h r = Some nr"
        "bt_parent nl = Some p" "bt_parent nr = Some p" "bt_size n = 2 * bt_size nl" "bt_size nr = bt_size nl" using assms(3, 4) by auto
  have "leaf nl" "leaf nr" using assms(5, 6) c(2, 3) by blast+
  moreover have "p \<noteq> l" "p \<noteq> r" using calculation nl assms(2) c(2, 3) by auto
  ultimately show ?thesis using c nl assms(2-4) by (auto simp: twins_def)
qed

lemma join_heap_at:
  "twins h p n l nl r nr \<Longrightarrow> join_heap h p n l r a =
    (if a = p then Some (n\<lparr>bt_left := None, bt_right := None\<rparr>) else if a = l \<or> a = r then None else h a)"
  by (auto simp: twins_def join_heap_def)

lemma twins_away:
  assumes "tree_ok h rt tot gran" and "twins h p n l nl r nr" and "h a = Some m" and "a \<noteq> p"
  shows "bt_left m \<noteq> Some l \<and> bt_left m \<noteq> Some r \<and> bt_right m \<noteq> Some l \<and> bt_right m \<noteq> Some r"
  using only_parent [OF assms(1, 3)] assms(2, 4) by (fastforce simp: twins_def)

lemma join_tree_ok:
  assumes "tree_ok h rt tot gran" and "twins h p n l nl r nr"
  shows "tree_ok (join_heap h p n l r) rt tot gran"
proof -
  let ?h = "join_heap h p n l r"
  note at = join_heap_at [OF assms(2)]
  have keep: "\<exists>m'. ?h q = Some m' \<and> bt_parent m' = bt_parent m \<and> bt_size m' = bt_size m \<and>
      (leaf m \<or> q = p \<or> bt_left m' = bt_left m \<and> bt_right m' = bt_right m)" if "h q = Some m" "q \<noteq> l" "q \<noteq> r" for q m
    using that assms(2) by (auto simp: at twins_def)
  have other: "links ?h rt a m" if a: "h a = Some m" "a \<noteq> p" "a \<noteq> l" "a \<noteq> r" for a m
  proof (rule links_frame [OF tree_okD(1) [OF assms(1) a(1)]])
    fix q mq assume q: "h q = Some mq" "bt_parent m = Some q \<or> bt_left m = Some q \<or> bt_right m = Some q"
    have pa: "bt_left mq = Some a \<or> bt_right mq = Some a" if "bt_parent m = Some q"
      using tree_okD(1) [OF assms(1) a(1)] that q(1) by (auto simp: links_def)
    have "q \<noteq> p" if "bt_parent m = Some q" using pa [OF that] q(1) assms(2) a by (auto simp: twins_def)
    moreover have "q \<noteq> l \<and> q \<noteq> r"
    proof (cases "bt_parent m = Some q")
      case True
      then show ?thesis using pa q(1) assms(2) by (auto simp: twins_def leaf_def)
    next
      case False
      then show ?thesis using twins_away [OF assms a(1, 2)] q(2) by auto
    qed
    moreover have "?h q = Some mq" if "q \<noteq> p" using that calculation(2) q(1) by (simp add: at)
    moreover have "?h p = Some (n\<lparr>bt_left := None, bt_right := None\<rparr>)" by (simp add: at)
    ultimately show "\<exists>m'. ?h q = Some m' \<and> bt_parent m' = bt_parent mq \<and> bt_size m' = bt_size mq \<and>
        (leaf mq \<or> bt_parent m \<noteq> Some q \<or> bt_left m' = bt_left mq \<and> bt_right m' = bt_right mq)"
      using q(1) assms(2) by (cases "q = p") (auto simp: twins_def)
  qed
  have p: "links ?h rt p (n\<lparr>bt_left := None, bt_right := None\<rparr>)"
  proof -
    have h: "h p = Some n" using assms(2) by (simp add: twins_def)
    have "\<exists>m. ?h q = Some m \<and> (bt_left m = Some p \<or> bt_right m = Some p)" if "bt_parent n = Some q" for q
    proof -
      obtain m where m: "h q = Some m" "bt_left m = Some p \<or> bt_right m = Some p"
        using tree_okD(1) [OF assms(1) h] \<open>bt_parent n = Some q\<close> by (auto simp: links_def)
      then have "q \<noteq> l" "q \<noteq> r" "q \<noteq> p" using assms(2) by (auto simp: twins_def leaf_def)
      then show ?thesis using m by (simp add: at)
    qed
    then show ?thesis using tree_okD(1) [OF assms(1) h] by (simp add: links_def leaf_def)
  qed
  have "links ?h rt a m \<and> (\<exists>k. bt_size m = gran * 2 ^ k)" if am: "?h a = Some m" for a m
  proof (cases "a = p")
    case True
    then have "m = n\<lparr>bt_left := None, bt_right := None\<rparr>" using am by (simp add: at)
    then show ?thesis using p True tree_okD(2) [OF assms(1), of p n] assms(2) by (simp add: twins_def)
  next
    case False
    then have "h a = Some m" "a \<noteq> l" "a \<noteq> r" using am by (auto simp: at split: if_splits)
    then show ?thesis using other False tree_okD(2) [OF assms(1)] by blast
  qed
  moreover have "finite (dom ?h)" using tree_okD(3) [OF assms(1)] by (simp add: join_heap_def)
  moreover have "\<exists>m. ?h rt = Some m \<and> bt_size m = tot"
  proof -
    obtain m where m: "h rt = Some m" "bt_size m = tot" using assms(1) by (auto simp: tree_ok_def)
    have "bt_parent m = None" using tree_okD(1) [OF assms(1) m(1)] by (simp add: links_def)
    then have "rt \<noteq> l" "rt \<noteq> r" using m assms(2) by (auto simp: twins_def)
    then show ?thesis using keep [OF m(1)] m(2) by fastforce
  qed
  moreover have "0 < gran" using assms(1) by (simp add: tree_ok_def)
  ultimately show ?thesis unfolding tree_ok_def by blast
qed

lemma join_lists_ok:
  assumes "tree_ok h rt tot gran" and "twins h p n l nl r nr" and "lists_ok {t} h fm" and "is_used nl = 0 \<or> t = l" and "is_used nr = 0 \<or> t = r"
    and "t = l \<or> t = r" and "distinct ts" and "set ts = set (fm (bt_size nl)) - {l, r}"
  shows "lists_ok {p} (join_heap h p n l r) (fm(bt_size nl := ts))"
proof -
  let ?h = "join_heap h p n l r"
  note at = join_heap_at [OF assms(2)]
  have tw: "h p = Some n" "bt_left n = Some l" "bt_right n = Some r" "h l = Some nl" "h r = Some nr" "p \<noteq> l" "p \<noteq> r" "bt_size nr = bt_size nl" "\<not> leaf n"
    using assms(2) by (simp_all add: twins_def)
  have mem: "a \<in> set (fm k) \<longleftrightarrow> a \<noteq> t \<and> (\<exists>n. h a = Some n \<and> is_used n = 0 \<and> bt_size n = k)" for a k
    using assms(3) by (simp add: lists_ok_def)
  have up: "is_used n \<noteq> 0" using assms(3) tw(1, 9) unfolding lists_ok_def by blast
  have "distinct ((fm(bt_size nl := ts)) k)" for k using assms(3, 7) by (simp add: lists_ok_def)
  moreover have "a \<in> set ((fm(bt_size nl := ts)) k) \<longleftrightarrow> a \<notin> {p} \<and> (\<exists>n. ?h a = Some n \<and> is_used n = 0 \<and> bt_size n = k)" for k a
  proof (cases "a = p \<or> a = l \<or> a = r")
    case True
    then show ?thesis using tw assms(8) up by (auto simp: at mem)
  next
    case False
    then show ?thesis using assms(6, 8) by (auto simp: at mem)
  qed
  moreover have "leaf m" if "?h a = Some m" "is_used m = 0 \<or> a \<in> {p}" for a m
    using that assms(3) unfolding lists_ok_def by (auto simp: at leaf_def split: if_splits)
  moreover have "l' \<in> {p} \<or> r' \<in> {p}"
    if q: "?h a = Some m" "bt_left m = Some l'" "bt_right m = Some r'" "?h l' = Some nl'" "?h r' = Some nr'" "is_used nl' = 0" "is_used nr' = 0" for a m l' r' nl' nr'
  proof (rule ccontr)
    assume "\<not> ?thesis"
    then have ne: "l' \<noteq> p" "r' \<noteq> p" by simp_all
    have "a \<noteq> p" using q(1, 2) by (auto simp: at)
    then have a: "h a = Some m" using q(1) by (auto simp: at split: if_splits)
    have old: "h l' = Some nl'" "h r' = Some nr'" "l' \<noteq> l" "l' \<noteq> r" "r' \<noteq> l" "r' \<noteq> r" using q(4, 5) ne by (auto simp: at split: if_splits)
    then have "l' \<in> {t} \<or> r' \<in> {t}" using assms(3) a q unfolding lists_ok_def by blast
    then show False using old assms(6) by auto
  qed
  ultimately show ?thesis unfolding lists_ok_def by blast
qed

lemma join_names_ok:
  assumes "twins h p n l nl r nr" and "names_ok {t} h rr" and "is_used nl = 0 \<or> t = l" and "is_used nr = 0 \<or> t = r"
  shows "names_ok {p} (join_heap h p n l r) rr"
proof -
  have "a \<notin> {p} \<and> (\<exists>m. join_heap h p n l r a = Some m \<and> leaf m \<and> is_used m \<noteq> 0 \<and> pname m = x)" if ra: "rr x = Some a" for x a
  proof -
    obtain m where m: "a \<noteq> t" "h a = Some m" "leaf m" "is_used m \<noteq> 0" "pname m = x"
      using assms(2) ra unfolding names_ok_def by blast
    then have "a \<noteq> p" "a \<noteq> l" "a \<noteq> r" using assms(1, 3, 4) by (auto simp: twins_def)
    then show ?thesis using m by (auto simp: join_heap_def)
  qed
  then show ?thesis unfolding names_ok_def by blast
qed

lemma join_leaves:
  "twins h p n l nl r nr \<Longrightarrow> leaves (join_heap h p n l r) = insert p (leaves h - {l, r})"
  by (auto simp: leaves_def join_heap_at leaf_def split: if_splits)

lemma join_sum:
  assumes "twins h p n l nl r nr" and "finite (dom h)"
  shows "(\<Sum>a \<in> leaves (join_heap h p n l r). size_at (join_heap h p n l r) a) = (\<Sum>a \<in> leaves h. size_at h a)"
proof -
  let ?h = "join_heap h p n l r"
  note at = join_heap_at [OF assms(1)]
  have f: "finite (leaves h)" using assms(2) by (rule finite_leaves)
  have lr: "l \<in> leaves h" "r \<in> leaves h - {l}" "p \<notin> leaves h" using assms(1) by (auto simp: leaves_def twins_def)
  have s: "leaves h - {l} - {r} = leaves h - {l, r}" by auto
  have "(\<Sum>a \<in> leaves ?h. size_at ?h a) = bt_size n + (\<Sum>a \<in> leaves h - {l, r}. size_at ?h a)"
    using f lr(3) by (simp add: join_leaves [OF assms(1)]) (simp add: size_at_def at)
  also have "(\<Sum>a \<in> leaves h - {l, r}. size_at ?h a) = (\<Sum>a \<in> leaves h - {l, r}. size_at h a)"
    using lr(3) by (intro sum.cong) (auto simp: size_at_def at)
  also have "bt_size n + \<dots> = size_at h l + (size_at h r + (\<Sum>a \<in> leaves h - {l} - {r}. size_at h a))"
    using assms(1) unfolding s by (simp add: size_at_def twins_def)
  also have "\<dots> = (\<Sum>a \<in> leaves h. size_at h a)"
    using sum.remove [OF f lr(1), of "size_at h"] sum.remove [OF _ lr(2), of "size_at h"] f by simp
  finally show ?thesis .
qed

lemma join_blocks:
  assumes "twins h p n l nl r nr" and "is_used nl = 0 \<or> t = l" and "is_used nr = 0 \<or> t = r" and "t = l \<or> t = r"
  shows "blocks {p} (join_heap h p n l r) = blocks {t} h"
proof -
  have "(a, x, y, w) \<in> blocks {p} (join_heap h p n l r) \<longleftrightarrow> (a, x, y, w) \<in> blocks {t} h" for a x y w
  proof (cases "a = p \<or> a = l \<or> a = r")
    case True
    then show ?thesis using assms by (auto simp: blocks_iff join_heap_at [OF assms(1)] twins_def)
  next
    case False
    then show ?thesis using assms(4) by (auto simp: blocks_iff join_heap_at [OF assms(1)])
  qed
  then show ?thesis by auto
qed

text \<open>The search of \<open>coalesce\<close> in the free list, of which only one of the two is a member.\<close>

lemma drop_children_set: "set (drop_children (Some l) (Some r) ts) = set ts - {l, r}"
  by (induction ts) auto

lemma drop_children_distinct: "distinct ts \<Longrightarrow> distinct (drop_children (Some l) (Some r) ts)"
  by (induction ts) (auto simp: drop_children_set)

lemma coalesce_removal:
  assumes "distinct (t # ts)" and "\<not> (l \<in> set (t # ts) \<and> r \<in> set (t # ts))"
  defines "ts' \<equiv> if t = l then ts else if t = r then ts else t # drop_children (Some l) (Some r) ts"
  shows "distinct ts'" and "set ts' = set (t # ts) - {l, r}"
  using assms(1, 2) by (auto simp: ts'_def drop_children_set drop_children_distinct)

subsection \<open>Giving a block back\<close>

lemma free_lists_ok:
  assumes "tree_ok h rt tot gran" and "lists_ok {t} h fm" and "h t = Some n" and "same_links n n'" and "is_used n' = 0"
    and "\<And>p m l r b. h p = Some m \<Longrightarrow> bt_left m = Some l \<Longrightarrow> bt_right m = Some r \<Longrightarrow> t = l \<or> t = r \<Longrightarrow>
      h (if t = l then r else l) = Some b \<Longrightarrow> is_used b \<noteq> 0"
  shows "lists_ok {} (h(t \<mapsto> n')) (fm(bt_size n := t # fm (bt_size n)))"
proof -
  let ?h = "h(t \<mapsto> n')"
  have mem: "a \<in> set (fm k) \<longleftrightarrow> a \<noteq> t \<and> (\<exists>n. h a = Some n \<and> is_used n = 0 \<and> bt_size n = k)" for a k
    using assms(2) by (simp add: lists_ok_def)
  have "leaf n" using assms(2, 3) unfolding lists_ok_def by blast
  then have lf: "leaf n'" using assms(4) by (simp add: leaf_def same_links_def)
  have "distinct ((fm(bt_size n := t # fm (bt_size n))) k)" for k using assms(2) mem by (simp add: lists_ok_def)
  moreover have "a \<in> set ((fm(bt_size n := t # fm (bt_size n))) k) \<longleftrightarrow> a \<notin> {} \<and> (\<exists>n. ?h a = Some n \<and> is_used n = 0 \<and> bt_size n = k)" for k a
    using assms(4, 5) by (auto simp: mem same_links_def)
  moreover have "leaf m" if "?h a = Some m" "is_used m = 0 \<or> a \<in> {}" for a m
    using that assms(2) lf unfolding lists_ok_def by (auto split: if_splits)
  moreover have "l \<in> {} \<or> r \<in> {}"
    if q: "?h a = Some m" "bt_left m = Some l" "bt_right m = Some r" "?h l = Some nl" "?h r = Some nr" "is_used nl = 0" "is_used nr = 0" for a m l r nl nr
  proof -
    have "a \<noteq> t" using q(1, 2) lf by (auto simp: leaf_def)
    then have a: "h a = Some m" using q(1) by simp
    then have "\<not> leaf m" "l \<noteq> r" using q(2, 3) tree_children [OF assms(1) a] by (auto simp: leaf_def)
    have "t \<noteq> l" using assms(6) [OF a q(2, 3), of nr] q(5, 7) \<open>l \<noteq> r\<close> by auto
    moreover have "t \<noteq> r" using assms(6) [OF a q(2, 3), of nl] q(4, 6) \<open>l \<noteq> r\<close> by auto
    ultimately have "h l = Some nl" "h r = Some nr" using q(4, 5) by simp_all
    then have "l \<in> {t} \<or> r \<in> {t}" using assms(2) a q unfolding lists_ok_def by blast
    then show ?thesis using \<open>t \<noteq> l\<close> \<open>t \<noteq> r\<close> by simp
  qed
  ultimately show ?thesis unfolding lists_ok_def by blast
qed

lemma free_names_ok:
  "names_ok {t} h rr \<Longrightarrow> X \<subseteq> {t} \<Longrightarrow> names_ok X (h(t \<mapsto> n')) rr"
  by (fastforce simp: names_ok_def)

lemma free_blocks:
  assumes "is_used n' = 0"
  shows "blocks X (h(t \<mapsto> n')) = blocks (insert t X) h"
  using assms by (auto simp: blocks_def split: if_splits)

subsection \<open>The operations keep the state good\<close>

lemma buddy_okD:
  assumes "buddy_ok X s"
  shows "\<exists>rt. root s = Some rt \<and> tree_ok (nodes s) rt (total_size s) (min_granularity s)"
    and "lists_ok X (nodes s) (free_map s)" and "names_ok X (nodes s) (running_rec s)"
    and "(\<Sum>a \<in> leaves (nodes s). size_at (nodes s) a) = total_size s" and "2 * total_size s \<le> INT_LIMIT"
  using assms by (simp_all add: buddy_ok_def)

lemma leaf_in_hand: "buddy_ok X s \<Longrightarrow> nodes s a = Some n \<Longrightarrow> is_used n = 0 \<or> a \<in> X \<Longrightarrow> leaf n"
  unfolding buddy_ok_def lists_ok_def by blast

lemma leaf_size_le:
  assumes "buddy_ok X s" and "nodes s a = Some n" and "leaf n"
  shows "bt_size n \<le> total_size s"
proof -
  obtain rt where t: "tree_ok (nodes s) rt (total_size s) (min_granularity s)" using buddy_okD(1) [OF assms(1)] by blast
  have f: "finite (leaves (nodes s))" using tree_okD(3) [OF t] by (rule finite_leaves)
  have "a \<in> leaves (nodes s)" using assms(2, 3) by (auto simp: leaves_def)
  moreover have "0 \<le> size_at (nodes s) b" if "b \<in> leaves (nodes s)" for b
    using that tree_pos [OF t] by (force simp: leaves_def size_at_def)
  ultimately have "size_at (nodes s) a \<le> (\<Sum>a \<in> leaves (nodes s). size_at (nodes s) a)" using f by (intro member_le_sum) auto
  then show ?thesis using buddy_okD(4) [OF assms(1)] assms(2) by (simp add: size_at_def)
qed

lemma gran_pos: "buddy_ok X s \<Longrightarrow> 0 < min_granularity s"
  by (auto simp: buddy_ok_def tree_ok_def)

text \<open>The same state with other nodes and lists.\<close>

lemma buddy_ok_upd:
  assumes "buddy_ok X s"
    and "\<And>rt. tree_ok (nodes s) rt (total_size s) (min_granularity s) \<Longrightarrow> tree_ok h rt (total_size s) (min_granularity s)"
    and "lists_ok X' h fm" and "names_ok X' h rr" and "(\<Sum>a \<in> leaves h. size_at h a) = (\<Sum>a \<in> leaves (nodes s). size_at (nodes s) a)"
  shows "buddy_ok X' (s\<lparr>nodes := h, free_map := fm, running_rec := rr\<rparr>)"
  using assms by (auto simp: buddy_ok_def)

lemma split_op:
  assumes "nodes s c = Some n" and "bt_size n = 2 * z" and "min_granularity s \<le> z" and "malloc_ok malloc" and "finite (dom (nodes s))"
  shows "\<exists>l r s1. split malloc c s = Returned s1 \<and> nodes s l = None \<and> nodes s r = None \<and> l \<noteq> r \<and>
    upd_node c (is_used_update (\<lambda>_. 1)) s1 = s\<lparr>nodes := split_heap (nodes s) c n l r z, free_map := (free_map s)(z := r # free_map s z)\<rparr>"
proof -
  obtain l where l: "malloc (nodes s) = Some l" "nodes s l = None" using assms(4, 5) by (auto simp: malloc_ok_def)
  have "finite (dom ((nodes s)(l \<mapsto> new_block_node z)))" using assms(5) by simp
  then obtain r where r: "malloc ((nodes s)(l \<mapsto> new_block_node z)) = Some r" "((nodes s)(l \<mapsto> new_block_node z)) r = None"
    using assms(4) unfolding malloc_ok_def by blast
  then have lr: "l \<noteq> r" "nodes s r = None" "l \<noteq> c" "r \<noteq> c" using l assms(1) by (auto split: if_splits)
  let ?s1 = "LL_insert z r (upd_node r (bt_parent_update (\<lambda>_. Some c)) (upd_node l (bt_parent_update (\<lambda>_. Some c))
    (upd_node c (bt_left_update (\<lambda>_. Some l) \<circ> bt_right_update (\<lambda>_. Some r))
      (s\<lparr>nodes := (nodes s)(l \<mapsto> new_block_node z, r \<mapsto> new_block_node z)\<rparr>))))"
  have "split malloc c s = Returned ?s1"
    using assms(1-3) l r lr by (simp add: split_def bnode_def create_def Let_def)
  moreover have "upd_node c (is_used_update (\<lambda>_. 1)) ?s1 = s\<lparr>nodes := split_heap (nodes s) c n l r z, free_map := (free_map s)(z := r # free_map s z)\<rparr>"
    using assms(1) lr by (simp add: upd_node_def LL_insert_def split_heap_def fun_eq_iff)
  ultimately show ?thesis using l(2) lr by blast
qed

lemma split_step_ok:
  assumes "buddy_ok {c} s" and "nodes s c = Some n" and "bt_size n = 2 * z" and "z = min_granularity s * 2 ^ k"
    and "nodes s l = None" and "nodes s r = None" and "l \<noteq> r"
  shows "buddy_ok {l} (s\<lparr>nodes := split_heap (nodes s) c n l r z, free_map := (free_map s)(z := r # free_map s z)\<rparr>)"
proof -
  obtain rt where t: "tree_ok (nodes s) rt (total_size s) (min_granularity s)" using buddy_okD(1) [OF assms(1)] by blast
  have lf: "leaf n" using leaf_in_hand [OF assms(1, 2)] by simp
  have "buddy_ok {l} (s\<lparr>nodes := split_heap (nodes s) c n l r z, free_map := (free_map s)(z := r # free_map s z), running_rec := running_rec s\<rparr>)"
  proof (rule buddy_ok_upd [OF assms(1)])
    show "tree_ok (split_heap (nodes s) c n l r z) rt' (total_size s) (min_granularity s)"
      if "tree_ok (nodes s) rt' (total_size s) (min_granularity s)" for rt'
      by (rule split_tree_ok [OF that assms(2) lf assms(5-7, 3, 4)])
    show "lists_ok {l} (split_heap (nodes s) c n l r z) ((free_map s)(z := r # free_map s z))"
      by (rule split_lists_ok [OF t buddy_okD(2) [OF assms(1)] assms(2, 5-7)])
    show "names_ok {l} (split_heap (nodes s) c n l r z) (running_rec s)"
      by (rule split_names_ok [OF buddy_okD(3) [OF assms(1)] assms(2, 5-7)])
    show "(\<Sum>a \<in> leaves (split_heap (nodes s) c n l r z). size_at (split_heap (nodes s) c n l r z) a) = (\<Sum>a \<in> leaves (nodes s). size_at (nodes s) a)"
      by (rule split_sum [OF tree_okD(3) [OF t] assms(2) lf assms(5-7, 3)])
  qed
  then show ?thesis by simp
qed

text \<open>The first block of the list of size \<open>g\<close> is taken out.\<close>

definition pop :: "int \<Rightarrow> buddy \<Rightarrow> buddy" where
  "pop g s = s\<lparr>free_map := (free_map s)(g := tl (free_map s g))\<rparr>"

lemma pop_ok:
  assumes "buddy_ok {} s" and "free_map s g \<noteq> []"
  shows "buddy_ok {hd (free_map s g)} (pop g s) \<and> (\<exists>n. nodes s (hd (free_map s g)) = Some n \<and> is_used n = 0 \<and> bt_size n = g)"
proof -
  obtain c T where fm: "free_map s g = c # T" using assms(2) by (auto simp: neq_Nil_conv)
  have l: "lists_ok {} (nodes s) (free_map s)" using buddy_okD(2) [OF assms(1)] .
  have mem: "a \<in> set (free_map s k) \<longleftrightarrow> (\<exists>n. nodes s a = Some n \<and> is_used n = 0 \<and> bt_size n = k)" for a k
    using l by (simp add: lists_ok_def)
  have "c \<in> set (free_map s g)" by (simp add: fm)
  then obtain n where n: "nodes s c = Some n" "is_used n = 0" "bt_size n = g" using mem by blast
  have d0: "distinct (free_map s k)" for k using l by (simp add: lists_ok_def)
  then have d: "c \<notin> set T" "distinct T" using d0 [of g] fm by simp_all
  have "a \<in> set (((free_map s)(g := T)) k) \<longleftrightarrow> a \<notin> {c} \<and> (\<exists>n. nodes s a = Some n \<and> is_used n = 0 \<and> bt_size n = k)" for a k
  proof (cases "k = g")
    case True
    have "a \<in> set (free_map s g) \<longleftrightarrow> a = c \<or> a \<in> set T" by (simp add: fm)
    then have "a \<in> set T \<longleftrightarrow> a \<noteq> c \<and> a \<in> set (free_map s g)" using d(1) by blast
    then show ?thesis using True mem [of a g] by simp
  next
    case False
    then show ?thesis using mem [of a k] n by auto
  qed
  moreover have "distinct (((free_map s)(g := T)) k)" for k using d0 d(2) by simp
  moreover have "leaf m" if "nodes s a = Some m" "is_used m = 0 \<or> a \<in> {c}" for a m
  proof -
    have "is_used m = 0" using that n by auto
    then show ?thesis using that(1) l unfolding lists_ok_def by blast
  qed
  ultimately have "lists_ok {c} (nodes s) ((free_map s)(g := T))" using l unfolding lists_ok_def by blast
  moreover have "names_ok {c} (nodes s) (running_rec s)"
    using buddy_okD(3) [OF assms(1)] n by (fastforce simp: names_ok_def)
  ultimately show ?thesis using n assms(1) by (auto simp: buddy_ok_def pop_def fm)
qed

text \<open>What the requests leave alone.\<close>

definition same_run :: "buddy \<Rightarrow> buddy \<Rightarrow> bool" where
  "same_run s s' \<longleftrightarrow> root s' = root s \<and> running_rec s' = running_rec s \<and> pid_global s' = pid_global s \<and>
     total_size s' = total_size s \<and> min_granularity s' = min_granularity s"

lemma split_down_ok:
  assumes "malloc_ok malloc" and "want = min_granularity s * 2 ^ i" and "j < fuel" and "buddy_ok {c} (pop g s)"
    and "nodes s c = Some n" and "bt_size n = want * 2 ^ j" and "bt_size n \<le> g"
  shows "\<exists>c' s' n'. split_down fuel malloc want (bt_size n) c s = Returned (c', s') \<and> buddy_ok {c'} (pop g s') \<and>
    nodes s' c' = Some n' \<and> bt_size n' = want \<and> blocks {c'} (nodes s') = blocks {c} (nodes s) \<and> same_run s s'"
  using assms(2-7)
proof (induction fuel arbitrary: j s c n)
  case (Suc fuel)
  show ?case
  proof (cases j)
    case 0
    then show ?thesis using Suc.prems by (intro exI [of _ c] exI [of _ s] exI [of _ n]) (simp add: same_run_def)
  next
    case (Suc j')
    define z where "z = want * 2 ^ j'"
    have g: "0 < min_granularity s" using gran_pos [OF Suc.prems(3)] by (simp add: pop_def)
    have z: "bt_size n = 2 * z" "z = min_granularity s * 2 ^ (i + j')" "0 < z"
      using Suc.prems(1, 5) Suc g by (simp_all add: z_def power_add)
    have "min_granularity s * 1 \<le> min_granularity s * 2 ^ (i + j')" using g by (intro mult_left_mono) auto
    then have zg: "min_granularity s \<le> z" using z(2) by simp
    have "0 < want" using Suc.prems(1) g by simp
    then have "want * 1 \<le> want * 2 ^ j'" by (intro mult_left_mono) auto
    then have nw: "bt_size n \<noteq> want" using z(1) \<open>0 < want\<close> unfolding z_def by linarith
    obtain rt where t: "tree_ok (nodes s) rt (total_size s) (min_granularity s)" using buddy_okD(1) [OF Suc.prems(3)] by (auto simp: pop_def)
    obtain l r s1 where s1: "split malloc c s = Returned s1" "nodes s l = None" "nodes s r = None" "l \<noteq> r"
      "upd_node c (is_used_update (\<lambda>_. 1)) s1 = s\<lparr>nodes := split_heap (nodes s) c n l r z, free_map := (free_map s)(z := r # free_map s z)\<rparr>"
      using split_op [OF Suc.prems(4) z(1) zg assms(1) tree_okD(3) [OF t]] by blast
    let ?s2 = "s\<lparr>nodes := split_heap (nodes s) c n l r z, free_map := (free_map s)(z := r # free_map s z)\<rparr>"
    have at: "split_heap (nodes s) c n l r z c = Some (n\<lparr>bt_left := Some l, bt_right := Some r, is_used := 1\<rparr>)"
      "split_heap (nodes s) c n l r z l = Some ((new_block_node z)\<lparr>bt_parent := Some c\<rparr>)"
      using split_heap_at [OF Suc.prems(4) s1(2-4), of z] s1(2) Suc.prems(4) by auto
    have zl: "z < g" using z(1, 3) Suc.prems(6) by linarith
    have p2: "pop g ?s2 = (pop g s)\<lparr>nodes := split_heap (nodes (pop g s)) c n l r z, free_map := (free_map (pop g s))(z := r # free_map (pop g s) z)\<rparr>"
      using zl by (simp add: pop_def fun_upd_twist)
    have ok2: "buddy_ok {l} (pop g ?s2)"
      unfolding p2 by (rule split_step_ok [OF Suc.prems(3), of n z "i + j'"]) (use Suc.prems(4) z s1(2-4) in \<open>simp_all add: pop_def\<close>)
    have run: "split_down (Suc fuel) malloc want (bt_size n) c s = split_down fuel malloc want z l ?s2"
      using nw s1(1, 5) at by (simp add: bnode_def Let_def new_block_node_def)
    have sz: "bt_size ((new_block_node z)\<lparr>bt_parent := Some c\<rparr>) = z" by (simp add: new_block_node_def)
    have pre: "want = min_granularity ?s2 * 2 ^ i" "j' < fuel" "nodes ?s2 l = Some ((new_block_node z)\<lparr>bt_parent := Some c\<rparr>)"
      "bt_size ((new_block_node z)\<lparr>bt_parent := Some c\<rparr>) = want * 2 ^ j'" "bt_size ((new_block_node z)\<lparr>bt_parent := Some c\<rparr>) \<le> g"
      using Suc.prems(1, 2) Suc at(2) zl by (simp_all add: z_def new_block_node_def)
    obtain c' s' n' where s': "split_down fuel malloc want z l ?s2 = Returned (c', s')" "buddy_ok {c'} (pop g s')"
      "nodes s' c' = Some n'" "bt_size n' = want" "blocks {c'} (nodes s') = blocks {l} (nodes ?s2)" "same_run ?s2 s'"
      using Suc.IH [OF pre(1, 2) ok2 pre(3-5)] unfolding sz by blast
    have b: "blocks {l} (nodes ?s2) = blocks {c} (nodes s)" using split_blocks [OF Suc.prems(4) s1(2-4), of z] by simp
    have sr: "same_run s s'" using s'(6) by (simp add: same_run_def)
    show ?thesis unfolding run using s'(1-5) b sr by auto
  qed
qed simp

lemma find_free_ok:
  assumes "total_size s < c * 2 ^ f" and "0 < c" and "2 * total_size s \<le> INT_LIMIT"
  shows "(find_free (Suc f) c s = Returned None \<and> (\<forall>j. c * 2 ^ j \<le> total_size s \<longrightarrow> free_map s (c * 2 ^ j) = [])) \<or>
    (\<exists>j. find_free (Suc f) c s = Returned (Some (c * 2 ^ j)) \<and> c * 2 ^ j \<le> total_size s \<and> j < f \<and> free_map s (c * 2 ^ j) \<noteq> [] \<and>
       (\<forall>i < j. free_map s (c * 2 ^ i) = []))"
  using assms(1, 2)
proof (induction f arbitrary: c)
  case 0
  have "\<not> c * 2 ^ j \<le> total_size s" for j
    using 0 mult_left_mono [of 1 "2 ^ j" c] by (simp add: not_le order_less_le_trans)
  then show ?case using 0 by simp
next
  case (Suc f)
  show ?case
  proof (cases "c \<le> total_size s \<and> free_map s c = []")
    case True
    then have tw: "twice c = Returned (c * 2)" using assms(3) by (simp add: twice_def)
    have p: "c * 2 * 2 ^ j = c * 2 ^ Suc j" for j by simp
    have all: "\<forall>j. c * 2 ^ j \<le> total_size s \<longrightarrow> free_map s (c * 2 ^ j) = []"
      if "\<forall>j. c * 2 * 2 ^ j \<le> total_size s \<longrightarrow> free_map s (c * 2 * 2 ^ j) = []"
    proof
      fix j show "c * 2 ^ j \<le> total_size s \<longrightarrow> free_map s (c * 2 ^ j) = []" using that True by (cases j) (simp_all add: p)
    qed
    have less: "\<forall>i < Suc j. free_map s (c * 2 ^ i) = []" if "\<forall>i < j. free_map s (c * 2 * 2 ^ i) = []" for j
    proof (intro allI impI)
      fix i assume "i < Suc j"
      then show "free_map s (c * 2 ^ i) = []" using that True by (cases i) (simp_all add: p)
    qed
    have run: "find_free (Suc (Suc f)) c s = find_free (Suc f) (c * 2) s" using True tw by simp
    have "total_size s < c * 2 * 2 ^ f" "0 < c * 2" using Suc.prems by (simp_all add: mult.assoc)
    from Suc.IH [OF this] show ?thesis
    proof
      assume "find_free (Suc f) (c * 2) s = Returned None \<and> (\<forall>j. c * 2 * 2 ^ j \<le> total_size s \<longrightarrow> free_map s (c * 2 * 2 ^ j) = [])"
      then show ?thesis using all run by simp
    next
      assume "\<exists>j. find_free (Suc f) (c * 2) s = Returned (Some (c * 2 * 2 ^ j)) \<and> c * 2 * 2 ^ j \<le> total_size s \<and> j < f \<and>
         free_map s (c * 2 * 2 ^ j) \<noteq> [] \<and> (\<forall>i < j. free_map s (c * 2 * 2 ^ i) = [])"
      then obtain j where j: "find_free (Suc f) (c * 2) s = Returned (Some (c * 2 ^ Suc j))" "c * 2 ^ Suc j \<le> total_size s" "Suc j < Suc f"
        "free_map s (c * 2 ^ Suc j) \<noteq> []" "\<forall>i < j. free_map s (c * 2 * 2 ^ i) = []" unfolding p by blast
      have "find_free (Suc (Suc f)) c s = Returned (Some (c * 2 ^ Suc j))" using run j(1) by (simp only:)
      then show ?thesis using j(2-4) less [OF j(5)] by (intro disjI2 exI [of _ "Suc j"] conjI)
    qed
  next
    case False
    show ?thesis
    proof (cases "c \<le> total_size s")
      case True
      then show ?thesis using False by (intro disjI2 exI [of _ 0]) simp
    next
      case gt: False
      have "\<not> c * 2 ^ j \<le> total_size s" for j
        using gt Suc.prems(2) mult_left_mono [of 1 "2 ^ j" c] by (simp add: not_le order_less_le_trans)
      then show ?thesis using gt by simp
    qed
  qed
qed

lemma find_power_ok:
  assumes "pbytes \<le> i * 2 ^ f" and "0 < i" and "2 * pbytes \<le> INT_LIMIT"
  shows "\<exists>j. find_power_loop (Suc f) i pbytes = Returned (i * 2 ^ j) \<and> pbytes \<le> i * 2 ^ j \<and> (\<forall>k < j. i * 2 ^ k < pbytes)"
  using assms(1, 2)
proof (induction f arbitrary: i)
  case 0
  then show ?case by (intro exI [of _ 0]) simp
next
  case (Suc f)
  show ?case
  proof (cases "i < pbytes")
    case True
    then have tw: "twice i = Returned (i * 2)" using assms(3) by (simp add: twice_def)
    have p: "i * 2 * 2 ^ j = i * 2 ^ Suc j" for j by simp
    have "pbytes \<le> i * 2 * 2 ^ f" "0 < i * 2" using Suc.prems by (simp_all add: mult.assoc)
    from Suc.IH [OF this] obtain j where j: "find_power_loop (Suc f) (i * 2) pbytes = Returned (i * 2 ^ Suc j)" "pbytes \<le> i * 2 ^ Suc j"
      "\<forall>k < j. i * 2 * 2 ^ k < pbytes" unfolding p by blast
    have "i * 2 ^ k < pbytes" if "k < Suc j" for k using j(3) that True by (cases k) (simp_all add: p)
    moreover have "find_power_loop (Suc (Suc f)) i pbytes = find_power_loop (Suc f) (i * 2) pbytes" using True tw by simp
    ultimately show ?thesis using j(1, 2) by metis
  next
    case False
    then show ?thesis by (intro exI [of _ 0]) simp
  qed
qed

lemma allot_ok:
  assumes "buddy_ok {c} s" and "nodes s c = Some n"
  shows "buddy_ok {} (allot x b c s)" and "blocks {} (nodes (allot x b c s)) = insert (c, x, b, bt_size n) (blocks {c} (nodes s))"
    and "running_rec (allot x b c s) = (running_rec s)(x \<mapsto> c)"
    and "root (allot x b c s) = root s \<and> total_size (allot x b c s) = total_size s \<and> min_granularity (allot x b c s) = min_granularity s"
proof -
  define n' where "n' = n\<lparr>bytes_occupied := b, is_used := 1, bt_pid := pid_global s + 1, pname := x\<rparr>"
  have al: "allot x b c s = s\<lparr>pid_global := pid_global s + 1, nodes := (nodes s)(c \<mapsto> n'), running_rec := (running_rec s)(x \<mapsto> c)\<rparr>"
    using assms(2) by (simp add: allot_def upd_node_def Let_def n'_def)
  have sl: "same_links n n'" and u: "is_used n' \<noteq> 0" "pname n' = x" "bytes_occupied n' = b" by (simp_all add: same_links_def n'_def)
  have lf: "leaf n" using leaf_in_hand [OF assms] by simp
  have "buddy_ok {} (s\<lparr>nodes := (nodes s)(c \<mapsto> n'), free_map := free_map s, running_rec := (running_rec s)(x \<mapsto> c)\<rparr>)"
  proof (rule buddy_ok_upd [OF assms(1)])
    show "tree_ok ((nodes s)(c \<mapsto> n')) rt (total_size s) (min_granularity s)" if "tree_ok (nodes s) rt (total_size s) (min_granularity s)" for rt
      using that assms(2) sl by (rule same_tree_ok)
  qed (rule use_lists_ok [OF buddy_okD(2) [OF assms(1)] assms(2) sl u(1)] use_names_ok [OF buddy_okD(3) [OF assms(1)] assms(2) lf sl u(1, 2)]
      same_sum [of "nodes s" c n n', OF assms(2) sl])+
  then show "buddy_ok {} (allot x b c s)" by (simp add: al buddy_ok_def)
  show "blocks {} (nodes (allot x b c s)) = insert (c, x, b, bt_size n) (blocks {c} (nodes s))"
    using use_blocks [of "nodes s" c n n', OF assms(2) lf sl u(1)] u by (simp add: al)
qed (simp_all add: allot_def upd_node_def Let_def)

lemma coalesce_op:
  assumes "twins (nodes s) p n l nl r nr" and "free_map s (bt_size nl) \<noteq> []" and "distinct (free_map s (bt_size nl))"
    and "\<not> (l \<in> set (free_map s (bt_size nl)) \<and> r \<in> set (free_map s (bt_size nl)))"
  shows "\<exists>ts. coalesce p s = Returned (s\<lparr>nodes := join_heap (nodes s) p n l r, free_map := (free_map s)(bt_size nl := ts)\<rparr>) \<and>
    distinct ts \<and> set ts = set (free_map s (bt_size nl)) - {l, r}"
proof -
  have tw: "nodes s p = Some n" "bt_left n = Some l" "bt_right n = Some r" "nodes s l = Some nl" "p \<noteq> l" "p \<noteq> r" using assms(1) by (simp_all add: twins_def)
  obtain t ts where fm: "free_map s (bt_size nl) = t # ts" using assms(2) by (auto simp: neq_Nil_conv)
  let ?ts = "if t = l then ts else if t = r then ts else t # drop_children (Some l) (Some r) ts"
  have "coalesce p s = Returned (s\<lparr>nodes := join_heap (nodes s) p n l r, free_map := (free_map s)(bt_size nl := ?ts)\<rparr>)"
    using tw fm by (cases s; cases n) (simp add: coalesce_def bnode_def upd_node_def free_node_def join_heap_def Let_def fun_upd_twist)
  moreover have "distinct ?ts" "set ?ts = set (free_map s (bt_size nl)) - {l, r}"
    using coalesce_removal [of t ts l r] assms(3, 4) unfolding fm by blast+
  ultimately show ?thesis by blast
qed

text \<open>One step of the way up: the free buddy \<open>b\<close> of \<open>t\<close> is joined with it.\<close>

lemma coalesce_ok:
  assumes "buddy_ok {t} s" and "nodes s p = Some n" and "bt_left n = Some l" and "bt_right n = Some r" and "{l, r} = {t, b}"
    and "nodes s b = Some nb" and "is_used nb = 0" and "nodes s t = Some nt"
  shows "\<exists>s'. coalesce p s = Returned s' \<and> buddy_ok {p} s' \<and> (\<exists>m. nodes s' p = Some m \<and> bt_size m = 2 * bt_size nt) \<and>
    blocks {p} (nodes s') = blocks {t} (nodes s) \<and> same_run s s'"
proof -
  obtain rt where t: "tree_ok (nodes s) rt (total_size s) (min_granularity s)" using buddy_okD(1) [OF assms(1)] by blast
  have ls: "lists_ok {t} (nodes s) (free_map s)" using buddy_okD(2) [OF assms(1)] .
  have lt: "leaf nt" using leaf_in_hand [OF assms(1, 8)] by simp
  have lb: "leaf nb" using leaf_in_hand [OF assms(1, 6)] assms(7) by simp
  have "leaf m" if "nodes s l = Some m" for m using that lt lb assms(5, 6, 8) by (auto simp: doubleton_eq_iff)
  moreover have "leaf m" if "nodes s r = Some m" for m using that lt lb assms(5, 6, 8) by (auto simp: doubleton_eq_iff)
  ultimately obtain nl nr where tw: "twins (nodes s) p n l nl r nr" using twinsI [OF t assms(2-4)] by blast
  have lr: "nodes s l = Some nl" "nodes s r = Some nr" "l \<noteq> r" "bt_size n = 2 * bt_size nl" "bt_size nr = bt_size nl" "p \<noteq> l" "p \<noteq> r"
    using tw by (simp_all add: twins_def)
  have tb: "t = l \<and> b = r \<or> t = r \<and> b = l" using assms(5) by (auto simp: doubleton_eq_iff)
  then have sz: "bt_size nt = bt_size nl" "bt_size nb = bt_size nl" using lr assms(6, 8) by auto
  have mem: "a \<in> set (free_map s k) \<longleftrightarrow> a \<noteq> t \<and> (\<exists>n. nodes s a = Some n \<and> is_used n = 0 \<and> bt_size n = k)" for a k
    using ls by (simp add: lists_ok_def)
  have bt: "b \<noteq> t" using tb lr(3) by auto
  have "b \<in> set (free_map s (bt_size nl))" "t \<notin> set (free_map s (bt_size nl))" using bt assms(6, 7) sz(2) by (auto simp: mem)
  then have ne: "free_map s (bt_size nl) \<noteq> []" "\<not> (l \<in> set (free_map s (bt_size nl)) \<and> r \<in> set (free_map s (bt_size nl)))"
    using tb by auto
  have "distinct (free_map s (bt_size nl))" using ls by (simp add: lists_ok_def)
  from coalesce_op [OF tw ne(1) this ne(2)] obtain ts where ts:
    "coalesce p s = Returned (s\<lparr>nodes := join_heap (nodes s) p n l r, free_map := (free_map s)(bt_size nl := ts)\<rparr>)"
    "distinct ts" "set ts = set (free_map s (bt_size nl)) - {l, r}" by blast
  have u: "is_used nl = 0 \<or> t = l" "is_used nr = 0 \<or> t = r" "t = l \<or> t = r" using tb lr assms(6, 7) by auto
  let ?s = "s\<lparr>nodes := join_heap (nodes s) p n l r, free_map := (free_map s)(bt_size nl := ts)\<rparr>"
  have "buddy_ok {p} (s\<lparr>nodes := join_heap (nodes s) p n l r, free_map := (free_map s)(bt_size nl := ts), running_rec := running_rec s\<rparr>)"
    by (rule buddy_ok_upd [OF assms(1) join_tree_ok [OF _ tw] join_lists_ok [OF t tw ls u ts(2, 3)] join_names_ok [OF tw buddy_okD(3) [OF assms(1)] u(1, 2)]
      join_sum [OF tw tree_okD(3) [OF t]]])
  then have "buddy_ok {p} ?s" by simp
  moreover have "blocks {p} (nodes ?s) = blocks {t} (nodes s)" using join_blocks [OF tw u] by simp
  moreover have "\<exists>m. nodes ?s p = Some m \<and> bt_size m = 2 * bt_size nt" using lr sz(1) by (simp add: join_heap_def)
  moreover have "same_run s ?s" by (simp add: same_run_def)
  ultimately show ?thesis using ts(1) by blast
qed

text \<open>The buddy of \<open>t\<close> is in use.\<close>

definition buddy_used :: "bheap \<Rightarrow> nat \<Rightarrow> bool" where
  "buddy_used h t \<longleftrightarrow> (\<forall>p m l r b. h p = Some m \<longrightarrow> bt_left m = Some l \<longrightarrow> bt_right m = Some r \<longrightarrow> t = l \<or> t = r \<longrightarrow>
     h (if t = l then r else l) = Some b \<longrightarrow> is_used b \<noteq> 0)"

lemma climb_ok:
  assumes "buddy_ok {t} s" and "nodes s t = Some n" and "total_size s < bt_size n * 2 ^ f"
  shows "\<exists>t' s' n'. climb (Suc f) t s = Returned (t', s') \<and> buddy_ok {t'} s' \<and> nodes s' t' = Some n' \<and>
    blocks {t'} (nodes s') = blocks {t} (nodes s) \<and> same_run s s' \<and> (Some t' \<noteq> root s' \<longrightarrow> buddy_used (nodes s') t' \<and> (\<exists>b nb. nodes s' b = Some nb \<and> b \<noteq> t' \<and> is_used nb \<noteq> 0))"
  using assms
proof (induction f arbitrary: t s n)
  case 0
  then show ?case using leaf_size_le [OF 0(1, 2)] leaf_in_hand [OF 0(1, 2)] by simp
next
  case (Suc f)
  show ?case
  proof (cases "Some t = root s")
    case True
    then show ?thesis using Suc.prems by (intro exI [of _ t] exI [of _ s] exI [of _ n]) (simp add: same_run_def)
  next
    case False
    obtain rt where rt: "root s = Some rt" "tree_ok (nodes s) rt (total_size s) (min_granularity s)" using buddy_okD(1) [OF Suc.prems(1)] by blast
    then have "t \<noteq> rt" using False by auto
    from tree_parent [OF rt(2) Suc.prems(2) this] obtain p m where
      p: "bt_parent n = Some p" "nodes s p = Some m" "bt_left m = Some t \<or> bt_right m = Some t" by blast
    have "\<not> leaf m" using p(3) by (auto simp: leaf_def)
    from tree_children [OF rt(2) p(2) this] obtain l r nl nr where
      c: "bt_left m = Some l" "bt_right m = Some r" "l \<noteq> r" "nodes s l = Some nl" "nodes s r = Some nr" by blast
    define b where "b = (if t = l then r else l)"
    define nb where "nb = (if t = l then nr else nl)"
    have tb: "{l, r} = {t, b}" "nodes s b = Some nb" "b \<noteq> t" using p(3) c by (auto simp: b_def nb_def)
    have run: "climb (Suc (Suc f)) t s = (if is_used nb = 0 then bind_outcome (coalesce p s) (climb (Suc f) p) else Returned (t, s))"
      using False p c Suc.prems(2) by (auto simp: bnode_def nb_def)
    show ?thesis
    proof (cases "is_used nb = 0")
      case True
      from coalesce_ok [OF Suc.prems(1) p(2) c(1, 2) tb(1, 2) True Suc.prems(2)] obtain s1 m1 where
        s1: "coalesce p s = Returned s1" "buddy_ok {p} s1" "nodes s1 p = Some m1" "bt_size m1 = 2 * bt_size n"
        "blocks {p} (nodes s1) = blocks {t} (nodes s)" "same_run s s1" by blast
      have "total_size s1 < bt_size m1 * 2 ^ f" using Suc.prems(3) s1(4, 6) by (simp add: same_run_def mult_ac)
      from Suc.IH [OF s1(2, 3) this] obtain t' s' n' where
        s': "climb (Suc f) p s1 = Returned (t', s')" "buddy_ok {t'} s'" "nodes s' t' = Some n'"
        "blocks {t'} (nodes s') = blocks {p} (nodes s1)" "same_run s1 s'"
        "Some t' \<noteq> root s' \<longrightarrow> buddy_used (nodes s') t' \<and> (\<exists>b nb. nodes s' b = Some nb \<and> b \<noteq> t' \<and> is_used nb \<noteq> 0)" by blast
      have "climb (Suc (Suc f)) t s = Returned (t', s')" unfolding run using True s1(1) s'(1) by (simp del: climb.simps)
      moreover have "same_run s s'" using s1(6) s'(5) by (simp add: same_run_def)
      ultimately show ?thesis using s'(2-4, 6) s1(5) by auto
    next
      case used: False
      have "buddy_used (nodes s) t"
        unfolding buddy_used_def
      proof (intro allI impI)
        fix p' m' l' r' b'
        assume q: "nodes s p' = Some m'" "bt_left m' = Some l'" "bt_right m' = Some r'" "t = l' \<or> t = r'" "nodes s (if t = l' then r' else l') = Some b'"
        have "bt_parent n = Some p'" using only_parent [OF rt(2) q(1), of t] q(2-4) Suc.prems(2) by auto
        then have "m' = m" using p(1, 2) q(1) by simp
        then have "b' = nb" using q c tb(2) by (auto simp: b_def)
        then show "is_used b' \<noteq> 0" using used by simp
      qed
      then show ?thesis using run used Suc.prems tb(2, 3) by (intro exI [of _ t] exI [of _ s] exI [of _ n]) (auto simp: same_run_def simp del: climb.simps)
    qed
  qed
qed

lemma used_below:
  assumes "buddy_ok {} s" and "nodes s a = Some n" and "is_used n \<noteq> 0"
  shows "blocks {} (nodes s) \<noteq> {}"
proof -
  obtain rt where t: "tree_ok (nodes s) rt (total_size s) (min_granularity s)" using buddy_okD(1) [OF assms(1)] by blast
  show ?thesis using assms(2, 3)
  proof (induction "nat (bt_size n)" arbitrary: a n rule: less_induct)
    case less
    show ?case
    proof (cases "leaf n")
      case True
      then have "(a, pname n, bytes_occupied n, bt_size n) \<in> blocks {} (nodes s)" using less.prems by (simp add: blocks_iff)
      then show ?thesis by blast
    next
      case False
      from tree_children [OF t less.prems(1) False] obtain l r nl nr where
        c: "bt_left n = Some l" "bt_right n = Some r" "nodes s l = Some nl" "nodes s r = Some nr" "bt_size n = 2 * bt_size nl" "bt_size nr = bt_size nl" by blast
      have pos: "0 < bt_size nl" using tree_pos [OF t c(3)] .
      have "is_used nl \<noteq> 0 \<or> is_used nr \<noteq> 0" using buddy_okD(2) [OF assms(1)] c less.prems(1) unfolding lists_ok_def by blast
      then show ?thesis using less.hyps [OF _ c(3)] less.hyps [OF _ c(4)] c(5, 6) pos by auto
    qed
  qed
qed

text \<open>The state after everything has been given back: the root is in no list.\<close>

definition lost :: "buddy \<Rightarrow> bool" where
  "lost s \<longleftrightarrow> (\<exists>rt n. root s = Some rt \<and> nodes s = [rt \<mapsto> n] \<and> leaf n \<and> is_used n = 0 \<and> pname n = CHR ''_'' \<and> bytes_occupied n = 0 \<and>
     bt_size n = total_size s) \<and> (\<forall>k. free_map s k = []) \<and> running_rec s = (\<lambda>_. None) \<and>
     (\<exists>k. total_size s = min_granularity s * 2 ^ k) \<and> 0 < min_granularity s \<and> 2 * total_size s \<le> INT_LIMIT"

lemma root_in_hand:
  assumes "buddy_ok {rt} s" and "root s = Some rt"
  shows "\<exists>n. nodes s = [rt \<mapsto> n] \<and> leaf n \<and> bt_size n = total_size s" and "\<And>k. free_map s k = []" and "running_rec s = (\<lambda>_. None)"
    and "\<exists>k. total_size s = min_granularity s * 2 ^ k"
proof -
  have t: "tree_ok (nodes s) rt (total_size s) (min_granularity s)" using buddy_okD(1) [OF assms(1)] assms(2) by auto
  then obtain n where n: "nodes s rt = Some n" "bt_size n = total_size s" by (auto simp: tree_ok_def)
  have lf: "leaf n" using leaf_in_hand [OF assms(1) n(1)] by simp
  have d: "dom (nodes s) = {rt}" by (rule lone_root [OF t n(1) lf])
  then have "nodes s = [rt \<mapsto> n]" using n(1) by (auto simp: fun_eq_iff dom_def)
  then show "\<exists>n. nodes s = [rt \<mapsto> n] \<and> leaf n \<and> bt_size n = total_size s" using lf n(2) by blast
  show "free_map s k = []" for k
  proof (rule ccontr)
    assume "free_map s k \<noteq> []"
    then obtain a where "a \<in> set (free_map s k)" by (meson hd_in_set)
    then have "a \<noteq> rt" "nodes s a \<noteq> None" using buddy_okD(2) [OF assms(1)] unfolding lists_ok_def by auto
    then show False using d by auto
  qed
  show "running_rec s = (\<lambda>_. None)"
  proof (rule ext, rule ccontr)
    fix x assume "running_rec s x \<noteq> None"
    then obtain a where "running_rec s x = Some a" by auto
    then have "a \<noteq> rt" "nodes s a \<noteq> None" using buddy_okD(3) [OF assms(1)] unfolding names_ok_def by fastforce+
    then show False using d by auto
  qed
  show "\<exists>k. total_size s = min_granularity s * 2 ^ k" using tree_okD(2) [OF t n(1)] n(2) by simp
qed

text \<open>The start of giving back a block: it is in hand.\<close>

lemma release_ok:
  assumes "buddy_ok {} s" and "running_rec s x = Some a"
  defines "s1 \<equiv> upd_node a (is_used_update (\<lambda>_. 0)) (s\<lparr>running_rec := (running_rec s)(x := None)\<rparr>)"
  shows "buddy_ok {a} s1" and "blocks {a} (nodes s1) = {b \<in> blocks {} (nodes s). fst b \<noteq> a}" and "\<exists>n. nodes s1 a = Some n"
    and "\<exists>n. nodes s a = Some n \<and> leaf n \<and> is_used n \<noteq> 0 \<and> pname n = x"
proof -
  obtain n where n: "nodes s a = Some n" "leaf n" "is_used n \<noteq> 0" "pname n = x"
    using buddy_okD(3) [OF assms(1)] assms(2) unfolding names_ok_def by blast
  then show "\<exists>n. nodes s a = Some n \<and> leaf n \<and> is_used n \<noteq> 0 \<and> pname n = x" by blast
  let ?n = "n\<lparr>is_used := 0\<rparr>"
  have s1: "s1 = s\<lparr>nodes := (nodes s)(a \<mapsto> ?n), free_map := free_map s, running_rec := (running_rec s)(x := None)\<rparr>"
    using n(1) by (cases s) (simp add: s1_def upd_node_def)
  have sl: "same_links n ?n" by (simp add: same_links_def)
  have l: "lists_ok {} (nodes s) (free_map s)" using buddy_okD(2) [OF assms(1)] .
  have mem: "c \<in> set (free_map s k) \<longleftrightarrow> (\<exists>n. nodes s c = Some n \<and> is_used n = 0 \<and> bt_size n = k)" for c k
    using l by (simp add: lists_ok_def)
  have lists: "lists_ok {a} ((nodes s)(a \<mapsto> ?n)) (free_map s)"
    unfolding lists_ok_def
  proof (intro conjI allI impI)
    fix k show "distinct (free_map s k)" using l by (simp add: lists_ok_def)
    fix c show "c \<in> set (free_map s k) \<longleftrightarrow> c \<notin> {a} \<and> (\<exists>n. ((nodes s)(a \<mapsto> ?n)) c = Some n \<and> is_used n = 0 \<and> bt_size n = k)"
      using n by (auto simp: mem)
  next
    fix c m assume "((nodes s)(a \<mapsto> ?n)) c = Some m" "is_used m = 0 \<or> c \<in> {a}"
    then show "leaf m" using n(2) l unfolding lists_ok_def by (cases "c = a") (auto simp: leaf_def)
  next
    fix c m lc rc nl nr
    assume q: "((nodes s)(a \<mapsto> ?n)) c = Some m" "bt_left m = Some lc" "bt_right m = Some rc" "((nodes s)(a \<mapsto> ?n)) lc = Some nl" "((nodes s)(a \<mapsto> ?n)) rc = Some nr"
      "is_used nl = 0" "is_used nr = 0"
    have "c \<noteq> a" using q(1, 2) n(2) by (auto simp: leaf_def)
    show "lc \<in> {a} \<or> rc \<in> {a}"
    proof (rule ccontr)
      assume "\<not> ?thesis"
      then have "nodes s c = Some m" "nodes s lc = Some nl" "nodes s rc = Some nr" using q(1, 4, 5) \<open>c \<noteq> a\<close> by simp_all
      then show False using l q(2, 3, 6, 7) unfolding lists_ok_def by blast
    qed
  qed
  have names: "names_ok {a} ((nodes s)(a \<mapsto> ?n)) ((running_rec s)(x := None))"
    unfolding names_ok_def
  proof (intro allI impI)
    fix y c assume y: "((running_rec s)(x := None)) y = Some c"
    then have "y \<noteq> x" "running_rec s y = Some c" by (auto split: if_splits)
    then obtain m where m: "nodes s c = Some m" "leaf m" "is_used m \<noteq> 0" "pname m = y" using buddy_okD(3) [OF assms(1)] unfolding names_ok_def by blast
    then have "c \<noteq> a" using n(1, 4) \<open>y \<noteq> x\<close> by auto
    then show "c \<notin> {a} \<and> (\<exists>m. ((nodes s)(a \<mapsto> n\<lparr>is_used := 0\<rparr>)) c = Some m \<and> leaf m \<and> is_used m \<noteq> 0 \<and> pname m = y)" using m by simp
  qed
  show "buddy_ok {a} s1"
    unfolding s1
  proof (rule buddy_ok_upd [OF assms(1)])
    show "tree_ok ((nodes s)(a \<mapsto> ?n)) rt (total_size s) (min_granularity s)" if "tree_ok (nodes s) rt (total_size s) (min_granularity s)" for rt
      using that n(1) sl by (rule same_tree_ok)
  qed (rule lists names same_sum [of "nodes s" a n ?n, OF n(1) sl])+
  show "blocks {a} (nodes s1) = {b \<in> blocks {} (nodes s). fst b \<noteq> a}" by (auto simp: s1 blocks_def)
  show "\<exists>n. nodes s1 a = Some n" by (simp add: s1)
qed

lemma small_total:
  assumes "buddy_ok X s" and "0 < k" and "30 \<le> f"
  shows "total_size s < k * 2 ^ f"
proof -
  have "1 * 2 ^ 30 \<le> k * 2 ^ f" using assms(2, 3) by (intro mult_mono power_increasing) auto
  then show ?thesis using buddy_okD(5) [OF assms(1)] by (simp add: INT_LIMIT_def)
qed

lemma free_query_ok:
  assumes "buddy_ok {} s" and "running_rec s x = Some a" and "31 \<le> fuel"
  shows "\<exists>s'. free_query fuel x s = Returned s' \<and> blocks {} (nodes s') = {b \<in> blocks {} (nodes s). fst b \<noteq> a} \<and>
    running_rec s' = (running_rec s)(x := None) \<and> total_size s' = total_size s \<and> min_granularity s' = min_granularity s \<and>
    (if blocks {} (nodes s') = {} then lost s' else buddy_ok {} s')"
proof -
  define s1 where "s1 = upd_node a (is_used_update (\<lambda>_. 0)) (s\<lparr>running_rec := (running_rec s)(x := None)\<rparr>)"
  note rel = release_ok [OF assms(1, 2), folded s1_def]
  obtain n1 where n1: "nodes s1 a = Some n1" using rel(3) by blast
  obtain rt1 where "tree_ok (nodes s1) rt1 (total_size s1) (min_granularity s1)" using buddy_okD(1) [OF rel(1)] by blast
  then have "0 < bt_size n1" using tree_pos n1 by blast
  moreover obtain f where fuel: "fuel = Suc f" "30 \<le> f" using assms(3) by (cases fuel) auto
  ultimately have "total_size s1 < bt_size n1 * 2 ^ f" by (intro small_total [OF rel(1)])
  from climb_ok [OF rel(1) n1 this] obtain t s2 n where
    c: "climb (Suc f) a s1 = Returned (t, s2)" "buddy_ok {t} s2" "nodes s2 t = Some n" "blocks {t} (nodes s2) = blocks {a} (nodes s1)" "same_run s1 s2"
    "Some t \<noteq> root s2 \<longrightarrow> buddy_used (nodes s2) t \<and> (\<exists>b nb. nodes s2 b = Some nb \<and> b \<noteq> t \<and> is_used nb \<noteq> 0)" by blast
  have rr: "running_rec s2 = (running_rec s)(x := None)" "total_size s2 = total_size s" "min_granularity s2 = min_granularity s"
    using c(5) by (simp_all add: same_run_def s1_def upd_node_def)
  obtain na where na: "nodes s a = Some na" using rel(4) by blast
  define s3 where "s3 = (if Some t = root s2 then upd_node t make_free s2 else LL_insert (bt_size n) t (upd_node t make_free s2))"
  have cl: "climb fuel (the (running_rec s x)) (upd_node (the (running_rec s x)) (is_used_update (\<lambda>_. 0)) (s\<lparr>running_rec := (running_rec s)(x := None)\<rparr>)) = Returned (t, s2)"
    unfolding fuel(1) using c(1) assms(2) by (simp only: s1_def option.sel)
  have "free_query fuel x s = Returned s3"
    unfolding free_query_def Let_def cl using assms(2) na c(3) by (simp add: bnode_def s3_def)
  moreover have nd: "nodes s3 = (nodes s2)(t \<mapsto> make_free n)" using c(3) by (simp add: s3_def upd_node_def LL_insert_def)
  moreover have sl: "same_links n (make_free n)" "is_used (make_free n) = 0" by (simp_all add: same_links_def make_free_def)
  moreover have bl: "blocks {} (nodes s3) = {b \<in> blocks {} (nodes s). fst b \<noteq> a}"
    using free_blocks [OF sl(2), of "{}" "nodes s2" t] c(4) rel(2) by (simp add: nd)
  moreover have r3: "running_rec s3 = (running_rec s)(x := None)" "total_size s3 = total_size s" "min_granularity s3 = min_granularity s"
    using rr by (simp_all add: s3_def upd_node_def LL_insert_def)
  moreover have "if blocks {} (nodes s3) = {} then lost s3 else buddy_ok {} s3"
  proof (cases "Some t = root s2")
    case True
    then have rt: "root s2 = Some t" by simp
    note r = root_in_hand [OF c(2) rt]
    have "nodes s3 = [t \<mapsto> make_free n]" "leaf n" "bt_size n = total_size s2" using r(1) c(3) by (auto simp: nd)
    moreover have "blocks {} [t \<mapsto> make_free n] = {}" using sl(2) by (auto simp: blocks_def)
    moreover have fr: "free_map s3 = free_map s2" "root s3 = Some t" "running_rec s3 = running_rec s2" "total_size s3 = total_size s2" "min_granularity s3 = min_granularity s2"
      using True rt by (simp_all add: s3_def upd_node_def)
    moreover have "leaf (make_free n)" "pname (make_free n) = CHR ''_''" "bytes_occupied (make_free n) = 0" "bt_size (make_free n) = bt_size n"
      using calculation(2) by (simp_all add: make_free_def leaf_def)
    ultimately have "\<exists>rt n. root s3 = Some rt \<and> nodes s3 = [rt \<mapsto> n] \<and> leaf n \<and> is_used n = 0 \<and> pname n = CHR ''_'' \<and> bytes_occupied n = 0 \<and>
       bt_size n = total_size s3"
      using sl(2) by (intro exI [of _ t] exI [of _ "make_free n"]) simp_all
    then have "lost s3" using r(2-4) gran_pos [OF c(2)] buddy_okD(5) [OF c(2)] unfolding lost_def by (simp add: fr)
    then show ?thesis using \<open>nodes s3 = [t \<mapsto> make_free n]\<close> \<open>blocks {} [t \<mapsto> make_free n] = {}\<close> by simp
  next
    case False
    obtain rt where t: "tree_ok (nodes s2) rt (total_size s2) (min_granularity s2)" using buddy_okD(1) [OF c(2)] by blast
    have bu: "buddy_used (nodes s2) t" using c(6) False by blast
    have lists: "lists_ok {} ((nodes s2)(t \<mapsto> make_free n)) ((free_map s2)(bt_size n := t # free_map s2 (bt_size n)))"
      by (rule free_lists_ok [OF t buddy_okD(2) [OF c(2)] c(3) sl]) (use bu in \<open>unfold buddy_used_def, blast\<close>)
    have "buddy_ok {} (s2\<lparr>nodes := (nodes s2)(t \<mapsto> make_free n), free_map := (free_map s2)(bt_size n := t # free_map s2 (bt_size n)), running_rec := running_rec s2\<rparr>)"
    proof (rule buddy_ok_upd [OF c(2)])
      show "tree_ok ((nodes s2)(t \<mapsto> make_free n)) rt (total_size s2) (min_granularity s2)" if "tree_ok (nodes s2) rt (total_size s2) (min_granularity s2)" for rt
        using that c(3) sl(1) by (rule same_tree_ok)
      show "names_ok {} ((nodes s2)(t \<mapsto> make_free n)) (running_rec s2)" by (rule free_names_ok [OF buddy_okD(3) [OF c(2)]]) simp
    qed (rule lists same_sum [of "nodes s2" t n "make_free n", OF c(3) sl(1)])+
    then have ok: "buddy_ok {} s3" using False c(3) by (simp add: s3_def upd_node_def LL_insert_def)
    obtain b nb where "nodes s2 b = Some nb" "b \<noteq> t" "is_used nb \<noteq> 0" using c(6) False by blast
    then have "blocks {} (nodes s3) \<noteq> {}" using used_below [OF ok, of b nb] by (simp add: nd)
    then show ?thesis using ok by simp
  qed
  ultimately show ?thesis by blast
qed

text \<open>The size given to a process: the smallest block that holds its bytes.\<close>

definition fits :: "int \<Rightarrow> int \<Rightarrow> buddy \<Rightarrow> bool" where
  "fits want pbytes s \<longleftrightarrow> (\<exists>i. want = min_granularity s * 2 ^ i \<and> (\<forall>k < i. min_granularity s * 2 ^ k < pbytes)) \<and> pbytes \<le> want"

lemma find_reqd_ok:
  assumes "0 < min_granularity s" and "total_size s = min_granularity s * 2 ^ k" and "2 * total_size s \<le> INT_LIMIT" and "pbytes \<le> total_size s"
    and "31 \<le> fuel"
  shows "\<exists>want. find_reqd_power_of_2 fuel pbytes s = Returned want \<and> fits want pbytes s \<and> 0 < want"
proof -
  obtain f where fuel: "fuel = Suc f" "30 \<le> f" using assms(5) by (cases fuel) auto
  have "1 * 2 ^ 30 \<le> min_granularity s * 2 ^ f" using assms(1) fuel(2) by (intro mult_mono power_increasing) auto
  then have "pbytes \<le> min_granularity s * 2 ^ f" using assms(3, 4) by (simp add: INT_LIMIT_def)
  moreover have "2 * pbytes \<le> INT_LIMIT" using assms(3, 4) by simp
  ultimately obtain j where j: "find_power_loop (Suc f) (min_granularity s) pbytes = Returned (min_granularity s * 2 ^ j)"
    "pbytes \<le> min_granularity s * 2 ^ j" "\<forall>k < j. min_granularity s * 2 ^ k < pbytes" using find_power_ok [OF _ assms(1)] by blast
  then show ?thesis using assms(1, 4) unfolding fuel(1) fits_def find_reqd_power_of_2_def by auto
qed

lemma lost_alloc:
  assumes "lost s" and "pbytes \<le> total_size s" and "31 \<le> fuel"
  shows "alloc_query fuel malloc x pbytes s = Returned s"
proof -
  obtain k where k: "total_size s = min_granularity s * 2 ^ k" "0 < min_granularity s" "2 * total_size s \<le> INT_LIMIT" "\<forall>k. free_map s k = []"
    using assms(1) by (auto simp: lost_def)
  obtain want where w: "find_reqd_power_of_2 fuel pbytes s = Returned want" "0 < want"
    using find_reqd_ok [OF k(2, 1, 3) assms(2, 3)] by blast
  obtain f where fuel: "fuel = Suc f" "30 \<le> f" using assms(3) by (cases fuel) auto
  have "1 * 2 ^ 30 \<le> want * 2 ^ f" using w(2) fuel(2) by (intro mult_mono power_increasing) auto
  then have "total_size s < want * 2 ^ f" using k(3) by (simp add: INT_LIMIT_def)
  from find_free_ok [OF this w(2) k(3)] have "find_free fuel want s = Returned None" using k(4) fuel(1) by auto
  then show ?thesis using w(1) by (simp add: alloc_query_def)
qed

lemma alloc_query_ok:
  assumes "buddy_ok {} s" and "malloc_ok malloc" and "pbytes \<le> total_size s" and "31 \<le> fuel"
  shows "\<exists>want. fits want pbytes s \<and>
    (if \<exists>a n. nodes s a = Some n \<and> is_used n = 0 \<and> want \<le> bt_size n
     then \<exists>a s'. alloc_query fuel malloc x pbytes s = Returned s' \<and> buddy_ok {} s' \<and> a \<notin> fst ` blocks {} (nodes s) \<and>
       blocks {} (nodes s') = insert (a, x, pbytes, want) (blocks {} (nodes s)) \<and> running_rec s' = (running_rec s)(x \<mapsto> a) \<and>
       total_size s' = total_size s \<and> min_granularity s' = min_granularity s
     else alloc_query fuel malloc x pbytes s = Returned s)"
proof -
  obtain rt where rt: "root s = Some rt" "tree_ok (nodes s) rt (total_size s) (min_granularity s)" using buddy_okD(1) [OF assms(1)] by blast
  obtain nr where nr: "nodes s rt = Some nr" "bt_size nr = total_size s" using rt(2) by (auto simp: tree_ok_def)
  obtain k where k: "total_size s = min_granularity s * 2 ^ k" using tree_okD(2) [OF rt(2) nr(1)] nr(2) by auto
  have g: "0 < min_granularity s" using gran_pos [OF assms(1)] .
  have lim: "2 * total_size s \<le> INT_LIMIT" using buddy_okD(5) [OF assms(1)] .
  obtain want where w: "find_reqd_power_of_2 fuel pbytes s = Returned want" "fits want pbytes s" "0 < want"
    using find_reqd_ok [OF g k lim assms(3, 4)] by blast
  obtain i where i: "want = min_granularity s * 2 ^ i" using w(2) by (auto simp: fits_def)
  obtain f where fuel: "fuel = Suc f" "30 \<le> f" using assms(4) by (cases fuel) auto
  have mem: "a \<in> set (free_map s z) \<longleftrightarrow> (\<exists>n. nodes s a = Some n \<and> is_used n = 0 \<and> bt_size n = z)" for a z
    using buddy_okD(2) [OF assms(1)] by (simp add: lists_ok_def)
  have avail: "(\<exists>a n. nodes s a = Some n \<and> is_used n = 0 \<and> want \<le> bt_size n) \<longleftrightarrow> (\<exists>j. want * 2 ^ j \<le> total_size s \<and> free_map s (want * 2 ^ j) \<noteq> [])"
  proof
    assume "\<exists>a n. nodes s a = Some n \<and> is_used n = 0 \<and> want \<le> bt_size n"
    then obtain a n where a: "nodes s a = Some n" "is_used n = 0" "want \<le> bt_size n" by blast
    obtain m where m: "bt_size n = min_granularity s * 2 ^ m" using tree_okD(2) [OF rt(2) a(1)] by blast
    have "i \<le> m" using a(3) g unfolding i m by simp
    then have z: "bt_size n = want * 2 ^ (m - i)" using i m by (simp add: power_add [symmetric])
    have "bt_size n \<le> total_size s" using leaf_size_le [OF assms(1) a(1)] leaf_in_hand [OF assms(1) a(1)] a(2) by simp
    moreover have "a \<in> set (free_map s (bt_size n))" using a by (auto simp: mem)
    ultimately show "\<exists>j. want * 2 ^ j \<le> total_size s \<and> free_map s (want * 2 ^ j) \<noteq> []" unfolding z by (intro exI [of _ "m - i"]) auto
  next
    assume "\<exists>j. want * 2 ^ j \<le> total_size s \<and> free_map s (want * 2 ^ j) \<noteq> []"
    then obtain j a where "a \<in> set (free_map s (want * 2 ^ j))" by (meson hd_in_set)
    then obtain n where "nodes s a = Some n" "is_used n = 0" "bt_size n = want * 2 ^ j" by (auto simp: mem)
    moreover have "want * 1 \<le> want * 2 ^ j" using w(3) by (intro mult_left_mono) auto
    ultimately show "\<exists>a n. nodes s a = Some n \<and> is_used n = 0 \<and> want \<le> bt_size n" by (intro exI [of _ a] exI [of _ n]) simp
  qed
  have "total_size s < want * 2 ^ f" by (rule small_total [OF assms(1) w(3) fuel(2)])
  from find_free_ok [OF this w(3) lim] show ?thesis
  proof
    assume none: "find_free (Suc f) want s = Returned None \<and> (\<forall>j. want * 2 ^ j \<le> total_size s \<longrightarrow> free_map s (want * 2 ^ j) = [])"
    then have "alloc_query fuel malloc x pbytes s = Returned s" using w(1) fuel(1) by (simp add: alloc_query_def)
    then show ?thesis using w(2) avail none by (intro exI [of _ want]) auto
  next
    assume "\<exists>j. find_free (Suc f) want s = Returned (Some (want * 2 ^ j)) \<and> want * 2 ^ j \<le> total_size s \<and> j < f \<and> free_map s (want * 2 ^ j) \<noteq> [] \<and>
       (\<forall>i < j. free_map s (want * 2 ^ i) = [])"
    then obtain j where j: "find_free (Suc f) want s = Returned (Some (want * 2 ^ j))" "want * 2 ^ j \<le> total_size s" "j < f" "free_map s (want * 2 ^ j) \<noteq> []" by blast
    define gg where "gg = want * 2 ^ j"
    define c where "c = hd (free_map s gg)"
    have pop: "buddy_ok {c} (pop gg s)" "\<exists>n. nodes s c = Some n \<and> is_used n = 0 \<and> bt_size n = gg"
      using pop_ok [OF assms(1), of gg] j(4) unfolding gg_def c_def by blast+
    then obtain n where n: "nodes s c = Some n" "is_used n = 0" "bt_size n = gg" by blast
    have jf: "j < fuel" using j(3) fuel(1) by simp
    have sd: "\<exists>c' s1 n'. split_down fuel malloc want gg c s = Returned (c', s1) \<and> buddy_ok {c'} (pop gg s1) \<and> nodes s1 c' = Some n' \<and> bt_size n' = want \<and>
        blocks {c'} (nodes s1) = blocks {c} (nodes s) \<and> same_run s s1"
      using split_down_ok [OF assms(2) i jf pop(1) n(1)] n(3) unfolding gg_def by auto
    then obtain c' s1 n' where s1: "split_down fuel malloc want gg c s = Returned (c', s1)" "buddy_ok {c'} (pop gg s1)" "nodes s1 c' = Some n'" "bt_size n' = want"
        "blocks {c'} (nodes s1) = blocks {c} (nodes s)" "same_run s s1" by blast
    have ff: "find_free fuel want s = Returned (Some gg)" using j(1) by (simp only: fuel(1) gg_def)
    have run: "alloc_query fuel malloc x pbytes s = Returned (allot x pbytes c' (pop gg s1))"
    proof (cases "want = gg")
      case True
      then have "c' = c \<and> s1 = s" using s1(1) fuel(1) by simp
      then show ?thesis using w(1) ff True by (simp add: alloc_query_def pop_def c_def Let_def)
    next
      case False
      then show ?thesis using w(1) ff s1(1) by (simp add: alloc_query_def pop_def c_def Let_def)
    qed
    have np: "nodes (pop gg s1) c' = Some n'" using s1(3) by (simp add: pop_def)
    note al = allot_ok [OF s1(2) np, of x pbytes]
    have b: "blocks {c} (nodes s) = blocks {} (nodes s)" using n(1, 2) by (auto simp: blocks_def)
    have "c' \<notin> fst ` blocks {c'} (nodes s1)" by (auto simp: blocks_def)
    then have "c' \<notin> fst ` blocks {} (nodes s)" using s1(5) b by simp
    moreover have "blocks {} (nodes (allot x pbytes c' (pop gg s1))) = insert (c', x, pbytes, want) (blocks {} (nodes s))"
      using al(2) s1(4, 5) b by (simp add: pop_def)
    moreover have "running_rec (allot x pbytes c' (pop gg s1)) = (running_rec s)(x \<mapsto> c')"
      "total_size (allot x pbytes c' (pop gg s1)) = total_size s" "min_granularity (allot x pbytes c' (pop gg s1)) = min_granularity s"
      using al(3, 4) s1(6) by (simp_all add: pop_def same_run_def)
    ultimately show ?thesis using w(2) avail j(2, 4) run al(1) by (intro exI [of _ want]) auto
  qed
qed

subsection \<open>Runs of the allocator\<close>

definition buddy_good :: "buddy \<Rightarrow> bool" where
  "buddy_good s \<longleftrightarrow> buddy_ok {} s \<or> lost s"

text \<open>A request that can be served: not more than the memory, and only running processes give up their block.\<close>

definition servable :: "buddy \<Rightarrow> char \<times> int \<Rightarrow> bool" where
  "servable s q \<longleftrightarrow> (if snd q = 0 then running_rec s (fst q) \<noteq> None else snd q \<le> total_size s)"

lemma lost_blocks: "lost s \<Longrightarrow> blocks {} (nodes s) = {}"
  by (auto simp: lost_def blocks_def split: if_splits)

lemma send_query_good:
  assumes "buddy_good s" and "malloc_ok malloc" and "31 \<le> fuel"
  shows "if servable s q then \<exists>s'. send_query fuel malloc q s = Returned s' \<and> buddy_good s' \<and> total_size s' = total_size s
    else send_query fuel malloc q s = Aborted (if snd q = 0 then ''null pointer'' else ''exit(3)'')"
proof -
  obtain x b where q: "q = (x, b)" by fastforce
  show ?thesis
  proof (cases "b = 0")
    case True
    show ?thesis
    proof (cases "running_rec s x")
      case None
      then show ?thesis using True by (simp add: q servable_def send_query_def free_query_def bnode_def Let_def)
    next
      case (Some a)
      then have "\<not> lost s" by (auto simp: lost_def)
      then have "buddy_ok {} s" using assms(1) by (simp add: buddy_good_def)
      from free_query_ok [OF this Some assms(3)] obtain s' where "free_query fuel x s = Returned s'" "total_size s' = total_size s"
        "if blocks {} (nodes s') = {} then lost s' else buddy_ok {} s'" by blast
      then show ?thesis using True Some by (auto simp: q servable_def send_query_def buddy_good_def split: if_splits)
    qed
  next
    case False
    show ?thesis
    proof (cases "b \<le> total_size s")
      case True
      have "\<exists>s'. alloc_query fuel malloc x b s = Returned s' \<and> buddy_good s' \<and> total_size s' = total_size s"
      proof (cases "lost s")
        case l: True
        then show ?thesis using lost_alloc [OF l True assms(3)] assms(1) by blast
      next
        case nl: False
        then have "buddy_ok {} s" using assms(1) by (simp add: buddy_good_def)
        from alloc_query_ok [OF this assms(2) True assms(3), of x] show ?thesis using assms(1) by (auto simp: buddy_good_def split: if_splits)
      qed
      then show ?thesis using False True by (simp add: q servable_def send_query_def)
    next
      case gt: False
      then show ?thesis using False by (simp add: q servable_def send_query_def alloc_query_def find_reqd_power_of_2_def)
    qed
  qed
qed

lemma map_sizes_ok:
  assumes "tot < i * 2 ^ f" and "0 < i" and "2 * tot \<le> INT_LIMIT"
  shows "map_sizes (Suc f) i tot (\<lambda>_. []) = Returned (\<lambda>_. [])"
  using assms(1, 2)
proof (induction f arbitrary: i)
  case (Suc f)
  show ?case
  proof (cases "i \<le> tot")
    case True
    then have "twice i = Returned (i * 2)" using assms(3) by (simp add: twice_def)
    then show ?thesis using Suc.IH [of "i * 2"] Suc.prems True by (simp add: mult.assoc fun_upd_def)
  qed simp
qed simp

lemma start_case_ok:
  assumes "malloc_ok malloc" and "0 < l" and "l < u" and "u \<le> 29" and "31 \<le> fuel"
  shows "\<exists>s'. start_case fuel malloc u l buddy_init = Returned s' \<and> buddy_ok {} s' \<and> blocks {} (nodes s') = {} \<and> running_rec s' = (\<lambda>_. None) \<and>
    total_size s' = 2 ^ nat u \<and> min_granularity s' = 2 ^ nat l \<and> (\<exists>a n. nodes s' a = Some n \<and> is_used n = 0 \<and> bt_size n = 2 ^ nat u)"
proof -
  obtain r where r: "malloc (\<lambda>_. None) = Some r" using assms(1) unfolding malloc_ok_def by (metis dom_empty finite.emptyI)
  obtain f where fuel: "fuel = Suc f" "30 \<le> f" using assms(5) by (cases fuel) auto
  have "(2 :: int) ^ nat u \<le> 2 ^ 29" using assms(4) by (intro power_increasing) auto
  then have lim: "2 * (2 :: int) ^ nat u \<le> INT_LIMIT" by (simp add: INT_LIMIT_def)
  have "(1 :: int) * 2 ^ 30 \<le> 2 ^ nat l * 2 ^ f" using fuel(2) by (intro mult_mono power_increasing) auto
  then have "(2 :: int) ^ nat u < 2 ^ nat l * 2 ^ f" using lim by (simp add: INT_LIMIT_def)
  then have ms: "map_sizes fuel (2 ^ nat l) (2 ^ nat u) (\<lambda>_. []) = Returned (\<lambda>_. [])" unfolding fuel(1) using lim by (intro map_sizes_ok) auto
  let ?n = "new_block_node (2 ^ nat u)"
  define s' where "s' = \<lparr>nodes = [r \<mapsto> ?n], root = Some r, free_map = (\<lambda>_. [])(2 ^ nat u := [r]), running_rec = (\<lambda>_. None), pid_global = - 1,
     total_size = 2 ^ nat u, min_granularity = 2 ^ nat l\<rparr>"
  have "start_case fuel malloc u l buddy_init = Returned s'"
    using assms(2-4) r ms by (simp add: start_case_def buddy_init_def int_pow2_def create_def initialize_free_map_def LL_insert_def s'_def)
  moreover have "(2 :: int) ^ nat u = 2 ^ nat l * 2 ^ (nat u - nat l)" using assms(2-4) by (simp add: power_add [symmetric])
  then have "\<exists>k. (2 :: int) ^ nat u = 2 ^ nat l * 2 ^ k" by blast
  then have "tree_ok [r \<mapsto> ?n] r (2 ^ nat u) (2 ^ nat l)" by (auto simp: tree_ok_def links_def leaf_def new_block_node_def)
  moreover have "lists_ok {} [r \<mapsto> ?n] ((\<lambda>_. [])(2 ^ nat u := [r]))" by (auto simp: lists_ok_def leaf_def new_block_node_def)
  moreover have "leaves [r \<mapsto> ?n] = {r}" by (auto simp: leaves_def leaf_def new_block_node_def)
  ultimately show ?thesis using lim
    by (intro exI [of _ s']) (auto simp: buddy_ok_def s'_def names_ok_def size_at_def blocks_def new_block_node_def)
qed

lemma queries_good:
  assumes "buddy_good s" and "malloc_ok malloc" and "31 \<le> fuel"
  shows "(\<exists>s'. queries_loop fuel malloc qs s = Returned s' \<and> buddy_good s' \<and> total_size s' = total_size s) \<or>
    queries_loop fuel malloc qs s = Aborted ''null pointer'' \<or> queries_loop fuel malloc qs s = Aborted ''exit(3)''"
  using assms(1)
proof (induction qs arbitrary: s)
  case (Cons q qs)
  show ?case
  proof (cases "servable s q")
    case True
    then obtain s1 where s1: "send_query fuel malloc q s = Returned s1" "buddy_good s1" "total_size s1 = total_size s"
      using send_query_good [OF Cons.prems assms(2, 3), of q] by auto
    then show ?thesis using Cons.IH [OF s1(2)] by simp
  next
    case False
    then show ?thesis using send_query_good [OF Cons.prems assms(2, 3), of q] by simp
  qed
qed simp

lemma good_sum: "buddy_good s \<Longrightarrow> (\<Sum>a \<in> leaves (nodes s). size_at (nodes s) a) = total_size s"
  unfolding buddy_good_def
proof (elim disjE)
  assume "lost s"
  then obtain rt n where n: "nodes s = [rt \<mapsto> n]" "leaf n" "bt_size n = total_size s" by (auto simp: lost_def)
  then have "leaves (nodes s) = {rt}" by (auto simp: leaves_def)
  then show ?thesis using n by (simp add: size_at_def)
qed (simp add: buddy_ok_def)

lemma good_lists: "buddy_good s \<Longrightarrow> distinct (free_map s k) \<and> (\<forall>a \<in> set (free_map s k). \<exists>n. nodes s a = Some n \<and> leaf n \<and> is_used n = 0 \<and> bt_size n = k)"
  unfolding buddy_good_def buddy_ok_def lists_ok_def lost_def by fastforce

subsection \<open>What the allocator does\<close>


text \<open>
  C9: a request for \<open>b\<close> bytes gives the process a block of the smallest size that holds them
  whenever a free block of at least that size is there, splitting a larger one if need be; no
  other block in use changes. Otherwise the request changes nothing.
\<close>

theorem buddy_alloc_correct:
  assumes "buddy_ok {} s" and "malloc_ok malloc" and "b \<noteq> 0" and "b \<le> total_size s" and "31 \<le> fuel"
  shows "\<exists>want. fits want b s \<and>
    (if \<exists>a n. nodes s a = Some n \<and> is_used n = 0 \<and> want \<le> bt_size n
     then \<exists>a s'. send_query fuel malloc (x, b) s = Returned s' \<and> buddy_ok {} s' \<and> a \<notin> fst ` blocks {} (nodes s) \<and>
       blocks {} (nodes s') = insert (a, x, b, want) (blocks {} (nodes s)) \<and> running_rec s' = (running_rec s)(x \<mapsto> a)
     else send_query fuel malloc (x, b) s = Returned s)"
proof -
  obtain want where w: "fits want b s"
    "if \<exists>a n. nodes s a = Some n \<and> is_used n = 0 \<and> want \<le> bt_size n
     then \<exists>a s'. alloc_query fuel malloc x b s = Returned s' \<and> buddy_ok {} s' \<and> a \<notin> fst ` blocks {} (nodes s) \<and>
       blocks {} (nodes s') = insert (a, x, b, want) (blocks {} (nodes s)) \<and> running_rec s' = (running_rec s)(x \<mapsto> a) \<and>
       total_size s' = total_size s \<and> min_granularity s' = min_granularity s
     else alloc_query fuel malloc x b s = Returned s"
    using alloc_query_ok [OF assms(1, 2, 4, 5), of x] by blast
  have "send_query fuel malloc (x, b) s = alloc_query fuel malloc x b s" using assms(3) by (simp add: send_query_def)
  then show ?thesis using w by (intro exI [of _ want]) (auto split: if_splits)
qed

text \<open>
  C10: a process that gives up its block takes exactly that block out of use, and free buddies
  are joined. The state stays good unless this was the last block in use: then all of the
  memory is one free block, which is in no free list any more.
\<close>

theorem buddy_free_correct:
  assumes "buddy_ok {} s" and "running_rec s x = Some a" and "31 \<le> fuel"
  shows "\<exists>s'. send_query fuel malloc (x, 0) s = Returned s' \<and> blocks {} (nodes s') = {b \<in> blocks {} (nodes s). fst b \<noteq> a} \<and>
    running_rec s' = (running_rec s)(x := None) \<and> (if blocks {} (nodes s') = {} then lost s' else buddy_ok {} s')"
proof -
  obtain s' where s': "free_query fuel x s = Returned s'" "blocks {} (nodes s') = {b \<in> blocks {} (nodes s). fst b \<noteq> a}"
    "running_rec s' = (running_rec s)(x := None)" "if blocks {} (nodes s') = {} then lost s' else buddy_ok {} s'"
    using free_query_ok [OF assms] by blast
  moreover have "send_query fuel malloc (x, 0) s = free_query fuel x s" by (simp add: send_query_def)
  ultimately show ?thesis by (intro exI [of _ s'] conjI) simp_all
qed

lemma lost_queries:
  "lost s \<Longrightarrow> \<forall>q \<in> set qs. snd q \<noteq> 0 \<and> snd q \<le> total_size s \<Longrightarrow> 31 \<le> fuel \<Longrightarrow> queries_loop fuel malloc qs s = Returned s"
proof (induction qs)
  case (Cons q qs)
  then have "send_query fuel malloc q s = Returned s" using lost_alloc [of s "snd q" fuel malloc "fst q"] by (cases q) (simp add: send_query_def)
  then show ?case using Cons by simp
qed simp

text \<open>
  The allocator loses its memory when it becomes empty. After one process has got a block
  and given it back, every later request is turned down, and the report at the end shows
  nothing but one free block.
\<close>

theorem buddy_loses_memory:
  assumes "malloc_ok malloc" and "0 < l" and "l < u" and "u \<le> 29" and "31 \<le> fuel" and "b \<noteq> 0" and "b \<le> 2 ^ nat u"
    and "\<forall>q \<in> set qs. snd q \<noteq> 0 \<and> snd q \<le> 2 ^ nat u"
  shows "\<exists>s'. test_case fuel malloc (u, l, (x, b) # (x, 0) # qs) buddy_init = Returned ([(CHR ''_'', 0, 2 ^ nat u)], s') \<and> lost s'"
proof -
  obtain s where s: "start_case fuel malloc u l buddy_init = Returned s" "buddy_ok {} s" "blocks {} (nodes s) = {}" "total_size s = 2 ^ nat u"
      "min_granularity s = 2 ^ nat l" "\<exists>a n. nodes s a = Some n \<and> is_used n = 0 \<and> bt_size n = 2 ^ nat u"
    using start_case_ok [OF assms(1-5)] by blast
  have b: "b \<le> total_size s" using assms(7) s(4) by simp
  obtain want where w: "fits want b s"
    "if \<exists>a n. nodes s a = Some n \<and> is_used n = 0 \<and> want \<le> bt_size n
     then \<exists>a s'. alloc_query fuel malloc x b s = Returned s' \<and> buddy_ok {} s' \<and> a \<notin> fst ` blocks {} (nodes s) \<and>
       blocks {} (nodes s') = insert (a, x, b, want) (blocks {} (nodes s)) \<and> running_rec s' = (running_rec s)(x \<mapsto> a) \<and>
       total_size s' = total_size s \<and> min_granularity s' = min_granularity s
     else alloc_query fuel malloc x b s = Returned s"
    using alloc_query_ok [OF s(2) assms(1) b assms(5), of x] by blast
  obtain i where i: "want = 2 ^ nat l * 2 ^ i" "\<forall>k < i. 2 ^ nat l * 2 ^ k < b" using w(1) s(5) by (auto simp: fits_def)
  have "want \<le> 2 ^ nat u"
  proof (rule ccontr)
    assume "\<not> ?thesis"
    then have "(2 :: int) ^ nat u < 2 ^ (nat l + i)" by (simp add: i(1) power_add)
    then have "nat u < nat l + i" by simp
    moreover have "nat l < nat u" using assms(2, 3) by simp
    ultimately have "nat u - nat l < i" by arith
    then have "(2 :: int) ^ nat l * 2 ^ (nat u - nat l) < b" using i(2) by blast
    then show False using assms(2, 3, 7) by (simp add: power_add [symmetric])
  qed
  then have av: "\<exists>a n. nodes s a = Some n \<and> is_used n = 0 \<and> want \<le> bt_size n" using s(6) by metis
  obtain a s1 where s1: "alloc_query fuel malloc x b s = Returned s1" "buddy_ok {} s1" "blocks {} (nodes s1) = {(a, x, b, want)}"
      "running_rec s1 x = Some a" "total_size s1 = 2 ^ nat u" using w(2) s(3, 4) unfolding if_P [OF av] by auto
  from free_query_ok [OF s1(2, 4) assms(5)] obtain s2 where s2: "free_query fuel x s1 = Returned s2" "lost s2" "total_size s2 = 2 ^ nat u"
    using s1(3, 5) by auto
  have "queries_loop fuel malloc ((x, b) # (x, 0) # qs) s = Returned s2"
    using s1(1) s2(1) assms(6) lost_queries [OF s2(2) _ assms(5), of qs malloc] s2(3) assms(8) by (simp add: send_query_def)
  moreover have "print_status fuel s2 (root s2) = Returned [(CHR ''_'', 0, 2 ^ nat u)]"
  proof -
    obtain f where "fuel = Suc f" using assms(5) by (cases fuel) auto
    then show ?thesis using s2(2, 3) by (auto simp: lost_def leaf_def bnode_def)
  qed
  ultimately show ?thesis using s(1) s2(2) assms(2, 3) by (intro exI [of _ s2]) (simp add: test_case_def del: queries_loop.simps)
qed

text \<open>An allocator for examples: the lowest address that is free.\<close>

definition lowest :: "bheap \<Rightarrow> nat option" where
  "lowest h = (if finite (dom h) then Some (LEAST a. h a = None) else None)"

lemma lowest_ok: "malloc_ok lowest"
proof -
  have "\<exists>a. h a = None" if "finite (dom h)" for h :: bheap
    using ex_new_if_finite [OF infinite_UNIV_nat that] by (auto simp: dom_def)
  then show ?thesis by (auto simp: malloc_ok_def lowest_def intro: LeastI_ex)
qed

lemma demo_start:
  "\<exists>s. start_case 31 lowest 10 4 buddy_init = Returned s \<and> buddy_ok {} s \<and> blocks {} (nodes s) = {} \<and> total_size s = 1024 \<and>
     min_granularity s = 16 \<and> (\<exists>a n. nodes s a = Some n \<and> is_used n = 0 \<and> bt_size n = 1024)"
  using start_case_ok [OF lowest_ok, of 4 10 31] by auto

lemma demo_fits: "fits want 70 s \<Longrightarrow> min_granularity s = 16 \<Longrightarrow> want = 128"
proof -
  assume f: "fits want 70 s" "min_granularity s = 16"
  then obtain i where i: "want = 16 * 2 ^ i" "\<forall>k < i. (16 :: int) * 2 ^ k < 70" "70 \<le> want" by (auto simp: fits_def)
  have "\<not> 3 < i" using i(2) by (auto dest: spec [of _ 3])
  moreover have b: "(70 :: int) \<le> 16 * 2 ^ i" using i(1, 3) by simp
  have "i \<noteq> 0" by (rule notI) (use b in simp)
  moreover have "i \<noteq> 1" by (rule notI) (use b in simp)
  moreover have "i \<noteq> 2" by (rule notI) (use b in simp)
  ultimately have "i = 3" by linarith
  then show ?thesis using i(1) by simp
qed


theorem buddy_alloc_correct_witness:
  "\<exists>s s' a. start_case 31 lowest 10 4 buddy_init = Returned s \<and> send_query 31 lowest (CHR ''A'', 70) s = Returned s' \<and> buddy_ok {} s' \<and>
     blocks {} (nodes s') = {(a, CHR ''A'', 70, 128)} \<and> running_rec s' CHR ''A'' = Some a"
proof -
  obtain s where s: "start_case 31 lowest 10 4 buddy_init = Returned s" "buddy_ok {} s" "blocks {} (nodes s) = {}" "total_size s = 1024"
     "min_granularity s = 16" "\<exists>a n. nodes s a = Some n \<and> is_used n = 0 \<and> bt_size n = 1024" using demo_start by blast
  have b: "(70 :: int) \<le> total_size s" "(70 :: int) \<noteq> 0" "(31 :: nat) \<le> 31" using s(4) by simp_all
  obtain want where w: "fits want 70 s"
    "if \<exists>a n. nodes s a = Some n \<and> is_used n = 0 \<and> want \<le> bt_size n
     then \<exists>a s'. send_query 31 lowest (CHR ''A'', 70) s = Returned s' \<and> buddy_ok {} s' \<and> a \<notin> fst ` blocks {} (nodes s) \<and>
       blocks {} (nodes s') = insert (a, CHR ''A'', 70, want) (blocks {} (nodes s)) \<and> running_rec s' = (running_rec s)(CHR ''A'' \<mapsto> a)
     else send_query 31 lowest (CHR ''A'', 70) s = Returned s"
    using buddy_alloc_correct [OF s(2) lowest_ok b(2, 1, 3)] by blast
  have want: "want = 128" using demo_fits [OF w(1) s(5)] .
  obtain a0 n0 where "nodes s a0 = Some n0" "is_used n0 = 0" "bt_size n0 = 1024" using s(6) by blast
  then have "nodes s a0 = Some n0 \<and> is_used n0 = 0 \<and> want \<le> bt_size n0" by (simp add: want)
  then have av: "\<exists>a n. nodes s a = Some n \<and> is_used n = 0 \<and> want \<le> bt_size n" by blast
  then show ?thesis using w(2) s(1, 3) unfolding if_P [OF av] want by auto
qed

lemma demo_alloc:
  "\<exists>s a. buddy_ok {} s \<and> running_rec s CHR ''A'' = Some a \<and> blocks {} (nodes s) = {(a, CHR ''A'', 70, 128)}"
proof -
  obtain s where s: "buddy_ok {} s" "blocks {} (nodes s) = {}" "total_size s = 1024"
     "min_granularity s = 16" "\<exists>a n. nodes s a = Some n \<and> is_used n = 0 \<and> bt_size n = 1024" using demo_start by blast
  have b: "(70 :: int) \<le> total_size s" "(31 :: nat) \<le> 31" using s(3) by simp_all
  obtain want where w: "fits want 70 s"
    "if \<exists>a n. nodes s a = Some n \<and> is_used n = 0 \<and> want \<le> bt_size n
     then \<exists>a s'. alloc_query 31 lowest CHR ''A'' 70 s = Returned s' \<and> buddy_ok {} s' \<and> a \<notin> fst ` blocks {} (nodes s) \<and>
       blocks {} (nodes s') = insert (a, CHR ''A'', 70, want) (blocks {} (nodes s)) \<and> running_rec s' = (running_rec s)(CHR ''A'' \<mapsto> a) \<and>
       total_size s' = total_size s \<and> min_granularity s' = min_granularity s
     else alloc_query 31 lowest CHR ''A'' 70 s = Returned s"
    using alloc_query_ok [OF s(1) lowest_ok b] by blast
  have want: "want = 128" using demo_fits [OF w(1) s(4)] .
  obtain a0 n0 where "nodes s a0 = Some n0" "is_used n0 = 0" "bt_size n0 = 1024" using s(5) by blast
  then have "nodes s a0 = Some n0 \<and> is_used n0 = 0 \<and> want \<le> bt_size n0" by (simp add: want)
  then have av: "\<exists>a n. nodes s a = Some n \<and> is_used n = 0 \<and> want \<le> bt_size n" by blast
  then show ?thesis using w(2) s(2) unfolding if_P [OF av] want by auto
qed

theorem buddy_free_correct_witness:
  "\<exists>s s' a. running_rec s CHR ''A'' = Some a \<and> send_query 31 lowest (CHR ''A'', 0) s = Returned s' \<and> blocks {} (nodes s') = {} \<and> lost s'"
proof -
  obtain s a where s: "buddy_ok {} s" "running_rec s CHR ''A'' = Some a" "blocks {} (nodes s) = {(a, CHR ''A'', 70, 128)}" using demo_alloc by blast
  have "(31 :: nat) \<le> 31" by simp
  from buddy_free_correct [OF s(1, 2) this, of lowest] obtain s' where s': "send_query 31 lowest (CHR ''A'', 0) s = Returned s'"
    "blocks {} (nodes s') = {b \<in> blocks {} (nodes s). fst b \<noteq> a}" "if blocks {} (nodes s') = {} then lost s' else buddy_ok {} s'" by blast
  have "blocks {} (nodes s') = {}" using s'(2) s(3) by auto
  then show ?thesis using s(2) s'(1, 3) by auto
qed

theorem buddy_loses_memory_witness:
  "\<exists>s. test_case 31 lowest (10, 4, [(CHR ''A'', 70), (CHR ''A'', 0), (CHR ''C'', 80)]) buddy_init = Returned ([(CHR ''_'', 0, 1024)], s)"
  using buddy_loses_memory [OF lowest_ok, of 4 10 31 70 "[(CHR ''C'', 80)]" "CHR ''A''"] by auto

end
