(* ===== verification/Image.thy ===== *)
theory Image
  imports Prelude
begin

text \<open>
  The image filters of Assignment 06, as \<open>part1.cpp\<close> applies them one after the other: grey
  levels, blurring, and the gradient that shows edges. An image is the vector of the rows of its
  pixels. The weights of the grey level are products and sums of doubles, which are computed
  here as the processor rounds them; those of the blur are sixteenths, which doubles hold
  exactly. Reading and writing files is not modelled.
\<close>

subsection \<open>Pixels and images\<close>

record pixel =
  red :: u8
  green :: u8
  blue :: u8

type_synonym image = "pixel list list"

definition pix :: "image \<Rightarrow> int \<Rightarrow> int \<Rightarrow> pixel outcome" where
  "pix img y x =
     (if 0 \<le> y \<and> nat y < length img \<and> 0 \<le> x \<and> nat x < length (img ! nat y) then Returned (img ! nat y ! nat x)
      else Aborted ''out of bounds'')"

definition put :: "nat \<Rightarrow> nat \<Rightarrow> pixel \<Rightarrow> image \<Rightarrow> image" where
  "put y x p img = img[y := (img ! y)[x := p]]"

definition grey :: "u8 \<Rightarrow> pixel" where
  "grey m = \<lparr>red = m, green = m, blue = m\<rparr>"

subsection \<open>Grey levels\<close>

text \<open>
  Numbers that are not negative, in units of \<open>2 ^ -56\<close>: rounding to the 53 significant bits of
  a double, ties to even.
\<close>

function excess_bits :: "nat \<Rightarrow> nat" where
  "excess_bits n = (if n < 2 ^ 53 then 0 else Suc (excess_bits (n div 2)))"
  by pat_completeness auto
termination
  by (relation "measure id") (auto intro: div_less_dividend)

declare excess_bits.simps [simp del]

definition round53 :: "nat \<Rightarrow> nat" where
  "round53 n =
     (let k = excess_bits n; q = n div 2 ^ k; r = n mod 2 ^ k
      in if k = 0 then n else if 2 * r > 2 ^ k \<or> (2 * r = 2 ^ k \<and> odd q) then (q + 1) * 2 ^ k else q * 2 ^ k)"

text \<open>The doubles next to 0.21, 0.72 and 0.07.\<close>

definition w_red :: nat where "w_red = 15132094747964866"
definition w_green :: nat where "w_green = 51881467707308112"
definition w_blue :: nat where "w_blue = 5044031582654956"

definition gray_level :: "nat \<Rightarrow> nat \<Rightarrow> nat \<Rightarrow> nat" where
  "gray_level r g b = round53 (round53 (round53 (w_red * r) + round53 (w_green * g)) + round53 (w_blue * b)) div 2 ^ 56"

definition gray_pixel :: "pixel \<Rightarrow> pixel" where
  "gray_pixel p = grey (of_nat (gray_level (unat (red p)) (unat (green p)) (unat (blue p))))"

definition T1 :: "image \<Rightarrow> image" where
  "T1 img = map (map gray_pixel) img"

subsection \<open>Loops over the inner pixels\<close>

fun for_each :: "('a \<Rightarrow> 's \<Rightarrow> 's outcome) \<Rightarrow> 'a list \<Rightarrow> 's \<Rightarrow> 's outcome" where
  "for_each f [] s = Returned s"
| "for_each f (x # xs) s = bind_outcome (f x s) (for_each f xs)"

text \<open>
  \<open>for (int y = 1; y < image.size() - 1; y++)\<close> and the same for \<open>x\<close>: the size is unsigned, so
  without rows, or without columns, the bound wraps and the first access is outside the image.
\<close>

definition inner_loop :: "(nat \<Rightarrow> nat \<Rightarrow> pixel outcome) \<Rightarrow> image \<Rightarrow> image \<Rightarrow> image outcome" where
  "inner_loop v bound img =
     (if bound = [] then Aborted ''out of bounds''
      else for_each (\<lambda>y im.
             if bound ! y = [] then Aborted ''out of bounds''
             else for_each (\<lambda>x im. bind_outcome (v y x) (\<lambda>p. Returned (put y x p im))) [1..<length (bound ! y) - 1] im)
           [1..<length bound - 1] img)"

text \<open>The neighbours of a pixel, in the order of the two loops over the kernel.\<close>

definition window :: "(int \<times> int) list" where
  "window = [(- 1, - 1), (- 1, 0), (- 1, 1), (0, - 1), (0, 0), (0, 1), (1, - 1), (1, 0), (1, 1)]"

fun conv_loop :: "int list list \<Rightarrow> (pixel \<Rightarrow> u8) \<Rightarrow> image \<Rightarrow> int \<Rightarrow> int \<Rightarrow> (int \<times> int) list \<Rightarrow> int \<Rightarrow> int outcome" where
  "conv_loop k c img y x [] acc = Returned acc"
| "conv_loop k c img y x ((j, i) # ps) acc =
     bind_outcome (pix img (y + j) (x + i)) (\<lambda>p. conv_loop k c img y x ps (acc + k ! nat (j + 1) ! nat (i + 1) * uint (c p)))"

definition conv :: "int list list \<Rightarrow> (pixel \<Rightarrow> u8) \<Rightarrow> image \<Rightarrow> nat \<Rightarrow> nat \<Rightarrow> int outcome" where
  "conv k c img y x = conv_loop k c img (int y) (int x) window 0"

subsection \<open>Blurring\<close>

text \<open>The weights in sixteenths.\<close>

definition blur_kernel :: "int list list" where
  "blur_kernel = [[1, 2, 1], [2, 4, 2], [1, 2, 1]]"

definition blur_value :: "image \<Rightarrow> nat \<Rightarrow> nat \<Rightarrow> pixel outcome" where
  "blur_value img y x =
     bind_outcome (conv blur_kernel red img y x) (\<lambda>r. bind_outcome (conv blur_kernel green img y x) (\<lambda>g.
     bind_outcome (conv blur_kernel blue img y x) (\<lambda>b.
       Returned \<lparr>red = word_of_int (r div 16), green = word_of_int (g div 16), blue = word_of_int (b div 16)\<rparr>)))"

fun blur_loop :: "nat \<Rightarrow> image \<Rightarrow> image \<Rightarrow> image outcome" where
  "blur_loop 0 img temp_image = Returned img"
| "blur_loop (Suc num_iter) img temp_image =
     bind_outcome (inner_loop (blur_value img) img temp_image) (\<lambda>t. blur_loop num_iter t t)"

definition T2 :: "image \<Rightarrow> image outcome" where
  "T2 img = blur_loop 50 img img"

text \<open>\<open>BLUR\<close> of \<open>part2_1a.cpp\<close> blurs once.\<close>

definition BLUR :: "image \<Rightarrow> image outcome" where
  "BLUR img = inner_loop (blur_value img) img img"

subsection \<open>Edges\<close>

definition sobel_x :: "int list list" where "sobel_x = [[1, 0, - 1], [2, 0, - 2], [1, 0, - 1]]"
definition sobel_x' :: "int list list" where "sobel_x' = [[- 1, 0, 1], [- 2, 0, 2], [- 1, 0, 1]]"
definition sobel_y :: "int list list" where "sobel_y = [[- 1, - 2, - 1], [0, 0, 0], [1, 2, 1]]"

text \<open>\<open>(int)sqrt(n)\<close>\<close>

function isqrt_from :: "nat \<Rightarrow> nat \<Rightarrow> nat" where
  "isqrt_from k n = (if (k + 1) * (k + 1) \<le> n then isqrt_from (k + 1) n else k)"
  by pat_completeness auto
termination
proof (relation "measure (\<lambda>(k, n). n - k)")
  fix k n :: nat assume "(k + 1) * (k + 1) \<le> n"
  then have "k < n" by simp
  then show "((k + 1, n), k, n) \<in> measure (\<lambda>(k, n). n - k)" by simp
qed simp

declare isqrt_from.simps [simp del]

definition isqrt :: "nat \<Rightarrow> nat" where
  "isqrt n = isqrt_from 0 n"

definition edge_value :: "int list list \<Rightarrow> image \<Rightarrow> nat \<Rightarrow> nat \<Rightarrow> pixel outcome" where
  "edge_value gx t y x =
     bind_outcome (conv gx red t y x) (\<lambda>gx_sum. bind_outcome (conv sobel_y red t y x) (\<lambda>gy_sum.
       Returned (grey (of_nat (isqrt (nat (gx_sum * gx_sum + gy_sum * gy_sum)))))))"

definition T3 :: "image \<Rightarrow> image outcome" where
  "T3 pixels = inner_loop (edge_value sobel_x pixels) pixels pixels"

text \<open>\<open>main\<close>, from the image that has been read to the image that is written.\<close>

definition part1_main :: "image \<Rightarrow> image outcome" where
  "part1_main pixels = T3 (T1 pixels)"

subsection \<open>What the loops compute\<close>

definition rect :: "image \<Rightarrow> nat \<Rightarrow> nat \<Rightarrow> bool" where
  "rect img h w \<longleftrightarrow> length img = h \<and> (\<forall>y < h. length (img ! y) = w)"

definition inner :: "nat \<Rightarrow> nat \<Rightarrow> nat \<Rightarrow> nat \<Rightarrow> bool" where
  "inner h w y x \<longleftrightarrow> 1 \<le> y \<and> y + 1 < h \<and> 1 \<le> x \<and> x + 1 < w"

lemma rect_put: "rect img h w \<Longrightarrow> rect (put y x p img) h w"
  by (cases "y < length img") (auto simp: rect_def put_def nth_list_update)

lemma put_at:
  "rect img h w \<Longrightarrow> y < h \<Longrightarrow> x < w \<Longrightarrow> put y x p img ! y' ! x' = (if y' = y \<and> x' = x then p else img ! y' ! x')"
  by (auto simp: rect_def put_def nth_list_update)

lemma pix_at: "rect img h w \<Longrightarrow> 0 \<le> y \<Longrightarrow> y < int h \<Longrightarrow> 0 \<le> x \<Longrightarrow> x < int w \<Longrightarrow> pix img y x = Returned (img ! nat y ! nat x)"
  by (simp add: rect_def pix_def nat_less_iff)

lemma for_each_inv:
  assumes "P s" and "\<And>x s. x \<in> set xs \<Longrightarrow> P s \<Longrightarrow> \<exists>s'. f x s = Returned s' \<and> P s'"
  shows "\<exists>s'. for_each f xs s = Returned s' \<and> P s'"
  using assms
proof (induction xs arbitrary: s)
  case (Cons x xs)
  from Cons.prems(2) [of x s] Cons.prems(1) obtain s1 where s1: "f x s = Returned s1" "P s1" by auto
  then show ?case using Cons.IH [OF s1(2)] Cons.prems(2) by auto
qed simp

text \<open>One row: the columns from 1 on have been set.\<close>

lemma inner_row:
  assumes "rect img h w" and "y < h" and "set xs \<subseteq> {..<w}" and "\<And>x. x \<in> set xs \<Longrightarrow> v y x = Returned (f y x)"
  shows "\<exists>d. for_each (\<lambda>x im. bind_outcome (v y x) (\<lambda>p. Returned (put y x p im))) xs img = Returned d \<and> rect d h w \<and>
    (\<forall>y' x'. d ! y' ! x' = (if y' = y \<and> x' \<in> set xs then f y x' else img ! y' ! x'))"
  using assms(1, 3, 4)
proof (induction xs arbitrary: img)
  case (Cons x xs)
  let ?i = "put y x (f y x) img"
  have r: "rect ?i h w" using Cons.prems(1) by (rule rect_put)
  from Cons.IH [OF r] Cons.prems(2, 3) obtain d where
    d: "for_each (\<lambda>x im. bind_outcome (v y x) (\<lambda>p. Returned (put y x p im))) xs ?i = Returned d" "rect d h w"
    "\<forall>y' x'. d ! y' ! x' = (if y' = y \<and> x' \<in> set xs then f y x' else ?i ! y' ! x')" by auto
  have "x < w" using Cons.prems(2) by auto
  then show ?case using d put_at [OF Cons.prems(1) assms(2), of x "f y x"] Cons.prems(3) by auto
qed simp

lemma inner_loop_ok:
  assumes "rect b h w" and "rect img h w" and "0 < h" and "0 < w" and "\<And>y x. inner h w y x \<Longrightarrow> v y x = Returned (f y x)"
  shows "\<exists>d. inner_loop v b img = Returned d \<and> rect d h w \<and>
    (\<forall>y < h. \<forall>x < w. d ! y ! x = (if inner h w y x then f y x else img ! y ! x))"
proof -
  let ?body = "\<lambda>y im. if b ! y = [] then Aborted ''out of bounds''
             else for_each (\<lambda>x im. bind_outcome (v y x) (\<lambda>p. Returned (put y x p im))) [1..<length (b ! y) - 1] im"
  have "\<exists>d. for_each ?body ys img = Returned d \<and> rect d h w \<and>
      (\<forall>y' x'. d ! y' ! x' = (if y' \<in> set ys \<and> x' \<in> {1..<w - 1} then f y' x' else img ! y' ! x'))"
    if "set ys \<subseteq> {1..<h - 1}" for ys
    using assms(2) that
  proof (induction ys arbitrary: img)
    case (Cons y ys)
    have yh: "y < h" using Cons.prems(2) by auto
    then have len: "length (b ! y) = w" using assms(1) by (simp add: rect_def)
    then have ne: "b ! y \<noteq> []" using assms(4) by (metis length_0_conv less_irrefl)
    note y = yh ne len
    have "\<exists>d. for_each (\<lambda>x im. bind_outcome (v y x) (\<lambda>p. Returned (put y x p im))) [1..<w - 1] img = Returned d \<and> rect d h w \<and>
        (\<forall>y' x'. d ! y' ! x' = (if y' = y \<and> x' \<in> set [1..<w - 1] then f y x' else img ! y' ! x'))"
    proof (rule inner_row [OF Cons.prems(1) y(1)])
      show "v y x = Returned (f y x)" if "x \<in> set [1..<w - 1]" for x
        by (rule assms(5)) (use that Cons.prems(2) in \<open>auto simp: inner_def\<close>)
    qed auto
    then obtain d where d: "?body y img = Returned d" "rect d h w"
      "\<forall>y' x'. d ! y' ! x' = (if y' = y \<and> x' \<in> {1..<w - 1} then f y x' else img ! y' ! x')"
      using y(2) by (auto simp: y(3))
    from Cons.IH [OF d(2)] Cons.prems(2) obtain e where e: "for_each ?body ys d = Returned e" "rect e h w"
      "\<forall>y' x'. e ! y' ! x' = (if y' \<in> set ys \<and> x' \<in> {1..<w - 1} then f y' x' else d ! y' ! x')" by auto
    have "for_each ?body (y # ys) img = Returned e" using d(1) e(1) by simp
    moreover have "e ! y' ! x' = (if y' \<in> set (y # ys) \<and> x' \<in> {1..<w - 1} then f y' x' else img ! y' ! x')" for y' x'
      using d(3) e(3) by auto
    ultimately show ?case using e(2) by blast
  qed simp
  from this [of "[1..<h - 1]"] obtain d where d: "for_each ?body [1..<h - 1] img = Returned d" "rect d h w"
      "\<forall>y' x'. d ! y' ! x' = (if y' \<in> set [1..<h - 1] \<and> x' \<in> {1..<w - 1} then f y' x' else img ! y' ! x')" by auto
  have "b \<noteq> []" "length b = h" using assms(1, 3) by (auto simp: rect_def)
  then show ?thesis using d by (intro exI [of _ d]) (auto simp: inner_loop_def inner_def)
qed

subsection \<open>Sums over the neighbours\<close>

definition weighted :: "int list list \<Rightarrow> (pixel \<Rightarrow> u8) \<Rightarrow> image \<Rightarrow> nat \<Rightarrow> nat \<Rightarrow> int" where
  "weighted k c img y x =
     (\<Sum>(j, i) \<leftarrow> window. k ! nat (j + 1) ! nat (i + 1) * uint (c (img ! nat (int y + j) ! nat (int x + i))))"

lemma conv_loop_ok:
  assumes "rect img h w" and "\<forall>(j, i) \<in> set ps. 0 \<le> y + j \<and> y + j < int h \<and> 0 \<le> x + i \<and> x + i < int w"
  shows "conv_loop k c img y x ps acc = Returned (acc + (\<Sum>(j, i) \<leftarrow> ps. k ! nat (j + 1) ! nat (i + 1) * uint (c (img ! nat (y + j) ! nat (x + i)))))"
  using assms(2)
proof (induction ps arbitrary: acc)
  case (Cons p ps)
  obtain j i where p: "p = (j, i)" by fastforce
  then have "pix img (y + j) (x + i) = Returned (img ! nat (y + j) ! nat (x + i))" using pix_at [OF assms(1)] Cons.prems by simp
  then show ?case using Cons p by (simp add: algebra_simps)
qed simp

lemma conv_ok: "rect img h w \<Longrightarrow> inner h w y x \<Longrightarrow> conv k c img y x = Returned (weighted k c img y x)"
  unfolding conv_def weighted_def by (subst conv_loop_ok [of img h w]) (auto simp: window_def inner_def)

lemma isqrt_from_ok: "k * k \<le> n \<Longrightarrow> isqrt_from k n * isqrt_from k n \<le> n \<and> n < (isqrt_from k n + 1) * (isqrt_from k n + 1)"
proof (induction k n rule: isqrt_from.induct)
  case (1 k n)
  show ?case
  proof (cases "(k + 1) * (k + 1) \<le> n")
    case True
    then show ?thesis using 1 by (subst (1 2 3 4) isqrt_from.simps) simp
  next
    case False
    then have "isqrt_from k n = k" by (subst isqrt_from.simps) simp
    then show ?thesis using 1(2) False by simp
  qed
qed

lemma isqrt_unique:
  assumes "k * k \<le> n" and "n < (k + 1) * (k + 1)"
  shows "isqrt n = k"
proof -
  have i: "isqrt n * isqrt n \<le> n" "n < (isqrt n + 1) * (isqrt n + 1)"
    using isqrt_from_ok [of 0 n] by (simp_all add: isqrt_def)
  have "\<not> isqrt n + 1 \<le> k" using mult_le_mono [of "isqrt n + 1" k "isqrt n + 1" k] i(2) assms(1) by linarith
  moreover have "\<not> k + 1 \<le> isqrt n" using mult_le_mono [of "k + 1" "isqrt n" "k + 1" "isqrt n"] i(1) assms(2) by linarith
  ultimately show ?thesis by linarith
qed

lemma isqrt_ok: "isqrt n * isqrt n \<le> n" "n < (isqrt n + 1) * (isqrt n + 1)"
  using isqrt_from_ok [of 0 n] by (simp_all add: isqrt_def)

definition edge_square :: "image \<Rightarrow> nat \<Rightarrow> nat \<Rightarrow> int" where
  "edge_square t y x = weighted sobel_x red t y x * weighted sobel_x red t y x + weighted sobel_y red t y x * weighted sobel_y red t y x"

definition edge_mag :: "image \<Rightarrow> nat \<Rightarrow> nat \<Rightarrow> nat" where
  "edge_mag t y x = isqrt (nat (edge_square t y x))"

lemma uint8: "0 \<le> uint (v :: u8) \<and> uint v \<le> 255"
  using uint_lt2p [of v] by simp

lemma unat8: "unat (v :: u8) \<le> 255"
proof -
  have "unat v < 2 ^ LENGTH(8)" by (rule unsigned_less)
  then show ?thesis by simp
qed

lemma sobel_bounds: "\<bar>weighted sobel_x c t y x\<bar> \<le> 1020" "\<bar>weighted sobel_y c t y x\<bar> \<le> 1020"
proof -
  define p where "p j i = uint (c (t ! nat (int y + j) ! nat (int x + i)))" for j i
  have p: "0 \<le> p j i \<and> p j i \<le> 255" for j i by (simp add: p_def uint8)
  have "weighted sobel_x c t y x = p (- 1) (- 1) - p (- 1) 1 + 2 * p 0 (- 1) - 2 * p 0 1 + p 1 (- 1) - p 1 1"
    by (simp add: weighted_def window_def sobel_x_def p_def)
  then show "\<bar>weighted sobel_x c t y x\<bar> \<le> 1020"
    using p [of "- 1" "- 1"] p [of "- 1" 1] p [of 0 "- 1"] p [of 0 1] p [of 1 "- 1"] p [of 1 1] by linarith
  have "weighted sobel_y c t y x = - p (- 1) (- 1) - 2 * p (- 1) 0 - p (- 1) 1 + p 1 (- 1) + 2 * p 1 0 + p 1 1"
    by (simp add: weighted_def window_def sobel_y_def p_def)
  then show "\<bar>weighted sobel_y c t y x\<bar> \<le> 1020"
    using p [of "- 1" "- 1"] p [of "- 1" 1] p [of "- 1" 0] p [of 1 0] p [of 1 "- 1"] p [of 1 1] by linarith
qed

lemma sobel_mirror: "weighted sobel_x' c t y x = - weighted sobel_x c t y x"
  by (simp add: weighted_def window_def sobel_x_def sobel_x'_def)

lemma edge_square_bounds: "0 \<le> edge_square t y x \<and> edge_square t y x \<le> 2080800"
proof -
  have sq: "a * a \<le> 1040400" if "\<bar>a\<bar> \<le> 1020" for a :: int
    using mult_mono [OF that that] by (simp add: abs_mult [symmetric] del: abs_mult)
  have "weighted sobel_x red t y x * weighted sobel_x red t y x \<le> 1040400" by (rule sq [OF sobel_bounds(1)])
  moreover have "weighted sobel_y red t y x * weighted sobel_y red t y x \<le> 1040400" by (rule sq [OF sobel_bounds(2)])
  moreover have "0 \<le> weighted sobel_x red t y x * weighted sobel_x red t y x" "0 \<le> weighted sobel_y red t y x * weighted sobel_y red t y x"
    by simp_all
  ultimately show ?thesis unfolding edge_square_def by linarith
qed

lemma edge_mag_bound: "edge_mag t y x \<le> 1442"
proof (rule ccontr)
  assume "\<not> ?thesis"
  then have "1443 * 1443 \<le> edge_mag t y x * edge_mag t y x" by (intro mult_mono) auto
  also have "\<dots> \<le> nat (edge_square t y x)" by (simp add: edge_mag_def isqrt_ok(1))
  also have "\<dots> \<le> 2080800" using edge_square_bounds by (simp add: nat_le_iff)
  finally show False by simp
qed

lemma edge_value_ok:
  assumes "rect t h w" and "inner h w y x"
  shows "edge_value sobel_x t y x = Returned (grey (of_nat (edge_mag t y x)))" "edge_value sobel_x' t y x = Returned (grey (of_nat (edge_mag t y x)))"
  using conv_ok [OF assms] by (simp_all add: edge_value_def edge_mag_def edge_square_def sobel_mirror)

subsection \<open>Grey levels are rounded down\<close>

lemma excess_bits_le: "n < 2 ^ (53 + j) \<Longrightarrow> excess_bits n \<le> j"
proof (induction j arbitrary: n)
  case 0
  then show ?case by (subst excess_bits.simps) simp
next
  case (Suc j)
  then have "n < 2 ^ (53 + j) * 2" by (simp add: power_add)
  then have "n div 2 < 2 ^ (53 + j)" by (rule less_mult_imp_div_less)
  then show ?case using Suc.IH [of "n div 2"] by (subst excess_bits.simps) simp
qed

lemma round53_close:
  assumes "n < 2 ^ 64"
  shows "n \<le> round53 n + 2 ^ 10" "round53 n \<le> n + 2 ^ 10"
proof -
  define k q r where d: "k = excess_bits n" "q = n div 2 ^ k" "r = n mod 2 ^ k"
  have n: "n = q * 2 ^ k + r" by (unfold d(2, 3)) (rule div_mult_mod_eq [symmetric])
  have r: "r < 2 ^ k" by (simp add: d(3))
  have "k \<le> 11" using excess_bits_le [of n 11] assms by (simp add: d(1))
  then have "(2 :: nat) ^ k \<le> 2 ^ 11" by (rule power_increasing) simp
  moreover have "round53 n = (if k = 0 then n else if 2 * r > 2 ^ k \<or> (2 * r = 2 ^ k \<and> odd q) then (q + 1) * 2 ^ k else q * 2 ^ k)"
    by (simp add: round53_def d Let_def)
  then have "2 * n \<le> 2 * round53 n + 2 ^ k \<and> 2 * round53 n \<le> 2 * n + 2 ^ k"
    using n r by (auto split: if_splits simp: algebra_simps)
  ultimately show "n \<le> round53 n + 2 ^ 10" "round53 n \<le> n + 2 ^ 10" by simp_all
qed

lemma gray_sum_close:
  assumes "r \<le> 255" and "g \<le> 255" and "b \<le> 255"
  defines "v \<equiv> round53 (round53 (round53 (w_red * r) + round53 (w_green * g)) + round53 (w_blue * b))"
  shows "(21 * r + 72 * g + 7 * b) * 2 ^ 56 \<le> 100 * v + 2000000" "100 * v \<le> (21 * r + 72 * g + 7 * b) * 2 ^ 56 + 2000000"
proof -
  define a1 a2 a3 s1 where s: "a1 = round53 (w_red * r)" "a2 = round53 (w_green * g)" "a3 = round53 (w_blue * b)" "s1 = round53 (a1 + a2)"
  have a1: "w_red * r \<le> a1 + 2 ^ 10" "a1 \<le> w_red * r + 2 ^ 10"
    using round53_close [of "w_red * r"] assms(1) by (simp_all add: s w_red_def)
  have a2: "w_green * g \<le> a2 + 2 ^ 10" "a2 \<le> w_green * g + 2 ^ 10"
    using round53_close [of "w_green * g"] assms(2) by (simp_all add: s w_green_def)
  have a3: "w_blue * b \<le> a3 + 2 ^ 10" "a3 \<le> w_blue * b + 2 ^ 10"
    using round53_close [of "w_blue * b"] assms(3) by (simp_all add: s w_blue_def)
  have "a1 + a2 < 2 ^ 64" using a1(2) a2(2) assms(1, 2) by (simp add: w_red_def w_green_def)
  note s1 = round53_close [OF this, folded s(4)]
  have "s1 + a3 < 2 ^ 64" using s1(2) a3(2) a1(2) a2(2) assms(1-3) by (simp add: w_red_def w_green_def w_blue_def)
  note v = round53_close [OF this]
  define p1 p2 p3 where p: "p1 = w_red * r" "p2 = w_green * g" "p3 = w_blue * b"
  have w: "100 * p1 \<le> 2 ^ 56 * (21 * r) + 50000" "2 ^ 56 * (21 * r) \<le> 100 * p1 + 50000"
    "100 * p2 \<le> 2 ^ 56 * (72 * g) + 50000" "2 ^ 56 * (72 * g) \<le> 100 * p2 + 50000"
    "100 * p3 \<le> 2 ^ 56 * (7 * b) + 50000" "2 ^ 56 * (7 * b) \<le> 100 * p3 + 50000"
    using assms(1-3) by (simp_all add: p w_red_def w_green_def w_blue_def)
  have v': "s1 + a3 \<le> v + 2 ^ 10" "v \<le> s1 + a3 + 2 ^ 10" using v by (simp_all add: assms(4) s)
  note p' = a1 [folded p] a2 [folded p] a3 [folded p]
  show "(21 * r + 72 * g + 7 * b) * 2 ^ 56 \<le> 100 * v + 2000000" using w p' s1 v' by simp
  show "100 * v \<le> (21 * r + 72 * g + 7 * b) * 2 ^ 56 + 2000000" using w p' s1 v' by simp
qed

lemma gray_level_cases:
  assumes "r \<le> 255" and "g \<le> 255" and "b \<le> 255"
  shows "gray_level r g b = (21 * r + 72 * g + 7 * b) div 100 \<or>
    (100 dvd 21 * r + 72 * g + 7 * b \<and> gray_level r g b + 1 = (21 * r + 72 * g + 7 * b) div 100)"
proof -
  define v where "v = round53 (round53 (round53 (w_red * r) + round53 (w_green * g)) + round53 (w_blue * b))"
  define q m where qm: "q = (21 * r + 72 * g + 7 * b) div 100" "m = (21 * r + 72 * g + 7 * b) mod 100"
  have s: "21 * r + 72 * g + 7 * b = 100 * q + m" "m < 100" by (simp_all add: qm)
  note c = gray_sum_close [OF assms, folded v_def, unfolded s(1)]
  have lv: "gray_level r g b = v div 2 ^ 56" by (simp add: gray_level_def v_def)
  have up: "v < (q + 1) * 2 ^ 56" using c(2) s(2) by simp
  show ?thesis
  proof (cases "q * 2 ^ 56 \<le> v")
    case True
    then have "v div 2 ^ 56 = q" using up by (intro div_nat_eqI) (simp_all add: mult.commute)
    then show ?thesis by (simp add: lv qm(1))
  next
    case False
    then have "m = 0" using c(1) by simp
    then have "100 dvd 21 * r + 72 * g + 7 * b" by (simp add: qm(2) dvd_eq_mod_eq_0)
    moreover obtain q' where q': "q = Suc q'" using False by (cases q) auto
    have "v div 2 ^ 56 = q'" using False c(1) \<open>m = 0\<close> by (intro div_nat_eqI) (simp_all add: q')
    ultimately show ?thesis using q' by (simp add: lv qm(1))
  qed
qed

subsection \<open>The picture written by \<open>part1.cpp\<close>\<close>

text \<open>
  C19: a pixel becomes grey, and its level is the weighted mean of its colours in hundredths
  rounded down, \<open>(21 r + 72 g + 7 b) / 100\<close>, except that where this is a whole number the
  rounding of the doubles can leave the sum just below it, and the level is one less. White is
  such a pixel: it becomes 254.
\<close>

theorem gray_pixel_level:
  "(let s = 21 * unat (red p) + 72 * unat (green p) + 7 * unat (blue p) in
     \<exists>m \<le> 255. gray_pixel p = grey (of_nat m) \<and> (m = s div 100 \<or> 100 dvd s \<and> m + 1 = s div 100)) \<and>
   gray_pixel (grey 255) = grey 254"
proof -
  note u = unat8
  define s where "s = 21 * unat (red p) + 72 * unat (green p) + 7 * unat (blue p)"
  define m where "m = gray_level (unat (red p)) (unat (green p)) (unat (blue p))"
  have c: "m = s div 100 \<or> 100 dvd s \<and> m + 1 = s div 100"
    unfolding s_def m_def by (rule gray_level_cases) (rule u)+
  have "s div 100 \<le> 255" using u [of "red p"] u [of "green p"] u [of "blue p"] by (simp add: s_def)
  then have "m \<le> 255" using c by auto
  moreover have "gray_pixel p = grey (of_nat m)" by (simp add: gray_pixel_def m_def)
  ultimately have "\<exists>m \<le> 255. gray_pixel p = grey (of_nat m) \<and> (m = s div 100 \<or> 100 dvd s \<and> m + 1 = s div 100)"
    using c by auto
  moreover have "gray_pixel (grey 255) = grey 254"
    by (simp add: gray_pixel_def grey_def gray_level_def round53_def w_red_def w_green_def w_blue_def excess_bits.simps)
  ultimately show ?thesis by (simp add: s_def Let_def)
qed

lemma rect_T1: "rect img h w \<Longrightarrow> rect (T1 img) h w"
  by (simp add: rect_def T1_def)

lemma T1_at: "rect img h w \<Longrightarrow> y < h \<Longrightarrow> x < w \<Longrightarrow> T1 img ! y ! x = gray_pixel (img ! y ! x)"
  by (simp add: rect_def T1_def)

lemma T3_ok:
  assumes "rect t h w" and "0 < h" and "0 < w"
  shows "\<exists>d. T3 t = Returned d \<and> rect d h w \<and>
    (\<forall>y < h. \<forall>x < w. d ! y ! x = (if inner h w y x then grey (of_nat (edge_mag t y x)) else t ! y ! x))"
  unfolding T3_def by (rule inner_loop_ok [OF assms(1) assms]) (rule edge_value_ok(1) [OF assms(1)])

text \<open>
  C17: \<open>main\<close> returns on every picture with at least one row and one column, and writes a
  picture of the same size: its border holds the grey levels; an inner pixel holds the integer
  square root of the sum of the squares of the two gradients of the grey levels around it, at
  most 1442, in the eight bits of a colour. A picture that could not be read has no rows, and
  the loop runs outside it.
\<close>

theorem part1_main_correct:
  assumes "rect pixels h w" and "0 < h" and "0 < w"
  shows "(\<exists>d. part1_main pixels = Returned d \<and> rect d h w \<and>
     (\<forall>y < h. \<forall>x < w. d ! y ! x =
        (if inner h w y x then grey (of_nat (edge_mag (T1 pixels) y x)) else gray_pixel (pixels ! y ! x)))) \<and>
     (\<forall>y x. let m = edge_mag (T1 pixels) y x; n = nat (edge_square (T1 pixels) y x) in m * m \<le> n \<and> n < (m + 1) * (m + 1) \<and> m \<le> 1442) \<and>
     part1_main [] = Aborted ''out of bounds''"
proof -
  have "\<exists>d. part1_main pixels = Returned d \<and> rect d h w \<and>
     (\<forall>y < h. \<forall>x < w. d ! y ! x =
        (if inner h w y x then grey (of_nat (edge_mag (T1 pixels) y x)) else gray_pixel (pixels ! y ! x)))"
    using T3_ok [OF rect_T1 [OF assms(1)] assms(2, 3)] T1_at [OF assms(1)] by (auto simp: part1_main_def)
  moreover have "edge_mag t y x * edge_mag t y x \<le> nat (edge_square t y x)" "nat (edge_square t y x) < (edge_mag t y x + 1) * (edge_mag t y x + 1)"
    for t y x by (simp_all only: edge_mag_def isqrt_ok)
  moreover have "part1_main [] = Aborted ''out of bounds''" by (simp add: part1_main_def T1_def T3_def inner_loop_def)
  ultimately show ?thesis using edge_mag_bound by (auto simp: Let_def)
qed

definition step_image :: "u8 \<Rightarrow> image" where
  "step_image c = replicate 3 [grey c, grey c, grey 0]"

theorem part1_main_correct_witness:
  "\<exists>d. part1_main (step_image 100) = Returned d \<and> d ! 0 ! 0 = gray_pixel (grey 100) \<and>
     d ! 1 ! 1 = grey (of_nat (edge_mag (T1 (step_image 100)) 1 1))"
proof -
  have "rect (step_image 100) 3 3" by (simp add: rect_def step_image_def less_Suc_eq numeral_3_eq_3)
  from part1_main_correct [OF this] show ?thesis by (auto simp: inner_def step_image_def)
qed

text \<open>
  The magnitude is stored in eight bits without clamping: a vertical edge between 64 and
  0 has magnitude 256 and leaves a black pixel, as if there were no edge, while an edge a quarter
  as strong shows.
\<close>

theorem strong_edge_vanishes:
  "edge_mag (step_image 64) 1 1 = 256 \<and> T3 (step_image 64) = Returned ((step_image 64)[1 := [grey 64, grey 0, grey 0]]) \<and>
   T3 (step_image 16) = Returned ((step_image 16)[1 := [grey 16, grey 64, grey 0]])"
proof -
  have sq: "isqrt 65536 = 256" "isqrt 4096 = 64" by (rule isqrt_unique; simp)+
  have "edge_mag (step_image 64) 1 1 = 256"
    by (simp add: edge_mag_def edge_square_def weighted_def window_def sobel_x_def sobel_y_def step_image_def grey_def numeral_3_eq_3 sq)
  moreover have "T3 (step_image c) = Returned ((step_image c)[1 := [grey c, grey (of_nat (isqrt (nat (16 * (uint c * uint c))))), grey 0]])" for c
    by (simp add: T3_def inner_loop_def edge_value_def conv_def window_def pix_def put_def step_image_def sobel_x_def sobel_y_def
      grey_def numeral_3_eq_3 upt_rec)
  moreover have "isqrt (nat (16 * (uint (64 :: u8) * uint (64 :: u8)))) = 256" "isqrt (nat (16 * (uint (16 :: u8) * uint (16 :: u8)))) = 64"
    by (simp_all add: sq)
  moreover have "of_nat 256 = (0 :: u8)" "of_nat 64 = (64 :: u8)" by simp_all
  ultimately show ?thesis by (simp only: simp_thms)
qed

subsection \<open>Blurring\<close>

definition channels_in :: "nat \<Rightarrow> nat \<Rightarrow> image \<Rightarrow> bool" where
  "channels_in lo hi img \<longleftrightarrow> (\<forall>row \<in> set img. \<forall>p \<in> set row. \<forall>c \<in> {red, green, blue}. lo \<le> unat (c p) \<and> unat (c p) \<le> hi)"

lemma channels_in_at:
  "rect img h w \<Longrightarrow> channels_in lo hi img \<longleftrightarrow>
    (\<forall>y < h. \<forall>x < w. \<forall>c \<in> {red, green, blue}. lo \<le> unat (c (img ! y ! x)) \<and> unat (c (img ! y ! x)) \<le> hi)"
  by (auto simp: channels_in_def rect_def all_set_conv_all_nth)

definition blurred :: "image \<Rightarrow> nat \<Rightarrow> nat \<Rightarrow> pixel" where
  "blurred img y x = \<lparr>red = word_of_int (weighted blur_kernel red img y x div 16),
     green = word_of_int (weighted blur_kernel green img y x div 16), blue = word_of_int (weighted blur_kernel blue img y x div 16)\<rparr>"

lemma blur_value_ok: "rect img h w \<Longrightarrow> inner h w y x \<Longrightarrow> blur_value img y x = Returned (blurred img y x)"
  by (simp add: blur_value_def conv_ok blurred_def)

lemma weighted_mean:
  assumes "rect img h w" and "inner h w y x" and "\<And>y x. y < h \<Longrightarrow> x < w \<Longrightarrow> lo \<le> unat (c (img ! y ! x)) \<and> unat (c (img ! y ! x)) \<le> hi"
  shows "int lo \<le> weighted blur_kernel c img y x div 16" "weighted blur_kernel c img y x div 16 \<le> int hi"
proof -
  define p where "p j i = uint (c (img ! nat (int y + j) ! nat (int x + i)))" for j i
  have p: "int lo \<le> p j i \<and> p j i \<le> int hi" if "- 1 \<le> j" "j \<le> 1" "- 1 \<le> i" "i \<le> 1" for j i
  proof -
    have "nat (int y + j) < h" "nat (int x + i) < w" using that assms(2) by (auto simp: inner_def)
    from assms(3) [OF this] show ?thesis by (simp add: p_def unat_eq_nat_uint nat_le_iff le_nat_iff del: nat_uint_eq)
  qed
  have "weighted blur_kernel c img y x = p (- 1) (- 1) + 2 * p (- 1) 0 + p (- 1) 1 + 2 * p 0 (- 1) + 4 * p 0 0 + 2 * p 0 1 +
      p 1 (- 1) + 2 * p 1 0 + p 1 1"
    by (simp add: weighted_def window_def blur_kernel_def p_def)
  then have "int lo * 16 \<le> weighted blur_kernel c img y x \<and> weighted blur_kernel c img y x \<le> int hi * 16"
    using p [of "- 1" "- 1"] p [of "- 1" 0] p [of "- 1" 1] p [of 0 "- 1"] p [of 0 0] p [of 0 1] p [of 1 "- 1"] p [of 1 0] p [of 1 1]
    by simp
  then show "int lo \<le> weighted blur_kernel c img y x div 16" "weighted blur_kernel c img y x div 16 \<le> int hi" by linarith+
qed

lemma uint_channel: "0 \<le> (n :: int) \<Longrightarrow> n \<le> 255 \<Longrightarrow> uint (word_of_int n :: u8) = n"
  by (simp add: uint_word_of_int)

lemma blurred_channel:
  assumes "rect img h w" and "inner h w y x" and "c \<in> {red, green, blue}"
  shows "uint (c (blurred img y x)) = weighted blur_kernel c img y x div 16"
proof -
  have "0 \<le> weighted blur_kernel c img y x div 16 \<and> weighted blur_kernel c img y x div 16 \<le> 255"
    using weighted_mean [OF assms(1, 2), of 0 c 255] unat8 by auto
  then show ?thesis using assms(3) by (auto simp: blurred_def uint_channel)
qed

lemma blur_step_ok:
  assumes "rect img h w" and "rect temp h w" and "0 < h" and "0 < w"
  shows "\<exists>d. inner_loop (blur_value img) img temp = Returned d \<and> rect d h w \<and>
    (\<forall>y < h. \<forall>x < w. d ! y ! x = (if inner h w y x then blurred img y x else temp ! y ! x))"
  by (rule inner_loop_ok [OF assms]) (rule blur_value_ok [OF assms(1)])

lemma blurred_in:
  assumes "rect img h w" and "inner h w y x" and "channels_in lo hi img" and "c \<in> {red, green, blue}"
  shows "lo \<le> unat (c (blurred img y x)) \<and> unat (c (blurred img y x)) \<le> hi"
proof -
  have "lo \<le> unat (c (img ! y' ! x')) \<and> unat (c (img ! y' ! x')) \<le> hi" if "y' < h" "x' < w" for y' x'
    using assms(3, 4) that unfolding channels_in_at [OF assms(1)] by blast
  from weighted_mean [OF assms(1, 2), of lo c hi, OF this] have "int lo \<le> uint (c (blurred img y x)) \<and> uint (c (blurred img y x)) \<le> int hi"
    by (simp add: blurred_channel [OF assms(1, 2, 4)])
  then show ?thesis by (simp add: unat_eq_nat_uint nat_le_iff le_nat_iff del: nat_uint_eq)
qed

lemma blur_loop_ok:
  assumes "rect img h w" and "0 < h" and "0 < w" and "channels_in lo hi img"
  shows "\<exists>d. blur_loop n img img = Returned d \<and> rect d h w \<and> channels_in lo hi d \<and>
    (\<forall>y < h. \<forall>x < w. inner h w y x \<or> d ! y ! x = img ! y ! x)"
  using assms(1, 4)
proof (induction n arbitrary: img)
  case (Suc n)
  obtain d where d: "inner_loop (blur_value img) img img = Returned d" "rect d h w"
    "\<forall>y < h. \<forall>x < w. d ! y ! x = (if inner h w y x then blurred img y x else img ! y ! x)"
    using blur_step_ok [OF Suc.prems(1) Suc.prems(1) assms(2, 3)] by blast
  have "channels_in lo hi d"
    unfolding channels_in_at [OF d(2)]
  proof (intro allI impI ballI)
    fix y x and c :: "pixel \<Rightarrow> u8" assume yx: "y < h" "x < w" and c: "c \<in> {red, green, blue}"
    have "lo \<le> unat (c (img ! y ! x)) \<and> unat (c (img ! y ! x)) \<le> hi"
      using Suc.prems(2) yx c unfolding channels_in_at [OF Suc.prems(1)] by blast
    then show "lo \<le> unat (c (d ! y ! x)) \<and> unat (c (d ! y ! x)) \<le> hi"
      using d(3) yx blurred_in [OF Suc.prems(1) _ Suc.prems(2) c] by (cases "inner h w y x") auto
  qed
  from Suc.IH [OF d(2) this] obtain e where "blur_loop n d d = Returned e" "rect e h w" "channels_in lo hi e"
    and e: "\<forall>y < h. \<forall>x < w. inner h w y x \<or> e ! y ! x = d ! y ! x" by blast
  moreover have "\<forall>y < h. \<forall>x < w. inner h w y x \<or> e ! y ! x = img ! y ! x" using e d(3) by metis
  ultimately show ?case using d(1) by simp
qed auto

text \<open>
  Blurring replaces every inner pixel by the mean of the sixteen shares of its neighbourhood,
  rounded down in each colour, and keeps the border. Repeated fifty times it returns a picture of
  the same size whose border is untouched, and no colour leaves the range it had in the original:
  nothing wraps around, and a picture of one colour stays as it is.
\<close>

theorem blur_correct:
  assumes "rect img h w" and "0 < h" and "0 < w"
  shows "(\<exists>d. BLUR img = Returned d \<and> rect d h w \<and>
      (\<forall>y < h. \<forall>x < w. if inner h w y x then (\<forall>c \<in> {red, green, blue}. uint (c (d ! y ! x)) = weighted blur_kernel c img y x div 16)
        else d ! y ! x = img ! y ! x)) \<and>
    (\<forall>lo hi. channels_in lo hi img \<longrightarrow> (\<exists>d. T2 img = Returned d \<and> rect d h w \<and> channels_in lo hi d \<and>
      (\<forall>y < h. \<forall>x < w. inner h w y x \<or> d ! y ! x = img ! y ! x)))"
proof -
  obtain d where d: "inner_loop (blur_value img) img img = Returned d" "rect d h w"
    "\<forall>y < h. \<forall>x < w. d ! y ! x = (if inner h w y x then blurred img y x else img ! y ! x)"
    using blur_step_ok [OF assms(1) assms] by blast
  have "\<forall>y < h. \<forall>x < w. if inner h w y x then (\<forall>c \<in> {red, green, blue}. uint (c (d ! y ! x)) = weighted blur_kernel c img y x div 16)
        else d ! y ! x = img ! y ! x"
  proof (intro allI impI)
    fix y x assume "y < h" "x < w"
    then have "d ! y ! x = (if inner h w y x then blurred img y x else img ! y ! x)" using d(3) by blast
    then show "if inner h w y x then (\<forall>c \<in> {red, green, blue}. uint (c (d ! y ! x)) = weighted blur_kernel c img y x div 16)
        else d ! y ! x = img ! y ! x"
      using blurred_channel [OF assms(1), of y x] by (cases "inner h w y x") auto
  qed
  then have "\<exists>d. BLUR img = Returned d \<and> rect d h w \<and>
      (\<forall>y < h. \<forall>x < w. if inner h w y x then (\<forall>c \<in> {red, green, blue}. uint (c (d ! y ! x)) = weighted blur_kernel c img y x div 16)
        else d ! y ! x = img ! y ! x)"
    using d(1, 2) unfolding BLUR_def by blast
  moreover have "\<exists>d. T2 img = Returned d \<and> rect d h w \<and> channels_in lo hi d \<and>
      (\<forall>y < h. \<forall>x < w. inner h w y x \<or> d ! y ! x = img ! y ! x)" if "channels_in lo hi img" for lo hi
    unfolding T2_def by (rule blur_loop_ok [OF assms that])
  ultimately show ?thesis by blast
qed

theorem blur_correct_witness:
  "\<exists>d. T2 (step_image 100) = Returned d \<and> channels_in 0 100 d \<and> d ! 0 ! 1 = grey 100"
proof -
  have "rect (step_image 100) 3 3" by (simp add: rect_def step_image_def less_Suc_eq numeral_3_eq_3)
  moreover have "channels_in 0 100 (step_image 100)" by (simp add: channels_in_def step_image_def grey_def)
  moreover have "\<not> inner 3 3 0 1" "step_image 100 ! 0 ! 1 = grey 100" by (simp_all add: inner_def step_image_def)
  ultimately obtain d where d: "T2 (step_image 100) = Returned d" "channels_in 0 100 d"
    "\<forall>y < 3. \<forall>x < 3. inner 3 3 y x \<or> d ! y ! x = step_image 100 ! y ! x"
    using blur_correct [of "step_image 100" 3 3] by (meson zero_less_numeral)
  have "d ! 0 ! 1 = step_image 100 ! 0 ! 1" using d(3) \<open>\<not> inner 3 3 0 1\<close> by (metis one_less_numeral_iff semiring_norm(77) zero_less_numeral)
  then show ?thesis using d(1, 2) \<open>step_image 100 ! 0 ! 1 = grey 100\<close> by auto
qed

end
