(* ===== verification/Image_Threads.thy ===== *)
theory Image_Threads
  imports Image
begin

text \<open>
  The two threads of \<open>part2_1a.cpp\<close>, which spin on an atomic flag, and of \<open>part2_1b.cpp\<close>, which
  wait for a semaphore: \<open>GrayScale\<close> and \<open>EDGE\<close> work on one image. Every access of a thread to
  the image, the lock or \<open>position\<close> is a step of its own, and the steps of the threads
  interleave. The processes of \<open>part2_2.cpp\<close> take the same steps on shared memory, from another
  start.
\<close>

subsection \<open>Locks\<close>

text \<open>
  \<open>atomic_flag_test_and_set\<close> until it returns false, and \<open>atomic_flag_clear\<close>; a test that finds
  the flag set changes nothing. \<open>sem_wait\<close> and \<open>sem_post\<close>. None: the thread has to go on waiting.
\<close>

definition flag_acquire :: "bool \<Rightarrow> bool option" where
  "flag_acquire molecule = (if molecule then None else Some True)"

definition flag_release :: "bool \<Rightarrow> bool" where
  "flag_release molecule = False"

definition sem_wait :: "nat \<Rightarrow> nat option" where
  "sem_wait sema = (if sema = 0 then None else Some (sema - 1))"

definition sem_post :: "nat \<Rightarrow> nat" where
  "sem_post sema = sema + 1"

subsection \<open>Where the threads are\<close>

text \<open>
  \<open>GrayScale\<close> at the pixel \<open>y\<close>, \<open>x\<close>: before the test of the loops, before the lock, reading
  the pixel, storing the level in the colour number \<open>k\<close>, storing \<open>position\<close>, before the release.
\<close>

datatype gray_pc =
    GrayNext nat nat
  | GrayWait nat nat
  | GrayRead nat nat
  | GrayWrite nat nat u8 nat
  | GrayPosX nat nat
  | GrayPosY nat nat
  | GrayRelease nat nat
  | GrayDone

text \<open>
  \<open>EDGE\<close>: copying the image, whole rows and a part of the next; then as above. \<open>EdgeTest\<close> is the
  test of \<open>position\<close> and the computation from the copy, which no other thread sees.
\<close>

datatype edge_pc =
    EdgeCopy "pixel list list" "pixel list"
  | EdgeNext nat nat
  | EdgeWait nat nat
  | EdgeTest nat nat
  | EdgeWrite nat nat u8 nat
  | EdgeRelease nat nat
  | EdgeDone
  | EdgeAborted

record 'l threads =
  pixels :: image
  mutex_lock :: 'l
  pos_x :: nat
  pos_y :: nat
  gray_at :: gray_pc
  edge_at :: edge_pc
  temp :: image
  prevent :: bool

definition set_channel :: "nat \<Rightarrow> u8 \<Rightarrow> pixel \<Rightarrow> pixel" where
  "set_channel k m p = (if k = 0 then p\<lparr>red := m\<rparr> else if k = 1 then p\<lparr>green := m\<rparr> else p\<lparr>blue := m\<rparr>)"

subsection \<open>Steps\<close>

fun gray_move :: "('l \<Rightarrow> 'l option) \<Rightarrow> ('l \<Rightarrow> 'l) \<Rightarrow> gray_pc \<Rightarrow> 'l threads \<Rightarrow> 'l threads option" where
  "gray_move acquire release (GrayNext y x) s =
     Some (s\<lparr>gray_at := (if y < length (pixels s) then if x < length (pixels s ! y) then GrayWait y x else GrayNext (y + 1) 0 else GrayDone)\<rparr>)"
| "gray_move acquire release (GrayWait y x) s =
     (case acquire (mutex_lock s) of None \<Rightarrow> None | Some l \<Rightarrow> Some (s\<lparr>mutex_lock := l, gray_at := GrayRead y x\<rparr>))"
| "gray_move acquire release (GrayRead y x) s =
     Some (s\<lparr>gray_at := GrayWrite y x (red (gray_pixel (pixels s ! y ! x))) 0\<rparr>)"
| "gray_move acquire release (GrayWrite y x m k) s =
     Some (s\<lparr>pixels := put y x (set_channel k m (pixels s ! y ! x)) (pixels s),
             gray_at := (if k < 2 then GrayWrite y x m (k + 1) else GrayPosX y x)\<rparr>)"
| "gray_move acquire release (GrayPosX y x) s = Some (s\<lparr>pos_x := x + 1, gray_at := GrayPosY y x\<rparr>)"
| "gray_move acquire release (GrayPosY y x) s = Some (s\<lparr>pos_y := y + 1, gray_at := GrayRelease y x\<rparr>)"
| "gray_move acquire release (GrayRelease y x) s = Some (s\<lparr>mutex_lock := release (mutex_lock s), gray_at := GrayNext y (x + 1)\<rparr>)"
| "gray_move acquire release GrayDone s = None"

text \<open>
  The conditions of the loops of \<open>EDGE\<close> subtract 1 from unsigned sizes: without rows or columns
  the bounds wrap and the body leaves the image. \<open>x -= 1\<close> and \<open>y -= 1\<close> come before the increments.
\<close>

fun edge_move :: "('l \<Rightarrow> 'l option) \<Rightarrow> ('l \<Rightarrow> 'l) \<Rightarrow> edge_pc \<Rightarrow> 'l threads \<Rightarrow> 'l threads option" where
  "edge_move acquire release (EdgeCopy rows row) s =
     Some (if length rows < length (pixels s)
           then if length row < length (pixels s ! length rows)
                then s\<lparr>edge_at := EdgeCopy rows (row @ [pixels s ! length rows ! length row])\<rparr>
                else s\<lparr>edge_at := EdgeCopy (rows @ [row]) []\<rparr>
           else s\<lparr>temp := rows, prevent := False, edge_at := EdgeNext 1 1\<rparr>)"
| "edge_move acquire release (EdgeNext y x) s =
     Some (s\<lparr>edge_at :=
       (if pixels s = [] then EdgeAborted
        else if y < length (pixels s) - 1
        then if pixels s ! y = [] then EdgeAborted
             else if x < length (pixels s ! y) - 1 then EdgeWait y x
             else EdgeNext ((if prevent s then y - 1 else y) + 1) 1
        else EdgeDone)\<rparr>)"
| "edge_move acquire release (EdgeWait y x) s =
     (case acquire (mutex_lock s) of None \<Rightarrow> None | Some l \<Rightarrow> Some (s\<lparr>mutex_lock := l, edge_at := EdgeTest y x\<rparr>))"
| "edge_move acquire release (EdgeTest y x) s =
     Some (if x + 1 \<le> pos_x s \<or> y + 1 \<le> pos_y s
           then s\<lparr>edge_at := (case edge_value sobel_x' (temp s) y x of Returned p \<Rightarrow> EdgeWrite y x (red p) 0 | Aborted e \<Rightarrow> EdgeAborted)\<rparr>
           else s\<lparr>prevent := True, edge_at := EdgeRelease y x\<rparr>)"
| "edge_move acquire release (EdgeWrite y x m k) s =
     Some (let t = s\<lparr>pixels := put y x (set_channel k m (pixels s ! y ! x)) (pixels s)\<rparr>
           in if k < 2 then t\<lparr>edge_at := EdgeWrite y x m (k + 1)\<rparr> else t\<lparr>prevent := False, edge_at := EdgeRelease y x\<rparr>)"
| "edge_move acquire release (EdgeRelease y x) s =
     Some (s\<lparr>mutex_lock := release (mutex_lock s), edge_at := EdgeNext y ((if prevent s then x - 1 else x) + 1)\<rparr>)"
| "edge_move acquire release EdgeDone s = None"
| "edge_move acquire release EdgeAborted s = None"

definition gray_step :: "('l \<Rightarrow> 'l option) \<Rightarrow> ('l \<Rightarrow> 'l) \<Rightarrow> 'l threads \<Rightarrow> 'l threads option" where
  "gray_step acquire release s = gray_move acquire release (gray_at s) s"

definition edge_step :: "('l \<Rightarrow> 'l option) \<Rightarrow> ('l \<Rightarrow> 'l) \<Rightarrow> 'l threads \<Rightarrow> 'l threads option" where
  "edge_step acquire release s = edge_move acquire release (edge_at s) s"

inductive step :: "('l \<Rightarrow> 'l option) \<Rightarrow> ('l \<Rightarrow> 'l) \<Rightarrow> 'l threads \<Rightarrow> 'l threads \<Rightarrow> bool" for acquire release where
  gray: "gray_step acquire release s = Some t \<Longrightarrow> step acquire release s t"
| edge: "edge_step acquire release s = Some t \<Longrightarrow> step acquire release s t"

text \<open>\<open>main\<close> starts both threads on the picture it has read and waits for both.\<close>

definition start_threads :: "'l \<Rightarrow> image \<Rightarrow> 'l threads" where
  "start_threads l img = \<lparr>pixels = img, mutex_lock = l, pos_x = 0, pos_y = 0, gray_at = GrayNext 0 0, edge_at = EdgeCopy [] [],
     temp = [], prevent = False\<rparr>"

definition joined :: "'l threads \<Rightarrow> bool" where
  "joined s \<longleftrightarrow> gray_at s = GrayDone \<and> edge_at s = EdgeDone"

subsection \<open>Who is where\<close>

fun gray_in :: "gray_pc \<Rightarrow> bool" where
  "gray_in (GrayNext y x) = False"
| "gray_in (GrayWait y x) = False"
| "gray_in GrayDone = False"
| "gray_in pc = True"

fun edge_in :: "edge_pc \<Rightarrow> bool" where
  "edge_in (EdgeTest y x) = True"
| "edge_in (EdgeWrite y x m k) = True"
| "edge_in (EdgeRelease y x) = True"
| "edge_in pc = False"

text \<open>The pixels a thread has dealt with.\<close>

definition upto_pixel :: "nat \<Rightarrow> nat \<Rightarrow> nat \<Rightarrow> nat \<Rightarrow> bool" where
  "upto_pixel y x y' x' \<longleftrightarrow> y' < y \<or> (y' = y \<and> x' < x)"

fun gray_passed :: "gray_pc \<Rightarrow> nat \<Rightarrow> nat \<Rightarrow> bool" where
  "gray_passed (GrayNext y x) = upto_pixel y x"
| "gray_passed (GrayWait y x) = upto_pixel y x"
| "gray_passed (GrayRead y x) = upto_pixel y x"
| "gray_passed (GrayWrite y x m k) = upto_pixel y x"
| "gray_passed (GrayPosX y x) = upto_pixel y (x + 1)"
| "gray_passed (GrayPosY y x) = upto_pixel y (x + 1)"
| "gray_passed (GrayRelease y x) = upto_pixel y (x + 1)"
| "gray_passed GrayDone = (\<lambda>_ _. True)"

fun edge_passed :: "bool \<Rightarrow> edge_pc \<Rightarrow> nat \<Rightarrow> nat \<Rightarrow> bool" where
  "edge_passed again (EdgeCopy rows row) = (\<lambda>_ _. False)"
| "edge_passed again (EdgeNext y x) = upto_pixel y x"
| "edge_passed again (EdgeWait y x) = upto_pixel y x"
| "edge_passed again (EdgeTest y x) = upto_pixel y x"
| "edge_passed again (EdgeWrite y x m k) = upto_pixel y x"
| "edge_passed again (EdgeRelease y x) = (if again then upto_pixel y x else upto_pixel y (x + 1))"
| "edge_passed again EdgeDone = (\<lambda>_ _. True)"
| "edge_passed again EdgeAborted = (\<lambda>_ _. False)"

text \<open>The pixel a thread is storing, with the value and the number of the next colour.\<close>

fun gray_writes :: "gray_pc \<Rightarrow> nat \<Rightarrow> nat \<Rightarrow> (u8 \<times> nat) option" where
  "gray_writes (GrayWrite y x m k) = (\<lambda>y' x'. if y' = y \<and> x' = x then Some (m, k) else None)"
| "gray_writes pc = (\<lambda>_ _. None)"

fun edge_writes :: "edge_pc \<Rightarrow> nat \<Rightarrow> nat \<Rightarrow> (u8 \<times> nat) option" where
  "edge_writes (EdgeWrite y x m k) = (\<lambda>y' x'. if y' = y \<and> x' = x then Some (m, k) else None)"
| "edge_writes pc = (\<lambda>_ _. None)"

subsection \<open>One pixel\<close>

text \<open>The pixel after its first \<open>k\<close> colours have been set.\<close>

definition partly :: "nat \<Rightarrow> u8 \<Rightarrow> pixel \<Rightarrow> pixel" where
  "partly k m p = (if k = 0 then p else if k = 1 then p\<lparr>red := m\<rparr> else if k = 2 then p\<lparr>red := m, green := m\<rparr> else grey m)"

text \<open>
  What a pixel can hold, \<open>p\<close> being its value at the start and \<open>e\<close> that of the edge, when the
  threads have dealt with it (\<open>gd\<close>, \<open>ed\<close>), or while one of them is storing it.
\<close>

definition results :: "pixel \<Rightarrow> pixel \<Rightarrow> bool \<Rightarrow> bool \<Rightarrow> pixel set" where
  "results p e gd ed = (if ed then if gd then {e, gray_pixel e} else {e} else if gd then {gray_pixel p} else {p})"

definition cell :: "pixel \<Rightarrow> pixel \<Rightarrow> pixel \<Rightarrow> (u8 \<times> nat) option \<Rightarrow> (u8 \<times> nat) option \<Rightarrow> bool \<Rightarrow> bool \<Rightarrow> bool" where
  "cell p e v gw ew gd ed \<longleftrightarrow>
     (case gw of
        Some (m, k) \<Rightarrow> k \<le> 2 \<and> (\<exists>u \<in> results p e False ed. v = partly k m u \<and> grey m = gray_pixel u)
      | None \<Rightarrow> (case ew of
          Some (m, k) \<Rightarrow> k \<le> 2 \<and> grey m = e \<and> (\<exists>u. v = partly k m u)
        | None \<Rightarrow> v \<in> results p e gd ed))"

lemma set_channel_partly: "k \<le> 2 \<Longrightarrow> set_channel k m (partly k m u) = partly (k + 1) m u"
  by (cases u) (auto simp: set_channel_def partly_def grey_def)

lemma gray_pixel_grey: "grey (red (gray_pixel v)) = gray_pixel v"
  by (simp add: gray_pixel_def grey_def)

lemma cell_gray_start:
  "cell p e v None None False ed \<Longrightarrow> cell p e v (Some (red (gray_pixel v), 0)) None gd ed"
  by (auto simp: cell_def partly_def gray_pixel_grey)

lemma cell_gray_write:
  "cell p e v (Some (m, k)) ew gd ed \<Longrightarrow> k < 2 \<Longrightarrow> cell p e (set_channel k m v) (Some (m, k + 1)) ew gd' ed"
  using set_channel_partly [of k m] by (fastforce simp: cell_def)

lemma cell_gray_last:
  assumes "cell p e v (Some (m, k)) ew gd ed" and "\<not> k < 2"
  shows "cell p e (set_channel k m v) None None True ed"
proof -
  have k: "k = 2" using assms by (simp add: cell_def)
  obtain u where u: "u \<in> results p e False ed" "v = partly 2 m u" "grey m = gray_pixel u" using assms(1) by (auto simp: cell_def k)
  have "set_channel 2 m v = gray_pixel u" using set_channel_partly [of 2 m u] u by (simp add: partly_def)
  then show ?thesis using u(1) by (auto simp: cell_def results_def k split: if_splits)
qed

lemma cell_edge_start: "grey m = e \<Longrightarrow> cell p e v None None gd ed \<Longrightarrow> cell p e v None (Some (m, 0)) gd ed"
  by (auto simp: cell_def partly_def)

lemma cell_edge_write:
  "cell p e v None (Some (m, k)) gd ed \<Longrightarrow> k < 2 \<Longrightarrow> cell p e (set_channel k m v) None (Some (m, k + 1)) gd ed'"
  using set_channel_partly [of k m] by (fastforce simp: cell_def)

lemma cell_edge_last:
  assumes "cell p e v None (Some (m, k)) gd ed" and "\<not> k < 2"
  shows "cell p e (set_channel k m v) None None gd True"
proof -
  have k: "k = 2" using assms by (simp add: cell_def)
  obtain u where u: "v = partly 2 m u" "grey m = e" using assms(1) by (auto simp: cell_def k)
  have "set_channel 2 m v = e" using set_channel_partly [of 2 m u] u by (simp add: partly_def)
  then show ?thesis by (auto simp: cell_def results_def k)
qed

lemma cell_no_edge: "cell p e v gw None gd False = cell p e' v gw None gd False"
  by (simp add: cell_def results_def split: option.splits)

subsection \<open>The invariant\<close>

text \<open>
  The lock is held exactly while a thread is between its acquire and release, and never by
  both; positions are inside the picture; \<open>position\<close> is where \<open>GrayScale\<close> is; \<open>EDGE\<close> repeats a
  pixel only while it is in the row.
\<close>

fun gray_range :: "nat \<Rightarrow> nat \<Rightarrow> gray_pc \<Rightarrow> nat \<Rightarrow> nat \<Rightarrow> bool" where
  "gray_range h w (GrayNext y x) px py \<longleftrightarrow> y \<le> h \<and> x \<le> w \<and> (y = h \<longrightarrow> x = 0) \<and> (0 < x \<longrightarrow> px = x \<and> py = y + 1) \<and> (x = 0 \<and> 0 < y \<longrightarrow> px = w \<and> py = y)"
| "gray_range h w (GrayPosY y x) px py \<longleftrightarrow> y < h \<and> x < w \<and> px = x + 1"
| "gray_range h w (GrayRelease y x) px py \<longleftrightarrow> y < h \<and> x < w \<and> px = x + 1 \<and> py = y + 1"
| "gray_range h w (GrayWait y x) px py \<longleftrightarrow> y < h \<and> x < w"
| "gray_range h w (GrayRead y x) px py \<longleftrightarrow> y < h \<and> x < w"
| "gray_range h w (GrayWrite y x m k) px py \<longleftrightarrow> y < h \<and> x < w"
| "gray_range h w (GrayPosX y x) px py \<longleftrightarrow> y < h \<and> x < w"
| "gray_range h w GrayDone px py \<longleftrightarrow> px = w \<and> py = h"

fun edge_range :: "nat \<Rightarrow> nat \<Rightarrow> bool \<Rightarrow> image \<Rightarrow> edge_pc \<Rightarrow> bool" where
  "edge_range h w again t (EdgeCopy rows row) \<longleftrightarrow>
     length rows \<le> h \<and> (\<forall>r \<in> set rows. length r = w) \<and> length row \<le> w \<and> (length rows = h \<longrightarrow> row = [])"
| "edge_range h w again t (EdgeNext y x) \<longleftrightarrow> rect t h w \<and> 1 \<le> y \<and> 1 \<le> x \<and> (again \<longrightarrow> inner h w y x)"
| "edge_range h w again t (EdgeWait y x) \<longleftrightarrow> rect t h w \<and> inner h w y x"
| "edge_range h w again t (EdgeTest y x) \<longleftrightarrow> rect t h w \<and> inner h w y x"
| "edge_range h w again t (EdgeWrite y x m k) \<longleftrightarrow> rect t h w \<and> inner h w y x"
| "edge_range h w again t (EdgeRelease y x) \<longleftrightarrow> rect t h w \<and> inner h w y x"
| "edge_range h w again t EdgeDone \<longleftrightarrow> rect t h w"
| "edge_range h w again t EdgeAborted \<longleftrightarrow> False"

definition control_ok :: "'l \<Rightarrow> 'l \<Rightarrow> nat \<Rightarrow> nat \<Rightarrow> 'l threads \<Rightarrow> bool" where
  "control_ok free held h w s \<longleftrightarrow>
     rect (pixels s) h w \<and> gray_range h w (gray_at s) (pos_x s) (pos_y s) \<and> edge_range h w (prevent s) (temp s) (edge_at s) \<and>
     mutex_lock s = (if gray_in (gray_at s) \<or> edge_in (edge_at s) then held else free) \<and>
     \<not> (gray_in (gray_at s) \<and> edge_in (edge_at s))"

definition cell_at :: "image \<Rightarrow> nat \<Rightarrow> nat \<Rightarrow> 'l threads \<Rightarrow> nat \<Rightarrow> nat \<Rightarrow> bool" where
  "cell_at img h w s y x = cell (img ! y ! x) (grey (of_nat (edge_mag (temp s) y x))) (pixels s ! y ! x)
        (gray_writes (gray_at s) y x) (edge_writes (edge_at s) y x)
        (gray_passed (gray_at s) y x) (inner h w y x \<and> edge_passed (prevent s) (edge_at s) y x)"

definition cells_ok :: "image \<Rightarrow> nat \<Rightarrow> nat \<Rightarrow> 'l threads \<Rightarrow> bool" where
  "cells_ok img h w s \<longleftrightarrow>
     (\<forall>y < h. \<forall>x < w. cell_at img h w s y x)"

lemmas upto = upto_pixel_def inner_def

lemma rect_lengths: "rect img h w \<Longrightarrow> length img = h" "rect img h w \<Longrightarrow> y < h \<Longrightarrow> length (img ! y) = w"
  by (simp_all add: rect_def)

lemma edge_next_move:
  assumes "rect (pixels s) h w" and "0 < h" and "0 < w" and "prevent s \<longrightarrow> inner h w y x"
  shows "edge_move acquire release (EdgeNext y x) s =
    Some (s\<lparr>edge_at := (if y + 1 < h then if x + 1 < w then EdgeWait y x else EdgeNext (y + 1) 1 else EdgeDone)\<rparr>)"
proof -
  have p: "length (pixels s) = h" "pixels s \<noteq> []" using assms(1, 2) by (auto simp: rect_def)
  have r: "length (pixels s ! y) = w \<and> pixels s ! y \<noteq> []" if "y + 1 < h"
  proof -
    have "length (pixels s ! y) = w" using assms(1) that by (simp add: rect_def)
    then show ?thesis using assms(3) by auto
  qed
  have c: "(y < h - 1) = (y + 1 < h)" "(x < w - 1) = (x + 1 < w)" by auto
  show ?thesis
  proof (cases "y + 1 < h")
    case True
    then show ?thesis using r [OF True] assms(4) by (auto simp: p c inner_def)
  qed (simp add: p c)
qed

lemma edge_test_move:
  assumes "rect (temp s) h w" and "inner h w y x"
  shows "edge_move acquire release (EdgeTest y x) s =
    Some (if x + 1 \<le> pos_x s \<or> y + 1 \<le> pos_y s then s\<lparr>edge_at := EdgeWrite y x (of_nat (edge_mag (temp s) y x)) 0\<rparr>
      else s\<lparr>prevent := True, edge_at := EdgeRelease y x\<rparr>)"
  by (simp add: edge_value_ok(2) [OF assms] grey_def)

lemma gray_next_move:
  assumes "rect (pixels s) h w"
  shows "gray_move acquire release (GrayNext y x) s =
    Some (s\<lparr>gray_at := (if y < h then if x < w then GrayWait y x else GrayNext (y + 1) 0 else GrayDone)\<rparr>)"
  using assms by (simp add: rect_def)

text \<open>What the threads rely on: a lock that is free can be taken, one that is held cannot, and releasing frees it.\<close>

locale mutex =
  fixes acquire :: "'l \<Rightarrow> 'l option" and release :: "'l \<Rightarrow> 'l" and free :: 'l and held :: 'l
  assumes acquire_free: "acquire free = Some held"
    and acquire_held: "acquire held = None"
    and release_held: "release held = free"
begin

lemma gray_control:
  assumes "control_ok free held h w s" and "0 < h" and "0 < w" and "gray_step acquire release s = Some t"
  shows "control_ok free held h w t"
proof (cases "gray_at s")
  case (GrayNext y x)
  have "rect (pixels s) h w" using assms(1) by (simp add: control_ok_def)
  from gray_next_move [OF this] assms(4)
  have "t = s\<lparr>gray_at := (if y < h then if x < w then GrayWait y x else GrayNext (y + 1) 0 else GrayDone)\<rparr>"
    by (simp add: gray_step_def GrayNext)
  then show ?thesis using assms(1-3) by (auto simp: control_ok_def GrayNext)
next
  case (GrayWait y x)
  then show ?thesis using assms
    by (auto simp: control_ok_def gray_step_def acquire_free acquire_held split: option.splits if_splits)
qed (use assms(1, 4) in \<open>auto simp: control_ok_def gray_step_def release_held rect_put split: if_splits\<close>)

lemma edge_control:
  assumes "control_ok free held h w s" and "0 < h" and "0 < w" and "edge_step acquire release s = Some t"
  shows "control_ok free held h w t"
proof (cases "edge_at s")
  case (EdgeCopy rows row)
  have r: "rect (pixels s) h w" "edge_range h w (prevent s) (temp s) (EdgeCopy rows row)" using assms(1) by (simp_all add: control_ok_def EdgeCopy)
  have t: "t = (if length rows < length (pixels s)
           then if length row < length (pixels s ! length rows)
                then s\<lparr>edge_at := EdgeCopy rows (row @ [pixels s ! length rows ! length row])\<rparr>
                else s\<lparr>edge_at := EdgeCopy (rows @ [row]) []\<rparr>
           else s\<lparr>temp := rows, prevent := False, edge_at := EdgeNext 1 1\<rparr>)"
    using assms(4) by (simp add: edge_step_def EdgeCopy)
  show ?thesis using assms(1) r rect_lengths [OF r(1)] unfolding t
    by (auto simp: control_ok_def EdgeCopy rect_def)
next
  case (EdgeNext y x)
  have "rect (pixels s) h w" "prevent s \<longrightarrow> inner h w y x" using assms(1) by (simp_all add: control_ok_def EdgeNext)
  from edge_next_move [OF this(1) assms(2, 3) this(2)] assms(4)
  have "t = s\<lparr>edge_at := (if y + 1 < h then if x + 1 < w then EdgeWait y x else EdgeNext (y + 1) 1 else EdgeDone)\<rparr>"
    by (simp add: edge_step_def EdgeNext)
  then show ?thesis using assms(1) by (auto simp: control_ok_def EdgeNext inner_def)
next
  case (EdgeWait y x)
  then show ?thesis using assms
    by (auto simp: control_ok_def edge_step_def acquire_free acquire_held split: option.splits if_splits)
next
  case (EdgeTest y x)
  then have "rect (temp s) h w" "inner h w y x" using assms(1) by (simp_all add: control_ok_def)
  from edge_test_move [OF this] assms(4)
  have "t = (if x + 1 \<le> pos_x s \<or> y + 1 \<le> pos_y s then s\<lparr>edge_at := EdgeWrite y x (of_nat (edge_mag (temp s) y x)) 0\<rparr>
      else s\<lparr>prevent := True, edge_at := EdgeRelease y x\<rparr>)"
    by (simp add: edge_step_def EdgeTest)
  then show ?thesis using assms(1) by (auto simp: control_ok_def EdgeTest)
next
  case (EdgeRelease y x)
  then show ?thesis using assms
    by (auto simp: control_ok_def edge_step_def release_held inner_def)
next
  case (EdgeWrite y x m k)
  then have "t = (let u = s\<lparr>pixels := put y x (set_channel k m (pixels s ! y ! x)) (pixels s)\<rparr>
           in if k < 2 then u\<lparr>edge_at := EdgeWrite y x m (k + 1)\<rparr> else u\<lparr>prevent := False, edge_at := EdgeRelease y x\<rparr>)"
    using assms(4) by (simp add: edge_step_def)
  then show ?thesis using assms(1) by (auto simp: control_ok_def EdgeWrite rect_put Let_def)
qed (use assms(4) in \<open>simp_all add: edge_step_def\<close>)

lemma writes_out: "\<not> edge_in pc \<Longrightarrow> edge_writes pc = (\<lambda>_ _. None)" "\<not> gray_in pc' \<Longrightarrow> gray_writes pc' = (\<lambda>_ _. None)"
  by (cases pc; simp) (cases pc'; simp)

lemma cells_frame:
  assumes "cells_ok img h w s" and "pixels t = pixels s" and "temp t = temp s"
    and "gray_writes (gray_at t) = gray_writes (gray_at s)" and "edge_writes (edge_at t) = edge_writes (edge_at s)"
    and "\<And>y x. y < h \<Longrightarrow> x < w \<Longrightarrow> gray_passed (gray_at t) y x = gray_passed (gray_at s) y x"
    and "\<And>y x. inner h w y x \<Longrightarrow> edge_passed (prevent t) (edge_at t) y x = edge_passed (prevent s) (edge_at s) y x"
  shows "cells_ok img h w t"
  using assms unfolding cells_ok_def cell_at_def by (auto cong: conj_cong)

lemma gray_cells:
  assumes "control_ok free held h w s" and "cells_ok img h w s" and "gray_step acquire release s = Some t"
  shows "cells_ok img h w t"
proof (cases "gray_at s")
  case (GrayNext y x)
  have "rect (pixels s) h w" and r: "gray_range h w (GrayNext y x) (pos_x s) (pos_y s)" using assms(1) by (simp_all add: control_ok_def GrayNext)
  from gray_next_move [OF this(1)] assms(3)
  have "t = s\<lparr>gray_at := (if y < h then if x < w then GrayWait y x else GrayNext (y + 1) 0 else GrayDone)\<rparr>"
    by (simp add: gray_step_def GrayNext)
  then show ?thesis using r by (intro cells_frame [OF assms(2)]) (auto simp: GrayNext upto)
next
  case (GrayWait y x)
  then show ?thesis using assms(3)
    by (intro cells_frame [OF assms(2)]) (auto simp: gray_step_def split: option.splits)
next
  case (GrayRead y x)
  then have t: "t = s\<lparr>gray_at := GrayWrite y x (red (gray_pixel (pixels s ! y ! x))) 0\<rparr>" using assms(3) by (simp add: gray_step_def)
  have e: "edge_writes (edge_at s) = (\<lambda>_ _. None)" using assms(1) by (intro writes_out) (simp add: control_ok_def GrayRead)
  have r: "y < h" "x < w" using assms(1) by (simp_all add: control_ok_def GrayRead)
  have c: "\<forall>y' < h. \<forall>x' < w. cell (img ! y' ! x') (grey (of_nat (edge_mag (temp s) y' x'))) (pixels s ! y' ! x')
        None None (upto_pixel y x y' x') (inner h w y' x' \<and> edge_passed (prevent s) (edge_at s) y' x')"
    using assms(2) by (simp add: cells_ok_def cell_at_def GrayRead e)
  from c [rule_format, OF r] have "cell (img ! y ! x) (grey (of_nat (edge_mag (temp s) y x))) (pixels s ! y ! x)
        None None False (inner h w y x \<and> edge_passed (prevent s) (edge_at s) y x)"
    by (simp add: upto_pixel_def)
  from cell_gray_start [OF this] show ?thesis using c unfolding cells_ok_def cell_at_def t by (auto simp: e)
next
  case (GrayWrite y x m k)
  have r: "rect (pixels s) h w" "y < h" "x < w" using assms(1) by (simp_all add: control_ok_def GrayWrite)
  have t: "t = s\<lparr>pixels := put y x (set_channel k m (pixels s ! y ! x)) (pixels s),
             gray_at := (if k < 2 then GrayWrite y x m (k + 1) else GrayPosX y x)\<rparr>" using assms(3) by (simp add: gray_step_def GrayWrite)
  have e: "edge_writes (edge_at s) = (\<lambda>_ _. None)" using assms(1) by (intro writes_out) (simp add: control_ok_def GrayWrite)
  have c: "\<forall>y' < h. \<forall>x' < w. cell (img ! y' ! x') (grey (of_nat (edge_mag (temp s) y' x'))) (pixels s ! y' ! x')
        (if y' = y \<and> x' = x then Some (m, k) else None) None (upto_pixel y x y' x') (inner h w y' x' \<and> edge_passed (prevent s) (edge_at s) y' x')"
    using assms(2) by (simp add: cells_ok_def cell_at_def GrayWrite e)
  note c' = c [rule_format, OF r(2, 3), simplified]
  show ?thesis
  proof (cases "k < 2")
    case True
    show ?thesis unfolding cells_ok_def
    proof (intro allI impI)
      fix y' x' assume "y' < h" "x' < w"
      from c [rule_format, OF this] cell_gray_write [OF c' True] True show "cell_at img h w t y' x'"
        by (cases "y' = y \<and> x' = x") (auto simp: cell_at_def t e put_at [OF r])
    qed
  next
    case False
    have "upto_pixel y (x + 1) y' x' = (upto_pixel y x y' x' \<or> y' = y \<and> x' = x)" for y' x' by (auto simp: upto_pixel_def)
    then have u: "upto_pixel y (Suc x) = (\<lambda>y' x'. upto_pixel y x y' x' \<or> y' = y \<and> x' = x)" by (intro ext) simp
    show ?thesis unfolding cells_ok_def
    proof (intro allI impI)
      fix y' x' assume "y' < h" "x' < w"
      from c [rule_format, OF this] cell_gray_last [OF c' False] False show "cell_at img h w t y' x'"
        by (cases "y' = y \<and> x' = x") (auto simp: cell_at_def t e put_at [OF r] u)
    qed
  qed
qed (use assms(3) in \<open>intro cells_frame [OF assms(2)]; auto simp: gray_step_def upto_pixel_def\<close>)+

lemma edge_cells:
  assumes "control_ok free held h w s" and "cells_ok img h w s" and "0 < h" and "0 < w" and "edge_step acquire release s = Some t"
  shows "cells_ok img h w t"
proof (cases "edge_at s")
  case (EdgeCopy rows row)
  have n: "\<forall>y < h. \<forall>x < w. cell (img ! y ! x) e (pixels s ! y ! x) (gray_writes (gray_at s) y x) None (gray_passed (gray_at s) y x) False" for e y x
    using assms(2) unfolding cells_ok_def cell_at_def EdgeCopy by (simp only: edge_passed.simps edge_writes.simps simp_thms) (metis cell_no_edge)
  have "pixels t = pixels s" "gray_at t = gray_at s" "edge_writes (edge_at t) = (\<lambda>_ _. None)"
    "inner h w y x \<Longrightarrow> \<not> edge_passed (prevent t) (edge_at t) y x" for y x
    using assms(5) by (auto simp: edge_step_def EdgeCopy upto split: if_splits)
  then show ?thesis using n by (auto simp: cells_ok_def cell_at_def cong: conj_cong)
next
  case (EdgeNext y x)
  have "rect (pixels s) h w" "prevent s \<longrightarrow> inner h w y x" using assms(1) by (simp_all add: control_ok_def EdgeNext)
  from edge_next_move [OF this(1) assms(3, 4) this(2)] assms(5)
  have "t = s\<lparr>edge_at := (if y + 1 < h then if x + 1 < w then EdgeWait y x else EdgeNext (y + 1) 1 else EdgeDone)\<rparr>"
    by (simp add: edge_step_def EdgeNext)
  then show ?thesis by (intro cells_frame [OF assms(2)]) (auto simp: EdgeNext upto)
next
  case (EdgeWait y x)
  then show ?thesis using assms(5)
    by (intro cells_frame [OF assms(2)]) (auto simp: edge_step_def split: option.splits)
next
  case (EdgeTest y x)
  have i: "rect (temp s) h w" "inner h w y x" using assms(1) by (simp_all add: control_ok_def EdgeTest)
  from edge_test_move [OF this] assms(5)
  have t: "t = (if x + 1 \<le> pos_x s \<or> y + 1 \<le> pos_y s then s\<lparr>edge_at := EdgeWrite y x (of_nat (edge_mag (temp s) y x)) 0\<rparr>
      else s\<lparr>prevent := True, edge_at := EdgeRelease y x\<rparr>)"
    by (simp add: edge_step_def EdgeTest)
  have g: "gray_writes (gray_at s) = (\<lambda>_ _. None)" using assms(1) by (intro writes_out) (simp add: control_ok_def EdgeTest)
  show ?thesis
  proof (cases "x + 1 \<le> pos_x s \<or> y + 1 \<le> pos_y s")
    case True
    have c: "\<forall>y' < h. \<forall>x' < w. cell (img ! y' ! x') (grey (of_nat (edge_mag (temp s) y' x'))) (pixels s ! y' ! x')
        None None (gray_passed (gray_at s) y' x') (inner h w y' x' \<and> upto_pixel y x y' x')"
      using assms(2) by (simp add: cells_ok_def cell_at_def EdgeTest g)
    have "y < h" "x < w" using i(2) by (auto simp: inner_def)
    from c [rule_format, OF this] have "cell (img ! y ! x) (grey (of_nat (edge_mag (temp s) y x))) (pixels s ! y ! x)
        None None (gray_passed (gray_at s) y x) False"
      by (simp add: upto_pixel_def)
    note c' = cell_edge_start [OF refl this]
    show ?thesis unfolding cells_ok_def
    proof (intro allI impI)
      fix y' x' assume "y' < h" "x' < w"
      from c [rule_format, OF this] c' True show "cell_at img h w t y' x'"
        by (cases "y' = y \<and> x' = x") (auto simp: cell_at_def t g upto_pixel_def)
    qed
  next
    case False
    then show ?thesis unfolding t by (intro cells_frame [OF assms(2)]) (auto simp: EdgeTest)
  qed
next
  case (EdgeWrite y x m k)
  have r: "rect (pixels s) h w" "y < h" "x < w" and i: "inner h w y x" using assms(1) by (auto simp: control_ok_def EdgeWrite inner_def)
  have t: "t = (let u = s\<lparr>pixels := put y x (set_channel k m (pixels s ! y ! x)) (pixels s)\<rparr>
           in if k < 2 then u\<lparr>edge_at := EdgeWrite y x m (k + 1)\<rparr> else u\<lparr>prevent := False, edge_at := EdgeRelease y x\<rparr>)"
    using assms(5) by (simp add: edge_step_def EdgeWrite)
  have g: "gray_writes (gray_at s) = (\<lambda>_ _. None)" using assms(1) by (intro writes_out) (simp add: control_ok_def EdgeWrite)
  have c: "\<forall>y' < h. \<forall>x' < w. cell (img ! y' ! x') (grey (of_nat (edge_mag (temp s) y' x'))) (pixels s ! y' ! x')
        None (if y' = y \<and> x' = x then Some (m, k) else None) (gray_passed (gray_at s) y' x') (inner h w y' x' \<and> upto_pixel y x y' x')"
    using assms(2) by (simp add: cells_ok_def cell_at_def EdgeWrite g)
  note c' = c [rule_format, OF r(2, 3), simplified]
  show ?thesis
  proof (cases "k < 2")
    case True
    show ?thesis unfolding cells_ok_def
    proof (intro allI impI)
      fix y' x' assume "y' < h" "x' < w"
      from c [rule_format, OF this] cell_edge_write [OF c' True] True show "cell_at img h w t y' x'"
        by (cases "y' = y \<and> x' = x") (auto simp: cell_at_def t g put_at [OF r])
    qed
  next
    case False
    have "upto_pixel y (x + 1) y' x' = (upto_pixel y x y' x' \<or> y' = y \<and> x' = x)" for y' x' by (auto simp: upto_pixel_def)
    then have u: "upto_pixel y (Suc x) = (\<lambda>y' x'. upto_pixel y x y' x' \<or> y' = y \<and> x' = x)" by (intro ext) simp
    show ?thesis unfolding cells_ok_def
    proof (intro allI impI)
      fix y' x' assume "y' < h" "x' < w"
      from c [rule_format, OF this] cell_edge_last [OF c' False] False i show "cell_at img h w t y' x'"
        by (cases "y' = y \<and> x' = x") (auto simp: cell_at_def t g put_at [OF r] u)
    qed
  qed
next
  case (EdgeRelease y x)
  have "1 \<le> x" using assms(1) by (simp add: control_ok_def EdgeRelease inner_def)
  then show ?thesis using assms(5)
    by (intro cells_frame [OF assms(2)]) (auto simp: edge_step_def EdgeRelease upto_pixel_def)
qed (use assms(5) in \<open>simp_all add: edge_step_def\<close>)

end

text \<open>The copy of \<open>EDGE\<close>, as far as it has got, against a picture.\<close>

definition copied :: "(pixel \<Rightarrow> pixel \<Rightarrow> bool) \<Rightarrow> image \<Rightarrow> nat \<Rightarrow> nat \<Rightarrow> 'l threads \<Rightarrow> bool" where
  "copied E img h w s \<longleftrightarrow>
     (case edge_at s of
        EdgeCopy rows row \<Rightarrow> (\<forall>y < length rows. \<forall>x < w. E (img ! y ! x) (rows ! y ! x)) \<and>
          (\<forall>x < length row. E (img ! length rows ! x) (row ! x))
      | _ \<Rightarrow> \<forall>y < h. \<forall>x < w. E (img ! y ! x) (temp s ! y ! x))"

lemma copied_step:
  assumes "control_ok free held h w s" and "copied E img h w s" and "edge_step acquire release s = Some t"
    and "\<And>rows row y x. edge_at s = EdgeCopy rows row \<Longrightarrow> y < h \<Longrightarrow> x < w \<Longrightarrow> E (img ! y ! x) (pixels s ! y ! x)"
  shows "copied E img h w t"
proof (cases "edge_at s")
  case (EdgeCopy rows row)
  have r: "rect (pixels s) h w" "edge_range h w (prevent s) (temp s) (EdgeCopy rows row)" using assms(1) by (simp_all add: control_ok_def EdgeCopy)
  have t: "t = (if length rows < h then if length row < w
                then s\<lparr>edge_at := EdgeCopy rows (row @ [pixels s ! length rows ! length row])\<rparr>
                else s\<lparr>edge_at := EdgeCopy (rows @ [row]) []\<rparr>
           else s\<lparr>temp := rows, prevent := False, edge_at := EdgeNext 1 1\<rparr>)"
    using assms(3) rect_lengths [OF r(1)] by (cases "length rows < h"; cases "length row < w") (simp_all add: edge_step_def EdgeCopy)
  have c: "\<forall>y < length rows. \<forall>x < w. E (img ! y ! x) (rows ! y ! x)" "\<forall>x < length row. E (img ! length rows ! x) (row ! x)"
    using assms(2) by (simp_all add: copied_def EdgeCopy)
  consider "length rows < h" "length row < w" | "length rows < h" "length row = w" | "length rows = h" using r(2) by fastforce
  then show ?thesis
  proof cases
    case 1
    then show ?thesis using c assms(4) [OF EdgeCopy 1] by (auto simp: copied_def t nth_append less_Suc_eq)
  next
    case 2
    then show ?thesis using c by (auto simp: copied_def t nth_append less_Suc_eq)
  next
    case 3
    then show ?thesis using c by (auto simp: copied_def t)
  qed
qed (use assms(2, 3) in \<open>auto simp: copied_def edge_step_def Let_def split: if_splits option.splits outcome.splits\<close>)

lemma cell_red: "cell p e v gw None gd False \<Longrightarrow> red v = red p \<or> red v = red (gray_pixel p)"
  by (auto simp: cell_def results_def partly_def grey_def gray_pixel_def split: option.splits if_splits)

definition snapshot :: "pixel \<Rightarrow> pixel \<Rightarrow> bool" where
  "snapshot p q \<longleftrightarrow> red q = red p \<or> red q = red (gray_pixel p)"

lemma cells_snapshot:
  assumes "cells_ok img h w s" and "edge_at s = EdgeCopy rows row" and "y < h" and "x < w"
  shows "snapshot (img ! y ! x) (pixels s ! y ! x)"
proof -
  have "cell_at img h w s y x" using assms(1, 3, 4) by (simp add: cells_ok_def)
  then show ?thesis unfolding cell_at_def assms(2) snapshot_def by (intro cell_red) (simp only: edge_writes.simps edge_passed.simps simp_thms)
qed

text \<open>What the threads have left to do.\<close>

fun gray_y :: "nat \<Rightarrow> gray_pc \<Rightarrow> nat" where
  "gray_y h (GrayNext y x) = Suc (h - y)"
| "gray_y h (GrayWait y x) = Suc (h - y)"
| "gray_y h (GrayRead y x) = Suc (h - y)"
| "gray_y h (GrayWrite y x m k) = Suc (h - y)"
| "gray_y h (GrayPosX y x) = Suc (h - y)"
| "gray_y h (GrayPosY y x) = Suc (h - y)"
| "gray_y h (GrayRelease y x) = Suc (h - y)"
| "gray_y h GrayDone = 0"

fun gray_x :: "nat \<Rightarrow> gray_pc \<Rightarrow> nat" where
  "gray_x w (GrayNext y x) = w - x"
| "gray_x w (GrayWait y x) = w - x"
| "gray_x w (GrayRead y x) = w - x"
| "gray_x w (GrayWrite y x m k) = w - x"
| "gray_x w (GrayPosX y x) = w - x"
| "gray_x w (GrayPosY y x) = w - x"
| "gray_x w (GrayRelease y x) = w - x"
| "gray_x w GrayDone = 0"

fun gray_rank :: "gray_pc \<Rightarrow> nat" where
  "gray_rank (GrayNext y x) = 9"
| "gray_rank (GrayWait y x) = 8"
| "gray_rank (GrayRead y x) = 7"
| "gray_rank (GrayWrite y x m k) = 4 + (2 - k)"
| "gray_rank (GrayPosX y x) = 3"
| "gray_rank (GrayPosY y x) = 2"
| "gray_rank (GrayRelease y x) = 1"
| "gray_rank GrayDone = 0"

definition gray_less :: "nat \<Rightarrow> nat \<Rightarrow> ('l threads \<times> 'l threads) set" where
  "gray_less h w = measures [\<lambda>s. gray_y h (gray_at s), \<lambda>s. gray_x w (gray_at s), \<lambda>s. gray_rank (gray_at s)]"

fun edge_rows :: "nat \<Rightarrow> edge_pc \<Rightarrow> nat" where
  "edge_rows h (EdgeCopy rows row) = Suc (h - length rows)"
| "edge_rows h pc = 0"

fun edge_y :: "nat \<Rightarrow> nat \<Rightarrow> edge_pc \<Rightarrow> nat" where
  "edge_y h w (EdgeCopy rows row) = w - length row"
| "edge_y h w (EdgeNext y x) = Suc (h - y)"
| "edge_y h w (EdgeWait y x) = Suc (h - y)"
| "edge_y h w (EdgeTest y x) = Suc (h - y)"
| "edge_y h w (EdgeWrite y x m k) = Suc (h - y)"
| "edge_y h w (EdgeRelease y x) = Suc (h - y)"
| "edge_y h w pc = 0"

fun edge_x :: "nat \<Rightarrow> edge_pc \<Rightarrow> nat" where
  "edge_x w (EdgeNext y x) = w - x"
| "edge_x w (EdgeWait y x) = w - x"
| "edge_x w (EdgeTest y x) = w - x"
| "edge_x w (EdgeWrite y x m k) = w - x"
| "edge_x w (EdgeRelease y x) = w - x"
| "edge_x w pc = 0"

fun edge_rank :: "bool \<Rightarrow> edge_pc \<Rightarrow> nat" where
  "edge_rank again (EdgeNext y x) = 9"
| "edge_rank again (EdgeWait y x) = 8"
| "edge_rank again (EdgeTest y x) = 7"
| "edge_rank again (EdgeWrite y x m k) = 4 + (2 - k)"
| "edge_rank again (EdgeRelease y x) = (if again then 10 else 1)"
| "edge_rank again pc = 0"

definition edge_less :: "nat \<Rightarrow> nat \<Rightarrow> ('l threads \<times> 'l threads) set" where
  "edge_less h w = measures [\<lambda>s. edge_rows h (edge_at s), \<lambda>s. edge_y h w (edge_at s), \<lambda>s. edge_x w (edge_at s), \<lambda>s. edge_rank (prevent s) (edge_at s)]"

lemma less_wf: "wf (gray_less h w)" "wf (edge_less h w)"
  by (simp_all add: gray_less_def edge_less_def)

context mutex
begin

lemma gray_progress:
  assumes "control_ok free held h w s" and "\<not> edge_in (edge_at s)" and "gray_at s \<noteq> GrayDone"
  shows "\<exists>t. gray_step acquire release s = Some t \<and> (t, s) \<in> gray_less h w \<and> edge_at t = edge_at s \<and> temp t = temp s \<and> prevent t = prevent s"
proof (cases "gray_at s")
  case (GrayNext y x)
  have r: "rect (pixels s) h w" "gray_range h w (GrayNext y x) (pos_x s) (pos_y s)" using assms(1) by (simp_all add: control_ok_def GrayNext)
  from gray_next_move [OF r(1), of acquire release y x] show ?thesis using r(2) by (auto simp: gray_step_def GrayNext gray_less_def)
next
  case (GrayWait y x)
  then have "mutex_lock s = free" using assms(1, 2) by (simp add: control_ok_def)
  then show ?thesis by (simp add: gray_step_def GrayWait acquire_free gray_less_def)
qed (use assms(1, 3) in \<open>auto simp: control_ok_def gray_step_def gray_less_def\<close>)

lemma edge_progress:
  assumes "control_ok free held h w s" and "0 < h" and "0 < w" and "\<not> gray_in (gray_at s)" and "edge_at s \<noteq> EdgeDone"
    and "h \<le> pos_y s \<or> edge_in (edge_at s)"
  shows "\<exists>t. edge_step acquire release s = Some t \<and> gray_at t = gray_at s \<and> pos_x t = pos_x s \<and> pos_y t = pos_y s \<and>
    (h \<le> pos_y s \<longrightarrow> (t, s) \<in> edge_less h w)"
proof (cases "edge_at s")
  case (EdgeCopy rows row)
  have "rect (pixels s) h w" "edge_range h w (prevent s) (temp s) (EdgeCopy rows row)" using assms(1) by (simp_all add: control_ok_def EdgeCopy)
  then show ?thesis using rect_lengths [of "pixels s" h w] by (auto simp: edge_step_def EdgeCopy edge_less_def)
next
  case (EdgeNext y x)
  have "rect (pixels s) h w" "prevent s \<longrightarrow> inner h w y x" using assms(1) by (simp_all add: control_ok_def EdgeNext)
  from edge_next_move [OF this(1) assms(2, 3) this(2), of acquire release] show ?thesis by (auto simp: edge_step_def EdgeNext edge_less_def)
next
  case (EdgeWait y x)
  then have "mutex_lock s = free" using assms(1, 4) by (simp add: control_ok_def)
  then show ?thesis by (simp add: edge_step_def EdgeWait acquire_free edge_less_def)
next
  case (EdgeTest y x)
  have i: "rect (temp s) h w" "inner h w y x" using assms(1) by (simp_all add: control_ok_def EdgeTest)
  from edge_test_move [OF this, of acquire release] show ?thesis using i(2) by (auto simp: edge_step_def EdgeTest edge_less_def inner_def)
next
  case (EdgeRelease y x)
  then have "inner h w y x" using assms(1) by (simp add: control_ok_def)
  then show ?thesis by (auto simp: edge_step_def EdgeRelease edge_less_def inner_def)
qed (use assms(1, 5) in \<open>auto simp: control_ok_def edge_step_def edge_less_def Let_def\<close>)

lemma gray_finishes:
  assumes "control_ok free held h w s" and "cells_ok img h w s" and "0 < h" and "0 < w" and "\<not> edge_in (edge_at s)"
  shows "\<exists>t. (step acquire release)\<^sup>*\<^sup>* s t \<and> gray_at t = GrayDone \<and> control_ok free held h w t \<and> cells_ok img h w t \<and>
    edge_at t = edge_at s \<and> temp t = temp s \<and> prevent t = prevent s"
  using less_wf(1) [of h w] assms(1, 2, 5)
proof (induction s rule: wf_induct_rule)
  case (less s)
  show ?case
  proof (cases "gray_at s = GrayDone")
    case False
    from gray_progress [OF less.prems(1, 3) False] obtain t where t: "gray_step acquire release s = Some t" "(t, s) \<in> gray_less h w"
      "edge_at t = edge_at s" "temp t = temp s" "prevent t = prevent s" by blast
    have "control_ok free held h w t" "cells_ok img h w t" "\<not> edge_in (edge_at t)"
      using gray_control [OF less.prems(1) assms(3, 4) t(1)] gray_cells [OF less.prems(1, 2) t(1)] t(3) less.prems(3) by simp_all
    from less.IH [OF t(2) this] t step.gray [OF t(1)] show ?thesis by (metis converse_rtranclp_into_rtranclp)
  qed (use less.prems in blast)
qed

lemma edge_leaves:
  assumes "control_ok free held h w s" and "0 < h" and "0 < w"
  shows "\<exists>t. (step acquire release)\<^sup>*\<^sup>* s t \<and> control_ok free held h w t \<and> \<not> edge_in (edge_at t)"
  using assms(1)
proof (induction "case edge_at s of EdgeRelease y x \<Rightarrow> 0 | pc \<Rightarrow> edge_rank False pc" arbitrary: s rule: less_induct)
  case less
  show ?case
  proof (cases "edge_in (edge_at s)")
    case True
    then have g: "\<not> gray_in (gray_at s)" "edge_at s \<noteq> EdgeDone" using less.prems by (auto simp: control_ok_def)
    from edge_progress [OF less.prems assms(2, 3) g] True obtain t where t: "edge_step acquire release s = Some t" by blast
    have c: "control_ok free held h w t" by (rule edge_control [OF less.prems assms(2, 3) t])
    have st: "step acquire release s t" by (rule step.edge [OF t])
    show ?thesis
    proof (cases "edge_in (edge_at t)")
      case in': True
      have "(case edge_at t of EdgeRelease y x \<Rightarrow> 0 | pc \<Rightarrow> edge_rank False pc) < (case edge_at s of EdgeRelease y x \<Rightarrow> 0 | pc \<Rightarrow> edge_rank False pc)"
        using t True in' by (cases "edge_at s") (auto simp: edge_step_def Let_def split: if_splits outcome.splits)
      from less.hyps [OF this c] st show ?thesis by (metis converse_rtranclp_into_rtranclp)
    qed (use c st in blast)
  qed (use less.prems in blast)
qed

text \<open>Once \<open>GrayScale\<close> has ended nothing keeps \<open>EDGE\<close> from ending; what its steps keep holds at the end.\<close>

lemma edge_finishes:
  assumes "control_ok free held h w s" and "0 < h" and "0 < w" and "gray_at s = GrayDone" and "Q s"
    and "\<And>s t. control_ok free held h w s \<Longrightarrow> Q s \<Longrightarrow> edge_step acquire release s = Some t \<Longrightarrow> Q t"
  shows "\<exists>t. (step acquire release)\<^sup>*\<^sup>* s t \<and> joined t \<and> control_ok free held h w t \<and> Q t"
  using less_wf(2) [of h w] assms(1, 4, 5)
proof (induction s rule: wf_induct_rule)
  case (less s)
  show ?case
  proof (cases "edge_at s = EdgeDone")
    case False
    have p: "pos_y s = h" "\<not> gray_in (gray_at s)" using less.prems(1, 2) by (simp_all add: control_ok_def)
    from edge_progress [OF less.prems(1) assms(2, 3) p(2) False] p(1) obtain t where
      t: "edge_step acquire release s = Some t" "gray_at t = gray_at s" "(t, s) \<in> edge_less h w" by auto
    have "control_ok free held h w t" "Q t" "gray_at t = GrayDone"
      using edge_control [OF less.prems(1) assms(2, 3) t(1)] assms(6) [OF less.prems(1, 3) t(1)] t(2) less.prems(2) by simp_all
    from less.IH [OF t(3) this(1, 3, 2)] step.edge [OF t(1)] show ?thesis by (metis converse_rtranclp_into_rtranclp)
  qed (use less.prems in \<open>auto simp: joined_def\<close>)
qed

lemma copy_finishes:
  assumes "control_ok free held h w s" and "copied (=) (pixels s) h w s" and "0 < h" and "0 < w" and "edge_at s = EdgeCopy rows row"
  shows "\<exists>t. (step acquire release)\<^sup>*\<^sup>* s t \<and> edge_at t = EdgeNext 1 1 \<and> gray_at t = gray_at s \<and> pixels t = pixels s \<and>
    control_ok free held h w t \<and> copied (=) (pixels s) h w t"
  using less_wf(2) [of h w] assms(1, 2, 5)
proof (induction s arbitrary: rows row rule: wf_induct_rule)
  case (less s)
  have r: "rect (pixels s) h w" "edge_range h w (prevent s) (temp s) (EdgeCopy rows row)" using less.prems(1) by (simp_all add: control_ok_def less.prems(3))
  obtain t where t: "edge_step acquire release s = Some t" "gray_at t = gray_at s" "pixels t = pixels s" "(t, s) \<in> edge_less h w"
      "edge_at t = EdgeNext 1 1 \<or> (\<exists>rows row. edge_at t = EdgeCopy rows row)"
    using r(2) rect_lengths [OF r(1)] by (cases "length rows < h"; cases "length row < w") (auto simp: edge_step_def less.prems(3) edge_less_def)
  have c: "control_ok free held h w t" by (rule edge_control [OF less.prems(1) assms(3, 4) t(1)])
  have d: "copied (=) (pixels t) h w t" unfolding t(3) by (rule copied_step [OF less.prems(1, 2) t(1)]) simp
  from t(5) show ?case
  proof
    assume "edge_at t = EdgeNext 1 1"
    then show ?thesis using t(2, 3) c d step.edge [OF t(1)] by (metis r_into_rtranclp)
  next
    assume "\<exists>rows row. edge_at t = EdgeCopy rows row"
    then obtain rows' row' where "edge_at t = EdgeCopy rows' row'" by blast
    from less.IH [OF t(4) c d this] t(2, 3) step.edge [OF t(1)] show ?thesis by (metis converse_rtranclp_into_rtranclp)
  qed
qed

end

subsection \<open>Runs\<close>

definition exclusive :: "'l threads \<Rightarrow> bool" where
  "exclusive s \<longleftrightarrow> \<not> (gray_in (gray_at s) \<and> edge_in (edge_at s))"

text \<open>
  The picture \<open>d\<close> made from \<open>img\<close> when \<open>EDGE\<close> has computed from the copy \<open>t\<close>: grey levels on the
  border, and inside the magnitudes or their grey levels.
\<close>

definition drawn :: "image \<Rightarrow> image \<Rightarrow> nat \<Rightarrow> nat \<Rightarrow> image \<Rightarrow> bool" where
  "drawn img t h w d \<longleftrightarrow> rect d h w \<and>
     (\<forall>y < h. \<forall>x < w. let e = grey (of_nat (edge_mag t y x)) in
        if inner h w y x then d ! y ! x = e \<or> d ! y ! x = gray_pixel e else d ! y ! x = gray_pixel (img ! y ! x))"

lemma joined_drawn:
  assumes "control_ok free held h w s" and "cells_ok img h w s" and "joined s"
  shows "drawn img (temp s) h w (pixels s)"
proof -
  have "cell (img ! y ! x) (grey (of_nat (edge_mag (temp s) y x))) (pixels s ! y ! x) None None True (inner h w y x)"
    if "y < h" "x < w" for y x
    using assms(2, 3) that by (simp add: cells_ok_def cell_at_def joined_def)
  moreover have "rect (pixels s) h w" using assms(1) by (simp add: control_ok_def)
  moreover have "v = e \<or> v = gray_pixel e" if "cell p e v None None True True" for p e v using that by (simp add: cell_def results_def)
  moreover have "v = gray_pixel p" if "cell p e v None None True False" for p e v using that by (simp add: cell_def results_def)
  ultimately show ?thesis by (fastforce simp: drawn_def Let_def)
qed

lemma edge_step_gray:
  "edge_step acquire release (s\<lparr>gray_at := g\<rparr>) = map_option (\<lambda>t. t\<lparr>gray_at := g\<rparr>) (edge_step acquire release s)"
  by (cases "edge_at s") (auto simp: edge_step_def Let_def split: option.splits outcome.splits)

lemma rect_eqI: "rect a h w \<Longrightarrow> rect b h w \<Longrightarrow> (\<And>y x. y < h \<Longrightarrow> x < w \<Longrightarrow> a ! y ! x = b ! y ! x) \<Longrightarrow> a = b"
  by (rule nth_equalityI; (rule nth_equalityI)?) (auto simp: rect_def)

context mutex
begin

lemma step_ok:
  assumes "control_ok free held h w s \<and> cells_ok img h w s" and "0 < h" and "0 < w" and "step acquire release s t"
  shows "control_ok free held h w t \<and> cells_ok img h w t"
  using assms(4) by cases (use assms gray_control gray_cells edge_control edge_cells in blast)+

lemma run_ok:
  assumes "control_ok free held h w s" and "cells_ok img h w s" and "0 < h" and "0 < w" and "(step acquire release)\<^sup>*\<^sup>* s t"
  shows "control_ok free held h w t" "cells_ok img h w t"
proof -
  have "control_ok free held h w t \<and> cells_ok img h w t"
    using assms(5) by (induction rule: rtranclp_induct) (use assms(1, 2) step_ok [OF _ assms(3, 4)] in blast)+
  then show "control_ok free held h w t" "cells_ok img h w t" by simp_all
qed

lemma gray_leaves_edge: "gray_step acquire release s = Some t \<Longrightarrow> edge_at t = edge_at s \<and> temp t = temp s"
  by (cases "gray_at s") (auto simp: gray_step_def split: option.splits)

lemma run_snapshot:
  assumes "control_ok free held h w s" and "cells_ok img h w s" and "copied snapshot img h w s" and "0 < h" and "0 < w"
    and "(step acquire release)\<^sup>*\<^sup>* s t"
  shows "copied snapshot img h w t"
  using assms(6)
proof (induction rule: rtranclp_induct)
  case (step u v)
  note ok = run_ok [OF assms(1, 2, 4, 5) step.hyps(1)]
  from step.hyps(2) show ?case
  proof cases
    case gray
    then show ?thesis using step.IH gray_leaves_edge [OF gray] by (cases "edge_at u") (simp_all add: copied_def)
  next
    case edge
    show ?thesis by (rule copied_step [OF ok(1) step.IH edge]) (rule cells_snapshot [OF ok(2)])
  qed
qed (rule assms(3))

lemma run_temp:
  assumes "(step acquire release)\<^sup>*\<^sup>* s t" and "\<forall>rows row. edge_at s \<noteq> EdgeCopy rows row"
  shows "temp t = temp s \<and> (\<forall>rows row. edge_at t \<noteq> EdgeCopy rows row)"
  using assms(1)
proof (induction rule: rtranclp_induct)
  case (step u v)
  from step.hyps(2) show ?case
  proof cases
    case gray
    then show ?thesis using step.IH gray_leaves_edge [OF gray] by simp
  next
    case edge
    then show ?thesis using step.IH
      by (cases "edge_at u") (auto simp: edge_step_def Let_def split: option.splits outcome.splits if_splits)
  qed
qed (use assms(2) in simp)

lemma start_ok:
  assumes "rect img h w"
  shows "control_ok free held h w (start_threads free img)" "cells_ok img h w (start_threads free img)"
    "copied E img h w (start_threads free img)"
  using assms by (simp_all add: control_ok_def cells_ok_def cell_at_def start_threads_def cell_def results_def upto_pixel_def copied_def)

lemma finishes:
  assumes "control_ok free held h w s" and "cells_ok img h w s" and "0 < h" and "0 < w"
  shows "\<exists>t. (step acquire release)\<^sup>*\<^sup>* s t \<and> joined t"
proof -
  obtain s1 where s1: "(step acquire release)\<^sup>*\<^sup>* s s1" "\<not> edge_in (edge_at s1)" using edge_leaves [OF assms(1, 3, 4)] by blast
  note ok = run_ok [OF assms s1(1)]
  obtain s2 where s2: "(step acquire release)\<^sup>*\<^sup>* s1 s2" "gray_at s2 = GrayDone" "control_ok free held h w s2"
    using gray_finishes [OF ok assms(3, 4) s1(2)] by blast
  obtain t where "(step acquire release)\<^sup>*\<^sup>* s2 t" "joined t"
    using edge_finishes [OF s2(3) assms(3, 4) s2(2), of "\<lambda>_. True"] by blast
  then show ?thesis using s1(1) s2(1) by (meson rtranclp_trans)
qed

text \<open>\<open>EDGE\<close> alone, after its copy and after \<open>GrayScale\<close>.\<close>

lemma draws_alone:
  assumes "control_ok free held h w s" and "0 < h" and "0 < w" and "gray_at s = GrayDone" and "edge_at s = EdgeNext 1 1"
  shows "\<exists>t. (step acquire release)\<^sup>*\<^sup>* s t \<and> joined t \<and> rect (pixels t) h w \<and>
    (\<forall>y < h. \<forall>x < w. pixels t ! y ! x = (if inner h w y x then grey (of_nat (edge_mag (temp s) y x)) else pixels s ! y ! x))"
proof -
  define Q :: "'l threads \<Rightarrow> bool" where "Q u \<longleftrightarrow> cells_ok (pixels s) h w (u\<lparr>gray_at := GrayNext 0 0\<rparr>) \<and> gray_at u = GrayDone \<and> temp u = temp s \<and>
    (\<forall>rows row. edge_at u \<noteq> EdgeCopy rows row)" for u
  have "Q s" using assms(4, 5)
    by (auto simp: Q_def cells_ok_def cell_at_def cell_def results_def upto)
  moreover have "Q v" if c: "control_ok free held h w u" and q: "Q u" and e: "edge_step acquire release u = Some v" for u v
  proof -
    have "control_ok free held h w (u\<lparr>gray_at := GrayNext 0 0\<rparr>)" using c q by (simp add: control_ok_def Q_def)
    moreover have "edge_step acquire release (u\<lparr>gray_at := GrayNext 0 0\<rparr>) = Some (v\<lparr>gray_at := GrayNext 0 0\<rparr>)"
      by (simp add: edge_step_gray e)
    ultimately have "cells_ok (pixels s) h w (v\<lparr>gray_at := GrayNext 0 0\<rparr>)" using edge_cells q assms(2, 3) unfolding Q_def by blast
    moreover have "gray_at v = gray_at u" using e
      by (cases "edge_at u") (auto simp: edge_step_def Let_def split: option.splits outcome.splits if_splits)
    moreover have "temp v = temp u \<and> (\<forall>rows row. edge_at v \<noteq> EdgeCopy rows row)"
    proof (rule run_temp)
      show "(step acquire release)\<^sup>*\<^sup>* u v" using step.edge [of acquire release u v] e by blast
    qed (use q in \<open>simp add: Q_def\<close>)
    ultimately show ?thesis using q by (simp add: Q_def)
  qed
  ultimately obtain t where t: "(step acquire release)\<^sup>*\<^sup>* s t" "joined t" "control_ok free held h w t" "Q t"
    using edge_finishes [OF assms(1-4), of Q] by blast
  have "cell (pixels s ! y ! x) (grey (of_nat (edge_mag (temp s) y x))) (pixels t ! y ! x) None None False (inner h w y x)"
    if "y < h" "x < w" for y x
  proof -
    have "cell_at (pixels s) h w (t\<lparr>gray_at := GrayNext 0 0\<rparr>) y x" "temp t = temp s" using t(4) that by (simp_all add: Q_def cells_ok_def)
    then show ?thesis using t(2) by (simp add: cell_at_def joined_def upto_pixel_def)
  qed
  moreover have "rect (pixels t) h w" using t(3) by (simp add: control_ok_def)
  moreover have "v = (if ed then e else p)" if "cell p e v None None False ed" for p e v ed
    using that by (simp add: cell_def results_def split: if_splits)
  ultimately show ?thesis using t(1, 2) by blast
qed

text \<open>\<open>GrayScale\<close> first gives the picture of \<open>part1.cpp\<close>; the copy first, magnitudes of the colours.\<close>

lemma gray_first:
  assumes "rect img h w" and "0 < h" and "0 < w"
  shows "\<exists>s. (step acquire release)\<^sup>*\<^sup>* (start_threads free img) s \<and> joined s \<and> part1_main img = Returned (pixels s)"
proof -
  note start = start_ok [OF assms(1)]
  obtain s1 where s1: "(step acquire release)\<^sup>*\<^sup>* (start_threads free img) s1" "gray_at s1 = GrayDone"
    "control_ok free held h w s1" "cells_ok img h w s1" "edge_at s1 = EdgeCopy [] []"
    using gray_finishes [OF start(1, 2) assms(2, 3)] by (auto simp: start_threads_def)
  have "v = gray_pixel p" if "cell p e v None None True False" for p e v using that by (simp add: cell_def results_def)
  moreover have "cell (img ! y ! x) (grey (of_nat (edge_mag (temp s1) y x))) (pixels s1 ! y ! x) None None True False" if "y < h" "x < w" for y x
    using s1(4) that by (simp add: cells_ok_def cell_at_def s1(2, 5))
  ultimately have "pixels s1 ! y ! x = T1 img ! y ! x" if "y < h" "x < w" for y x using that T1_at [OF assms(1) that] by metis
  moreover have "rect (pixels s1) h w" using s1(3) by (simp add: control_ok_def)
  ultimately have g: "pixels s1 = T1 img" using rect_T1 [OF assms(1)] rect_eqI by blast
  have "copied (=) (pixels s1) h w s1" by (simp add: copied_def s1(5))
  from copy_finishes [OF s1(3) this assms(2, 3) s1(5)] obtain s2 where
    s2: "(step acquire release)\<^sup>*\<^sup>* s1 s2" "edge_at s2 = EdgeNext 1 1" "gray_at s2 = GrayDone" "pixels s2 = T1 img"
      "control_ok free held h w s2" "copied (=) (T1 img) h w s2"
    using s1(2) g by metis
  have "rect (temp s2) h w" "\<forall>y < h. \<forall>x < w. T1 img ! y ! x = temp s2 ! y ! x"
    using s2(5, 6) by (simp_all add: control_ok_def copied_def s2(2))
  then have t2: "temp s2 = T1 img" using rect_T1 [OF assms(1)] rect_eqI by metis
  obtain t where t: "(step acquire release)\<^sup>*\<^sup>* s2 t" "joined t" "rect (pixels t) h w"
    "\<forall>y < h. \<forall>x < w. pixels t ! y ! x = (if inner h w y x then grey (of_nat (edge_mag (T1 img) y x)) else T1 img ! y ! x)"
    using draws_alone [OF s2(5) assms(2, 3) s2(3, 2)] unfolding t2 s2(4) by blast
  obtain d where d: "T3 (T1 img) = Returned d" "rect d h w"
    "\<forall>y < h. \<forall>x < w. d ! y ! x = (if inner h w y x then grey (of_nat (edge_mag (T1 img) y x)) else T1 img ! y ! x)"
    using T3_ok [OF rect_T1 [OF assms(1)] assms(2, 3)] by blast
  have "d = pixels t" using rect_eqI [OF d(2) t(3)] d(3) t(4) by metis
  then show ?thesis using d(1) s1(1) s2(1) t(1, 2) by (auto simp: part1_main_def intro: rtranclp_trans)
qed

lemma copy_first:
  assumes "rect img h w" and "0 < h" and "0 < w"
  shows "\<exists>s. (step acquire release)\<^sup>*\<^sup>* (start_threads free img) s \<and> joined s \<and>
    (\<forall>y < h. \<forall>x < w. pixels s ! y ! x = (if inner h w y x then grey (of_nat (edge_mag img y x)) else gray_pixel (img ! y ! x)))"
proof -
  note start = start_ok [OF assms(1)]
  have e: "edge_at (start_threads free img) = EdgeCopy [] []" "pixels (start_threads free img) = img" by (simp_all add: start_threads_def)
  have "copied (=) (pixels (start_threads free img)) h w (start_threads free img)" unfolding e(2) by (rule start(3))
  from copy_finishes [OF start(1) this assms(2, 3) e(1), unfolded e(2)] obtain s1 where
    s1: "(step acquire release)\<^sup>*\<^sup>* (start_threads free img) s1" "edge_at s1 = EdgeNext 1 1" "pixels s1 = img"
      "control_ok free held h w s1" "copied (=) img h w s1" by blast
  have "rect (temp s1) h w" "\<forall>y < h. \<forall>x < w. img ! y ! x = temp s1 ! y ! x"
    using s1(4, 5) by (simp_all add: control_ok_def copied_def s1(2))
  then have t1: "temp s1 = img" using assms(1) rect_eqI by metis
  have "\<not> edge_in (edge_at s1)" by (simp add: s1(2))
  from gray_finishes [OF s1(4) run_ok(2) [OF start(1, 2) assms(2, 3) s1(1)] assms(2, 3) this] obtain s2 where
    s2: "(step acquire release)\<^sup>*\<^sup>* s1 s2" "gray_at s2 = GrayDone" "control_ok free held h w s2" "cells_ok img h w s2"
      "edge_at s2 = EdgeNext 1 1" "temp s2 = img" using s1(2) t1 by metis
  have "v = gray_pixel p" if "cell p e v None None True False" for p e v using that by (simp add: cell_def results_def)
  moreover have "cell (img ! y ! x) (grey (of_nat (edge_mag img y x))) (pixels s2 ! y ! x) None None True False" if "y < h" "x < w" for y x
  proof -
    have "(inner h w y x \<and> upto_pixel 1 1 y x) = False" by (auto simp: upto)
    moreover have "cell_at img h w s2 y x" using s2(4) that by (simp add: cells_ok_def)
    ultimately show ?thesis by (simp only: cell_at_def s2(2, 5, 6) gray_writes.simps edge_writes.simps gray_passed.simps edge_passed.simps)
  qed
  ultimately have g: "\<forall>y < h. \<forall>x < w. pixels s2 ! y ! x = gray_pixel (img ! y ! x)" by metis
  obtain t where t: "(step acquire release)\<^sup>*\<^sup>* s2 t" "joined t"
    "\<forall>y < h. \<forall>x < w. pixels t ! y ! x = (if inner h w y x then grey (of_nat (edge_mag img y x)) else pixels s2 ! y ! x)"
    using draws_alone [OF s2(3) assms(2, 3) s2(2, 5)] unfolding s2(6) by blast
  have "\<forall>y < h. \<forall>x < w. pixels t ! y ! x = (if inner h w y x then grey (of_nat (edge_mag img y x)) else gray_pixel (img ! y ! x))"
    using t(3) g by metis
  moreover have "(step acquire release)\<^sup>*\<^sup>* (start_threads free img) t" using s1(1) s2(1) t(1) by (meson rtranclp_trans)
  ultimately show ?thesis using t(2) by blast
qed

text \<open>Every run from the start, and every run that has ended.\<close>

lemma safe:
  assumes "rect img h w" and "0 < h" and "0 < w" and "(step acquire release)\<^sup>*\<^sup>* (start_threads free img) s"
  shows "exclusive s \<and> edge_at s \<noteq> EdgeAborted \<and>
    (joined s \<longrightarrow> (\<exists>t. (\<forall>y < h. \<forall>x < w. snapshot (img ! y ! x) (t ! y ! x)) \<and> drawn img t h w (pixels s)))"
proof -
  note start = start_ok [OF assms(1)]
  note ok = run_ok [OF start(1, 2) assms(2-4)]
  have c: "copied snapshot img h w s" by (rule run_snapshot [OF start assms(2-4)])
  have "exclusive s \<and> edge_at s \<noteq> EdgeAborted" using ok(1) by (auto simp: control_ok_def exclusive_def)
  moreover have "\<exists>t. (\<forall>y < h. \<forall>x < w. snapshot (img ! y ! x) (t ! y ! x)) \<and> drawn img t h w (pixels s)" if "joined s"
    using joined_drawn [OF ok that] c that by (auto simp: copied_def joined_def)
  ultimately show ?thesis by blast
qed

lemma can_finish:
  assumes "rect img h w" and "0 < h" and "0 < w" and "(step acquire release)\<^sup>*\<^sup>* (start_threads free img) s"
  shows "\<exists>t. (step acquire release)\<^sup>*\<^sup>* s t \<and> joined t"
  using run_ok [OF start_ok(1, 2) [OF assms(1)] assms(2-4)] finishes assms(2, 3) by blast

end

interpretation flag: mutex flag_acquire flag_release False True
  by unfold_locales (simp_all add: flag_acquire_def flag_release_def)

interpretation semaphore: mutex sem_wait sem_post 1 0
  by unfold_locales (simp_all add: sem_wait_def sem_post_def)

subsection \<open>The two programs\<close>

text \<open>
  C5: with the atomic flag and with the semaphore, whatever the order of the steps: the two
  threads are never both between acquire and release, no access is outside the picture, and
  when both have ended the picture has grey levels on its border and inside the magnitude of the
  gradient, or its grey level, of a copy each of whose pixels has the red of the picture or its
  grey level, as the copy was taken before or after \<open>GrayScale\<close> reached it.
\<close>

theorem threads_safe:
  assumes "rect img h w" and "0 < h" and "0 < w"
  shows "(\<forall>s. (step flag_acquire flag_release)\<^sup>*\<^sup>* (start_threads False img) s \<longrightarrow> exclusive s \<and> edge_at s \<noteq> EdgeAborted \<and>
      (joined s \<longrightarrow> (\<exists>t. (\<forall>y < h. \<forall>x < w. snapshot (img ! y ! x) (t ! y ! x)) \<and> drawn img t h w (pixels s)))) \<and>
    (\<forall>s. (step sem_wait sem_post)\<^sup>*\<^sup>* (start_threads 1 img) s \<longrightarrow> exclusive s \<and> edge_at s \<noteq> EdgeAborted \<and>
      (joined s \<longrightarrow> (\<exists>t. (\<forall>y < h. \<forall>x < w. snapshot (img ! y ! x) (t ! y ! x)) \<and> drawn img t h w (pixels s))))"
  using flag.safe [OF assms] semaphore.safe [OF assms] by blast

lemma step_image_rect: "rect (step_image c) 3 3"
  by (simp add: rect_def step_image_def less_Suc_eq numeral_3_eq_3)

theorem threads_safe_witness:
  "\<exists>s. (step sem_wait sem_post)\<^sup>*\<^sup>* (start_threads 1 (step_image 64)) s \<and> joined s \<and> exclusive s \<and>
     pixels s ! 0 ! 0 = gray_pixel (grey 64)"
proof -
  obtain s where s: "(step sem_wait sem_post)\<^sup>*\<^sup>* (start_threads 1 (step_image 64)) s" "joined s"
    using semaphore.can_finish [OF step_image_rect _ _ rtranclp.rtrancl_refl] by auto
  have "exclusive s \<and> (\<exists>t. drawn (step_image 64) t 3 3 (pixels s))"
    using threads_safe [OF step_image_rect] s by (metis zero_less_numeral)
  moreover have "\<not> inner 3 3 0 0" "step_image 64 ! 0 ! 0 = grey 64" by (simp_all add: inner_def step_image_def)
  ultimately show ?thesis using s by (auto simp: drawn_def Let_def)
qed

text \<open>
  C15: no order of steps leads to a state from which the threads cannot both end: whoever holds
  the lock can go on to release it, \<open>GrayScale\<close> can always go on when the lock is free, and once
  it has ended every test of \<open>position\<close> succeeds, so that \<open>EDGE\<close> goes on too.
\<close>

theorem threads_can_finish:
  assumes "rect img h w" and "0 < h" and "0 < w"
  shows "(\<forall>s. (step flag_acquire flag_release)\<^sup>*\<^sup>* (start_threads False img) s \<longrightarrow> (\<exists>t. (step flag_acquire flag_release)\<^sup>*\<^sup>* s t \<and> joined t)) \<and>
    (\<forall>s. (step sem_wait sem_post)\<^sup>*\<^sup>* (start_threads 1 img) s \<longrightarrow> (\<exists>t. (step sem_wait sem_post)\<^sup>*\<^sup>* s t \<and> joined t))"
  using flag.can_finish [OF assms] semaphore.can_finish [OF assms] by blast

theorem threads_can_finish_witness:
  "\<exists>s. step flag_acquire flag_release (start_threads False (step_image 64)) s \<and> (\<exists>t. (step flag_acquire flag_release)\<^sup>*\<^sup>* s t \<and> joined t)"
proof -
  let ?s = "(start_threads False (step_image 64))\<lparr>gray_at := GrayWait 0 0\<rparr>"
  have st: "step flag_acquire flag_release (start_threads False (step_image 64)) ?s"
    by (rule step.gray) (simp add: gray_step_def start_threads_def step_image_def)
  then have "(step flag_acquire flag_release)\<^sup>*\<^sup>* (start_threads False (step_image 64)) ?s" by (rule r_into_rtranclp)
  with threads_can_finish [OF step_image_rect] st show ?thesis by (metis zero_less_numeral)
qed

text \<open>
  C21: if \<open>GrayScale\<close> runs first, the picture is that of \<open>part1.cpp\<close>; but nothing makes \<open>EDGE\<close>
  wait with its copy, and if it copies first, the magnitudes are those of the red channel of the
  original picture. A magnitude of the step from 255 to 0 is stored as 252 in one case and
  as 248 in the other.
\<close>

theorem threads_depend_on_order:
  assumes "rect img h w" and "0 < h" and "0 < w"
  shows "(\<exists>s. (step flag_acquire flag_release)\<^sup>*\<^sup>* (start_threads False img) s \<and> joined s \<and> part1_main img = Returned (pixels s)) \<and>
    (\<exists>s. (step flag_acquire flag_release)\<^sup>*\<^sup>* (start_threads False img) s \<and> joined s \<and>
      (\<forall>y < h. \<forall>x < w. pixels s ! y ! x = (if inner h w y x then grey (of_nat (edge_mag img y x)) else gray_pixel (img ! y ! x)))) \<and>
    (\<exists>s. (step sem_wait sem_post)\<^sup>*\<^sup>* (start_threads 1 img) s \<and> joined s \<and> part1_main img = Returned (pixels s)) \<and>
    (\<exists>s. (step sem_wait sem_post)\<^sup>*\<^sup>* (start_threads 1 img) s \<and> joined s \<and>
      (\<forall>y < h. \<forall>x < w. pixels s ! y ! x = (if inner h w y x then grey (of_nat (edge_mag img y x)) else gray_pixel (img ! y ! x)))) \<and>
    of_nat (edge_mag (step_image 255) 1 1) = (252 :: u8) \<and> of_nat (edge_mag (T1 (step_image 255)) 1 1) = (248 :: u8)"
proof -
  have sq: "isqrt 1040400 = 1020" "isqrt 1032256 = 1016" by (rule isqrt_unique; simp)+
  have "gray_pixel (grey 255) = grey 254" "gray_pixel (grey 0) = grey 0"
    by (simp_all add: gray_pixel_def grey_def gray_level_def round53_def w_red_def w_green_def w_blue_def excess_bits.simps)
  then have "T1 (step_image 255) = step_image 254" by (simp add: T1_def step_image_def)
  moreover have "edge_mag (step_image c) 1 1 = isqrt (nat (16 * (uint c * uint c)))" for c
    by (simp add: edge_mag_def edge_square_def weighted_def window_def sobel_x_def sobel_y_def step_image_def grey_def numeral_3_eq_3)
  ultimately have "of_nat (edge_mag (step_image 255) 1 1) = (252 :: u8) \<and> of_nat (edge_mag (T1 (step_image 255)) 1 1) = (248 :: u8)"
    by (simp add: sq)
  with flag.gray_first [OF assms] flag.copy_first [OF assms] semaphore.gray_first [OF assms] semaphore.copy_first [OF assms]
  show ?thesis by blast
qed

theorem threads_depend_on_order_witness:
  "\<exists>s s'. (step flag_acquire flag_release)\<^sup>*\<^sup>* (start_threads False (step_image 255)) s \<and> joined s \<and>
     (step flag_acquire flag_release)\<^sup>*\<^sup>* (start_threads False (step_image 255)) s' \<and> joined s' \<and>
     part1_main (step_image 255) = Returned (pixels s) \<and> pixels s' ! 1 ! 1 = grey 252"
proof -
  have i: "inner 3 3 1 1" by (simp add: inner_def)
  have "of_nat (edge_mag (step_image 255) 1 1) = (252 :: u8)" using threads_depend_on_order [OF step_image_rect] by simp
  then obtain s' where "(step flag_acquire flag_release)\<^sup>*\<^sup>* (start_threads False (step_image 255)) s'" "joined s'" "pixels s' ! 1 ! 1 = grey 252"
    using threads_depend_on_order [OF step_image_rect, of 255] i by (metis one_less_numeral_iff semiring_norm(77) zero_less_numeral)
  moreover obtain s where "(step flag_acquire flag_release)\<^sup>*\<^sup>* (start_threads False (step_image 255)) s" "joined s"
    "part1_main (step_image 255) = Returned (pixels s)"
    using threads_depend_on_order [OF step_image_rect, of 255] by (metis zero_less_numeral)
  ultimately show ?thesis by blast
qed

end
