(* ===== verification/Image_Processes.thy ===== *)
theory Image_Processes
  imports Image_Threads
begin

text \<open>
  The other two ways of \<open>Assignment 06\<close> to split the work: \<open>part2_2.cpp\<close>, two processes on a
  picture in shared memory, and \<open>part2_3.cpp\<close>, two processes joined by a pipe. The processes of
  \<open>part2_2.cpp\<close> take the steps of the threads; what differs is the start: the second process
  computes from its own picture in \<open>globalImage\<close>, and the shared memory has been filled by
  \<open>readPPM\<close>.
\<close>

subsection \<open>Shared memory\<close>

text \<open>The picture in shared memory, one row after the other; \<open>rows_of\<close> reads it as rows.\<close>

definition rows_of :: "nat \<Rightarrow> nat \<Rightarrow> pixel list \<Rightarrow> image" where
  "rows_of h w mem = map (\<lambda>y. map (\<lambda>x. mem ! (y * w + x)) [0..<w]) [0..<h]"

text \<open>\<open>for(int i = height - 1; i > 0; i--) for(int j = 1; j <= width - 1; j++)\<close>\<close>

definition share_row :: "nat \<Rightarrow> image \<Rightarrow> nat \<Rightarrow> pixel list \<Rightarrow> pixel list" where
  "share_row w globalImage i mem = fold (\<lambda>j m. m[i * w + j := globalImage ! i ! j]) [1..<w] mem"

definition share :: "nat \<Rightarrow> nat \<Rightarrow> image \<Rightarrow> pixel list \<Rightarrow> pixel list" where
  "share h w globalImage mem = fold (share_row w globalImage) (rev [1..<h]) mem"

text \<open>
  \<open>main\<close> after \<open>readPPM\<close>, when the processes have been started. The shared memory holds \<open>mem\<close> and
  the shared position \<open>px\<close>, \<open>py\<close> when the program starts: they belong to the system and keep
  what an earlier run has left.
\<close>

definition start_processes :: "nat \<Rightarrow> nat \<Rightarrow> image \<Rightarrow> pixel list \<Rightarrow> nat \<Rightarrow> nat \<Rightarrow> nat threads" where
  "start_processes h w globalImage mem px py =
     \<lparr>pixels = rows_of h w (share h w globalImage mem), mutex_lock = 1, pos_x = px, pos_y = py, gray_at = GrayNext 0 0,
      edge_at = EdgeNext 1 1, temp = globalImage, prevent = False\<rparr>"

text \<open>
  \<open>T1\<close> and \<open>T3\<close>: the loops of \<open>GrayScale\<close> and \<open>EDGE\<close> with a semaphore, on the shared memory. \<open>T3\<close>
  computes from \<open>globalImage\<close>, which is what \<open>temp\<close> holds here. The bounds are signed, which makes
  a difference only without rows or columns; a pixel is stored as one structure, that is, its
  three bytes.
\<close>

definition T1_step :: "nat threads \<Rightarrow> nat threads option" where
  "T1_step = gray_step sem_wait sem_post"

definition T3_step :: "nat threads \<Rightarrow> nat threads option" where
  "T3_step = edge_step sem_wait sem_post"

inductive process_step :: "nat threads \<Rightarrow> nat threads \<Rightarrow> bool" where
  T1: "T1_step s = Some t \<Longrightarrow> process_step s t"
| T3: "T3_step s = Some t \<Longrightarrow> process_step s t"

lemma process_step_threads: "process_step = step sem_wait sem_post"
  by (intro ext) (auto simp: process_step.simps step.simps T1_step_def T3_step_def)

lemma index_inj:
  assumes "x < w" and "j < (w :: nat)"
  shows "i * w + j = y * w + x \<longleftrightarrow> i = y \<and> j = x"
proof
  assume e: "i * w + j = y * w + x"
  have "(i * w + j) div w = i" "(y * w + x) div w = y" using assms by simp_all
  then have "i = y" using e by simp
  then show "i = y \<and> j = x" using e by simp
qed simp

lemma index_bound: "y < h \<Longrightarrow> x < w \<Longrightarrow> y * w + x < h * (w :: nat)"
proof -
  assume "y < h" "x < w"
  then have "y * w + x < Suc y * w" "Suc y * w \<le> h * w" by (simp, intro mult_le_mono1) simp
  then show ?thesis by linarith
qed

lemma share_row_length [simp]: "length (share_row w g i mem) = length mem"
  unfolding share_row_def by (rule fold_frame) simp

lemma share_row_at:
  assumes "length mem = h * w" and "i < h" and "y < h" and "x < w"
  shows "share_row w g i mem ! (y * w + x) = (if y = i \<and> 1 \<le> x then g ! i ! x else mem ! (y * w + x))"
proof -
  have "fold (\<lambda>j m. m[i * w + j := g ! i ! j]) js mem ! (y * w + x) = (if y = i \<and> x \<in> set js then g ! i ! x else mem ! (y * w + x))"
    if "set js \<subseteq> {..<w}" for js
    using that assms(1)
  proof (induction js arbitrary: mem)
    case (Cons j js)
    have b: "i * w + j < length mem" using Cons.prems index_bound [OF assms(2), of j w] by simp
    have e: "i * w + j = y * w + x \<longleftrightarrow> i = y \<and> j = x" using Cons.prems(1) by (intro index_inj assms(4)) simp
    have "mem[i * w + j := g ! i ! j] ! (y * w + x) = (if i = y \<and> j = x then g ! i ! j else mem ! (y * w + x))"
      using b e by (auto simp: nth_list_update)
    then show ?case using Cons.IH [of "mem[i * w + j := g ! i ! j]"] Cons.prems by auto
  qed simp
  moreover have "set [1..<w] \<subseteq> {..<w}" by auto
  ultimately show ?thesis using assms(4) by (simp add: share_row_def)
qed

lemma share_at:
  assumes "length mem = h * w" and "y < h" and "x < w"
  shows "share h w g mem ! (y * w + x) = (if 1 \<le> y \<and> 1 \<le> x then g ! y ! x else mem ! (y * w + x))"
proof -
  have "fold (share_row w g) ys mem ! (y * w + x) = (if y \<in> set ys \<and> 1 \<le> x then g ! y ! x else mem ! (y * w + x))"
    if "set ys \<subseteq> {..<h}" for ys
    using that assms(1)
  proof (induction ys arbitrary: mem)
    case (Cons i ys)
    then show ?case using share_row_at [OF Cons.prems(2), of i y x g] Cons.IH [of "share_row w g i mem"] assms(2, 3) by auto
  qed simp
  moreover have "set (rev [1..<h]) \<subseteq> {..<h}" by auto
  ultimately show ?thesis using assms(2) by (simp add: share_def)
qed

lemma rect_rows_of: "rect (rows_of h w mem) h w"
  by (simp add: rect_def rows_of_def)

lemma rows_of_at: "y < h \<Longrightarrow> x < w \<Longrightarrow> rows_of h w mem ! y ! x = mem ! (y * w + x)"
  by (simp add: rows_of_def)

lemma start_processes_ok:
  assumes "rect g h w"
  shows "control_ok 1 0 h w (start_processes h w g mem px py)"
    "cells_ok (rows_of h w (share h w g mem)) h w (start_processes h w g mem px py)"
  using assms rect_rows_of
  by (auto simp: control_ok_def cells_ok_def cell_at_def start_processes_def cell_def results_def upto)

text \<open>
  C16: the processes exclude each other and can always both end, whatever an earlier run has left
  in the shared memory; the magnitudes they leave inside the picture are those of the red channel
  of the picture that was read, in which no level has been computed. The first row and the first
  column are never copied to the shared memory: the picture written has there the grey levels of
  what the memory held before.
\<close>

theorem processes_result:
  assumes "rect g h w" and "0 < h" and "0 < w" and "length mem = h * w"
  shows "\<forall>s. process_step\<^sup>*\<^sup>* (start_processes h w g mem px py) s \<longrightarrow>
      exclusive s \<and> edge_at s \<noteq> EdgeAborted \<and> (\<exists>t. process_step\<^sup>*\<^sup>* s t \<and> joined t) \<and>
      (joined s \<longrightarrow> drawn (rows_of h w (share h w g mem)) g h w (pixels s) \<and>
        (\<forall>x < w. pixels s ! 0 ! x = gray_pixel (mem ! x)) \<and> (\<forall>y < h. pixels s ! y ! 0 = gray_pixel (mem ! (y * w))))"
proof (intro allI impI)
  fix s assume r: "process_step\<^sup>*\<^sup>* (start_processes h w g mem px py) s"
  note r' = r [unfolded process_step_threads]
  note start = start_processes_ok [OF assms(1), of mem px py]
  note ok = semaphore.run_ok [OF start assms(2, 3) r']
  have "\<forall>rows row. edge_at (start_processes h w g mem px py) \<noteq> EdgeCopy rows row" by (simp add: start_processes_def)
  from semaphore.run_temp [OF r' this] have t: "temp s = g" by (simp add: start_processes_def)
  have d: "drawn (rows_of h w (share h w g mem)) g h w (pixels s)" if "joined s"
    using joined_drawn [OF ok that] by (simp add: t)
  have "pixels s ! 0 ! x = gray_pixel (mem ! x)" if "joined s" "x < w" for x
    using d [OF that(1)] assms(2) that(2) rows_of_at [OF assms(2) that(2)] share_at [OF assms(4, 2) that(2)]
    by (auto simp: drawn_def Let_def inner_def)
  moreover have "pixels s ! y ! 0 = gray_pixel (mem ! (y * w))" if "joined s" "y < h" for y
    using d [OF that(1)] assms(3) that(2) rows_of_at [OF that(2) assms(3)] share_at [OF assms(4) that(2) assms(3)]
    by (auto simp: drawn_def Let_def inner_def)
  moreover have "exclusive s \<and> edge_at s \<noteq> EdgeAborted" using ok(1) by (auto simp: control_ok_def exclusive_def)
  moreover have "\<exists>t. process_step\<^sup>*\<^sup>* s t \<and> joined t" unfolding process_step_threads by (rule semaphore.finishes [OF ok assms(2, 3)])
  ultimately show "exclusive s \<and> edge_at s \<noteq> EdgeAborted \<and> (\<exists>t. process_step\<^sup>*\<^sup>* s t \<and> joined t) \<and>
      (joined s \<longrightarrow> drawn (rows_of h w (share h w g mem)) g h w (pixels s) \<and>
        (\<forall>x < w. pixels s ! 0 ! x = gray_pixel (mem ! x)) \<and> (\<forall>y < h. pixels s ! y ! 0 = gray_pixel (mem ! (y * w))))"
    using d by blast
qed

theorem processes_result_witness:
  "\<exists>s. process_step\<^sup>*\<^sup>* (start_processes 3 3 (step_image 64) (replicate 9 (grey 0)) 0 0) s \<and> joined s \<and>
     pixels s ! 0 ! 0 = gray_pixel (grey 0)"
proof -
  let ?s = "start_processes 3 3 (step_image 64) (replicate 9 (grey 0)) 0 0"
  have p: "rect (step_image 64) 3 3" "(0 :: nat) < 3" "length (replicate 9 (grey 0)) = 3 * 3" by (simp_all add: step_image_rect)
  note c = processes_result [OF p(1) p(2) p(2) p(3), of 0 0, rule_format]
  obtain t where t: "process_step\<^sup>*\<^sup>* ?s t" "joined t" using c [OF rtranclp.rtrancl_refl] by blast
  then have "\<forall>x < 3. pixels t ! 0 ! x = gray_pixel (replicate 9 (grey 0) ! x)" using c [OF t(1)] by blast
  then show ?thesis using t by (auto intro!: exI [of _ t])
qed

subsection \<open>A pipe\<close>

text \<open>
  The first process turns the picture grey and writes its pixels, row after row; the second
  reads as many as the header says, which comes through a second pipe, and stores them. A pixel
  is three bytes, which the pipe takes as a whole. A full pipe makes the writer wait, an empty one
  the reader.
\<close>

record pipeline =
  to_write :: "pixel list"
  in_pipe :: "pixel list"
  received :: image
  read_y :: nat
  read_x :: nat

definition start_pipeline :: "nat \<Rightarrow> nat \<Rightarrow> image \<Rightarrow> pipeline" where
  "start_pipeline height width img =
     \<lparr>to_write = concat (T1 img), in_pipe = [], received = replicate height (replicate width (grey 0)), read_y = 0, read_x = 0\<rparr>"

inductive pipe_step :: "nat \<Rightarrow> nat \<Rightarrow> nat \<Rightarrow> pipeline \<Rightarrow> pipeline \<Rightarrow> bool" for capacity height width where
  pipe_write: "to_write s = p # ps \<Longrightarrow> length (in_pipe s) < capacity \<Longrightarrow>
     pipe_step capacity height width s (s\<lparr>to_write := ps, in_pipe := in_pipe s @ [p]\<rparr>)"
| pipe_read: "read_y s < height \<Longrightarrow> read_x s < width \<Longrightarrow> in_pipe s = p # ps \<Longrightarrow>
     pipe_step capacity height width s (s\<lparr>in_pipe := ps, received := put (read_y s) (read_x s) p (received s), read_x := read_x s + 1\<rparr>)"
| pipe_next_row: "read_y s < height \<Longrightarrow> \<not> read_x s < width \<Longrightarrow>
     pipe_step capacity height width s (s\<lparr>read_y := read_y s + 1, read_x := 0\<rparr>)"

inductive_cases pipe_stepE: "pipe_step capacity height width s t"

text \<open>The picture the second process writes when it has read everything.\<close>

definition pipe_result :: "pipeline \<Rightarrow> image outcome" where
  "pipe_result s = T3 (received s)"

definition pipe_ok :: "pixel list \<Rightarrow> nat \<Rightarrow> nat \<Rightarrow> pipeline \<Rightarrow> bool" where
  "pipe_ok ps h w s \<longleftrightarrow> length ps = h * w \<and> rect (received s) h w \<and> read_y s \<le> h \<and> read_x s \<le> w \<and> (read_y s = h \<longrightarrow> read_x s = 0) \<and>
     in_pipe s @ to_write s = drop (read_y s * w + read_x s) ps \<and>
     (\<forall>y < h. \<forall>x < w. upto_pixel (read_y s) (read_x s) y x \<longrightarrow> received s ! y ! x = ps ! (y * w + x))"

lemma pipe_step_ok:
  assumes "pipe_step c h w s t" and "pipe_ok ps h w s" and "0 < w"
  shows "pipe_ok ps h w t"
  using assms(1)
proof cases
  case (pipe_write p qs)
  then show ?thesis using assms(2) by (simp add: pipe_ok_def)
next
  case (pipe_read p qs)
  let ?n = "read_y s * w + read_x s"
  have d: "p # qs @ to_write s = drop ?n ps" and l: "length ps = h * w" using assms(2) pipe_read by (simp_all add: pipe_ok_def)
  have "?n < length ps" using index_bound [OF pipe_read(2, 3)] l by simp
  then have p: "p = ps ! ?n" "qs @ to_write s = drop (Suc ?n) ps" using d by (simp_all add: Cons_nth_drop_Suc [symmetric])
  show ?thesis using assms(2) pipe_read p put_at [of "received s" h w "read_y s" "read_x s" p]
    by (auto simp: pipe_ok_def rect_put upto_pixel_def less_Suc_eq)
next
  case pipe_next_row
  then have "read_x s = w" using assms(2) by (simp add: pipe_ok_def)
  then show ?thesis using assms(2) pipe_next_row by (auto simp: pipe_ok_def upto_pixel_def less_Suc_eq add.commute)
qed

lemma concat_at: "rect img h w \<Longrightarrow> length (concat img) = h * w \<and> (\<forall>y < h. \<forall>x < w. concat img ! (y * w + x) = img ! y ! x)"
proof (induction img arbitrary: h)
  case (Cons r img)
  then obtain h' where h: "h = Suc h'" "length img = h'" by (auto simp: rect_def)
  have r: "length r = w" using Cons.prems by (force simp: rect_def h)
  have "rect img h' w" using Cons.prems by (auto simp: rect_def h)
  note IH = Cons.IH [OF this]
  have "concat (r # img) ! (y * w + x) = (r # img) ! y ! x" if "y < h" "x < w" for y x
    using IH that by (cases y) (auto simp: h r nth_append)
  then show ?case using IH by (simp add: h r)
qed (simp add: rect_def)

lemma start_pipeline_ok: "rect img h w \<Longrightarrow> pipe_ok (concat (T1 img)) h w (start_pipeline h w img)"
  using concat_at [OF rect_T1] by (auto simp: pipe_ok_def start_pipeline_def rect_def upto_pixel_def)

lemma pipe_run_ok:
  assumes "(pipe_step c h w)\<^sup>*\<^sup>* s t" and "pipe_ok ps h w s" and "0 < w"
  shows "pipe_ok ps h w t"
  using assms(1) by (induction rule: rtranclp_induct) (use assms(2, 3) pipe_step_ok in blast)+

text \<open>As long as something is to be read a step is possible.\<close>

lemma pipe_stuck:
  assumes "pipe_ok ps h w s" and "0 < c" and "\<nexists>t. pipe_step c h w s t"
  shows "read_y s = h"
proof (rule ccontr)
  assume "read_y s \<noteq> h"
  then have y: "read_y s < h" using assms(1) by (simp add: pipe_ok_def)
  then have x: "read_x s < w" using assms(3) pipe_next_row by blast
  then have e: "in_pipe s = []" using assms(3) pipe_read [OF y x] by (cases "in_pipe s") auto
  have "read_y s * w + read_x s < length ps" using index_bound [OF y x] assms(1) by (simp add: pipe_ok_def)
  moreover have "in_pipe s @ to_write s = drop (read_y s * w + read_x s) ps" using assms(1) by (simp add: pipe_ok_def)
  ultimately have "to_write s \<noteq> []" using e by auto
  then obtain p qs where "to_write s = p # qs" by (cases "to_write s") auto
  from pipe_write [OF this, of c h w] e assms(2, 3) show False by auto
qed

definition pipe_left :: "nat \<Rightarrow> pipeline \<Rightarrow> nat" where
  "pipe_left h s = 2 * length (to_write s) + length (in_pipe s) + (h - read_y s)"

lemma pipe_step_left: "pipe_step c h w s t \<Longrightarrow> pipe_left h t < pipe_left h s"
  by (auto elim!: pipe_stepE simp: pipe_left_def)

lemma pipe_steps_left: "(pipe_step c h w ^^ n) s t \<Longrightarrow> n + pipe_left h t \<le> pipe_left h s"
proof (induction n arbitrary: t)
  case (Suc n)
  then obtain u where "(pipe_step c h w ^^ n) s u" "pipe_step c h w u t" by auto
  then show ?case using Suc.IH pipe_step_left by (metis Suc_leI add_Suc add_le_mono le_refl order_trans plus_1_eq_Suc add_Suc_right nat_add_left_cancel_le)
qed simp

lemma pipe_stops: "\<exists>t. (pipe_step c h w)\<^sup>*\<^sup>* s t \<and> (\<nexists>u. pipe_step c h w t u)"
proof (induction "pipe_left h s" arbitrary: s rule: less_induct)
  case less
  show ?case
  proof (cases "\<exists>u. pipe_step c h w s u")
    case True
    then obtain u where u: "pipe_step c h w s u" by blast
    from less.hyps [OF pipe_step_left [OF u]] show ?thesis using u by (meson converse_rtranclp_into_rtranclp)
  qed blast
qed

text \<open>
  C6: with a pipe of any size, the order in which the two processes of \<open>part2_3.cpp\<close> run does not
  matter: every run ends after at most \<open>2 h w + h\<close> steps, no run stops earlier, and the picture
  written at the end is that of \<open>part1.cpp\<close>.
\<close>

theorem pipeline_equals_part1:
  assumes "rect img h w" and "0 < w" and "0 < capacity"
  shows "(\<forall>n s. (pipe_step capacity h w ^^ n) (start_pipeline h w img) s \<longrightarrow> n \<le> 2 * (h * w) + h) \<and>
    (\<forall>s. (pipe_step capacity h w)\<^sup>*\<^sup>* (start_pipeline h w img) s \<and> (\<nexists>t. pipe_step capacity h w s t) \<longrightarrow>
       read_y s = h \<and> to_write s = [] \<and> in_pipe s = [] \<and> pipe_result s = part1_main img)"
proof (intro conjI allI impI)
  fix n s assume "(pipe_step capacity h w ^^ n) (start_pipeline h w img) s"
  from pipe_steps_left [OF this] concat_at [OF rect_T1 [OF assms(1)]] show "n \<le> 2 * (h * w) + h"
    by (simp add: pipe_left_def start_pipeline_def)
next
  fix s assume r: "(pipe_step capacity h w)\<^sup>*\<^sup>* (start_pipeline h w img) s \<and> (\<nexists>t. pipe_step capacity h w s t)"
  then have ok: "pipe_ok (concat (T1 img)) h w s" using pipe_run_ok start_pipeline_ok [OF assms(1)] assms(2) by blast
  show y: "read_y s = h" using pipe_stuck [OF ok assms(3)] r by blast
  have "in_pipe s @ to_write s = []" using ok y by (simp add: pipe_ok_def)
  then show "to_write s = []" "in_pipe s = []" by simp_all
  have "received s ! y' ! x = T1 img ! y' ! x" if "y' < h" "x < w" for y' x
    using ok y that concat_at [OF rect_T1 [OF assms(1)]] by (auto simp: pipe_ok_def upto_pixel_def)
  moreover have "rect (received s) h w" using ok by (simp add: pipe_ok_def)
  ultimately have "received s = T1 img" using rect_eqI rect_T1 [OF assms(1)] by blast
  then show "pipe_result s = part1_main img" by (simp add: pipe_result_def part1_main_def)
qed

theorem pipeline_equals_part1_witness:
  "\<exists>s. (pipe_step 1 3 3)\<^sup>*\<^sup>* (start_pipeline 3 3 (step_image 64)) s \<and> read_y s = 3 \<and> pipe_result s = part1_main (step_image 64)"
proof -
  obtain s where "(pipe_step 1 3 3)\<^sup>*\<^sup>* (start_pipeline 3 3 (step_image 64)) s" "\<nexists>t. pipe_step 1 3 3 s t"
    using pipe_stops by blast
  then show ?thesis using pipeline_equals_part1 [OF step_image_rect, of 1 64] by auto
qed

end
