(* ===== verification/Decimal.thy ===== *)
theory Decimal
  imports Prelude
begin

text \<open>
  Decimal numbers as text, as \<open>sprintf\<close> and the output streams write them and \<open>atoi\<close>, \<open>stoi\<close> and
  the input streams read them, for the programs that pass numbers as text (\<open>Exec_Chain\<close>, \<open>Ppm\<close>).
\<close>

subsection \<open>Numbers as text\<close>

definition digit :: "nat \<Rightarrow> char" where
  "digit n = char_of (48 + n mod 10)"

fun show_nat :: "nat \<Rightarrow> string" where
  "show_nat n = (if n < 10 then [digit n] else show_nat (n div 10) @ [digit n])"

declare show_nat.simps [simp del]

text \<open>\<open>sprintf\<close> with \<open>%d\<close>\<close>

definition show_int :: "int \<Rightarrow> string" where
  "show_int i = (if i < 0 then CHR ''-'' # show_nat (nat (- i)) else show_nat (nat i))"

definition is_digit :: "char \<Rightarrow> bool" where
  "is_digit c \<longleftrightarrow> 48 \<le> (of_char c :: nat) \<and> (of_char c :: nat) \<le> 57"

definition is_space :: "char \<Rightarrow> bool" where
  "is_space c \<longleftrightarrow> of_char c = (32 :: nat) \<or> 9 \<le> (of_char c :: nat) \<and> (of_char c :: nat) \<le> 13"

fun digits_value :: "nat \<Rightarrow> string \<Rightarrow> nat" where
  "digits_value acc [] = acc"
| "digits_value acc (c # cs) = (if is_digit c then digits_value (10 * acc + (of_char c - 48)) cs else acc)"

definition int_range :: "int \<Rightarrow> bool" where
  "int_range i \<longleftrightarrow> - (2 ^ 31) \<le> i \<and> i < 2 ^ 31"

text \<open>An \<open>int\<close> that does not fit is undefined.\<close>

definition as_int :: "int \<Rightarrow> int outcome" where
  "as_int i = (if int_range i then Returned i else Aborted ''integer overflow'')"

definition atoi :: "string \<Rightarrow> int outcome" where
  "atoi s = (let t = dropWhile is_space s in
     as_int (case t of c # cs \<Rightarrow> if c = CHR ''-'' then - int (digits_value 0 cs) else if c = CHR ''+'' then int (digits_value 0 cs)
                                  else int (digits_value 0 t)
             | [] \<Rightarrow> 0))"

subsection \<open>Reading back what was written\<close>

lemma of_char_digit: "(of_char (digit n) :: nat) = 48 + n mod 10"
proof -
  have "(48 + n mod 10) mod 256 = 48 + n mod 10" by simp
  then show ?thesis by (simp add: digit_def)
qed

lemma digit_facts: "is_digit (digit n)" "digit n \<noteq> CHR ''-''" "digit n \<noteq> CHR ''+''" "\<not> is_space (digit n)"
proof -
  show "is_digit (digit n)" "\<not> is_space (digit n)" by (auto simp: is_digit_def is_space_def of_char_digit)
  have "(of_char CHR ''-'' :: nat) = 45" "(of_char CHR ''+'' :: nat) = 43" by simp_all
  then show "digit n \<noteq> CHR ''-''" "digit n \<noteq> CHR ''+''" using of_char_digit [of n] by (metis add_leD1 le_add1 numeral_le_iff semiring_norm)+
qed

lemma digits_value_append: "\<forall>c \<in> set cs. is_digit c \<Longrightarrow> digits_value a (cs @ [digit n]) = 10 * digits_value a cs + n mod 10"
  by (induction cs arbitrary: a) (auto simp: digit_facts of_char_digit)

lemma show_nat_digits: "\<forall>c \<in> set (show_nat n). is_digit c"
  by (induction n rule: show_nat.induct) (subst show_nat.simps, auto simp: digit_facts)

lemma digits_show: "digits_value 0 (show_nat n) = n"
proof (induction n rule: show_nat.induct)
  case (1 n)
  then show ?case
    by (subst show_nat.simps) (auto simp: digit_facts of_char_digit digits_value_append [OF show_nat_digits])
qed

lemma show_nat_hd: "\<exists>c cs. show_nat n = c # cs \<and> c \<noteq> CHR ''-'' \<and> c \<noteq> CHR ''+'' \<and> \<not> is_space c"
proof (induction n rule: show_nat.induct)
  case (1 n)
  then show ?case by (subst show_nat.simps) (auto simp: digit_facts)
qed

lemma atoi_show: "int_range i \<Longrightarrow> atoi (show_int i) = Returned i"
proof (cases "i < 0")
  case True
  then show "int_range i \<Longrightarrow> ?thesis" by (simp add: atoi_def show_int_def is_space_def as_int_def digits_show)
next
  case False
  obtain c cs where c: "show_nat (nat i) = c # cs" "c \<noteq> CHR ''-''" "c \<noteq> CHR ''+''" "\<not> is_space c" using show_nat_hd by blast
  have "digits_value 0 (c # cs) = nat i" using digits_show [of "nat i"] by (simp only: c(1))
  then show "int_range i \<Longrightarrow> ?thesis" using False c by (simp add: atoi_def show_int_def as_int_def del: digits_value.simps)
qed

end
