(* ===== verification/Ppm.thy ===== *)
theory Ppm
  imports Image_Processes Decimal
begin

text \<open>
  The files of \<open>Assignment 06\<close>: \<open>readPPM\<close> and \<open>writePPM\<close> of \<open>part1.cpp\<close> (the other programs have
  the same text), with the streams of the library as they are used, and the whole of \<open>main\<close>.
\<close>

subsection \<open>Reading lines and numbers\<close>

definition nl :: char where
  "nl = CHR 0x0A"

text \<open>
  An input stream: the characters to come, and whether the end has not been met yet. \<open>getline\<close> on
  a stream that has met its end leaves the line as it is.
\<close>

record stream =
  rest :: string
  good :: bool

definition getline :: "stream \<Rightarrow> string \<Rightarrow> string \<times> stream" where
  "getline s line =
     (if \<not> good s then (line, s)
      else case dropWhile (\<lambda>c. c \<noteq> nl) (rest s) of
          [] \<Rightarrow> (rest s, \<lparr>rest = [], good = False\<rparr>)
        | c # cs \<Rightarrow> (takeWhile (\<lambda>c. c \<noteq> nl) (rest s), s\<lparr>rest := cs\<rparr>))"

lemma getline_less:
  assumes "good s" and "getline s line = (line', s')"
  shows "length (rest s') + (if good s' then 1 else 0) < length (rest s) + (1 :: nat)"
proof (cases "dropWhile (\<lambda>c. c \<noteq> nl) (rest s)")
  case Nil
  then have "s' = \<lparr>rest = [], good = False\<rparr>" using assms unfolding getline_def Nil by simp
  then show ?thesis by simp
next
  case (Cons c cs)
  then have "s' = s\<lparr>rest := cs\<rparr>" using assms unfolding getline_def Cons by auto
  moreover have "length (c # cs) \<le> length (rest s)" unfolding Cons [symmetric] by (rule length_dropWhile_le)
  ultimately show ?thesis using assms(1) by simp
qed

text \<open>\<open>while (line[0] == '#')\<close>; a last line of this kind without an end is read for ever.\<close>

function skip_comments :: "string \<Rightarrow> stream \<Rightarrow> (string \<times> stream) outcome" where
  "skip_comments line s =
     (if line = [] \<or> hd line \<noteq> CHR ''#'' then Returned (line, s)
      else if \<not> good s then Aborted ''endless loop''
      else case getline s line of (line', s') \<Rightarrow> skip_comments line' s')"
  by pat_completeness auto
termination
proof (relation "measure (\<lambda>(line, s). length (rest s) + (if good s then 1 else 0))")
  fix line s line' s'
  assume a: "\<not> \<not> good s" "(line', s') = getline s line"
  have "good s" "getline s line = (line', s')" using a by auto
  from getline_less [OF this]
  show "((line', s'), line, s) \<in> measure (\<lambda>(line, s). length (rest s) + (if good s then 1 else 0))"
    using \<open>good s\<close> by simp
qed simp

declare skip_comments.simps [simp del]

text \<open>A number at the start of the text, after white space, and what follows it.\<close>

definition scan_int :: "string \<Rightarrow> (int \<times> string) option" where
  "scan_int s =
     (let t = dropWhile is_space s; u = (if t \<noteq> [] \<and> hd t \<in> {CHR ''-'', CHR ''+''} then tl t else t); ds = takeWhile is_digit u
      in if ds = [] then None
         else Some (if hd t = CHR ''-'' then - int (digits_value 0 ds) else int (digits_value 0 ds), dropWhile is_digit u))"

text \<open>
  \<open>ss >> width >> height\<close>: the height stays what it was, that is, uninitialised, when there is
  nothing left to read, and becomes 0 when there is something that is no number.
\<close>

definition read_size :: "string \<Rightarrow> (int \<times> int) outcome" where
  "read_size line =
     (case scan_int line of
        None \<Rightarrow> Aborted ''uninitialised height''
      | Some (w, r) \<Rightarrow> bind_outcome (as_int w) (\<lambda>width.
          case scan_int r of
            None \<Rightarrow> if dropWhile is_space r = [] then Aborted ''uninitialised height'' else Returned (width, 0)
          | Some (h, r') \<Rightarrow> bind_outcome (as_int h) (\<lambda>height. Returned (width, height))))"

definition stoi :: "string \<Rightarrow> int outcome" where
  "stoi s = (case scan_int s of None \<Rightarrow> Aborted ''invalid_argument'' | Some (n, r) \<Rightarrow> as_int n)"

subsection \<open>Reading pixels\<close>

definition byte :: "char \<Rightarrow> u8" where
  "byte c = of_nat (of_char c)"

definition unbyte :: "u8 \<Rightarrow> char" where
  "unbyte b = char_of (unat b)"

text \<open>\<open>inFile.read(pixel, 3)\<close> into the buffer, whose old bytes stay where the file ends.\<close>

definition read_three :: "string \<Rightarrow> string \<Rightarrow> string" where
  "read_three r buf = take 3 r @ drop (length r) buf"

definition buf_pixel :: "string \<Rightarrow> pixel" where
  "buf_pixel buf = \<lparr>red = byte (buf ! 0), green = byte (buf ! 1), blue = byte (buf ! 2)\<rparr>"

fun read_row :: "nat \<Rightarrow> string \<Rightarrow> string \<Rightarrow> pixel list \<times> string \<times> string" where
  "read_row 0 r buf = ([], r, buf)"
| "read_row (Suc n) r buf =
     (let b = read_three r buf in case read_row n (drop 3 r) b of (ps, r', b') \<Rightarrow> (buf_pixel b # ps, r', b'))"

fun read_rows :: "nat \<Rightarrow> nat \<Rightarrow> string \<Rightarrow> string \<Rightarrow> image" where
  "read_rows 0 width r buf = []"
| "read_rows (Suc n) width r buf = (case read_row width r buf of (ps, r', b) \<Rightarrow> ps # read_rows n width r' b)"

text \<open>
  The file, None when it cannot be opened, and what \<open>pixel\<close> holds before it is set. The image of
  \<open>main\<close> is empty at the start; without a size none has been stored.
\<close>

definition readPPM :: "string option \<Rightarrow> string \<Rightarrow> (image \<times> (int \<times> int) option) outcome" where
  "readPPM file junk =
     (case file of
        None \<Rightarrow> Returned ([], None)
      | Some f \<Rightarrow>
          (case getline \<lparr>rest = f, good = True\<rparr> [] of (line, s1) \<Rightarrow>
           if line \<noteq> ''P6'' then Returned ([], None)
           else case getline s1 line of (line, s2) \<Rightarrow>
             bind_outcome (skip_comments line s2) (\<lambda>(line, s3). bind_outcome (read_size line) (\<lambda>(width, height).
               case getline s3 line of (line, s4) \<Rightarrow>
                 bind_outcome (stoi line) (\<lambda>maxVal.
                   if maxVal \<noteq> 255 then Returned ([], Some (width, height))
                   else if width < 0 \<or> height < 0 then Aborted ''length_error''
                   else Returned (read_rows (nat height) (nat width) (rest s4) junk, Some (width, height)))))))"

subsection \<open>Writing\<close>

definition pixel_bytes :: "pixel \<Rightarrow> string" where
  "pixel_bytes p = [unbyte (red p), unbyte (green p), unbyte (blue p)]"

fun write_pixels :: "image \<Rightarrow> (nat \<times> nat) list \<Rightarrow> string outcome" where
  "write_pixels img [] = Returned []"
| "write_pixels img ((y, x) # ps) =
     bind_outcome (pix img (int y) (int x)) (\<lambda>p. bind_outcome (write_pixels img ps) (\<lambda>s. Returned (pixel_bytes p @ s)))"

definition writePPM :: "image \<Rightarrow> int \<Rightarrow> int \<Rightarrow> string outcome" where
  "writePPM img width height =
     bind_outcome (write_pixels img (List.product [0..<nat height] [0..<nat width])) (\<lambda>s.
       Returned (''P6'' @ [nl] @ show_int width @ '' '' @ show_int height @ [nl] @ show_int 255 @ [nl] @ s))"

text \<open>\<open>main\<close>, from the file of the first argument to that of the second.\<close>

definition part1_program :: "string option \<Rightarrow> string \<Rightarrow> string outcome" where
  "part1_program file junk =
     bind_outcome (readPPM file junk) (\<lambda>(img, dims). bind_outcome (part1_main img) (\<lambda>out.
       case dims of None \<Rightarrow> Aborted ''uninitialised height'' | Some (width, height) \<Rightarrow> writePPM out width height))"

subsection \<open>Reading what was written\<close>

lemma getline_line: "nl \<notin> set l \<Longrightarrow> getline \<lparr>rest = l @ nl # r, good = True\<rparr> line = (l, \<lparr>rest = r, good = True\<rparr>)"
proof -
  assume "nl \<notin> set l"
  then have "dropWhile (\<lambda>c. c \<noteq> nl) (l @ nl # r) = nl # r" "takeWhile (\<lambda>c. c \<noteq> nl) (l @ nl # r) = l"
    by (induction l) auto
  then show ?thesis by (simp add: getline_def)
qed

lemma is_digit_nl: "\<not> is_digit nl" "\<not> is_digit CHR '' ''" "is_space CHR '' ''"
  by (simp_all add: is_digit_def is_space_def nl_def)

lemma scan_show:
  assumes "r = [] \<or> \<not> is_digit (hd r)"
  shows "scan_int (show_int (int n) @ r) = Some (int n, r)" "scan_int (CHR '' '' # show_int (int n) @ r) = Some (int n, r)"
proof -
  obtain c cs where c: "show_nat n = c # cs" "c \<noteq> CHR ''-''" "c \<noteq> CHR ''+''" "\<not> is_space c" using show_nat_hd by blast
  have t: "takeWhile is_digit (show_nat n @ r) = show_nat n" "dropWhile is_digit (show_nat n @ r) = r"
    using show_nat_digits [of n] assms by (cases r; simp)+
  have d: "dropWhile is_space (show_int (int n) @ r) = show_nat n @ r" "hd (show_nat n @ r) = c" "show_nat n \<noteq> []"
    using c by (simp_all add: show_int_def)
  show "scan_int (show_int (int n) @ r) = Some (int n, r)"
    unfolding scan_int_def Let_def d(1, 2) using c d(3) t digits_show [of n] by auto
  moreover have "scan_int (CHR '' '' # s) = scan_int s" for s by (simp add: scan_int_def is_digit_nl(3))
  ultimately show "scan_int (CHR '' '' # show_int (int n) @ r) = Some (int n, r)" by simp
qed

lemma scan_show_end: "scan_int (show_int (int n)) = Some (int n, [])"
  using scan_show(1) [of "[]" n] by simp

lemma show_no_nl: "nl \<notin> set (show_int (int n))"
  using show_nat_digits [of n] is_digit_nl(1) by (auto simp: show_int_def)

lemma show_hd: "\<exists>c cs. show_int (int n) = c # cs \<and> is_digit c"
  using show_nat_digits [of n] show_nat_hd [of n] by (auto simp: show_int_def)

lemma byte_unbyte: "byte (unbyte b) = b"
proof -
  have "unat b < 256" using unat8 [of b] by simp
  then have "of_char (unbyte b) = unat b" by (simp add: unbyte_def)
  then show ?thesis by (simp add: byte_def)
qed

lemma read_row_bytes:
  "length buf = 3 \<Longrightarrow> read_row (length ps) (concat (map pixel_bytes ps) @ r) buf = (ps, r, if ps = [] then buf else pixel_bytes (last ps))"
proof (induction ps arbitrary: buf)
  case (Cons p ps)
  have l: "length (pixel_bytes p) = 3" by (simp add: pixel_bytes_def)
  have "read_three (pixel_bytes p @ s) buf = pixel_bytes p" "drop 3 (pixel_bytes p @ s) = s" for s
    using l Cons.prems by (simp_all add: read_three_def)
  moreover have "buf_pixel (pixel_bytes p) = p" by (simp add: buf_pixel_def pixel_bytes_def byte_unbyte)
  ultimately show ?case using Cons.IH [OF l] by (simp add: Let_def del: drop_append)
qed simp

lemma read_rows_bytes:
  "length buf = 3 \<Longrightarrow> \<forall>row \<in> set img. length row = w \<Longrightarrow>
    read_rows (length img) w (concat (map pixel_bytes (concat img))) buf = img"
proof (induction img arbitrary: buf)
  case (Cons row img)
  have w: "length row = w" using Cons.prems(2) by simp
  have "length (if row = [] then buf else pixel_bytes (last row)) = 3" using Cons.prems(1) by (simp add: pixel_bytes_def)
  from Cons.IH [OF this] Cons.prems(2) read_row_bytes [OF Cons.prems(1), of row "concat (map pixel_bytes (concat img))"] w
  show ?case by simp
qed simp

text \<open>Pixels are written row by row.\<close>

lemma write_pixels_ok:
  assumes "rect img h w" and "\<forall>(y, x) \<in> set ps. y < h \<and> x < w"
  shows "write_pixels img ps = Returned (concat (map (\<lambda>(y, x). pixel_bytes (img ! y ! x)) ps))"
  using assms(2)
proof (induction ps)
  case (Cons p ps)
  obtain y x where p: "p = (y, x)" by fastforce
  have "pix img (int y) (int x) = Returned (img ! y ! x)" using pix_at [OF assms(1), of "int y" "int x"] Cons.prems p by simp
  then show ?case using Cons p by simp
qed simp

lemma rows_written:
  assumes "rect img h w"
  shows "concat (map (\<lambda>(y, x). pixel_bytes (img ! y ! x)) (List.product [0..<h] [0..<w])) = concat (map pixel_bytes (concat img))"
proof -
  have row: "map (\<lambda>x. pixel_bytes (img ! y ! x)) [0..<w] = map pixel_bytes (img ! y)" if "y < h" for y
    using assms that by (intro nth_equalityI) (auto simp: rect_def)
  have "map (\<lambda>(y, x). pixel_bytes (img ! y ! x)) (List.product ys [0..<w]) = concat (map (\<lambda>y. map pixel_bytes (img ! y)) ys)"
    if "set ys \<subseteq> {..<h}" for ys
    using that by (induction ys) (auto simp: row comp_def)
  moreover have "set [0..<h] \<subseteq> {..<h}" by auto
  moreover have "map (\<lambda>y. map pixel_bytes (img ! y)) [0..<h] = map (map pixel_bytes) img"
    using assms by (intro nth_equalityI) (auto simp: rect_def)
  ultimately show ?thesis by (simp add: map_concat)
qed

definition header :: "string list \<Rightarrow> nat \<Rightarrow> nat \<Rightarrow> string" where
  "header comments w h = ''P6'' @ [nl] @ concat (map (\<lambda>c. CHR ''#'' # c @ [nl]) comments) @
     show_int (int w) @ '' '' @ show_int (int h) @ [nl] @ show_int 255 @ [nl]"

lemma writePPM_ok:
  assumes "rect img h w"
  shows "writePPM img (int w) (int h) = Returned (header [] w h @ concat (map pixel_bytes (concat img)))"
proof -
  have "\<forall>(y, x) \<in> set (List.product [0..<h] [0..<w]). y < h \<and> x < w" by auto
  from write_pixels_ok [OF assms this] show ?thesis by (simp add: writePPM_def rows_written [OF assms] header_def)
qed

lemma skip_comments_ok:
  assumes "\<forall>c \<in> set cs. nl \<notin> set c" and "l = d # ds" and "d \<noteq> CHR ''#''" and "nl \<notin> set l"
  shows "case getline \<lparr>rest = concat (map (\<lambda>c. CHR ''#'' # c @ [nl]) cs) @ l @ nl # r, good = True\<rparr> line of
    (line, s) \<Rightarrow> skip_comments line s = Returned (l, \<lparr>rest = r, good = True\<rparr>)"
  using assms(1)
proof (induction cs arbitrary: line)
  case Nil
  have "skip_comments l s = Returned (l, s)" for s using assms(2, 3) by (subst skip_comments.simps) simp
  with getline_line [OF assms(4), of r line] show ?case by simp
next
  case (Cons c cs)
  let ?r = "concat (map (\<lambda>c. CHR ''#'' # c @ [nl]) cs) @ l @ nl # r"
  have "nl \<notin> set (CHR ''#'' # c)" using Cons.prems by (simp add: nl_def)
  from getline_line [OF this, of ?r line]
  have g: "getline \<lparr>rest = concat (map (\<lambda>c. CHR ''#'' # c @ [nl]) (c # cs)) @ l @ nl # r, good = True\<rparr> line = (CHR ''#'' # c, \<lparr>rest = ?r, good = True\<rparr>)"
    by simp
  have "skip_comments (CHR ''#'' # c) \<lparr>rest = ?r, good = True\<rparr> =
      (case getline \<lparr>rest = ?r, good = True\<rparr> (CHR ''#'' # c) of (line, s) \<Rightarrow> skip_comments line s)"
    by (subst skip_comments.simps) simp
  then show ?case using Cons.IH [of "CHR ''#'' # c"] Cons.prems unfolding g by (auto split: prod.splits)
qed

lemma readPPM_ok:
  assumes "rect img h w" and "int_range (int h)" and "int_range (int w)" and "\<forall>c \<in> set comments. nl \<notin> set c" and "length junk = 3"
  shows "readPPM (Some (header comments w h @ concat (map pixel_bytes (concat img)))) junk = Returned (img, Some (int w, int h))"
proof -
  let ?data = "concat (map pixel_bytes (concat img))"
  let ?size = "show_int (int w) @ '' '' @ show_int (int h)"
  let ?cs = "concat (map (\<lambda>c. CHR ''#'' # c @ [nl]) comments)"
  let ?r1 = "?cs @ ?size @ nl # show_int 255 @ nl # ?data"
  have "nl \<notin> set ''P6''" by (simp add: nl_def)
  from getline_line [OF this, of ?r1 "[]"]
  have g1: "getline \<lparr>rest = header comments w h @ ?data, good = True\<rparr> [] = (''P6'', \<lparr>rest = ?r1, good = True\<rparr>)" by (simp add: header_def)
  obtain d ds where d: "?size = d # ds" "is_digit d" using show_hd [of w] by auto
  have "nl \<notin> set ?size" using show_no_nl by (simp add: nl_def)
  moreover have "d \<noteq> CHR ''#''" using d(2) by (auto simp: is_digit_def)
  ultimately have sk: "case getline \<lparr>rest = ?r1, good = True\<rparr> ''P6'' of (line, s) \<Rightarrow>
      skip_comments line s = Returned (?size, \<lparr>rest = show_int 255 @ nl # ?data, good = True\<rparr>)"
    using skip_comments_ok [OF assms(4) d(1), of "show_int 255 @ nl # ?data" "''P6''"] by simp
  have "scan_int ?size = Some (int w, CHR '' '' # show_int (int h))" using scan_show(1) [of "CHR '' '' # show_int (int h)" w] is_digit_nl(2) by simp
  moreover have "scan_int (CHR '' '' # show_int (int h)) = Some (int h, [])" using scan_show(2) [of "[]" h] by simp
  ultimately have sz: "read_size ?size = Returned (int w, int h)" using assms(2, 3) by (simp add: read_size_def as_int_def)
  have g4: "getline \<lparr>rest = show_int 255 @ nl # ?data, good = True\<rparr> ?size = (show_int 255, \<lparr>rest = ?data, good = True\<rparr>)"
    using getline_line [OF show_no_nl [of 255], of ?data ?size] by simp
  have st: "stoi (show_int 255) = Returned 255" using scan_show_end [of 255] by (simp add: stoi_def as_int_def int_range_def)
  have rd: "read_rows h w ?data junk = img" using read_rows_bytes [OF assms(5), of img w] assms(1) by (auto simp: rect_def all_set_conv_all_nth)
  obtain line s where g2: "getline \<lparr>rest = ?r1, good = True\<rparr> ''P6'' = (line, s)" by fastforce
  have sk': "skip_comments line s = Returned (?size, \<lparr>rest = show_int 255 @ nl # ?data, good = True\<rparr>)"
    using sk unfolding g2 by simp
  show ?thesis
    unfolding readPPM_def option.case g1 prod.case g2
    by (simp only: g2 sk' sz g4 st rd prod.case bind_outcome.simps simp_thms if_True if_False of_nat_less_0_iff nat_int stream.select_convs)
qed

definition pixel_data :: "image \<Rightarrow> string" where
  "pixel_data img = concat (map pixel_bytes (concat img))"



text \<open>
  The whole of \<open>part1.cpp\<close> on the file of a picture: the file of the picture \<open>part1_main\<close> makes. When
  the file cannot be opened, \<open>main\<close> goes on and leaves the empty picture.
\<close>

theorem part1_program_correct:
  assumes "rect img h w" and "0 < h" and "0 < w" and "int_range (int h)" and "int_range (int w)" and "length junk = 3"
  shows "(\<exists>d. part1_main img = Returned d \<and> rect d h w \<and>
      part1_program (Some (header [] w h @ pixel_data img)) junk = Returned (header [] w h @ pixel_data d)) \<and>
    part1_program None junk = Aborted ''out of bounds''"
proof
  obtain d where d: "part1_main img = Returned d" "rect d h w"
    using T3_ok [OF rect_T1 [OF assms(1)] assms(2, 3)] by (auto simp: part1_main_def)
  have "readPPM (Some (header [] w h @ pixel_data img)) junk = Returned (img, Some (int w, int h))"
    unfolding pixel_data_def by (rule readPPM_ok [OF assms(1, 4, 5) _ assms(6)]) simp
  then have "part1_program (Some (header [] w h @ pixel_data img)) junk = Returned (header [] w h @ pixel_data d)"
    using d(1) writePPM_ok [OF d(2)] by (simp add: part1_program_def pixel_data_def)
  then show "\<exists>d. part1_main img = Returned d \<and> rect d h w \<and>
      part1_program (Some (header [] w h @ pixel_data img)) junk = Returned (header [] w h @ pixel_data d)" using d by blast
  show "part1_program None junk = Aborted ''out of bounds''"
    by (simp add: part1_program_def readPPM_def part1_main_def T1_def T3_def inner_loop_def)
qed

text \<open>
  A file that ends within its pixels is not noticed: the rest of the picture repeats the last
  bytes read.
\<close>

theorem truncated_file_repeats:
  "read_rows 1 3 [CHR ''a'', CHR ''b'', CHR ''c''] junk = [replicate 3 (buf_pixel ''abc'')]"
  by (simp add: read_three_def buf_pixel_def Let_def numeral_3_eq_3)

text \<open>A comment at the end of the file, without an end of its own, is read for ever.\<close>

theorem comment_without_end: "readPPM (Some (''P6'' @ [nl] @ ''# made by hand'')) junk = Aborted ''endless loop''"
proof -
  have "nl \<notin> set ''P6''" by (simp add: nl_def)
  from getline_line [OF this, of "''# made by hand''" "[]"]
  have g: "getline \<lparr>rest = ''P6'' @ [nl] @ ''# made by hand'', good = True\<rparr> [] = (''P6'', \<lparr>rest = ''# made by hand'', good = True\<rparr>)" by simp
  have "getline \<lparr>rest = ''# made by hand'', good = True\<rparr> l = (''# made by hand'', \<lparr>rest = [], good = False\<rparr>)" for l
    by (simp add: getline_def nl_def)
  moreover have "skip_comments ''# made by hand'' \<lparr>rest = [], good = False\<rparr> = Aborted ''endless loop''"
    by (subst skip_comments.simps) simp
  ultimately show ?thesis unfolding readPPM_def option.case g prod.case by simp
qed

end
