(* ===== verification/Exec_Chain.thy ===== *)
theory Exec_Chain
  imports Decimal
begin

text \<open>
  The exercises on processes of \<open>Assignment 02\<close>. \<open>half.c\<close>, \<open>square.c\<close> and \<open>twice.c\<close> take the
  programs still to be run and a number as arguments, replace the number by their result, and
  become the next program. \<open>hello.c\<close> prints one letter per process of a chain of processes.
\<close>

subsection \<open>One program\<close>

text \<open>
  \<open>main\<close>, on the arguments after the name of the program: what is printed, and the next command.
  The result is written over the last argument, which has room for as many characters as were
  given. None: \<open>exit(0)\<close> without arguments.
\<close>

definition relay :: "string \<Rightarrow> (int \<Rightarrow> int outcome) \<Rightarrow> string list \<Rightarrow> ((string \<times> int) \<times> string list) option outcome" where
  "relay name f args =
     (if args = [] then Returned None
      else bind_outcome (atoi (last args)) (\<lambda>num. bind_outcome (f num) (\<lambda>result.
        if length (last args) < length (show_int result) then Aborted ''write beyond the argument''
        else Returned (Some ((name, result), butlast args @ [show_int result])))))"

definition half_main :: "string list \<Rightarrow> ((string \<times> int) \<times> string list) option outcome" where
  "half_main = relay ''Half'' (\<lambda>num. as_int (c_div num 2))"

definition square_main :: "string list \<Rightarrow> ((string \<times> int) \<times> string list) option outcome" where
  "square_main = relay ''Square'' (\<lambda>num. as_int (num * num))"

definition twice_main :: "string list \<Rightarrow> ((string \<times> int) \<times> string list) option outcome" where
  "twice_main = relay ''Twice'' (\<lambda>num. as_int (num * 2))"

subsection \<open>The chain\<close>

datatype prog = Half | Square | Twice

fun main_of :: "prog \<Rightarrow> string list \<Rightarrow> ((string \<times> int) \<times> string list) option outcome" where
  "main_of Half = half_main"
| "main_of Square = square_main"
| "main_of Twice = twice_main"

lemma bind_outcome_cong [fundef_cong]:
  "m = m' \<Longrightarrow> (\<And>x. m' = Returned x \<Longrightarrow> f x = g x) \<Longrightarrow> bind_outcome m f = bind_outcome m' g"
  by (cases m') auto

lemma relay_next: "relay n f args = Returned (Some (out, next)) \<Longrightarrow> args \<noteq> [] \<and> length next = length args"
  by (auto simp: relay_def split: if_splits)

lemma main_of_next: "main_of p args = Returned (Some (out, next)) \<Longrightarrow> args \<noteq> [] \<and> length next = length args"
  by (cases p) (auto simp: half_main_def square_main_def twice_main_def dest: relay_next)

text \<open>
  The output of all programs of a chain, \<open>files\<close> being what \<open>execvp\<close> finds under a name; without
  such a program \<open>execvp\<close> returns and \<open>main\<close> ends.
\<close>

function exec_chain :: "(string \<Rightarrow> prog option) \<Rightarrow> prog \<Rightarrow> string list \<Rightarrow> (string \<times> int) list outcome" where
  "exec_chain files p args = bind_outcome (main_of p args) (\<lambda>r. case r of
     None \<Rightarrow> Returned []
   | Some (out, next) \<Rightarrow> (case files (hd next) of
       None \<Rightarrow> Returned [out]
     | Some q \<Rightarrow> bind_outcome (exec_chain files q (tl next)) (\<lambda>rest. Returned (out # rest))))"
  by pat_completeness auto
termination
  by (relation "measure (\<lambda>(_, _, args). length args)") (auto dest: main_of_next)

declare exec_chain.simps [simp del]

text \<open>What the chain is meant to do: the functions one after the other.\<close>

fun calc :: "prog \<Rightarrow> int \<Rightarrow> int" where
  "calc Half n = c_div n 2"
| "calc Square n = n * n"
| "calc Twice n = n * 2"

fun label :: "prog \<Rightarrow> string" where
  "label Half = ''Half''"
| "label Square = ''Square''"
| "label Twice = ''Twice''"

fun chain_spec :: "prog list \<Rightarrow> int \<Rightarrow> (string \<times> int) list outcome" where
  "chain_spec [] n = Returned []"
| "chain_spec (p # ps) n =
     (let m = calc p n in
      if \<not> int_range m then Aborted ''integer overflow''
      else if length (show_int n) < length (show_int m) then Aborted ''write beyond the argument''
      else bind_outcome (chain_spec ps m) (\<lambda>rest. Returned ((label p, m) # rest)))"

subsection \<open>What a chain computes\<close>

lemma relay_show:
  assumes "int_range n"
  shows "main_of p (names @ [show_int n]) =
    (let m = calc p n in
     if \<not> int_range m then Aborted ''integer overflow''
     else if length (show_int n) < length (show_int m) then Aborted ''write beyond the argument''
     else Returned (Some ((label p, m), names @ [show_int m])))"
  by (cases p) (simp_all add: half_main_def square_main_def twice_main_def relay_def atoi_show [OF assms] as_int_def Let_def)

lemma exec_chain_step:
  assumes "int_range n"
  shows "exec_chain files p (names @ [show_int n]) =
    (let m = calc p n in
     if \<not> int_range m then Aborted ''integer overflow''
     else if length (show_int n) < length (show_int m) then Aborted ''write beyond the argument''
     else (case files (hd (names @ [show_int m])) of
         None \<Rightarrow> Returned [(label p, m)]
       | Some q \<Rightarrow> bind_outcome (exec_chain files q (tl (names @ [show_int m]))) (\<lambda>rest. Returned ((label p, m) # rest))))"
  unfolding exec_chain.simps [of files p "names @ [show_int n]"] relay_show [OF assms] Let_def
  by (simp only: bind_outcome.simps option.case prod.case split: if_split) simp


definition two_programs :: "string \<Rightarrow> prog option" where
  "two_programs s = (if s = ''./half'' then Some Half else if s = ''./twice'' then Some Twice else None)"


subsection \<open>One letter per process\<close>

text \<open>
  \<open>hello.c\<close> from the iteration with the letters still to come in the process \<open>self\<close>; \<open>pid\<close> is the
  result of its last fork, and \<open>forks k\<close> that of the fork number \<open>k\<close>, None if it fails. The child
  goes on with the loop while the parent waits; a parent has nothing left to do. What is printed:
  letter, own process id, that of the parent.
\<close>

fun hello_loop :: "(nat \<Rightarrow> nat option) \<Rightarrow> nat \<Rightarrow> nat \<Rightarrow> int \<Rightarrow> string \<Rightarrow> (char \<times> nat \<times> nat) list" where
  "hello_loop forks k self pid [] = []"
| "hello_loop forks k self pid (c # cs) =
     (if pid = 0
      then (case forks k of
          None \<Rightarrow> hello_loop forks (k + 1) self (- 1) cs
        | Some child \<Rightarrow> [(c, child, self)] @ hello_loop forks (k + 1) child 0 cs @ hello_loop forks (k + 1) self (int child) cs)
      else hello_loop forks k self pid cs)"

definition hello :: "(nat \<Rightarrow> nat option) \<Rightarrow> nat \<Rightarrow> (char \<times> nat \<times> nat) list" where
  "hello forks self = hello_loop forks 0 self 0 ''Hello World''"

lemma hello_parent: "pid \<noteq> 0 \<Longrightarrow> hello_loop forks k self pid cs = []"
  by (induction cs) auto

lemma hello_loop_chain:
  assumes "\<forall>i < length cs. \<exists>c. forks (k + i) = Some c \<and> 0 < c"
  shows "hello_loop forks k self 0 cs =
    map (\<lambda>i. (cs ! i, the (forks (k + i)), if i = 0 then self else the (forks (k + i - 1)))) [0..<length cs]"
  using assms
proof (induction cs arbitrary: k self)
  case (Cons c cs)
  obtain p where p: "forks k = Some p" "0 < p" using Cons.prems by force
  have "\<forall>i < length cs. \<exists>c. forks (Suc k + i) = Some c \<and> 0 < c" using Cons.prems by (metis Suc_less_eq add_Suc_shift length_Cons)
  from Cons.IH [OF this, of p] show ?case
    using p by (simp add: hello_parent map_upt_Suc del: upt_Suc)
qed simp

text \<open>
  If all forks succeed the letters come in order, each from a process of its own, the child of
  the process of the letter before.
\<close>

theorem hello_correct:
  assumes "\<forall>i < 11. \<exists>c. forks i = Some c \<and> 0 < c"
  shows "hello forks self =
    map (\<lambda>i. (''Hello World'' ! i, the (forks i), if i = 0 then self else the (forks (i - 1)))) [0..<11]"
proof -
  have "length ''Hello World'' = 11" by simp
  from hello_loop_chain [of "''Hello World''" forks 0 self, unfolded this] assms show ?thesis by (simp only: hello_def add_0)
qed

end
