(* ===== verification/Spec2Isabelle.thy ===== *)
theory Spec2Isabelle
  imports Sched Sjf Pm_Correct Kernel_Correct Mfs_Files Vfs_Versions Rr Paging Buddy Ppm Exec_Chain
begin

text \<open>
  Verification of the operating-systems assignments: the parts of Minix 3 that the students
  changed, and the simulators and exercises they wrote. Each section names the source files,
  the theories, how state and operations correspond, what is shown, and what is left out.

  Shared vocabulary. \<open>Prelude\<close> has the widths of the C integers as words, division as C
  rounds it, the error numbers (\<open>ret\<close>: a result, an error, or \<open>SUSPEND\<close>), and \<open>outcome\<close>: code
  that panics, fails an assertion, exits the program, follows a bad pointer or leaves an array
  is \<open>Aborted\<close>, everything else \<open>Returned\<close>. Its locale \<open>server\<close> (what every step keeps, every
  run keeps) is interpreted for the servers. A pointer into a table is the index of the entry;
  flag words are sets where only single flags are tested; calls to files outside the repository
  are fields of an environment record, with what is relied on as hypotheses of the theorems
  (\<open>pm_config\<close>, \<open>k_env\<close>, \<open>vfs_env\<close> with \<open>world_ok\<close>, and so on), each shown to be satisfiable by a
  concrete environment in a witness.

  The servers and how they interact. A request reaches the process manager, which creates,
  ends and reaps processes (\<open>fork\<close>, \<open>exit\<close>, \<open>waitpid\<close>) and tells the kernel, VM, VFS and the
  scheduler about it; SCHED decides priority, quantum and processor of user processes and
  passes them to the kernel with \<open>sys_schedule\<close>; the kernel's system task serves these calls
  and delivers signals; VFS serves the file calls, locks what they use, and sends requests to
  MFS, which maps positions to blocks and copies data.

  \<^item> \<open>Sched\<close>: \<open>Assignment 05/schedule.c\<close> with the functions of \<open>Assignment 03/schedule.c\<close> that
    differ (suffix \<open>a03\<close>). State: the table of \<open>schedproc\<close> slots and the load per processor;
    operations: \<open>do_noquantum\<close>, \<open>do_start_scheduling\<close>, \<open>do_stop_scheduling\<close>, \<open>do_nice\<close>,
    \<open>schedule_process\<close>, \<open>pick_cpu\<close>, \<open>init_scheduling\<close>, \<open>balance_queues\<close>. Shown: priorities stay
    in the range of the queues (Assignment 03), a start request is answered after at most one
    try per processor, the least loaded processor is chosen, \<open>nice\<close> changes both priorities or
    none, and the unsigned priority that wraps under Assignment 05.
  \<^item> \<open>Kernel\<close>, \<open>Kernel_Correct\<close>: \<open>Assignment 05/system.c\<close>, every function. The queue of processes
    that wait to send is the linked list of the code (\<open>p_caller_q\<close>, \<open>p_q_link\<close>). Shown: the
    removal of an entry from that list, the release of everybody who waits for a process that
    ends, the symmetry of send masks, dispatch and resumption of kernel calls, signals.
  \<^item> \<open>Pm\<close>, \<open>Pm_Correct\<close>: \<open>Assignment 02/part3/forkexit.c\<close>, every function. Calls to other servers
    are recorded in \<open>events\<close>. Shown: an invariant of the process table under every sequence of
    requests, from which no panic is reachable; fork on every branch; the order in which an exit
    informs the other servers; reparenting; waiting parents are woken and collect the status.
  \<^item> \<open>Mfs\<close>, \<open>Mfs_Map\<close>, \<open>Mfs_Files\<close>: \<open>Assignment 10/mfs/read.c\<close> and \<open>write.c\<close>, \<open>fslib.c\<close>, \<open>const.h\<close>.
    State: inode, blocks of the device, zone allocator. Shown: \<open>read_map\<close> is a function of the
    zone and \<open>write_map\<close> updates it at one point over direct, single and double indirect zones;
    \<open>new_block\<close>; immediate files are read as they were written and keep their data when they
    grow into a block; the listing of a directory; reading ahead stays within its queue.
  \<^item> \<open>Vfs\<close>, \<open>Vfs_Correct\<close>, \<open>Vfs_Open\<close>, \<open>Vfs_Calls\<close>: \<open>Assignment 10/vfs/read.c\<close>, \<open>link.c\<close> and \<open>open.c\<close>.
    State: tables of vnodes, open files, mounts and processes, file locks, and the list of
    requests sent (\<open>calls\<close>), in which locks are counted (\<open>held\<close>). Shown: no call that returns
    holds a lock, over every sequence of requests; removal of names only with permission; which
    mode \<open>creat\<close> asks for; seeking is exact or refused. \<open>Vfs_Versions\<close>: the functions in which
    \<open>Assignment 09\<close> and \<open>Assignment 09/originals\<close> differ, and that they agree but for messages.
  \<^item> \<open>Sjf\<close>: \<open>Assignment 04/sjf-hash.c\<close> (the submitted copy is identical). Lists of bursts, the
    log, CPU and I/O device; a round of the main loop is one unit of time. Shown: reading gives
    the workload back; the choice of the shortest burst; CPU and I/O device never work for the
    same process; the simulation ends within a bound given by the workload.
  \<^item> \<open>Rr\<close>: \<open>Assignment 04/rr-hash.c\<close> (the submitted copy is identical), over the data of \<open>Sjf\<close>.
    The circular list is a heap of nodes. Shown: it refines a queue (interface
    \<open>process_queue\<close>), what the end of a slice does to the queue, and that the simulator never
    ends and follows a freed node on a single process.
  \<^item> \<open>Paging\<close>: \<open>Assignment 08/fifo.cpp\<close>, \<open>lru.cpp\<close>, \<open>random.cpp\<close>. The interface \<open>replacement\<close> says
    what a policy does to the pages in memory and is interpreted for all three. Shown: bounds on
    the faults, LRU against the order of use and without anomaly, FIFO against the list of its
    misses with Belady's anomaly, the search for a random victim.
  \<^item> \<open>Image\<close>, \<open>Image_Threads\<close>, \<open>Image_Processes\<close>, \<open>Ppm\<close>: \<open>Assignment 06\<close>. \<open>Image\<close> has the filters of
    \<open>part1.cpp\<close>, with the doubles of the grey level rounded as the processor does, and the blur of
    \<open>part2_1a.cpp\<close>; \<open>Ppm\<close> has \<open>readPPM\<close>, \<open>writePPM\<close> and the whole program. \<open>Image_Threads\<close> has the
    threads of \<open>part2_1a.cpp\<close> and \<open>part2_1b.cpp\<close> as one step relation with a program counter per
    thread; their lock is the interface \<open>mutex\<close>, interpreted by the atomic flag and by the
    semaphore. A spinning or waiting thread takes no step. \<open>Image_Processes\<close> has the same steps on
    the shared memory of \<open>part2_2.cpp\<close>, whose flat array is read as rows, and the pipe of
    \<open>part2_3.cpp\<close>. Shown: what the filters compute; files are read back as they were written;
    mutual exclusion, what the threads can leave in the picture in any order of their steps, that
    they can always end, and that the result depends on the order; that the pipeline always ends
    with the result of \<open>part1.cpp\<close>.
  \<^item> \<open>Decimal\<close>, \<open>Exec_Chain\<close>: \<open>Assignment 02\<close>, parts 1 and 2. Numbers as text; a chain of programs that
    replace each other (\<open>half.c\<close>, \<open>square.c\<close>, \<open>twice.c\<close>) computes the composition of their functions up to a
    result longer than its argument; the chain of processes of \<open>hello.c\<close>.
  \<^item> \<open>Buddy\<close>: \<open>CS304 - PA/buddy.cpp\<close>. The tree of blocks is a heap of nodes with parent and
    child pointers. Shown: an invariant of tree, free lists and running processes, kept by
    splitting and joining; allocation and release are exact; blocks add up to the memory; the
    memory is lost when the allocator becomes empty.

  Fuel and bounds. Loops that follow pointers or may not end have fuel, and what they return is
  proved for enough of it: the circular list needs as much as it has entries, the buddy tree 31
  (sizes double at each level and stay below \<open>2 ^ 30\<close>), the search for a victim the number of
  draws in which every page comes up, the simulators as many rounds as the theorem names. Loops
  over tables are folds or recursion over the indices and need none. Integers are words where
  the code relies on their width or can exceed it; otherwise they are \<open>int\<close>, and in \<open>Buddy\<close> the
  doubling that can overflow is an outcome.

  Not modelled: what is printed (but for the report of \<open>buddy.cpp\<close> and the exercises of \<open>Assignment
  02\<close>), the statistics of the simulators with floating-point ratios and averages, parsing of the
  arguments and of the input of the memory exercises (the models get the numbers), allocation
  failure for nodes of the free lists of \<open>buddy.cpp\<close>, assertions that only document who holds a
  lock (\<open>tll_locked_by_me\<close>), and code of Minix that the files call but the repository does not
  contain. Of \<open>Assignment 06\<close> the timing and the blur on shared memory (\<open>T2\<close> of \<open>part2_2.cpp\<close>, which
  nothing calls) are not modelled, and of the Python scripts of \<open>Assignment 07\<close> nothing. The copies
  of the simulators in \<open>submitted files\<close> are identical to those modelled, and the functions of
  \<open>Assignment 09\<close> and \<open>Assignment 03\<close> that are not mentioned are those of \<open>Assignment 10\<close> and
  \<open>Assignment 05\<close>.
\<close>

end
